(* ===== verification/Prelude.thy ===== *)
theory Prelude
  imports Complex_Main "HOL-Library.AList" "HOL-Library.Sublist"
begin

text \<open>
  Shared vocabulary of the development: the JavaScript library operations the client uses on
  arrays and on \<open>Map\<close>/\<open>Set\<close>, with the lemmas every component needs.

  A JavaScript array is a list. A JavaScript \<open>Map\<close> keeps its insertion order, and the code
  relies on that order (the first key is the oldest), so it is an association list updated by
  \<open>AList.update\<close> (in place for a known key, at the end for a new one) and \<open>AList.delete\<close>.
  A JavaScript \<open>Set\<close> is a list without duplicates, extended at the end.

  The contract of a keyed map that the clients use (the laws of \<open>get\<close> after \<open>set\<close> and
  \<open>delete\<close>) is the locale \<open>keyed_map\<close>, interpreted at the end of the theory on the
  association-list operations; the counting and grouping loops of the client are proved in it.
\<close>

named_theorems bounds_intro \<open>bounds on the length of a buffer\<close>
named_theorems js_simps \<open>rewriting of the JavaScript array operations\<close>

subsection \<open>Arrays\<close>

text \<open>\<open>xs.length > n ? xs.slice(xs.length - n) : xs\<close> and \<open>splice(0, length - n)\<close>:
  the newest \<open>n\<close> elements of a list that grows at the end.\<close>

definition keep_last :: "nat \<Rightarrow> 'a list \<Rightarrow> 'a list" where
  "keep_last n xs = (if length xs > n then drop (length xs - n) xs else xs)"

text \<open>\<open>xs.length > n ? xs.slice(0, n) : xs\<close>.\<close>

definition keep_first :: "nat \<Rightarrow> 'a list \<Rightarrow> 'a list" where
  "keep_first n xs = (if length xs > n then take n xs else xs)"

lemma keep_last_eq [js_simps]: "keep_last n xs = drop (length xs - n) xs"
  by (simp add: keep_last_def)

lemma keep_first_eq [js_simps]: "keep_first n xs = take n xs"
  by (simp add: keep_first_def)

lemma length_keep_last [simp]: "length (keep_last n xs) = min n (length xs)"
  by (simp add: keep_last_def)

lemma length_keep_first [simp]: "length (keep_first n xs) = min n (length xs)"
  by (simp add: keep_first_def)

lemma keep_last_all [simp]: "length xs \<le> n \<Longrightarrow> keep_last n xs = xs"
  by (simp add: keep_last_def)

lemma keep_first_all [simp]: "length xs \<le> n \<Longrightarrow> keep_first n xs = xs"
  by (simp add: keep_first_def)

lemma set_keep_last: "set (keep_last n xs) \<subseteq> set xs"
  by (auto simp: keep_last_def dest: in_set_dropD)

lemma set_keep_first: "set (keep_first n xs) \<subseteq> set xs"
  by (auto simp: keep_first_def dest: in_set_takeD)

lemma suffix_keep_last: "suffix (keep_last n xs) xs"
  by (simp add: keep_last_eq suffix_drop)

lemma prefix_keep_first: "prefix (keep_first n xs) xs"
  by (simp add: keep_first_eq take_is_prefix)

text \<open>Dropping in two rounds keeps what one round over everything would have kept.\<close>

lemma keep_last_append: "keep_last n (keep_last n xs @ ys) = keep_last n (xs @ ys)"
  by (cases "length xs \<le> n") (simp_all add: keep_last_eq add.commute)

lemma keep_first_append: "keep_first n (xs @ keep_first n ys) = keep_first n (xs @ ys)"
  by (simp add: keep_first_eq take_append min_def)

lemma sorted_wrt_keep_last: "sorted_wrt R xs \<Longrightarrow> sorted_wrt R (keep_last n xs)"
  by (simp add: keep_last_def sorted_wrt_drop)

lemma sorted_wrt_keep_first: "sorted_wrt R xs \<Longrightarrow> sorted_wrt R (keep_first n xs)"
  by (simp add: keep_first_def sorted_wrt_take)

lemma distinct_keep_last: "distinct xs \<Longrightarrow> distinct (keep_last n xs)"
  by (simp add: keep_last_def)

lemma distinct_keep_first: "distinct xs \<Longrightarrow> distinct (keep_first n xs)"
  by (simp add: keep_first_def)

text \<open>\<open>xs.find(p)\<close>: the first element that satisfies \<open>p\<close>.\<close>

lemma find_first_iff:
  "List.find P xs = Some x \<longleftrightarrow>
     (\<exists>before after. xs = before @ x # after \<and> P x \<and> (\<forall>y \<in> set before. \<not> P y))"
proof (induction xs)
  case (Cons y ys)
  show ?case
  proof (cases "P y")
    case True
    then show ?thesis by (auto simp: Cons_eq_append_conv)
  next
    case False
    have "(\<exists>before after. y # ys = before @ x # after \<and> P x \<and> (\<forall>z \<in> set before. \<not> P z)) \<longleftrightarrow>
        (\<exists>before after. ys = before @ x # after \<and> P x \<and> (\<forall>z \<in> set before. \<not> P z))"
      (is "?L \<longleftrightarrow> ?R")
    proof
      assume ?L
      then show ?R using False by (auto simp: Cons_eq_append_conv)
    next
      assume ?R
      then obtain before after where "ys = before @ x # after" "P x" "\<forall>z \<in> set before. \<not> P z"
        by blast
      with False have "y # ys = (y # before) @ x # after \<and> P x \<and> (\<forall>z \<in> set (y # before). \<not> P z)"
        by simp
      then show ?L by blast
    qed
    with False Cons.IH show ?thesis by simp
  qed
qed simp

text \<open>\<open>xs.some(p) ? xs.map(replace) : [...xs, x]\<close> is written out where it occurs; the next
  facts about \<open>map\<close> with a conditional replacement serve all its users.\<close>

lemma map_replace_key:
  "map f (map (\<lambda>x. if f x = f y then y else x) xs) = map f xs"
  by (induction xs) auto

lemma set_map_replace_key:
  "y' \<in> set (map (\<lambda>x. if f x = f y then y else x) xs) \<longleftrightarrow>
     (y' = y \<and> f y \<in> f ` set xs) \<or> (y' \<in> set xs \<and> f y' \<noteq> f y)"
  by (induction xs) auto

subsection \<open>Splitting and joining on a separator\<close>

text \<open>\<open>s.split(d)\<close> for a one-character separator, and \<open>ws.join(d)\<close>. Splitting the
  empty string gives one empty part, as in JavaScript.\<close>

fun split_on :: "'a \<Rightarrow> 'a list \<Rightarrow> 'a list list" where
  "split_on d [] = [[]]"
| "split_on d (c # cs) =
     (if c = d then [] # split_on d cs
      else (case split_on d cs of [] \<Rightarrow> [[c]] | w # ws \<Rightarrow> (c # w) # ws))"

fun join_with :: "'a \<Rightarrow> 'a list list \<Rightarrow> 'a list" where
  "join_with d [] = []"
| "join_with d [w] = w"
| "join_with d (w # v # ws) = w @ d # join_with d (v # ws)"

lemma split_on_not_Nil [simp]: "split_on d s \<noteq> []"
  by (induction s) (auto split: list.splits)

lemma join_with_Cons: "ws \<noteq> [] \<Longrightarrow> join_with d (w # ws) = w @ d # join_with d ws"
  by (cases ws) auto

lemma join_split [simp]: "join_with d (split_on d s) = s"
proof (induction s)
  case (Cons c cs)
  then show ?case
    by (cases "split_on d cs"; cases "tl (split_on d cs)") (auto simp: join_with_Cons)
qed simp

lemma split_on_parts: "w \<in> set (split_on d s) \<Longrightarrow> d \<notin> set w"
proof (induction s arbitrary: w)
  case (Cons c cs)
  then show ?case by (cases "split_on d cs") (auto split: if_splits)
qed simp

lemma split_on_single: "d \<notin> set w \<Longrightarrow> split_on d w = [w]"
  by (induction w) auto

lemma split_on_append:
  "d \<notin> set w \<Longrightarrow> split_on d (w @ d # s) = w # split_on d s"
  by (induction w) auto

lemma split_join:
  "ws \<noteq> [] \<Longrightarrow> \<forall>w \<in> set ws. d \<notin> set w \<Longrightarrow> split_on d (join_with d ws) = ws"
  by (induction d ws rule: join_with.induct) (auto simp: split_on_single split_on_append)

lemma join_with_inject:
  assumes "join_with d vs = join_with d ws" "vs \<noteq> []" "ws \<noteq> []"
    and "\<forall>w \<in> set vs. d \<notin> set w" "\<forall>w \<in> set ws. d \<notin> set w"
  shows "vs = ws"
  using assms by (metis split_join)

lemma split_on_inject: "split_on d s = split_on d t \<longleftrightarrow> s = t"
  by (metis join_split)

lemma join_with_snoc: "ws \<noteq> [] \<Longrightarrow> join_with d (ws @ [w]) = join_with d ws @ d # w"
  by (induction d ws rule: join_with.induct) auto

lemma split_on_snoc:
  "d \<notin> set w \<Longrightarrow> split_on d (s @ d # w) = split_on d s @ [w]"
proof -
  assume w: "d \<notin> set w"
  have "split_on d (join_with d (split_on d s @ [w])) = split_on d s @ [w]"
    using w by (intro split_join) (auto dest: split_on_parts)
  then show ?thesis by (simp add: join_with_snoc)
qed

lemma length_split_on: "length (split_on d s) = Suc (count_list s d)"
  by (induction s) (auto split: list.splits)

subsection \<open>Insertion-ordered maps and sets\<close>

type_synonym ('k, 'v) jsmap = "('k \<times> 'v) list"

abbreviation jm_get :: "('k, 'v) jsmap \<Rightarrow> 'k \<Rightarrow> 'v option" where
  "jm_get m k \<equiv> map_of m k"

abbreviation jm_set :: "'k \<Rightarrow> 'v \<Rightarrow> ('k, 'v) jsmap \<Rightarrow> ('k, 'v) jsmap" where
  "jm_set \<equiv> AList.update"

abbreviation jm_delete :: "'k \<Rightarrow> ('k, 'v) jsmap \<Rightarrow> ('k, 'v) jsmap" where
  "jm_delete \<equiv> AList.delete"

abbreviation jm_keys :: "('k, 'v) jsmap \<Rightarrow> 'k list" where
  "jm_keys m \<equiv> map fst m"

abbreviation jm_values :: "('k, 'v) jsmap \<Rightarrow> 'v list" where
  "jm_values m \<equiv> map snd m"

abbreviation jm_wf :: "('k, 'v) jsmap \<Rightarrow> bool" where
  "jm_wf m \<equiv> distinct (jm_keys m)"

definition jm_has :: "('k, 'v) jsmap \<Rightarrow> 'k \<Rightarrow> bool" where
  "jm_has m k = (map_of m k \<noteq> None)"

definition js_add :: "'a \<Rightarrow> 'a list \<Rightarrow> 'a list" where
  "js_add x s = (if x \<in> set s then s else s @ [x])"

lemma set_js_add [simp]: "set (js_add x s) = insert x (set s)"
  by (auto simp: js_add_def)

lemma distinct_js_add [simp]: "distinct s \<Longrightarrow> distinct (js_add x s)"
  by (auto simp: js_add_def)

definition js_uniq :: "'a list \<Rightarrow> 'a list" where
  "js_uniq xs = fold js_add xs []"

lemma set_fold_js_add: "set (fold js_add xs s) = set s \<union> set xs"
  by (induction xs arbitrary: s) auto

lemma distinct_fold_js_add: "distinct s \<Longrightarrow> distinct (fold js_add xs s)"
  by (induction xs arbitrary: s) auto

lemma set_js_uniq [simp]: "set (js_uniq xs) = set xs"
  by (simp add: js_uniq_def set_fold_js_add)

lemma distinct_js_uniq [simp]: "distinct (js_uniq xs)"
  by (simp add: js_uniq_def distinct_fold_js_add)

lemma jm_get_None: "jm_get m k = None \<longleftrightarrow> k \<notin> set (jm_keys m)"
  by (simp add: map_of_eq_None_iff)

lemma jm_has_iff: "jm_has m k \<longleftrightarrow> k \<in> set (jm_keys m)"
  by (simp add: jm_has_def jm_get_None)

lemma jm_get_set [simp]: "jm_get (jm_set k v m) k' = (if k = k' then Some v else jm_get m k')"
  by (simp add: update_conv')

lemma jm_get_delete [simp]: "jm_get (jm_delete k m) k' = (if k = k' then None else jm_get m k')"
  by (simp add: delete_conv')

lemma jm_keys_set:
  "jm_keys (jm_set k v m) = (if k \<in> set (jm_keys m) then jm_keys m else jm_keys m @ [k])"
  by (simp add: update_keys)

lemma set_jm_keys_set [simp]: "fst ` set (jm_set k v m) = insert k (fst ` set m)"
  by (auto simp: dom_map_of_conv_image_fst [symmetric])

lemma set_jm_keys_delete [simp]: "fst ` set (jm_delete k m) = fst ` set m - {k}"
  by (auto simp: dom_map_of_conv_image_fst [symmetric] delete_conv')

lemma jm_wf_set [simp]: "jm_wf m \<Longrightarrow> jm_wf (jm_set k v m)"
  by (rule distinct_update)

lemma jm_wf_delete [simp]: "jm_wf m \<Longrightarrow> jm_wf (jm_delete k m)"
  by (rule distinct_delete)

lemma length_jm_set: "length (jm_set k v m) = (if jm_has m k then length m else Suc (length m))"
  by (induction m) (auto simp: jm_has_def)

lemma length_jm_delete_le: "length (jm_delete k m) \<le> length m"
  by (rule length_delete_le)

lemma jm_get_in: "jm_get m k = Some v \<Longrightarrow> (k, v) \<in> set m"
  by (rule map_of_SomeD)

lemma jm_in_get: "jm_wf m \<Longrightarrow> (k, v) \<in> set m \<Longrightarrow> jm_get m k = Some v"
  by (rule map_of_is_SomeI)

lemma update_new: "k \<notin> fst ` set m \<Longrightarrow> AList.update k v m = m @ [(k, v)]"
  by (induction m) auto

lemma set_update_subset: "set (AList.update k v m) \<subseteq> insert (k, v) (set m)"
  by (induction m) auto

lemma fold_max_start: "(k :: 'a :: linorder) \<le> l \<Longrightarrow> k \<le> fold max ks l"
  by (induction ks arbitrary: l) (simp_all add: le_max_iff_disj)

lemma fold_max_ge: "(k :: 'a :: linorder) \<in> set ks \<Longrightarrow> k \<le> fold max ks l"
  by (induction ks arbitrary: l) (auto intro: fold_max_start)

subsection \<open>Rounding\<close>

text \<open>\<open>Math.round\<close>: the nearest integer, halves upwards.\<close>

definition js_round :: "rat \<Rightarrow> int" where
  "js_round r = \<lfloor>r + 1 / 2\<rfloor>"

lemma js_round_int [simp]: "js_round (of_int n) = n"
  by (simp add: js_round_def floor_unique)

subsection \<open>The contract of a keyed map\<close>

locale keyed_map =
  fixes mempty :: "'m"
    and mget :: "'m \<Rightarrow> 'k \<Rightarrow> 'v option"
    and mset_at :: "'k \<Rightarrow> 'v \<Rightarrow> 'm \<Rightarrow> 'm"
    and mdelete :: "'k \<Rightarrow> 'm \<Rightarrow> 'm"
  assumes get_empty: "mget mempty k = None"
    and get_set: "mget (mset_at k v m) k' = (if k = k' then Some v else mget m k')"
    and get_delete: "mget (mdelete k m) k' = (if k = k' then None else mget m k')"
begin

text \<open>\<open>for (const x of xs) m.set(key(x), val(x))\<close>: the last element with a key wins.\<close>

lemma get_fold_set:
  "mget (fold (\<lambda>x. mset_at (f x) (g x)) xs m) k =
     (case List.find (\<lambda>x. f x = k) (rev xs) of Some x \<Rightarrow> Some (g x) | None \<Rightarrow> mget m k)"
  by (induction xs rule: rev_induct) (auto simp: get_set)

text \<open>The counting loop \<open>m.set(k, step(m.get(k)))\<close> over the elements with key \<open>k\<close>: each
  key sees exactly its own elements, in order.\<close>

lemma get_fold_step:
  "mget (fold (\<lambda>x m. mset_at (f x) (step x (mget m (f x))) m) xs m) k =
     fold (\<lambda>x acc. Some (step x acc)) (filter (\<lambda>x. f x = k) xs) (mget m k)"
  by (induction xs arbitrary: m) (auto simp: get_set)

lemma get_fold_delete:
  "mget (fold mdelete ks m) k = (if k \<in> set ks then None else mget m k)"
  by (induction ks arbitrary: m) (auto simp: get_delete)

end

interpretation jsm: keyed_map "[]" map_of AList.update AList.delete
  by unfold_locales (simp_all add: update_conv' delete_conv')

text \<open>\<open>counts.set(k, (counts.get(k) ?? 0) + 1)\<close> over a list of keys.\<close>

definition bump :: "'k \<Rightarrow> ('k, nat) jsmap \<Rightarrow> ('k, nat) jsmap" where
  "bump k m = jm_set k (Suc (case jm_get m k of None \<Rightarrow> 0 | Some n \<Rightarrow> n)) m"

definition tally :: "'k list \<Rightarrow> ('k, nat) jsmap" where
  "tally ks = fold bump ks []"

lemma fold_count:
  "fold (\<lambda>x acc. Some (Suc (case acc of None \<Rightarrow> 0 | Some n \<Rightarrow> n))) xs acc =
     (if xs = [] then acc else Some ((case acc of None \<Rightarrow> 0 | Some n \<Rightarrow> n) + length xs))"
  by (induction xs arbitrary: acc) (auto split: option.splits)

lemma count_list_filter: "length (filter (\<lambda>x. x = k) xs) = count_list xs k"
  by (induction xs) auto

lemma get_tally: "jm_get (tally ks) k = (if k \<in> set ks then Some (count_list ks k) else None)"
proof -
  have "jm_get (tally ks) k =
      fold (\<lambda>x acc. Some (Suc (case acc of None \<Rightarrow> 0 | Some n \<Rightarrow> n)))
        (filter (\<lambda>x. x = k) ks) None"
    unfolding tally_def bump_def
    using jsm.get_fold_step [of "\<lambda>x. x" "\<lambda>_ acc. Suc (case acc of None \<Rightarrow> 0 | Some n \<Rightarrow> n)" ks "[]" k]
    by simp
  then show ?thesis by (auto simp: fold_count count_list_filter filter_empty_conv)
qed

lemma jm_wf_tally: "jm_wf (tally ks)"
proof -
  have "jm_wf m \<Longrightarrow> jm_wf (fold bump ks m)" for m :: "('a, nat) jsmap"
    by (induction ks arbitrary: m) (auto simp: bump_def intro!: distinct_update)
  then show ?thesis by (simp add: tally_def)
qed

lemma set_tally_keys: "set (jm_keys (tally ks)) = set ks"
proof -
  have "k \<in> set (jm_keys (tally ks)) \<longleftrightarrow> k \<in> set ks" for k
    by (metis get_tally jm_get_None option.distinct(1))
  then show ?thesis by blast
qed

end
