(* ===== verification/JsOrder.thy ===== *)
theory JsOrder
  imports Prelude "HOL-Library.Multiset" "HOL-Library.Char_ord" "HOL-Library.List_Lexorder"
begin

text \<open>
  \<open>Array.prototype.sort(cmp)\<close>: the stable sort of a list under a comparison function that
  returns a number, as the language specifies it for a consistent comparator. The contract of
  such a comparator is the locale \<open>comparator\<close>; the sorting facts every list view relies on
  (permutation, order, stability, uniqueness of the result) are proved in it once, and each
  comparator of the client interprets it in its own theory.

  \<open>localeCompare\<close> is ICU collation, which the browser supplies: operations that call it take
  it as a parameter \<open>lc\<close>, and what the code relies on is that it is such a comparator.
\<close>

subsection \<open>Stable sorting\<close>

fun js_insert :: "('a \<Rightarrow> 'a \<Rightarrow> int) \<Rightarrow> 'a \<Rightarrow> 'a list \<Rightarrow> 'a list" where
  "js_insert cmp x [] = [x]"
| "js_insert cmp x (y # ys) = (if cmp x y \<le> 0 then x # y # ys else y # js_insert cmp x ys)"

definition js_sort :: "('a \<Rightarrow> 'a \<Rightarrow> int) \<Rightarrow> 'a list \<Rightarrow> 'a list" where
  "js_sort cmp xs = foldr (js_insert cmp) xs []"

abbreviation ascending :: "('a \<Rightarrow> 'a \<Rightarrow> int) \<Rightarrow> 'a list \<Rightarrow> bool" where
  "ascending cmp \<equiv> sorted_wrt (\<lambda>x y. cmp x y \<le> 0)"

lemma js_sort_Nil [simp]: "js_sort cmp [] = []"
  by (simp add: js_sort_def)

lemma js_sort_Cons [simp]: "js_sort cmp (x # xs) = js_insert cmp x (js_sort cmp xs)"
  by (simp add: js_sort_def)

lemma mset_js_insert [simp]: "mset (js_insert cmp x xs) = add_mset x (mset xs)"
  by (induction xs) auto

lemma mset_js_sort [simp]: "mset (js_sort cmp xs) = mset xs"
  by (induction xs) auto

lemma set_js_insert [simp]: "set (js_insert cmp x xs) = insert x (set xs)"
  by (induction xs) auto

lemma set_js_sort [simp]: "set (js_sort cmp xs) = set xs"
  by (induction xs) auto

lemma length_js_sort [simp]: "length (js_sort cmp xs) = length xs"
  by (metis mset_js_sort size_mset)

lemma distinct_js_sort [simp]: "distinct (js_sort cmp xs) = distinct xs"
  by (metis mset_js_sort mset_eq_imp_distinct_iff)

lemma distinct_map_js_sort [simp]: "distinct (map f (js_sort cmp xs)) = distinct (map f xs)"
  by (metis mset_js_sort mset_map mset_eq_imp_distinct_iff)

lemma map_js_insert:
  "\<forall>y \<in> set xs. cmp x y = d (f x) (f y) \<Longrightarrow> map f (js_insert cmp x xs) = js_insert d (f x) (map f xs)"
  by (induction xs) auto

lemma map_js_sort:
  "\<forall>x \<in> set xs. \<forall>y \<in> set xs. cmp x y = d (f x) (f y) \<Longrightarrow> map f (js_sort cmp xs) = js_sort d (map f xs)"
  by (induction xs) (simp_all add: map_js_insert [where d = d])

lemma js_sort_id: "ascending cmp xs \<Longrightarrow> js_sort cmp xs = xs"
proof (induction xs)
  case (Cons x xs)
  then show ?case by (cases xs) auto
qed simp

lemma filter_js_insert_out: "\<not> P x \<Longrightarrow> filter P (js_insert cmp x xs) = filter P xs"
  by (induction xs) auto

subsection \<open>The contract of a comparator\<close>

locale comparator =
  fixes cmp :: "'a \<Rightarrow> 'a \<Rightarrow> int"
  assumes flip: "sgn (cmp y x) = - sgn (cmp x y)"
    and trans: "cmp x y \<le> 0 \<Longrightarrow> cmp y z \<le> 0 \<Longrightarrow> cmp x z \<le> 0"
begin

lemma refl [simp]: "cmp x x = 0"
  using flip [of x x] by (simp add: sgn_if split: if_splits)

lemma total: "cmp x y \<le> 0 \<or> cmp y x \<le> 0"
  using flip [of x y] by (auto simp: sgn_if split: if_splits)

lemma gt_flip: "cmp x y > 0 \<longleftrightarrow> cmp y x < 0"
  using flip [of x y] by (auto simp: sgn_if split: if_splits)

lemma le_flip: "\<not> cmp x y \<le> 0 \<Longrightarrow> cmp y x \<le> 0"
  using total by blast

lemma eq_flip: "cmp x y = 0 \<longleftrightarrow> cmp y x = 0"
  using flip [of x y] by (auto simp: sgn_if split: if_splits)

lemma less_trans: "cmp x y < 0 \<Longrightarrow> cmp y z \<le> 0 \<Longrightarrow> cmp x z < 0"
proof (rule ccontr)
  assume xy: "cmp x y < 0" and yz: "cmp y z \<le> 0" and "\<not> cmp x z < 0"
  then have "cmp z x \<le> 0" using gt_flip [of x z] eq_flip [of x z] by linarith
  with yz have "cmp y x \<le> 0" by (rule trans)
  with xy gt_flip [of y x] show False by linarith
qed

lemma less_trans2: "cmp x y \<le> 0 \<Longrightarrow> cmp y z < 0 \<Longrightarrow> cmp x z < 0"
proof (rule ccontr)
  assume xy: "cmp x y \<le> 0" and yz: "cmp y z < 0" and "\<not> cmp x z < 0"
  then have "cmp z x \<le> 0" using gt_flip [of x z] eq_flip [of x z] by linarith
  from this xy have "cmp z y \<le> 0" by (rule trans)
  with yz gt_flip [of z y] show False by linarith
qed

lemma ascending_insert: "ascending cmp xs \<Longrightarrow> ascending cmp (js_insert cmp x xs)"
  by (induction xs) (auto intro: trans le_flip dest: le_flip)

lemma ascending_sort: "ascending cmp (js_sort cmp xs)"
  by (induction xs) (auto intro: ascending_insert)

lemma sort_sort [simp]: "js_sort cmp (js_sort cmp xs) = js_sort cmp xs"
  by (rule js_sort_id [OF ascending_sort])

text \<open>Elements the comparator does not tell apart keep their order.\<close>

lemma filter_insert_eq:
  "cmp z x = 0 \<Longrightarrow> filter (\<lambda>y. cmp z y = 0) (js_insert cmp x xs) = x # filter (\<lambda>y. cmp z y = 0) xs"
proof (induction xs)
  case (Cons y ys)
  show ?case
  proof (cases "cmp x y \<le> 0")
    case False
    then have yx: "cmp y x < 0" using gt_flip [of x y] by simp
    have "cmp x z = 0" using Cons.prems eq_flip by simp
    with yx have "cmp y z < 0" using less_trans [of y x z] by simp
    then have "cmp z y \<noteq> 0" using gt_flip [of z y] by simp
    with False Cons show ?thesis by simp
  qed (simp add: Cons.prems)
qed simp

lemma stable: "filter (\<lambda>y. cmp z y = 0) (js_sort cmp xs) = filter (\<lambda>y. cmp z y = 0) xs"
proof (induction xs)
  case (Cons x xs)
  then show ?case
    by (cases "cmp z x = 0") (simp_all add: filter_insert_eq filter_js_insert_out)
qed simp

text \<open>The comparator turned around, for a newest-first view: it satisfies the contract too.\<close>

lemma flipped: "comparator (\<lambda>x y. cmp y x)"
  using flip trans by unfold_locales blast+

text \<open>Sorting a list and one more element inserted later give the same result when the new
  element comes last in the order: appending needs no sort.\<close>

lemma sort_snoc_last:
  assumes "ascending cmp xs" "\<forall>y \<in> set xs. cmp y x \<le> 0"
  shows "js_sort cmp (xs @ [x]) = xs @ [x]"
  using assms by (intro js_sort_id) (auto simp: sorted_wrt_append)

lemma ascending_merge:
  assumes "ascending cmp xs" "ascending cmp ys" "\<forall>x \<in> set xs. \<forall>y \<in> set ys. cmp x y \<le> 0"
  shows "js_sort cmp (xs @ ys) = xs @ ys"
  using assms by (intro js_sort_id) (auto simp: sorted_wrt_append)

text \<open>The first element of a sorted list is a least one, the last a greatest one.\<close>

lemma hd_least: "xs \<noteq> [] \<Longrightarrow> x \<in> set xs \<Longrightarrow> cmp (hd (js_sort cmp xs)) x \<le> 0"
proof -
  assume xs: "xs \<noteq> []" and x: "x \<in> set xs"
  from xs obtain y ys where s: "js_sort cmp xs = y # ys"
    by (metis length_0_conv length_js_sort neq_Nil_conv)
  have "ascending cmp (y # ys)" using ascending_sort [of xs] s by simp
  moreover have "x = y \<or> x \<in> set ys"
    using x set_js_sort [of cmp xs] s by auto
  ultimately show ?thesis using s by auto
qed

end

text \<open>Two comparators of numbers serve most of the client: \<open>f a - f b\<close> and, for a tie,
  a second key (\<open>||\<close> of two numbers takes the second when the first is zero).\<close>

definition by_number :: "('a \<Rightarrow> int) \<Rightarrow> 'a \<Rightarrow> 'a \<Rightarrow> int" where
  "by_number f a b = f a - f b"

definition then_by :: "('a \<Rightarrow> 'a \<Rightarrow> int) \<Rightarrow> ('a \<Rightarrow> 'a \<Rightarrow> int) \<Rightarrow> 'a \<Rightarrow> 'a \<Rightarrow> int" where
  "then_by c d a b = (if c a b \<noteq> 0 then c a b else d a b)"

lemma comparator_by_number: "comparator (by_number f)"
  by unfold_locales (auto simp: by_number_def sgn_if)

lemma comparator_by_number_desc: "comparator (\<lambda>a b. f b - f a :: int)"
  by unfold_locales (auto simp: sgn_if)

lemma comparator_then_by:
  assumes "comparator c" "comparator d"
  shows "comparator (then_by c d)"
proof -
  have c: "sgn (c y x) = - sgn (c x y)" for x y
    using assms(1) by (rule comparator.flip)
  have d: "sgn (d y x) = - sgn (d x y)" for x y
    using assms(2) by (rule comparator.flip)
  show ?thesis
  proof
    fix x y
    show "sgn (then_by c d y x) = - sgn (then_by c d x y)"
      using c [of x y] d [of x y] by (auto simp: then_by_def sgn_if split: if_splits)
  next
    fix x y z
    assume xy: "then_by c d x y \<le> 0" and yz: "then_by c d y z \<le> 0"
    have lexy: "c x y \<le> 0" "c y z \<le> 0" using xy yz by (auto simp: then_by_def split: if_splits)
    show "then_by c d x z \<le> 0"
    proof (cases "c x y = 0 \<and> c y z = 0")
      case True
      then have "c x z \<le> 0" "c z x \<le> 0"
        using lexy assms(1) comparator.trans comparator.eq_flip by (metis order_refl)+
      then have "c x z = 0" using comparator.gt_flip [OF assms(1), of z x] by linarith
      moreover have "d x z \<le> 0"
        using xy yz True comparator.trans [OF assms(2), of x y z] by (simp add: then_by_def)
      ultimately show ?thesis by (simp add: then_by_def)
    next
      case False
      then have "c x z < 0"
        using lexy comparator.less_trans [OF assms(1), of x y z]
          comparator.less_trans2 [OF assms(1), of x y z] by linarith
      then show ?thesis by (simp add: then_by_def)
    qed
  qed
qed

text \<open>Comparison of strings by code units, the order of \<open>sort()\<close> without a comparator.\<close>

definition by_code_units :: "string \<Rightarrow> string \<Rightarrow> int" where
  "by_code_units a b = (if a < b then -1 else if a = b then 0 else 1)"

interpretation code_units: comparator by_code_units
  by unfold_locales (auto simp: by_code_units_def split: if_splits)

end
