(* ===== verification/Messages.thy ===== *)
theory Messages
  imports JsText
begin

text \<open>
  The messages of the wire contract (\<open>shared/src/messages.ts\<close>) and the helpers of
  \<open>client/src/lib/messages.ts\<close>: the identity of a message across feed and history, the arrival
  order, and the recent rate.
\<close>

subsection \<open>The wire types\<close>

datatype payload_type = PString | PJson | PBinary

type_synonym header_map = "(string, string list) jsmap"

record schema_verdict =
  sv_valid :: bool
  sv_violations :: "string list option"
  sv_pattern :: string

text \<open>\<open>NatsMessage\<close>; an optional field of the interface is an option.\<close>

record nats_message =
  m_subject :: string
  m_payload :: string
  m_payload_type :: payload_type
  m_headers :: "header_map option"
  m_timestamp :: int
  m_reply :: "string option"
  m_size :: int
  m_sequence :: "int option"
  m_conn_id :: "string option"
  m_schema :: "schema_verdict option"

text \<open>\<open>HistoryResponse\<close>.\<close>

record history_response =
  hr_subject :: string
  hr_messages :: "nats_message list"
  hr_branch :: "nats_message list"
  hr_more :: "bool option"
  hr_branch_more :: "bool option"

subsection \<open>Identity and order\<close>

text \<open>The template string
  \<open>`${m.connId ?? ''}:${m.subject}:${m.timestamp}:${m.sequence ?? ''}`\<close>.\<close>

definition message_key :: "nats_message \<Rightarrow> string" where
  "message_key m =
     nullish (m_conn_id m) [] @ '':'' @ m_subject m @ '':'' @ int_str (m_timestamp m) @ '':'' @
     (case m_sequence m of None \<Rightarrow> [] | Some s \<Rightarrow> int_str s)"

definition by_arrival :: "nats_message \<Rightarrow> nats_message \<Rightarrow> int" where
  "by_arrival a b = (let d = m_timestamp a - m_timestamp b in
     if d \<noteq> 0 then d else nullish (m_sequence a) 0 - nullish (m_sequence b) 0)"

definition newer_first :: "nats_message \<Rightarrow> nats_message \<Rightarrow> int" where
  "newer_first a b = by_arrival b a"

lemma by_arrival_then_by:
  "by_arrival = then_by (by_number m_timestamp) (by_number (\<lambda>m. nullish (m_sequence m) 0))"
  by (auto simp: fun_eq_iff by_arrival_def then_by_def by_number_def Let_def)

interpretation arrival: comparator by_arrival
  unfolding by_arrival_then_by by (intro comparator_then_by comparator_by_number)

interpretation newest: comparator newer_first
proof -
  have "newer_first = (\<lambda>a b. by_arrival b a)" by (simp add: fun_eq_iff newer_first_def)
  then show "comparator newer_first" using arrival.flipped by simp
qed

text \<open>The comparison by time alone, used where a trace or a latency is measured.\<close>

definition by_time :: "nats_message \<Rightarrow> nats_message \<Rightarrow> int" where
  "by_time a b = m_timestamp a - m_timestamp b"

interpretation time: comparator by_time
  by unfold_locales (auto simp: by_time_def sgn_if)

lemma ascending_by_time:
  "ascending by_time xs \<longleftrightarrow> sorted (map m_timestamp xs)"
  by (induction xs) (auto simp: by_time_def)

lemma by_arrival_time: "by_arrival a b \<le> 0 \<Longrightarrow> m_timestamp a \<le> m_timestamp b"
  by (simp add: by_arrival_def Let_def split: if_splits)

lemma ascending_by_arrival_time:
  "ascending by_arrival xs \<Longrightarrow> sorted (map m_timestamp xs)"
  by (induction xs) (auto dest: by_arrival_time)

text \<open>A key part that ends at a separator is read back from the left when it has none.\<close>

lemma append_sep_inject:
  assumes "d \<notin> set a" "d \<notin> set b"
  shows "a @ d # s = b @ d # t \<longleftrightarrow> a = b \<and> s = t"
proof
  assume "a @ d # s = b @ d # t"
  with assms show "a = b \<and> s = t"
    by (induction a arbitrary: b) (auto simp: Cons_eq_append_conv)
qed simp

lemma append_sep_inject_right:
  assumes "d \<notin> set a" "d \<notin> set b"
  shows "s @ d # a = t @ d # b \<longleftrightarrow> s = t \<and> a = b"
proof
  assume "s @ d # a = t @ d # b"
  then have "rev a @ d # rev s = rev b @ d # rev t"
    by (metis append_Cons append_Nil append_assoc rev.simps(2) rev_append)
  then show "s = t \<and> a = b" using assms by (simp add: append_sep_inject)
qed simp

definition seq_str :: "int option \<Rightarrow> string" where
  "seq_str s = (case s of None \<Rightarrow> [] | Some i \<Rightarrow> int_str i)"

lemma seq_str_inject [simp]: "seq_str a = seq_str b \<longleftrightarrow> a = b"
  by (auto simp: seq_str_def split: option.splits)

lemma seq_str_no_colon: "CHR '':'' \<notin> set (seq_str s)"
  by (auto simp: seq_str_def is_digit_def dest: int_str_chars split: option.splits)

lemma int_str_no_colon: "CHR '':'' \<notin> set (int_str i)"
  by (rule int_str_free) (simp_all add: is_digit_def)

lemma message_key_parts:
  "message_key m = ((nullish (m_conn_id m) [] @ CHR '':'' # m_subject m) @
     CHR '':'' # int_str (m_timestamp m)) @ CHR '':'' # seq_str (m_sequence m)"
  by (simp add: message_key_def seq_str_def)

text \<open>Two messages share a key exactly when connection, subject, time and arrival number
  agree, provided connection ids are free of the separator (they are UUIDs).\<close>

theorem message_key_inject:
  assumes "CHR '':'' \<notin> set (nullish (m_conn_id a) [])" "CHR '':'' \<notin> set (nullish (m_conn_id b) [])"
  shows "message_key a = message_key b \<longleftrightarrow>
     nullish (m_conn_id a) [] = nullish (m_conn_id b) [] \<and> m_subject a = m_subject b \<and>
     m_timestamp a = m_timestamp b \<and> m_sequence a = m_sequence b"
  unfolding message_key_parts
  using assms append_sep_inject_right [OF seq_str_no_colon seq_str_no_colon]
    append_sep_inject_right [OF int_str_no_colon int_str_no_colon]
    append_sep_inject [OF assms] by (simp del: append_assoc append.simps(2))

definition sample_message :: nats_message where
  "sample_message = \<lparr>m_subject = ''a:b.c'', m_payload = ''1'', m_payload_type = PJson,
     m_headers = None, m_timestamp = 12, m_reply = None, m_size = 1, m_sequence = Some 2,
     m_conn_id = Some ''c1'', m_schema = None\<rparr>"

lemma message_key_inject_witness:
  "message_key sample_message \<noteq> message_key (sample_message\<lparr>m_timestamp := 13\<rparr>)"
proof -
  have "CHR '':'' \<notin> set (nullish (m_conn_id sample_message) [])"
    "CHR '':'' \<notin> set (nullish (m_conn_id (sample_message\<lparr>m_timestamp := 13\<rparr>)) [])"
    by (simp_all add: sample_message_def)
  from message_key_inject [OF this] show ?thesis by (simp add: sample_message_def)
qed

subsection \<open>The recent rate\<close>

text \<open>The loop of \<open>recentRate\<close> counts from the end while the timestamp is within ten seconds;
  the list is sorted oldest first.\<close>

definition recent_count :: "nats_message list \<Rightarrow> int \<Rightarrow> nat" where
  "recent_count msgs now =
     length (takeWhile (\<lambda>m. m_timestamp m \<ge> now - 10000) (rev msgs))"

definition recent_rate :: "nats_message list \<Rightarrow> int \<Rightarrow> rat" where
  "recent_rate msgs now = of_nat (recent_count msgs now) / 10"

lemma takeWhile_sorted_filter:
  "sorted_wrt (\<lambda>x y. P y \<longrightarrow> P x) xs \<Longrightarrow> takeWhile P xs = filter P xs"
  by (induction xs) (auto simp: filter_empty_conv)

lemma recent_count_filter:
  assumes "sorted (map m_timestamp msgs)"
  shows "recent_count msgs now = length (filter (\<lambda>m. m_timestamp m \<ge> now - 10000) msgs)"
proof -
  have "sorted_wrt (\<lambda>x y. m_timestamp x \<le> m_timestamp y) msgs"
    using assms by (simp add: sorted_map)
  then have "sorted_wrt (\<lambda>x y. m_timestamp y \<le> m_timestamp x) (rev msgs)"
    by (simp add: sorted_wrt_rev)
  then have "sorted_wrt (\<lambda>x y. m_timestamp y \<ge> now - 10000 \<longrightarrow> m_timestamp x \<ge> now - 10000) (rev msgs)"
    by (rule sorted_wrt_mono_rel [rotated]) auto
  then show ?thesis
    by (simp add: recent_count_def takeWhile_sorted_filter rev_filter [symmetric])
qed

end
