(* ===== verification/Subjects.thy ===== *)
theory Subjects
  imports Messages
begin

text \<open>
  Subject patterns: \<open>client/src/lib/subjectMatch.ts\<close> (matching, covering, overlapping
  subscriptions) and the second matcher in \<open>client/src/lib/decoders.ts\<close> with \<open>findRule\<close>.
  The loops keep their index, as in the source; the abstract specification is the inductive
  relation \<open>nats_match\<close> on token lists, and \<open>covers\<close> is specified by inclusion of the sets of
  matching subjects.
\<close>

abbreviation tokens :: "string \<Rightarrow> string list" where
  "tokens \<equiv> split_on (CHR ''.'')"

subsection \<open>The matcher\<close>

function matches_from :: "string list \<Rightarrow> string list \<Rightarrow> nat \<Rightarrow> bool" where
  "matches_from pt st i =
     (if i < length pt then
        (let p = pt ! i in
         if p = ''>'' then i = length pt - 1 \<and> length st > i
         else if i \<ge> length st \<or> (p \<noteq> ''*'' \<and> p \<noteq> st ! i) then False
         else matches_from pt st (Suc i))
      else length pt = length st)"
  by pat_completeness auto
termination
  by (relation "measure (\<lambda>(pt, st, i). length pt - i)") auto

declare matches_from.simps [simp del]

definition subject_matches :: "string \<Rightarrow> string \<Rightarrow> bool" where
  "subject_matches pattern subject =
     (if pattern = [] \<or> subject = [] then False
      else matches_from (tokens pattern) (tokens subject) 0)"

text \<open>What a NATS pattern means, on token lists.\<close>

inductive nats_match :: "string list \<Rightarrow> string list \<Rightarrow> bool" where
  match_end: "nats_match [] []"
| match_rest: "st \<noteq> [] \<Longrightarrow> nats_match [''>''] st"
| match_star: "nats_match pt st \<Longrightarrow> nats_match (''*'' # pt) (s # st)"
| match_literal: "p \<noteq> ''>'' \<Longrightarrow> nats_match pt st \<Longrightarrow> nats_match (p # pt) (p # st)"

inductive_simps nats_match_Nil [simp]: "nats_match [] st"
inductive_simps nats_match_Cons: "nats_match (p # pt) st"

lemma nats_match_rec:
  "nats_match (p # pt) st \<longleftrightarrow>
     (if p = ''>'' then pt = [] \<and> st \<noteq> []
      else (case st of [] \<Rightarrow> False | s # st' \<Rightarrow> (p = ''*'' \<or> p = s) \<and> nats_match pt st'))"
  by (auto simp: nats_match_Cons split: list.splits)

lemma matches_from_drop:
  "i \<le> length pt \<Longrightarrow> i \<le> length st \<Longrightarrow> matches_from pt st i \<longleftrightarrow> nats_match (drop i pt) (drop i st)"
proof (induction pt st i rule: matches_from.induct)
  case (1 pt st i)
  show ?case
  proof (cases "i < length pt")
    case False
    with "1.prems" show ?thesis unfolding matches_from.simps [of pt st i] by auto
  next
    case True
    then have pt: "drop i pt = pt ! i # drop (Suc i) pt" by (simp add: Cons_nth_drop_Suc)
    show ?thesis
    proof (cases "i < length st")
      case False
      with True "1.prems" show ?thesis
        unfolding matches_from.simps [of pt st i] pt by (simp add: nats_match_rec Let_def)
    next
      case st: True
      then have "drop i st = st ! i # drop (Suc i) st" by (simp add: Cons_nth_drop_Suc)
      with True st "1.IH" show ?thesis
        by (auto simp: matches_from.simps [of pt st i] pt nats_match_rec Let_def)
    qed
  qed
qed

lemma subject_matches_nats:
  "subject_matches p s \<longleftrightarrow> p \<noteq> [] \<and> s \<noteq> [] \<and> nats_match (tokens p) (tokens s)"
  by (simp add: subject_matches_def matches_from_drop)

text \<open>C11: the index loop of \<open>subjectMatches\<close> decides exactly the NATS matching relation on the
  tokens, and never matches an empty pattern or subject.\<close>

theorem subject_matches_correct:
  "subject_matches pattern subject =
     (pattern \<noteq> [] \<and> subject \<noteq> [] \<and> nats_match (tokens pattern) (tokens subject))"
  by (rule subject_matches_nats)

subsection \<open>Covering\<close>

function covers_from :: "string list \<Rightarrow> string list \<Rightarrow> nat \<Rightarrow> bool" where
  "covers_from w n i =
     (if i < length w then
        (if w ! i = ''>'' then length n \<ge> i + 1
         else if i \<ge> length n then False
         else if n ! i = ''>'' then False
         else if w ! i = ''*'' then covers_from w n (Suc i)
         else if w ! i \<noteq> n ! i then False
         else covers_from w n (Suc i))
      else length w = length n \<and> ''>'' \<notin> set n)"
  by pat_completeness auto
termination
  by (relation "measure (\<lambda>(w, n, i). length w - i)") auto

declare covers_from.simps [simp del]

definition covers :: "string \<Rightarrow> string \<Rightarrow> bool" where
  "covers wide narrow = (if wide = narrow then True else covers_from (tokens wide) (tokens narrow) 0)"

text \<open>\<open>overlappingPatterns\<close>: every ordered pair of different patterns where the first covers
  the second, in the order of the two loops.\<close>

definition overlapping_patterns :: "string list \<Rightarrow> (string \<times> string) list" where
  "overlapping_patterns ps =
     concat (map (\<lambda>wide. concat (map (\<lambda>narrow.
       if wide \<noteq> narrow \<and> covers wide narrow then [(wide, narrow)] else []) ps)) ps)"

text \<open>The same decision on token lists, without the index.\<close>

fun cov :: "string list \<Rightarrow> string list \<Rightarrow> bool" where
  "cov [] ns = (ns = [])"
| "cov (w # ws) ns =
     (if w = ''>'' then ns \<noteq> []
      else (case ns of [] \<Rightarrow> False
            | n # ns' \<Rightarrow> n \<noteq> ''>'' \<and> (w = ''*'' \<or> w = n) \<and> cov ws ns'))"

lemma covers_from_drop:
  "i \<le> length w \<Longrightarrow> i \<le> length n \<Longrightarrow> ''>'' \<notin> set (take i n) \<Longrightarrow>
     covers_from w n i \<longleftrightarrow> cov (drop i w) (drop i n)"
proof (induction w n i rule: covers_from.induct)
  case (1 w n i)
  show ?case
  proof (cases "i < length w")
    case False
    with "1.prems" show ?thesis unfolding covers_from.simps [of w n i] by auto
  next
    case True
    then have w: "drop i w = w ! i # drop (Suc i) w" by (simp add: Cons_nth_drop_Suc)
    show ?thesis
    proof (cases "i < length n")
      case False
      with True "1.prems" show ?thesis
        unfolding covers_from.simps [of w n i] w by simp
    next
      case n: True
      then have "drop i n = n ! i # drop (Suc i) n" "take (Suc i) n = take i n @ [n ! i]"
        by (simp_all add: Cons_nth_drop_Suc take_Suc_conv_app_nth)
      with True n "1.IH" "1.prems" show ?thesis
        by (auto simp: covers_from.simps [of w n i] w)
    qed
  qed
qed

lemma covers_cov: "covers wide narrow \<longleftrightarrow> wide = narrow \<or> cov (tokens wide) (tokens narrow)"
  by (simp add: covers_def covers_from_drop)

text \<open>A pattern a server accepts: no empty token, and \<open>>\<close> only as the last one.\<close>

fun tail_only :: "string list \<Rightarrow> bool" where
  "tail_only [] = True"
| "tail_only (t # ts) = ((t = ''>'' \<longrightarrow> ts = []) \<and> tail_only ts)"

definition valid_pattern :: "string \<Rightarrow> bool" where
  "valid_pattern p = ([] \<notin> set (tokens p) \<and> tail_only (tokens p))"

lemma tail_only_iff: "tail_only ts \<longleftrightarrow> ''>'' \<notin> set (butlast ts)"
  by (induction ts) auto

lemma cov_sound: "tail_only ws \<Longrightarrow> cov ws ns \<Longrightarrow> nats_match ns ss \<Longrightarrow> nats_match ws ss"
proof (induction ws ns arbitrary: ss rule: cov.induct)
  case (2 w ws ns)
  show ?case
  proof (cases "w = ''>''")
    case True
    with "2.prems" show ?thesis by (cases ns) (auto simp: nats_match_rec split: if_splits list.splits)
  next
    case False
    with "2.prems" obtain n ns' where ns: "ns = n # ns'" "n \<noteq> ''>''" "w = ''*'' \<or> w = n" "cov ws ns'"
      by (auto split: list.splits)
    with "2.prems" obtain s ss' where "ss = s # ss'" "n = ''*'' \<or> n = s" "nats_match ns' ss'"
      by (auto simp: nats_match_rec split: list.splits)
    with False ns "2.IH" "2.prems"(1) show ?thesis by (auto simp: nats_match_rec)
  qed
qed simp

text \<open>A subject that only this pattern's wildcards could have produced: a token no pattern
  writes in place of \<open>*\<close>, and \<open>k\<close> of them in place of \<open>>\<close>.\<close>

fun sample_subject :: "string \<Rightarrow> nat \<Rightarrow> string list \<Rightarrow> string list" where
  "sample_subject f k [] = []"
| "sample_subject f k (t # ts) =
     (if t = ''>'' then replicate k f @ sample_subject f k ts
      else (if t = ''*'' then f else t) # sample_subject f k ts)"

lemma sample_subject_matches:
  "tail_only ts \<Longrightarrow> 0 < k \<Longrightarrow> nats_match ts (sample_subject f k ts)"
  by (induction ts) (auto simp: nats_match_rec)

lemma cov_complete:
  assumes "tail_only ws" "tail_only ns" "f \<notin> set ws"
    and "nats_match ws (sample_subject f 1 ns)" "nats_match ws (sample_subject f 2 ns)"
  shows "cov ws ns"
  using assms
proof (induction ws arbitrary: ns)
  case Nil
  then show ?case by (cases ns) (auto split: if_splits)
next
  case (Cons w ws)
  show ?case
  proof (cases "w = ''>''")
    case True
    with Cons.prems show ?thesis by (cases ns) (auto simp: nats_match_rec)
  next
    case False
    show ?thesis
    proof (cases ns)
      case Nil
      with False Cons.prems show ?thesis by (simp add: nats_match_rec)
    next
      case ns: (Cons n ns')
      show ?thesis
      proof (cases "n = ''>''")
        case True
        with Cons.prems ns have "ns' = []" by simp
        with True False ns Cons.prems show ?thesis
          by (cases ws) (auto simp: nats_match_rec numeral_2_eq_2 split: if_splits)
      next
        case n: False
        with False ns Cons.prems have "nats_match ws (sample_subject f 1 ns')"
          "nats_match ws (sample_subject f 2 ns')" "w = ''*'' \<or> w = n"
          by (auto simp: nats_match_rec split: if_splits)
        with False n ns Cons.prems Cons.IH [of ns'] show ?thesis by simp
      qed
    qed
  qed
qed

lemma sample_subject_tokens:
  "t \<in> set (sample_subject f k ns) \<Longrightarrow> t = f \<or> t \<in> set ns"
  by (induction ns) (auto split: if_splits)

lemma sample_subject_not_Nil: "ns \<noteq> [] \<Longrightarrow> 0 < k \<Longrightarrow> sample_subject f k ns \<noteq> []"
  by (cases ns) auto

definition fresh_token :: "string list \<Rightarrow> string" where
  "fresh_token ws = replicate (Suc (sum_list (map length ws))) (CHR ''x'')"

lemma fresh_token: "fresh_token ws \<notin> set ws"
proof
  assume "fresh_token ws \<in> set ws"
  then have "length (fresh_token ws) \<in> set (map length ws)" by simp
  then have "length (fresh_token ws) \<le> sum_list (map length ws)" by (intro member_le_sum_list) simp_all
  then show False by (simp add: fresh_token_def)
qed

lemma covers_complete_subject:
  assumes "valid_pattern wide" "valid_pattern narrow"
    and incl: "\<forall>s. subject_matches narrow s \<longrightarrow> subject_matches wide s"
  shows "cov (tokens wide) (tokens narrow)"
proof -
  let ?f = "fresh_token (tokens wide)"
  have m: "nats_match (tokens wide) (sample_subject ?f k (tokens narrow))" if k: "0 < k" for k
  proof -
    let ?ts = "sample_subject ?f k (tokens narrow)"
    let ?s = "join_with (CHR ''.'') ?ts"
    have nodot: "\<forall>t \<in> set ?ts. CHR ''.'' \<notin> set t"
      using sample_subject_tokens split_on_parts by (fastforce simp: fresh_token_def)
    have tk: "tokens ?s = ?ts"
      using nodot k by (intro split_join) (simp_all add: sample_subject_not_Nil)
    have "[] \<notin> set ?ts"
      using assms(2) sample_subject_tokens by (fastforce simp: valid_pattern_def fresh_token_def)
    then have "?s \<noteq> []" using tk by (metis list.set_intros(1) split_on.simps(1))
    moreover have "narrow \<noteq> []" using assms(2) by (auto simp: valid_pattern_def)
    moreover have "nats_match (tokens narrow) ?ts"
      using assms(2) k by (simp add: valid_pattern_def sample_subject_matches)
    ultimately have "subject_matches narrow ?s" by (simp add: subject_matches_nats tk)
    with incl have "subject_matches wide ?s" by blast
    then show ?thesis by (simp add: subject_matches_nats tk)
  qed
  show ?thesis
    using assms(1,2) fresh_token m [of 1] m [of 2]
    by (intro cov_complete) (simp_all add: valid_pattern_def)
qed

lemma covers_inclusion:
  assumes "valid_pattern wide" "valid_pattern narrow"
  shows "covers wide narrow \<longleftrightarrow> (\<forall>s. subject_matches narrow s \<longrightarrow> subject_matches wide s)"
proof
  assume "covers wide narrow"
  then consider "wide = narrow" | "cov (tokens wide) (tokens narrow)" by (auto simp: covers_cov)
  then show "\<forall>s. subject_matches narrow s \<longrightarrow> subject_matches wide s"
  proof cases
    case 2
    moreover have "wide \<noteq> []" "tail_only (tokens wide)"
      using assms(1) by (auto simp: valid_pattern_def)
    ultimately show ?thesis using cov_sound by (auto simp: subject_matches_nats)
  qed simp
next
  assume "\<forall>s. subject_matches narrow s \<longrightarrow> subject_matches wide s"
  with assms show "covers wide narrow" unfolding covers_cov
    by (intro disjI2 covers_complete_subject)
qed

text \<open>C12: for patterns a server accepts, \<open>covers\<close> decides inclusion: the wide pattern covers the
  narrow one exactly when every subject the narrow one matches is matched by the wide one.\<close>

theorem covers_iff_inclusion:
  assumes "valid_pattern wide" "valid_pattern narrow"
  shows "covers wide narrow \<longleftrightarrow> (\<forall>s. subject_matches narrow s \<longrightarrow> subject_matches wide s)"
  using assms by (rule covers_inclusion)

lemma covers_iff_inclusion_witness:
  "covers ''uns.>'' ''uns.acme.>'' \<and> subject_matches ''uns.acme.>'' ''uns.acme.x'' \<and>
     subject_matches ''uns.>'' ''uns.acme.x''"
proof -
  have v: "valid_pattern ''uns.>''" "valid_pattern ''uns.acme.>''"
    by (simp_all add: valid_pattern_def)
  have c: "covers ''uns.>'' ''uns.acme.>''" by (simp add: covers_cov)
  have m: "subject_matches ''uns.acme.>'' ''uns.acme.x''" by code_simp
  from c have "subject_matches ''uns.>'' ''uns.acme.x''"
    unfolding covers_iff_inclusion [OF v] using m by blast
  with c m show ?thesis by blast
qed

text \<open>\<open>overlappingPatterns\<close> reports exactly the pairs of different subscriptions where the
  second one delivers nothing the first does not deliver already.\<close>

theorem overlapping_patterns_exact:
  assumes "\<forall>p \<in> set ps. valid_pattern p"
  shows "(wide, narrow) \<in> set (overlapping_patterns ps) \<longleftrightarrow>
     wide \<in> set ps \<and> narrow \<in> set ps \<and> wide \<noteq> narrow \<and>
     (\<forall>s. subject_matches narrow s \<longrightarrow> subject_matches wide s)"
proof -
  have "(wide, narrow) \<in> set (overlapping_patterns ps) \<longleftrightarrow>
      wide \<in> set ps \<and> narrow \<in> set ps \<and> wide \<noteq> narrow \<and> covers wide narrow"
    by (auto simp: overlapping_patterns_def split: if_splits)
  then show ?thesis using assms covers_inclusion [of wide narrow] by blast
qed

lemma overlapping_patterns_exact_witness:
  "(''a.>'', ''a.b'') \<in> set (overlapping_patterns [''a.b'', ''a.>'', ''c'']) \<and>
   subject_matches ''a.b'' ''a.b'' \<and> subject_matches ''a.>'' ''a.b''"
proof -
  have v: "\<forall>p \<in> set [''a.b'', ''a.>'', ''c'']. valid_pattern p" by (simp add: valid_pattern_def)
  have m: "(''a.>'', ''a.b'') \<in> set (overlapping_patterns [''a.b'', ''a.>'', ''c''])"
    by (simp add: overlapping_patterns_def covers_cov)
  then have "\<forall>s. subject_matches ''a.b'' s \<longrightarrow> subject_matches ''a.>'' s"
    unfolding overlapping_patterns_exact [OF v] by (elim conjE)
  moreover have "subject_matches ''a.b'' ''a.b''" by code_simp
  ultimately show ?thesis using m by blast
qed

subsection \<open>The matcher of the decoder rules\<close>

function decoder_matches_from :: "string list \<Rightarrow> string list \<Rightarrow> nat \<Rightarrow> bool" where
  "decoder_matches_from p s i =
     (if i < length p then
        (if p ! i = ''>'' then length s > i
         else if i \<ge> length s then False
         else if p ! i \<noteq> ''*'' \<and> p ! i \<noteq> s ! i then False
         else decoder_matches_from p s (Suc i))
      else length p = length s)"
  by pat_completeness auto
termination
  by (relation "measure (\<lambda>(p, s, i). length p - i)") auto

declare decoder_matches_from.simps [simp del]

definition decoder_subject_matches :: "string \<Rightarrow> string \<Rightarrow> bool" where
  "decoder_subject_matches pattern subject = decoder_matches_from (tokens pattern) (tokens subject) 0"

datatype decoder_format = FMsgpack | FProtobuf | FAvro | FScript

record decoder_rule =
  dr_id :: string
  dr_pattern :: string
  dr_format :: decoder_format
  dr_schema :: "string option"
  dr_message_type :: "string option"

text \<open>\<open>findRule\<close>: the subject may be absent, and an empty one is no subject.\<close>

definition find_rule :: "decoder_rule list \<Rightarrow> string option \<Rightarrow> decoder_rule option" where
  "find_rule rules subject =
     (if \<not> truthy subject then None
      else List.find (\<lambda>r. decoder_subject_matches (dr_pattern r) (the subject)) rules)"

lemma decoder_matches_from_eq:
  "tail_only p \<Longrightarrow> decoder_matches_from p s i = matches_from p s i"
proof (induction p s i rule: decoder_matches_from.induct)
  case (1 p s i)
  have "i = length p - 1" if "p ! i = ''>''" "i < length p"
  proof (rule ccontr)
    assume "i \<noteq> length p - 1"
    then have i: "i < length (butlast p)" using that(2) by simp
    then have "''>'' \<in> set (butlast p)" using that(1) nth_mem [OF i] by (simp add: nth_butlast)
    then show False using "1.prems" by (simp add: tail_only_iff)
  qed
  with 1 show ?case
    by (auto simp: decoder_matches_from.simps [of p s i] matches_from.simps [of p s i] Let_def)
qed

text \<open>For patterns a server accepts, the decoder rules use the same notion of matching as the
  subscriptions, and \<open>findRule\<close> returns the first rule whose pattern matches.\<close>

theorem find_rule_first_match:
  assumes "\<forall>r \<in> set rules. valid_pattern (dr_pattern r)" "subject \<noteq> []"
  shows "find_rule rules (Some subject) = Some r \<longleftrightarrow>
     (\<exists>before after. rules = before @ r # after \<and> subject_matches (dr_pattern r) subject \<and>
        (\<forall>q \<in> set before. \<not> subject_matches (dr_pattern q) subject))"
proof -
  have m: "decoder_subject_matches (dr_pattern q) subject = subject_matches (dr_pattern q) subject"
    if "q \<in> set rules" for q
  proof -
    have v: "valid_pattern (dr_pattern q)" using assms(1) that by blast
    then have "dr_pattern q \<noteq> []" by (auto simp: valid_pattern_def)
    with v assms(2) show ?thesis
      by (simp add: decoder_subject_matches_def subject_matches_def decoder_matches_from_eq valid_pattern_def)
  qed
  have "find_rule rules (Some subject) =
      List.find (\<lambda>q. decoder_subject_matches (dr_pattern q) subject) rules"
    using assms(2) by (simp add: find_rule_def)
  also have "\<dots> = List.find (\<lambda>q. subject_matches (dr_pattern q) subject) rules"
    using m by (intro find_cong) simp_all
  finally show ?thesis by (simp add: find_first_iff)
qed

lemma find_rule_first_match_witness:
  "find_rule [\<lparr>dr_id = ''1'', dr_pattern = ''a.*'', dr_format = FMsgpack, dr_schema = None, dr_message_type = None\<rparr>,
      \<lparr>dr_id = ''2'', dr_pattern = ''>'', dr_format = FAvro, dr_schema = None, dr_message_type = None\<rparr>]
     (Some ''a.b.c'') =
   Some \<lparr>dr_id = ''2'', dr_pattern = ''>'', dr_format = FAvro, dr_schema = None, dr_message_type = None\<rparr>"
  (is "find_rule [?r1, ?r2] _ = _")
proof -
  have "\<forall>r \<in> set [?r1, ?r2]. valid_pattern (dr_pattern r)" by (simp add: valid_pattern_def)
  moreover have "''a.b.c'' \<noteq> []" by simp
  moreover have "\<exists>before after. [?r1, ?r2] = before @ ?r2 # after \<and> subject_matches (dr_pattern ?r2) ''a.b.c'' \<and>
      (\<forall>q \<in> set before. \<not> subject_matches (dr_pattern q) ''a.b.c'')"
  proof (intro exI conjI)
    show "[?r1, ?r2] = [?r1] @ ?r2 # []" by simp
    show "subject_matches (dr_pattern ?r2) ''a.b.c''" by code_simp
    have "\<not> subject_matches ''a.*'' ''a.b.c''" by code_simp
    then show "\<forall>q \<in> set [?r1]. \<not> subject_matches (dr_pattern q) ''a.b.c''" by simp
  qed
  ultimately show ?thesis using find_rule_first_match [of "[?r1, ?r2]" "''a.b.c''" ?r2] by blast
qed

end
