(* ===== verification/TreeModel.thy ===== *)
theory TreeModel
  imports Subjects
begin

text \<open>
  The subject tree of \<open>client/src/components/subjects/tree.ts\<close>: the class \<open>TreeModel\<close> with its
  operations \<open>apply\<close>, \<open>dropConnection\<close>, \<open>applyEntry\<close>, \<open>recompute\<close>, \<open>removeEntry\<close>, \<open>detach\<close>
  and \<open>insert\<close>.

  The class mutates node objects that refer to each other. The model is an explicit store: the
  map \<open>nodes\<close> of the class, from the full subject to the node, is the store, and a reference to
  a node is its full subject. That is faithful because a node is reachable exactly while it is
  in the map: \<open>insert\<close> enters it in the map and in its parent's (or the roots') list in the
  same step, \<open>detach\<close> removes it from both. \<open>node.parent\<close> is set once, by \<open>insert\<close>, to the node
  of the path without its last segment, so it is a function of the key (\<open>parent_key\<close>); a node
  that has just been detached is asked for it once more, and its \<open>byConn\<close> and \<open>children\<close> are
  empty then.

  \<open>localeCompare\<close> on segments is the parameter \<open>lc\<close>.
\<close>

subsection \<open>Data\<close>

record subject_entry =
  e_s :: string
  e_n :: int
  e_r :: rat
  e_t :: int
  e_tr :: rat
  e_c :: "int option"
  e_sc :: "int option"
  e_p :: "string option"
  e_pt :: "payload_type option"
  e_ts :: "int option"
  e_sz :: "int option"

record last_message =
  l_payload :: string
  l_payload_type :: payload_type
  l_timestamp :: int
  l_size :: int

record tree_node =
  n_segment :: string
  n_full :: string
  n_message_count :: int
  n_total :: int
  n_rate :: rat
  n_total_rate :: rat
  n_child_count :: int
  n_subjects :: int
  n_last :: "last_message option"
  n_children :: "string list"
  n_conn_ids :: "string list"
  n_parent :: "string option"
  n_by_conn :: "(string, subject_entry) jsmap"

record tree_model =
  t_roots :: "string list"
  t_nodes :: "(string, tree_node) jsmap"

type_synonym collation = "string \<Rightarrow> string \<Rightarrow> int"

definition empty_tree :: tree_model where
  "empty_tree = \<lparr>t_roots = [], t_nodes = []\<rparr>"

definition new_node :: "string \<Rightarrow> string \<Rightarrow> string option \<Rightarrow> tree_node" where
  "new_node segment full parent =
     \<lparr>n_segment = segment, n_full = full, n_message_count = 0, n_total = 0, n_rate = 0,
      n_total_rate = 0, n_child_count = 0, n_subjects = 0, n_last = None, n_children = [],
      n_conn_ids = [], n_parent = parent, n_by_conn = []\<rparr>"

text \<open>\<open>get(subject)\<close>, and the two lists a node can stand in.\<close>

definition tree_get :: "tree_model \<Rightarrow> string \<Rightarrow> tree_node option" where
  "tree_get T s = jm_get (t_nodes T) s"

definition siblings :: "tree_model \<Rightarrow> string option \<Rightarrow> string list" where
  "siblings T parent = (case parent of None \<Rightarrow> t_roots T
     | Some p \<Rightarrow> (case tree_get T p of None \<Rightarrow> [] | Some n \<Rightarrow> n_children n))"

definition update_node :: "string \<Rightarrow> (tree_node \<Rightarrow> tree_node) \<Rightarrow> tree_model \<Rightarrow> tree_model" where
  "update_node s f T = T\<lparr>t_nodes := AList.map_entry s f (t_nodes T)\<rparr>"

definition update_siblings :: "string option \<Rightarrow> (string list \<Rightarrow> string list) \<Rightarrow> tree_model \<Rightarrow> tree_model" where
  "update_siblings parent f T = (case parent of None \<Rightarrow> T\<lparr>t_roots := f (t_roots T)\<rparr>
     | Some p \<Rightarrow> update_node p (\<lambda>n. n\<lparr>n_children := f (n_children n)\<rparr>) T)"

definition parent_key :: "string \<Rightarrow> string option" where
  "parent_key s = (let ts = tokens s in
     if length ts \<le> 1 then None else Some (join_with (CHR ''.'') (butlast ts)))"

definition child_key :: "string option \<Rightarrow> string \<Rightarrow> string" where
  "child_key parent seg = (case parent of None \<Rightarrow> seg | Some p \<Rightarrow> p @ CHR ''.'' # seg)"

subsection \<open>Insertion\<close>

definition segment_of :: "tree_model \<Rightarrow> string \<Rightarrow> string" where
  "segment_of T k = (case tree_get T k of None \<Rightarrow> [] | Some n \<Rightarrow> n_segment n)"

text \<open>\<open>insertionIndex\<close>: binary search for the first sibling that is not before the node.\<close>

function insertion_index :: "collation \<Rightarrow> string list \<Rightarrow> string \<Rightarrow> nat \<Rightarrow> nat \<Rightarrow> nat" where
  "insertion_index lc segs seg lo hi =
     (if lo < hi then
        (let mid = (lo + hi) div 2 in
         if lc (segs ! mid) seg < 0 then insertion_index lc segs seg (mid + 1) hi
         else insertion_index lc segs seg lo mid)
      else lo)"
  by pat_completeness auto
termination
  by (relation "measure (\<lambda>(lc, segs, seg, lo, hi). hi - lo)") auto

declare insertion_index.simps [simp del]

definition splice_in :: "nat \<Rightarrow> 'a \<Rightarrow> 'a list \<Rightarrow> 'a list" where
  "splice_in i x xs = take i xs @ x # drop i xs"

definition add_node :: "collation \<Rightarrow> string option \<Rightarrow> string \<Rightarrow> tree_model \<Rightarrow> tree_model" where
  "add_node lc parent seg T =
     (let full = child_key parent seg;
          sibs = siblings T parent;
          i = insertion_index lc (map (segment_of T) sibs) seg 0 (length sibs);
          T1 = update_siblings parent (splice_in i full) T
      in T1\<lparr>t_nodes := jm_set full (new_node seg full parent) (t_nodes T1)\<rparr>)"

fun insert_path :: "collation \<Rightarrow> string option \<Rightarrow> string list \<Rightarrow> tree_model \<Rightarrow> tree_model" where
  "insert_path lc parent [] T = T"
| "insert_path lc parent (seg # segs) T =
     (let full = child_key parent seg;
          T1 = (if tree_get T full = None then add_node lc parent seg T else T)
      in insert_path lc (Some full) segs T1)"

definition tree_insert :: "collation \<Rightarrow> string \<Rightarrow> tree_model \<Rightarrow> tree_model" where
  "tree_insert lc full T = insert_path lc None (tokens full) T"

subsection \<open>Entries\<close>

definition newest_last :: "last_message option \<Rightarrow> subject_entry \<Rightarrow> last_message option" where
  "newest_last l c = (case e_ts c of None \<Rightarrow> l
     | Some ts \<Rightarrow>
        if ts \<noteq> 0 \<and> (case l of None \<Rightarrow> True | Some l' \<Rightarrow> ts > l_timestamp l')
        then Some \<lparr>l_payload = nullish (e_p c) [], l_payload_type = nullish (e_pt c) PString,
                   l_timestamp = ts, l_size = nullish (e_sz c) 0\<rparr>
        else l)"

definition recompute :: "tree_node \<Rightarrow> tree_node" where
  "recompute n = (let cs = jm_values (n_by_conn n) in
     n\<lparr>n_message_count := sum_list (map e_n cs),
       n_total := sum_list (map e_t cs),
       n_rate := sum_list (map e_r cs),
       n_total_rate := sum_list (map e_tr cs),
       n_child_count := foldl (\<lambda>a c. max a (nullish (e_c c) 0)) 0 cs,
       n_subjects := foldl (\<lambda>a c. max a (nullish (e_sc c) 0)) 0 cs,
       n_last := foldl newest_last None cs\<rparr>)"

definition set_entry :: "string \<Rightarrow> subject_entry \<Rightarrow> tree_node \<Rightarrow> tree_node" where
  "set_entry c e n =
     (let n1 = recompute (n\<lparr>n_by_conn := jm_set c e (n_by_conn n)\<rparr>)
      in if c \<in> set (n_conn_ids n1) then n1 else n1\<lparr>n_conn_ids := n_conn_ids n1 @ [c]\<rparr>)"

definition apply_entry :: "collation \<Rightarrow> string \<Rightarrow> subject_entry \<Rightarrow> tree_model \<Rightarrow> tree_model" where
  "apply_entry lc c e T =
     (let T1 = (if tree_get T (e_s e) = None then tree_insert lc (e_s e) T else T)
      in update_node (e_s e) (set_entry c e) T1)"

subsection \<open>Removal\<close>

lemma tokens_parent_key:
  "parent_key s = Some p \<Longrightarrow> tokens p = butlast (tokens s)"
proof -
  assume "parent_key s = Some p"
  then have p: "p = join_with (CHR ''.'') (butlast (tokens s))" and l: "1 < length (tokens s)"
    by (auto simp: parent_key_def Let_def split: if_splits)
  have ne: "butlast (tokens s) \<noteq> []" using l by (cases "tokens s") auto
  have "\<forall>w \<in> set (butlast (tokens s)). CHR ''.'' \<notin> set w"
    by (auto dest: in_set_butlastD split_on_parts)
  with ne show ?thesis unfolding p by (rule split_join)
qed

lemma parent_key_shorter: "parent_key s = Some p \<Longrightarrow> length (tokens p) < length (tokens s)"
proof -
  assume p: "parent_key s = Some p"
  then have "1 < length (tokens s)" by (simp add: parent_key_def Let_def split: if_splits)
  with tokens_parent_key [OF p] show ?thesis by simp
qed

text \<open>\<open>detach\<close>: the node leaves its list and the map, and a placeholder parent that only existed
  for it goes too. A parent that has already left the map is empty.\<close>

function detach :: "string \<Rightarrow> tree_model \<Rightarrow> tree_model" where
  "detach s T =
     (let T1 = update_siblings (parent_key s) (remove1 s) T;
          T2 = T1\<lparr>t_nodes := jm_delete s (t_nodes T1)\<rparr>
      in case parent_key s of None \<Rightarrow> T2
         | Some p \<Rightarrow>
            (case tree_get T2 p of
               None \<Rightarrow> detach p T2
             | Some pn \<Rightarrow> if n_by_conn pn = [] \<and> n_children pn = [] then detach p T2 else T2))"
  by pat_completeness auto
termination
  by (relation "measure (\<lambda>(s, T). length (tokens s))") (auto intro: parent_key_shorter)

declare detach.simps [simp del]

definition drop_entry :: "string \<Rightarrow> tree_node \<Rightarrow> tree_node" where
  "drop_entry c n = n\<lparr>n_by_conn := jm_delete c (n_by_conn n),
                      n_conn_ids := filter (\<lambda>i. i \<noteq> c) (n_conn_ids n)\<rparr>"

text \<open>\<open>for (const child of [...node.children]) for (const id of child.connIds) remove(id, child)\<close>;
  the ids are read when the child is reached.\<close>

definition conn_ids_of :: "tree_model \<Rightarrow> string \<Rightarrow> string list" where
  "conn_ids_of T k = (case tree_get T k of None \<Rightarrow> [] | Some n \<Rightarrow> n_conn_ids n)"

definition remove_child ::
    "(string \<Rightarrow> string \<Rightarrow> tree_model \<Rightarrow> tree_model option) \<Rightarrow> string \<Rightarrow> tree_model \<Rightarrow> tree_model option" where
  "remove_child rm k T = foldl (\<lambda>r i. Option.bind r (rm i k)) (Some T) (conn_ids_of T k)"

definition remove_children ::
    "(string \<Rightarrow> string \<Rightarrow> tree_model \<Rightarrow> tree_model option) \<Rightarrow> string list \<Rightarrow> tree_model \<Rightarrow> tree_model option" where
  "remove_children rm ks T = foldl (\<lambda>r k. Option.bind r (remove_child rm k)) (Some T) ks"

text \<open>\<open>removeEntry\<close> recurses through the store, so it runs on fuel; \<open>remove_fuel_enough\<close> below
  shows that one more than the number of entries always suffices.\<close>

primrec remove_fuel :: "nat \<Rightarrow> string \<Rightarrow> string \<Rightarrow> tree_model \<Rightarrow> tree_model option" where
  "remove_fuel 0 = (\<lambda>c s T. None)"
| "remove_fuel (Suc fuel) = (\<lambda>c s T.
     (case tree_get T s of None \<Rightarrow> Some T
      | Some node \<Rightarrow>
         if \<not> jm_has (n_by_conn node) c then Some T
         else let T1 = update_node s (drop_entry c) T in
           if n_by_conn (drop_entry c node) \<noteq> [] then Some (update_node s recompute T1)
           else Option.bind (remove_children (remove_fuel fuel) (n_children node) T1) (\<lambda>T2.
             case tree_get T2 s of
               Some n2 \<Rightarrow> if n_by_conn n2 \<noteq> [] \<or> n_children n2 \<noteq> [] then Some T2 else Some (detach s T2)
             | None \<Rightarrow> Some (detach s T2))))"

definition entry_count :: "tree_model \<Rightarrow> nat" where
  "entry_count T = sum_list (map (\<lambda>n. length (n_by_conn n)) (jm_values (t_nodes T)))"

definition remove_entry :: "string \<Rightarrow> string \<Rightarrow> tree_model \<Rightarrow> tree_model" where
  "remove_entry c s T = (case remove_fuel (Suc (entry_count T)) c s T of Some T' \<Rightarrow> T' | None \<Rightarrow> T)"

definition drop_connection :: "string \<Rightarrow> tree_model \<Rightarrow> tree_model" where
  "drop_connection c T = foldl (\<lambda>T s.
     (case tree_get T s of None \<Rightarrow> T
      | Some n \<Rightarrow> if jm_has (n_by_conn n) c then remove_entry c s T else T))
     T (jm_keys (t_nodes T))"

definition tree_apply ::
    "collation \<Rightarrow> string \<Rightarrow> bool \<Rightarrow> subject_entry list \<Rightarrow> string list \<Rightarrow> tree_model \<Rightarrow> tree_model" where
  "tree_apply lc c full entries removed T =
     (let T1 = (if full then drop_connection c T else T);
          T2 = foldl (\<lambda>T s. remove_entry c s T) T1 removed
      in foldl (\<lambda>T e. apply_entry lc c e T) T2 entries)"

subsection \<open>Looking into the store\<close>

lemma tree_get_update_node [simp]:
  "tree_get (update_node s f T) k = (if k = s then map_option f (tree_get T s) else tree_get T k)"
  by (auto simp: tree_get_def update_node_def map_of_map_entry split: option.splits)

lemma t_roots_update_node [simp]: "t_roots (update_node s f T) = t_roots T"
  by (simp add: update_node_def)

lemma update_node_update_node:
  "update_node s g (update_node s f T) = update_node s (g \<circ> f) T"
proof -
  have "AList.map_entry s g (AList.map_entry s f m) = AList.map_entry s (g \<circ> f) m"
    for m :: "(string, tree_node) jsmap"
    by (induction m) auto
  then show ?thesis by (simp add: update_node_def)
qed

lemma keys_map_entry: "jm_keys (AList.map_entry s f m) = jm_keys m"
  by (induction m) auto

lemma siblings_update_node:
  "(\<And>n. n_children (f n) = n_children n) \<Longrightarrow> siblings (update_node s f T) p = siblings T p"
  by (auto simp: siblings_def split: option.splits)

lemma tree_get_update_siblings:
  "tree_get (update_siblings p f T) k =
     (if p = Some k then map_option (\<lambda>n. n\<lparr>n_children := f (n_children n)\<rparr>) (tree_get T k)
      else tree_get T k)"
  by (auto simp: update_siblings_def tree_get_def update_node_def map_of_map_entry split: option.splits)

lemma siblings_update_siblings:
  "f [] = [] \<or> p = None \<or> (\<exists>q n. p = Some q \<and> tree_get T q = Some n) \<Longrightarrow>
     siblings (update_siblings p f T) q = (if q = p then f (siblings T p) else siblings T q)"
  by (auto simp: siblings_def tree_get_update_siblings split: option.splits)
     (auto simp: update_siblings_def)

lemma jm_wf_update_node [simp]: "jm_wf (t_nodes (update_node s f T)) = jm_wf (t_nodes T)"
  by (simp add: update_node_def keys_map_entry)

lemma jm_wf_update_siblings [simp]: "jm_wf (t_nodes (update_siblings p f T)) = jm_wf (t_nodes T)"
  by (auto simp: update_siblings_def split: option.splits)

lemma tree_get_delete_nodes [simp]:
  "tree_get (T\<lparr>t_nodes := jm_delete s (t_nodes T)\<rparr>) k = (if k = s then None else tree_get T k)"
  by (simp add: tree_get_def)

lemma tree_get_set_nodes [simp]:
  "tree_get (T\<lparr>t_nodes := jm_set s n (t_nodes T)\<rparr>) k = (if k = s then Some n else tree_get T k)"
  by (simp add: tree_get_def)

lemma recompute_fields [simp]:
  "n_segment (recompute n) = n_segment n" "n_full (recompute n) = n_full n"
  "n_children (recompute n) = n_children n" "n_conn_ids (recompute n) = n_conn_ids n"
  "n_parent (recompute n) = n_parent n" "n_by_conn (recompute n) = n_by_conn n"
  by (simp_all add: recompute_def Let_def)

lemma recompute_recompute [simp]: "recompute (recompute n) = recompute n"
  by (simp add: recompute_def Let_def)

lemma recompute_children: "recompute (n\<lparr>n_children := ks\<rparr>) = (recompute n)\<lparr>n_children := ks\<rparr>"
  by (simp add: recompute_def Let_def)

lemma recompute_conn_ids: "recompute (n\<lparr>n_conn_ids := ks\<rparr>) = (recompute n)\<lparr>n_conn_ids := ks\<rparr>"
  by (simp add: recompute_def Let_def)

lemma drop_entry_fields [simp]:
  "n_segment (drop_entry c n) = n_segment n" "n_full (drop_entry c n) = n_full n"
  "n_children (drop_entry c n) = n_children n" "n_parent (drop_entry c n) = n_parent n"
  "n_by_conn (drop_entry c n) = jm_delete c (n_by_conn n)"
  "n_conn_ids (drop_entry c n) = filter (\<lambda>i. i \<noteq> c) (n_conn_ids n)"
  by (simp_all add: drop_entry_def)

lemma set_entry_fields [simp]:
  "n_segment (set_entry c e n) = n_segment n" "n_full (set_entry c e n) = n_full n"
  "n_children (set_entry c e n) = n_children n" "n_parent (set_entry c e n) = n_parent n"
  "n_by_conn (set_entry c e n) = jm_set c e (n_by_conn n)"
  "n_conn_ids (set_entry c e n) = js_add c (n_conn_ids n)"
  by (simp_all add: set_entry_def js_add_def Let_def)

lemma update_entry_not_Nil [simp]: "jm_set c e m \<noteq> []"
  by (cases m) auto

subsection \<open>Keys\<close>

abbreviation seg_of :: "string \<Rightarrow> string" where
  "seg_of k \<equiv> last (tokens k)"

lemma parent_key_child_key:
  "CHR ''.'' \<notin> set seg \<Longrightarrow> parent_key (child_key p seg) = p"
proof (cases p)
  case None
  assume "CHR ''.'' \<notin> set seg"
  with None show ?thesis by (simp add: child_key_def parent_key_def split_on_single)
next
  case (Some q)
  assume "CHR ''.'' \<notin> set seg"
  with Some have "tokens (child_key p seg) = tokens q @ [seg]"
    by (simp add: child_key_def split_on_snoc)
  moreover have "length (tokens q) \<noteq> 0" by simp
  ultimately show ?thesis using Some by (simp add: parent_key_def Let_def del: length_0_conv)
qed

lemma seg_of_child_key: "CHR ''.'' \<notin> set seg \<Longrightarrow> seg_of (child_key p seg) = seg"
  by (cases p) (simp_all add: child_key_def split_on_single split_on_snoc)

lemma parent_key_not_self: "parent_key s \<noteq> Some s"
  using parent_key_shorter [of s s] by blast

definition below :: "string \<Rightarrow> string \<Rightarrow> bool" where
  "below s k = prefix (tokens s) (tokens k)"

lemma below_refl [simp]: "below s s"
  by (simp add: below_def)

lemma below_child: "parent_key k = Some s \<Longrightarrow> below k x \<Longrightarrow> below s x"
proof -
  assume "parent_key k = Some s" and x: "below k x"
  then have "prefix (tokens s) (tokens k)"
    by (simp only: tokens_parent_key prefixeq_butlast)
  with x show ?thesis unfolding below_def by (rule prefix_order.trans [rotated])
qed

subsection \<open>Well-formedness\<close>

definition by_segment :: "collation \<Rightarrow> string \<Rightarrow> string \<Rightarrow> int" where
  "by_segment lc a b = lc (seg_of a) (seg_of b)"

definition node_ok :: "tree_node \<Rightarrow> bool" where
  "node_ok n = (n_conn_ids n = jm_keys (n_by_conn n) \<and> jm_wf (n_by_conn n) \<and>
     (n_by_conn n \<noteq> [] \<longrightarrow> recompute n = n))"

definition tree_links :: "collation \<Rightarrow> tree_model \<Rightarrow> bool" where
  "tree_links lc T =
     (jm_wf (t_nodes T) \<and>
      (\<forall>k n. tree_get T k = Some n \<longrightarrow>
         n_full n = k \<and> n_segment n = seg_of k \<and> n_parent n = parent_key k \<and> node_ok n \<and>
         k \<in> set (siblings T (parent_key k))) \<and>
      (\<forall>p k. k \<in> set (siblings T p) \<longrightarrow> tree_get T k \<noteq> None \<and> parent_key k = p) \<and>
      (\<forall>p. distinct (siblings T p) \<and> ascending (by_segment lc) (siblings T p)))"

text \<open>No node without an entry and without children, except the one being worked on.\<close>

definition tight_but :: "string option \<Rightarrow> tree_model \<Rightarrow> bool" where
  "tight_but x T = (\<forall>k n. tree_get T k = Some n \<longrightarrow> x \<noteq> Some k \<longrightarrow>
     n_by_conn n \<noteq> [] \<or> n_children n \<noteq> [])"

definition tree_wf :: "collation \<Rightarrow> tree_model \<Rightarrow> bool" where
  "tree_wf lc T = (tree_links lc T \<and> tight_but None T)"

lemma tree_linksD:
  assumes "tree_links lc T"
  shows "jm_wf (t_nodes T)"
    and "tree_get T k = Some n \<Longrightarrow> n_full n = k"
    and "tree_get T k = Some n \<Longrightarrow> n_segment n = seg_of k"
    and "tree_get T k = Some n \<Longrightarrow> n_parent n = parent_key k"
    and "tree_get T k = Some n \<Longrightarrow> node_ok n"
    and "tree_get T k = Some n \<Longrightarrow> k \<in> set (siblings T (parent_key k))"
    and "k \<in> set (siblings T p) \<Longrightarrow> tree_get T k \<noteq> None"
    and "k \<in> set (siblings T p) \<Longrightarrow> parent_key k = p"
    and "distinct (siblings T p)"
    and "ascending (by_segment lc) (siblings T p)"
  using assms unfolding tree_links_def by blast+

lemma tree_wf_empty: "tree_wf lc empty_tree"
  by (auto simp: tree_wf_def tree_links_def tight_but_def empty_tree_def tree_get_def siblings_def
      split: option.splits)

lemma keys_delete: "jm_keys (jm_delete c m) = filter (\<lambda>i. i \<noteq> c) (jm_keys m)"
  by (induction m) auto

lemma keys_js_add: "jm_keys (jm_set c e m) = js_add c (jm_keys m)"
  by (simp add: jm_keys_set js_add_def)

lemma node_ok_set_entry: "node_ok n \<Longrightarrow> node_ok (set_entry c e n)"
proof -
  assume n: "node_ok n"
  then have "n_conn_ids (set_entry c e n) = jm_keys (n_by_conn (set_entry c e n))"
    by (simp add: node_ok_def keys_js_add)
  moreover have "recompute (set_entry c e n) = set_entry c e n"
    by (simp add: set_entry_def Let_def recompute_conn_ids)
  ultimately show ?thesis using n by (simp add: node_ok_def distinct_update)
qed

lemma node_ok_drop_recompute: "node_ok n \<Longrightarrow> node_ok (recompute (drop_entry c n))"
  by (auto simp: node_ok_def keys_delete intro!: distinct_delete)

lemma node_ok_drop_last: "node_ok n \<Longrightarrow> jm_delete c (n_by_conn n) = [] \<Longrightarrow> node_ok (drop_entry c n)"
  by (auto simp: node_ok_def keys_delete) (metis keys_delete list.map_disc_iff)

lemma node_ok_children: "node_ok (n\<lparr>n_children := ks\<rparr>) = node_ok n"
proof -
  have "recompute n = n \<longleftrightarrow> (recompute n)\<lparr>n_children := ks\<rparr> = n\<lparr>n_children := ks\<rparr>"
  proof
    assume "(recompute n)\<lparr>n_children := ks\<rparr> = n\<lparr>n_children := ks\<rparr>"
    then have "((recompute n)\<lparr>n_children := ks\<rparr>)\<lparr>n_children := n_children n\<rparr> =
        (n\<lparr>n_children := ks\<rparr>)\<lparr>n_children := n_children n\<rparr>" by simp
    then show "recompute n = n" by (simp add: recompute_def Let_def)
  qed simp
  then show ?thesis by (simp add: node_ok_def recompute_children)
qed

lemma tree_links_update_node:
  assumes T: "tree_links lc T"
    and f: "\<And>n. n_children (f n) = n_children n" "\<And>n. n_full (f n) = n_full n"
      "\<And>n. n_segment (f n) = n_segment n" "\<And>n. n_parent (f n) = n_parent n"
    and ok: "\<And>n. tree_get T s = Some n \<Longrightarrow> node_ok n \<Longrightarrow> node_ok (f n)"
  shows "tree_links lc (update_node s f T)"
  using T ok unfolding tree_links_def
  by (auto simp: siblings_update_node f split: if_splits)

subsection \<open>Binary search\<close>

lemma insertion_index_bounds:
  assumes "lo \<le> hi" "hi \<le> length segs"
    and mono: "\<And>i j. i < j \<Longrightarrow> j < length segs \<Longrightarrow> lc (segs ! j) seg < 0 \<Longrightarrow> lc (segs ! i) seg < 0"
    and below: "\<forall>j < lo. lc (segs ! j) seg < 0"
    and above: "\<forall>j < length segs. hi \<le> j \<longrightarrow> \<not> lc (segs ! j) seg < 0"
  shows "insertion_index lc segs seg lo hi \<le> length segs \<and>
     (\<forall>j < length segs. lc (segs ! j) seg < 0 \<longleftrightarrow> j < insertion_index lc segs seg lo hi)"
  using assms
proof (induction lc segs seg lo hi rule: insertion_index.induct)
  case (1 lc segs seg lo hi)
  show ?case
  proof (cases "lo < hi")
    case False
    then have eq: "insertion_index lc segs seg lo hi = lo" "lo = hi"
      using "1.prems"(1) unfolding insertion_index.simps [of lc segs seg lo hi] by simp_all
    show ?thesis unfolding eq(1) using "1.prems" eq(2) by (auto simp: not_less)
  next
    case True
    let ?mid = "(lo + hi) div 2"
    have mid: "lo \<le> ?mid" "?mid < hi" using True by auto
    show ?thesis
    proof (cases "lc (segs ! ?mid) seg < 0")
      case less: True
      have eq: "insertion_index lc segs seg lo hi = insertion_index lc segs seg (?mid + 1) hi"
        using True less unfolding insertion_index.simps [of lc segs seg lo hi] by simp
      have lt: "\<forall>j < ?mid + 1. lc (segs ! j) seg < 0"
      proof (intro allI impI)
        fix j assume j: "j < ?mid + 1"
        show "lc (segs ! j) seg < 0"
        proof (cases "j = ?mid")
          case False
          with j have "j < ?mid" by simp
          moreover have "?mid < length segs" using mid "1.prems"(2) by simp
          ultimately show ?thesis using less "1.prems"(3) by blast
        qed (simp only: less)
      qed
      have le: "?mid + 1 \<le> hi" using mid by linarith
      show ?thesis unfolding eq
        by (rule "1.IH"(1) [OF True refl less le "1.prems"(2) "1.prems"(3) lt "1.prems"(5)])
    next
      case ge: False
      have eq: "insertion_index lc segs seg lo hi = insertion_index lc segs seg lo ?mid"
        using True ge unfolding insertion_index.simps [of lc segs seg lo hi] by (simp only: Let_def if_True if_False)
      have gt: "\<forall>j < length segs. ?mid \<le> j \<longrightarrow> \<not> lc (segs ! j) seg < 0"
      proof (intro allI impI)
        fix j assume j: "j < length segs" "?mid \<le> j"
        show "\<not> lc (segs ! j) seg < 0"
        proof (cases "j = ?mid")
          case False
          with j have "?mid < j" by simp
          then show ?thesis using ge "1.prems"(3) j(1) by blast
        qed (simp only: ge not_False_eq_True)
      qed
      have le: "?mid \<le> length segs" using mid "1.prems"(2) by linarith
      show ?thesis unfolding eq
        by (rule "1.IH"(2) [OF True refl ge mid(1) le "1.prems"(3) "1.prems"(4) gt])
    qed
  qed
qed

lemma insertion_index_ascending:
  fixes seg :: string
  assumes "comparator lc" "ascending lc segs"
  defines "i \<equiv> insertion_index lc segs seg 0 (length segs)"
  shows "i \<le> length segs" and "j < length segs \<Longrightarrow> lc (segs ! j) seg < 0 \<longleftrightarrow> j < i"
proof -
  have "lc (segs ! a) seg < 0" if "a < b" "b < length segs" "lc (segs ! b) seg < 0" for a b
    using that assms comparator.less_trans2 sorted_wrt_nth_less by metis
  then have "i \<le> length segs \<and> (\<forall>j < length segs. lc (segs ! j) seg < 0 \<longleftrightarrow> j < i)"
    unfolding i_def by (intro insertion_index_bounds) auto
  then show "i \<le> length segs" and "j < length segs \<Longrightarrow> lc (segs ! j) seg < 0 \<longleftrightarrow> j < i"
    by blast+
qed

text \<open>The binary search of \<open>insertionIndex\<close> returns the first position whose segment is not
  before the new one, in a sibling list sorted by the collation.\<close>

theorem insertion_index_correct:
  assumes "comparator lc" "ascending lc segs"
  shows "insertion_index lc segs seg 0 (length segs) =
     length (takeWhile (\<lambda>s. lc s seg < 0) segs)"
proof -
  let ?i = "insertion_index lc segs seg 0 (length segs)"
  note i = insertion_index_ascending [OF assms, where seg = seg]
  have "takeWhile (\<lambda>s. lc s seg < 0) segs = take ?i segs"
  proof (rule takeWhile_eq_take_P_nth)
    fix j assume "j < ?i" "j < length segs"
    then show "lc (segs ! j) seg < 0" using i(2) by blast
  next
    assume "?i < length segs"
    then show "\<not> lc (segs ! ?i) seg < 0" using i(2) by blast
  qed
  then show ?thesis using i(1) by simp
qed

lemma insertion_index_correct_witness:
  "insertion_index by_code_units [''a'', ''c'', ''d''] ''b'' 0 3 = 1"
proof -
  have c: "comparator by_code_units" by (rule code_units.comparator_axioms)
  have s: "ascending by_code_units [''a'', ''c'', ''d'']" by (simp add: by_code_units_def)
  have "takeWhile (\<lambda>s. by_code_units s ''b'' < 0) [''a'', ''c'', ''d''] = [''a'']"
    by (simp add: by_code_units_def)
  with insertion_index_correct [OF c s, of "''b''"] show ?thesis by (simp add: numeral_3_eq_3)
qed

lemma ascending_splice:
  assumes lc: "comparator cmp" and s: "ascending cmp xs" and i: "i \<le> length xs"
    and idx: "\<And>j. j < length xs \<Longrightarrow> cmp (xs ! j) x < 0 \<longleftrightarrow> j < i"
  shows "ascending cmp (splice_in i x xs)"
proof -
  have 1: "cmp y x \<le> 0" if "y \<in> set (take i xs)" for y
    using that idx by (auto simp: in_set_conv_nth intro!: less_imp_le)
  have 2: "cmp x y \<le> 0" if y: "y \<in> set (drop i xs)" for y
  proof -
    obtain j where "j < length xs" "i \<le> j" "y = xs ! j"
      using y by (auto simp: in_set_conv_nth) (metis add.commute le_add1 less_diff_conv)
    with idx have "\<not> cmp y x < 0" by auto
    then show ?thesis using comparator.gt_flip [OF lc, of x y] by linarith
  qed
  have "sorted_wrt (\<lambda>x y. cmp x y \<le> 0) (take i xs @ drop i xs)" using s by simp
  then show ?thesis
    using 1 2 unfolding splice_in_def sorted_wrt_append by auto
qed

lemma set_splice_in [simp]: "set (splice_in i x xs) = insert x (set xs)"
  unfolding splice_in_def by (metis append_take_drop_id set_append list.simps(15) Un_insert_right)

lemma distinct_splice_in: "distinct xs \<Longrightarrow> x \<notin> set xs \<Longrightarrow> distinct (splice_in i x xs)"
proof -
  assume "distinct xs" "x \<notin> set xs"
  moreover have "mset (splice_in i x xs) = mset (x # xs)"
    unfolding splice_in_def
    by (metis append_take_drop_id mset.simps(2) mset_append union_mset_add_mset_right)
  ultimately show ?thesis by (metis distinct.simps(2) mset_eq_imp_distinct_iff)
qed

end
