(* ===== verification/TreeLaws.thy ===== *)
theory TreeLaws
  imports TreeModel
begin

text \<open>
  What keeps the subject tree consistent: every operation of \<open>TreeModel\<close> preserves the
  well-formedness \<open>tree_wf\<close>, the removal recursion terminates, and the tree as a whole refines
  the map from connection and subject to the newest entry (\<open>contrib\<close>).
\<close>

subsection \<open>What the connections contribute\<close>

definition contrib :: "tree_model \<Rightarrow> string \<Rightarrow> string \<Rightarrow> subject_entry option" where
  "contrib T c s = Option.bind (tree_get T s) (\<lambda>n. jm_get (n_by_conn n) c)"

lemma contrib_update_node:
  "contrib (update_node s f T) c k =
     (if k = s then Option.bind (tree_get T s) (\<lambda>n. jm_get (n_by_conn (f n)) c) else contrib T c k)"
  by (cases "tree_get T s") (simp_all add: contrib_def)

lemma contrib_update_siblings [simp]:
  "contrib (update_siblings p f T) c k = contrib T c k"
  by (cases "tree_get T k") (simp_all add: contrib_def tree_get_update_siblings)

lemma contrib_delete_node [simp]:
  "contrib (T\<lparr>t_nodes := jm_delete s (t_nodes T)\<rparr>) c k = (if k = s then None else contrib T c k)"
  by (simp add: contrib_def)

subsection \<open>Insertion\<close>

lemma siblings_set_nodes:
  "tree_get T full = None \<Longrightarrow> n_children n = [] \<Longrightarrow>
     siblings (T\<lparr>t_nodes := jm_set full n (t_nodes T)\<rparr>) q = siblings T q"
  by (auto simp: siblings_def split: option.splits)

lemma comparator_by_segment: "comparator lc \<Longrightarrow> comparator (by_segment lc)"
  unfolding comparator_def by_segment_def by blast

lemma add_node_shape:
  assumes T: "tree_links lc T" and seg: "CHR ''.'' \<notin> set seg"
    and new: "tree_get T (child_key p seg) = None"
    and par: "p = None \<or> (\<exists>q n. p = Some q \<and> tree_get T q = Some n)"
  shows "siblings (add_node lc p seg T) q =
      (if q = p then splice_in (insertion_index lc (map (segment_of T) (siblings T p)) seg 0
         (length (siblings T p))) (child_key p seg) (siblings T p) else siblings T q)"
    and "tree_get (add_node lc p seg T) k =
      (if k = child_key p seg then Some (new_node seg (child_key p seg) p)
       else if p = Some k then map_option (\<lambda>n. n\<lparr>n_children :=
          splice_in (insertion_index lc (map (segment_of T) (siblings T p)) seg 0
             (length (siblings T p))) (child_key p seg) (n_children n)\<rparr>) (tree_get T k)
       else tree_get T k)"
proof -
  let ?i = "insertion_index lc (map (segment_of T) (siblings T p)) seg 0 (length (siblings T p))"
  let ?T1 = "update_siblings p (splice_in ?i (child_key p seg)) T"
  have ne: "p \<noteq> Some (child_key p seg)" using new par by auto
  have none: "tree_get ?T1 (child_key p seg) = None"
    using new ne by (simp add: tree_get_update_siblings)
  have "siblings (add_node lc p seg T) q = siblings ?T1 q"
    using none by (simp add: add_node_def Let_def siblings_set_nodes new_node_def)
  also have "\<dots> = (if q = p then splice_in ?i (child_key p seg) (siblings T p) else siblings T q)"
    using par by (simp add: siblings_update_siblings)
  finally show "siblings (add_node lc p seg T) q =
      (if q = p then splice_in ?i (child_key p seg) (siblings T p) else siblings T q)" .
  show "tree_get (add_node lc p seg T) k =
      (if k = child_key p seg then Some (new_node seg (child_key p seg) p)
       else if p = Some k then map_option (\<lambda>n. n\<lparr>n_children :=
          splice_in ?i (child_key p seg) (n_children n)\<rparr>) (tree_get T k)
       else tree_get T k)"
    by (simp add: add_node_def Let_def tree_get_update_siblings)
qed

lemma add_node_ascending:
  assumes lc: "comparator lc" and T: "tree_links lc T" and seg: "CHR ''.'' \<notin> set seg"
  shows "ascending (by_segment lc) (splice_in (insertion_index lc (map (segment_of T) (siblings T p)) seg 0
         (length (siblings T p))) (child_key p seg) (siblings T p))"
proof -
  let ?sibs = "siblings T p"
  have segs: "map (segment_of T) ?sibs = map seg_of ?sibs"
    using tree_linksD(3,7) [OF T] by (fastforce simp: segment_of_def)
  have asc: "ascending lc (map (segment_of T) ?sibs)"
    using tree_linksD(10) [OF T, of p] by (simp add: segs sorted_wrt_map by_segment_def)
  note i = insertion_index_ascending [OF lc asc, where seg = seg]
  show ?thesis
  proof (rule ascending_splice [OF comparator_by_segment [OF lc] tree_linksD(10) [OF T]])
    show "insertion_index lc (map (segment_of T) ?sibs) seg 0 (length ?sibs) \<le> length ?sibs"
      using i(1) by simp
  next
    fix j assume "j < length ?sibs"
    then show "by_segment lc (?sibs ! j) (child_key p seg) < 0 \<longleftrightarrow>
        j < insertion_index lc (map (segment_of T) ?sibs) seg 0 (length ?sibs)"
      using i(2) [of j] seg by (simp add: segs by_segment_def seg_of_child_key)
  qed
qed

lemma tree_links_add_node:
  assumes lc: "comparator lc" and T: "tree_links lc T" and seg: "CHR ''.'' \<notin> set seg"
    and new: "tree_get T (child_key p seg) = None"
    and par: "p = None \<or> (\<exists>q n. p = Some q \<and> tree_get T q = Some n)"
  shows "tree_links lc (add_node lc p seg T)"
proof -
  let ?k = "child_key p seg"
  let ?T = "add_node lc p seg T"
  note shape = add_node_shape [OF assms(2-)]
  have fresh: "?k \<notin> set (siblings T q)" for q using tree_linksD(7) [OF T, of ?k q] new by auto
  have "jm_wf (t_nodes ?T)"
    using tree_linksD(1) [OF T] by (simp add: add_node_def Let_def)
  moreover have "n_full n = k \<and> n_segment n = seg_of k \<and> n_parent n = parent_key k \<and> node_ok n \<and>
      k \<in> set (siblings ?T (parent_key k))" if k: "tree_get ?T k = Some n" for k n
  proof (cases "k = ?k")
    case True
    with k shape(2) have "n = new_node seg ?k p" by simp
    with True seg show ?thesis
      by (simp add: new_node_def seg_of_child_key parent_key_child_key shape(1) node_ok_def)
  next
    case False
    with k shape(2) obtain m where m: "tree_get T k = Some m"
      "n = m \<or> (\<exists>ks. n = m\<lparr>n_children := ks\<rparr>)" by (auto split: if_splits)
    with tree_linksD(2-6) [OF T m(1)] show ?thesis
      by (auto simp: shape(1) node_ok_children)
  qed
  moreover have "tree_get ?T k \<noteq> None \<and> parent_key k = q" if k: "k \<in> set (siblings ?T q)" for k q
  proof (cases "k = ?k")
    case True
    then have "q = p" using k fresh [of q] by (simp add: shape(1) split: if_splits)
    with True seg show ?thesis by (simp add: shape(2) parent_key_child_key)
  next
    case False
    with k have "k \<in> set (siblings T q)" by (simp add: shape(1) split: if_splits)
    with tree_linksD(7,8) [OF T] False show ?thesis by (auto simp: shape(2))
  qed
  moreover have "distinct (siblings ?T q) \<and> ascending (by_segment lc) (siblings ?T q)" for q
    using tree_linksD(9,10) [OF T, of q] fresh [of p]
    by (auto simp: shape(1) distinct_splice_in add_node_ascending [OF lc T seg])
  ultimately show ?thesis unfolding tree_links_def by blast
qed

lemma tight_add_node:
  assumes T: "tree_links lc T" and seg: "CHR ''.'' \<notin> set seg"
    and new: "tree_get T (child_key p seg) = None"
    and par: "p = None \<or> (\<exists>q n. p = Some q \<and> tree_get T q = Some n)"
    and tight: "tight_but p T"
  shows "tight_but (Some (child_key p seg)) (add_node lc p seg T)"
  using tight unfolding tight_but_def add_node_shape(2) [OF T seg new par]
  by (auto simp: splice_in_def)

lemma contrib_add_node:
  assumes T: "tree_links lc T" and seg: "CHR ''.'' \<notin> set seg"
    and new: "tree_get T (child_key p seg) = None"
    and par: "p = None \<or> (\<exists>q n. p = Some q \<and> tree_get T q = Some n)"
  shows "contrib (add_node lc p seg T) c k = contrib T c k"
  using new by (cases "tree_get T k")
    (auto simp: contrib_def add_node_shape(2) [OF T seg new par] new_node_def)

text \<open>After \<open>insert\<close> the path exists, nothing else has changed in what the connections
  contributed, and only the node at its end may still be empty.\<close>

lemma insert_path_spec:
  assumes lc: "comparator lc" and "tree_links lc T" "\<forall>seg \<in> set segs. CHR ''.'' \<notin> set seg"
    and "p = None \<or> (\<exists>q n. p = Some q \<and> tree_get T q = Some n)" "tight_but p T"
  defines "s \<equiv> foldl (\<lambda>p seg. Some (child_key p seg)) p segs"
  shows "tree_links lc (insert_path lc p segs T) \<and> tight_but s (insert_path lc p segs T) \<and>
     (s = None \<or> (\<exists>q n. s = Some q \<and> tree_get (insert_path lc p segs T) q = Some n)) \<and>
     (\<forall>c k. contrib (insert_path lc p segs T) c k = contrib T c k)"
  using assms(2-5) unfolding s_def
proof (induction segs arbitrary: p T)
  case Nil
  then show ?case by simp
next
  case (Cons seg segs)
  let ?k = "child_key p seg"
  let ?T1 = "if tree_get T ?k = None then add_node lc p seg T else T"
  have seg: "CHR ''.'' \<notin> set seg" using Cons.prems(2) by simp
  have 1: "tree_links lc ?T1 \<and> tight_but (Some ?k) ?T1 \<and> (\<exists>n. tree_get ?T1 ?k = Some n) \<and>
      (\<forall>c k. contrib ?T1 c k = contrib T c k)"
  proof (cases "tree_get T ?k = None")
    case True
    then show ?thesis
      using tree_links_add_node [OF lc Cons.prems(1) seg True Cons.prems(3)]
        tight_add_node [OF Cons.prems(1) seg True Cons.prems(3,4)]
        contrib_add_node [OF Cons.prems(1) seg True Cons.prems(3)]
        add_node_shape(2) [OF Cons.prems(1) seg True Cons.prems(3), of ?k] by simp
  next
    case False
    then obtain n where n: "tree_get T ?k = Some n" by blast
    have "tight_but (Some ?k) T"
      unfolding tight_but_def
    proof (intro allI impI)
      fix k m assume k: "tree_get T k = Some m" "Some ?k \<noteq> Some k"
      show "n_by_conn m \<noteq> [] \<or> n_children m \<noteq> []"
      proof (cases "p = Some k")
        case True
        have "?k \<in> set (siblings T p)"
          using tree_linksD(6) [OF Cons.prems(1) n] seg by (simp add: parent_key_child_key)
        then show ?thesis using True k by (auto simp: siblings_def)
      next
        case False
        with k Cons.prems(4) show ?thesis by (simp add: tight_but_def)
      qed
    qed
    with False n Cons.prems(1) show ?thesis by simp
  qed
  then have "tree_links lc ?T1" "\<forall>seg \<in> set segs. CHR ''.'' \<notin> set seg"
    "Some ?k = None \<or> (\<exists>q n. Some ?k = Some q \<and> tree_get ?T1 q = Some n)" "tight_but (Some ?k) ?T1"
    using Cons.prems(2) by auto
  from Cons.IH [OF this] 1 show ?case by (simp add: Let_def)
qed

lemma foldl_child_key_Some:
  "foldl (\<lambda>p seg. Some (child_key p seg)) (Some q) segs = Some (join_with (CHR ''.'') (q # segs))"
proof (induction segs arbitrary: q)
  case (Cons seg segs)
  have "join_with d ((q @ d # seg) # segs) = join_with d (q # seg # segs)" for d :: char
    by (cases segs) simp_all
  with Cons.IH show ?case by (simp add: child_key_def del: join_with.simps)
qed simp

lemma foldl_child_key:
  "segs \<noteq> [] \<Longrightarrow> foldl (\<lambda>p seg. Some (child_key p seg)) None segs = Some (join_with (CHR ''.'') segs)"
  using foldl_child_key_Some by (cases segs) (simp_all add: child_key_def)

lemma tree_insert_spec:
  assumes lc: "comparator lc" and "tree_wf lc T"
  shows "tree_links lc (tree_insert lc s T) \<and> tight_but (Some s) (tree_insert lc s T) \<and>
     tree_get (tree_insert lc s T) s \<noteq> None \<and>
     (\<forall>c k. contrib (tree_insert lc s T) c k = contrib T c k)"
proof -
  have "tree_links lc T" "\<forall>seg \<in> set (tokens s). CHR ''.'' \<notin> set seg"
    "None = None \<or> (\<exists>q n. None = Some q \<and> tree_get T q = Some n)" "tight_but None T"
    using assms(2) by (auto simp: tree_wf_def dest: split_on_parts)
  from insert_path_spec [OF lc this] show ?thesis
    by (auto simp: tree_insert_def foldl_child_key)
qed

lemma apply_entry_spec:
  assumes lc: "comparator lc" and "tree_wf lc T"
  shows "tree_wf lc (apply_entry lc c e T) \<and>
     contrib (apply_entry lc c e T) c' k = (if c' = c \<and> k = e_s e then Some e else contrib T c' k)"
proof -
  let ?s = "e_s e"
  let ?T1 = "if tree_get T ?s = None then tree_insert lc ?s T else T"
  have tight: "tight_but None T \<Longrightarrow> tight_but (Some ?s) T" by (simp add: tight_but_def)
  have 1: "tree_links lc ?T1" "tight_but (Some ?s) ?T1" "tree_get ?T1 ?s \<noteq> None"
    "contrib ?T1 c' k = contrib T c' k"
    using assms tree_insert_spec [OF assms, of ?s] tight by (auto simp: tree_wf_def)
  from 1(3) obtain n where n: "tree_get ?T1 ?s = Some n" by blast
  have "tree_links lc (update_node ?s (set_entry c e) ?T1)"
    using 1(1) by (rule tree_links_update_node) (simp_all add: node_ok_set_entry)
  moreover have "tight_but None (update_node ?s (set_entry c e) ?T1)"
    using 1(2) unfolding tight_but_def by auto
  moreover have "contrib (update_node ?s (set_entry c e) ?T1) c' k =
      (if c' = c \<and> k = ?s then Some e else contrib T c' k)"
    using 1(4) n by (auto simp: contrib_update_node contrib_def)
  ultimately show ?thesis by (simp add: apply_entry_def Let_def tree_wf_def)
qed

subsection \<open>Detaching a node\<close>

definition unlink :: "string \<Rightarrow> tree_model \<Rightarrow> tree_model" where
  "unlink s T = (let T1 = update_siblings (parent_key s) (remove1 s) T
     in T1\<lparr>t_nodes := jm_delete s (t_nodes T1)\<rparr>)"

lemma detach_unlink:
  "detach s T = (case parent_key s of None \<Rightarrow> unlink s T
     | Some p \<Rightarrow> (case tree_get (unlink s T) p of None \<Rightarrow> detach p (unlink s T)
         | Some pn \<Rightarrow> if n_by_conn pn = [] \<and> n_children pn = [] then detach p (unlink s T) else unlink s T))"
  unfolding detach.simps [of s T] unlink_def Let_def by (rule refl)

lemma tree_get_unlink:
  "tree_get (unlink s T) k =
     (if k = s then None
      else if parent_key s = Some k then map_option (\<lambda>n. n\<lparr>n_children := remove1 s (n_children n)\<rparr>) (tree_get T k)
      else tree_get T k)"
  by (simp add: unlink_def Let_def tree_get_update_siblings)

lemma siblings_unlink:
  assumes T: "tree_links lc T" and empty: "siblings T (Some s) = []"
  shows "siblings (unlink s T) p = remove1 s (siblings T p)"
proof (cases p)
  case None
  have "t_roots (unlink s T) = (if parent_key s = None then remove1 s (t_roots T) else t_roots T)"
    by (auto simp: unlink_def Let_def update_siblings_def split: option.splits)
  moreover have "s \<notin> set (siblings T None)" if "parent_key s \<noteq> None"
    using tree_linksD(8) [OF T] that by metis
  ultimately show ?thesis using None by (auto simp: siblings_def remove1_idem)
next
  case (Some q)
  have "s \<notin> set (siblings T (Some q))" if "parent_key s \<noteq> Some q"
    using tree_linksD(8) [OF T] that by metis
  then show ?thesis
    using Some empty by (auto simp: siblings_def tree_get_unlink remove1_idem split: option.splits)
qed

lemma remove1_filter: "distinct xs \<Longrightarrow> remove1 x xs = filter (\<lambda>y. y \<noteq> x) xs"
  by (simp add: distinct_remove1_removeAll removeAll_filter_not_eq) metis

lemma tree_links_unlink:
  assumes T: "tree_links lc T" and empty: "siblings T (Some s) = []"
  shows "tree_links lc (unlink s T)"
proof -
  note sib = siblings_unlink [OF assms]
  have "jm_wf (t_nodes (unlink s T))"
    using tree_linksD(1) [OF T] by (simp add: unlink_def Let_def distinct_delete)
  moreover have "n_full n = k \<and> n_segment n = seg_of k \<and> n_parent n = parent_key k \<and> node_ok n \<and>
      k \<in> set (siblings (unlink s T) (parent_key k))" if k: "tree_get (unlink s T) k = Some n" for k n
  proof -
    from k have ks: "k \<noteq> s" by (auto simp: tree_get_unlink)
    from k obtain m where m: "tree_get T k = Some m" "n = m \<or> (\<exists>ks. n = m\<lparr>n_children := ks\<rparr>)"
      by (auto simp: tree_get_unlink split: if_splits)
    with tree_linksD(2-6) [OF T m(1)] ks show ?thesis by (auto simp: sib node_ok_children)
  qed
  moreover have "tree_get (unlink s T) k \<noteq> None \<and> parent_key k = q"
    if k: "k \<in> set (siblings (unlink s T) q)" for k q
  proof -
    have "k \<in> set (siblings T q)" "k \<noteq> s"
      using k tree_linksD(9) [OF T, of q] by (auto simp: sib)
    with tree_linksD(7,8) [OF T] show ?thesis by (auto simp: tree_get_unlink)
  qed
  moreover have "distinct (siblings (unlink s T) q) \<and> ascending (by_segment lc) (siblings (unlink s T) q)" for q
    using tree_linksD(9,10) [OF T, of q] by (simp add: sib remove1_filter sorted_wrt_filter)
  ultimately show ?thesis unfolding tree_links_def by blast
qed

lemma siblings_empty:
  assumes "tree_get T s = None \<or> (\<exists>n. tree_get T s = Some n \<and> n_children n = [])"
  shows "siblings T (Some s) = []"
  using assms by (auto simp: siblings_def)

lemma contrib_unlink: "contrib (unlink s T) c k = (if k = s then None else contrib T c k)"
  by (simp add: unlink_def Let_def)

lemma unlink_absent:
  assumes T: "tree_links lc T" and s: "tree_get T s = None"
  shows "unlink s T = T"
proof -
  have del: "jm_delete s (t_nodes T) = t_nodes T"
    using s by (simp add: tree_get_def map_of_eq_None_iff delete_idem)
  have no: "s \<notin> set (siblings T p)" for p using tree_linksD(7) [OF T] s by metis
  have "update_siblings (parent_key s) (remove1 s) T = T"
  proof (cases "parent_key s")
    case None
    with no [of None] show ?thesis by (simp add: update_siblings_def siblings_def remove1_idem)
  next
    case (Some p)
    have "AList.map_entry p (\<lambda>n. n\<lparr>n_children := remove1 s (n_children n)\<rparr>) m = m"
      if "jm_wf m" "\<And>n. jm_get m p = Some n \<Longrightarrow> s \<notin> set (n_children n)"
      for m :: "(string, tree_node) jsmap"
      using that by (induction m) (auto simp: remove1_idem)
    moreover have "s \<notin> set (n_children n)" if "jm_get (t_nodes T) p = Some n" for n
      using no [of "Some p"] that by (simp add: siblings_def tree_get_def)
    ultimately show ?thesis
      using Some tree_linksD(1) [OF T] by (simp add: update_siblings_def update_node_def)
  qed
  with del show ?thesis by (simp add: unlink_def Let_def)
qed

text \<open>Detaching again a node that has already left changes nothing.\<close>

lemma detach_absent:
  assumes T: "tree_wf lc T" and s: "tree_get T s = None"
  shows "detach s T = T"
  using assms
proof (induction "length (tokens s)" arbitrary: s rule: less_induct)
  case less
  then have u: "unlink s T = T" using unlink_absent [of lc T s] by (simp add: tree_wf_def)
  show ?case
  proof (cases "parent_key s")
    case None
    then show ?thesis using u by (simp add: detach_unlink [of s])
  next
    case (Some p)
    show ?thesis
    proof (cases "tree_get T p")
      case None
      then have "detach p T = T" using less Some parent_key_shorter by blast
      then show ?thesis using None Some u by (simp add: detach_unlink [of s])
    next
      case (Some pn)
      then have "\<not> (n_by_conn pn = [] \<and> n_children pn = [])"
        using less.prems(1) by (auto simp: tree_wf_def tight_but_def)
      then show ?thesis using \<open>parent_key s = Some p\<close> Some u
        by (auto simp: detach_unlink [of s])
    qed
  qed
qed

lemma entry_count_update_node:
  assumes "jm_wf (t_nodes T)" "tree_get T s = Some n" "\<And>n. n_by_conn (f n) = g (n_by_conn n)"
  shows "entry_count (update_node s f T) + length (n_by_conn n) = entry_count T + length (g (n_by_conn n))"
proof -
  have "sum_list (map (\<lambda>n. length (n_by_conn n)) (map snd (AList.map_entry s f m))) + length (n_by_conn n) =
      sum_list (map (\<lambda>n. length (n_by_conn n)) (map snd m)) + length (g (n_by_conn n))"
    if "jm_wf m" "jm_get m s = Some n" for m :: "(string, tree_node) jsmap"
    using that assms(3)
  proof (induction m)
    case (Cons x m)
    have "AList.map_entry s f m = m" if "s \<notin> fst ` set m" for m :: "(string, tree_node) jsmap"
      using that by (induction m) auto
    with Cons show ?case by (cases x) auto
  qed simp
  then show ?thesis using assms by (simp add: entry_count_def update_node_def tree_get_def)
qed

lemma entry_count_unlink_le: "entry_count (unlink s T) \<le> entry_count T"
proof -
  have "sum_list (map f (map snd (jm_delete s m))) \<le> sum_list (map f (map snd m))"
    for m :: "(string, tree_node) jsmap" and f :: "tree_node \<Rightarrow> nat"
    by (induction m) (auto intro: le_SucI trans_le_add2)
  moreover have "map (\<lambda>n. length (n_by_conn n)) (jm_values (t_nodes (update_siblings p f T))) =
      map (\<lambda>n. length (n_by_conn n)) (jm_values (t_nodes T))" for p f
  proof -
    have "map (\<lambda>n. length (n_by_conn n)) (map snd (AList.map_entry q (\<lambda>n. n\<lparr>n_children := f (n_children n)\<rparr>) m)) =
        map (\<lambda>n. length (n_by_conn n)) (map snd m)" for q and m :: "(string, tree_node) jsmap"
      by (induction m) auto
    then show ?thesis by (cases p) (simp_all add: update_siblings_def update_node_def)
  qed
  ultimately show ?thesis by (simp add: entry_count_def unlink_def Let_def) (metis (no_types, lifting))
qed

lemma detach_spec:
  assumes "tree_links lc T" "tight_but (Some s) T" "tree_get T s = Some n"
    and "n_by_conn n = []" "n_children n = []"
  shows "tree_wf lc (detach s T) \<and> entry_count (detach s T) \<le> entry_count T \<and>
     (\<forall>c k. contrib (detach s T) c k = contrib T c k)"
  using assms
proof (induction "length (tokens s)" arbitrary: s T n rule: less_induct)
  case less
  let ?U = "unlink s T"
  have links: "tree_links lc ?U"
    using less.prems by (intro tree_links_unlink siblings_empty) auto
  have con: "contrib ?U c k = contrib T c k" for c k
    using less.prems by (simp add: contrib_unlink) (simp add: contrib_def)
  have cnt: "entry_count ?U \<le> entry_count T" by (rule entry_count_unlink_le)
  have tight: "tight_but (parent_key s) ?U"
    using less.prems(2) unfolding tight_but_def by (auto simp: tree_get_unlink split: if_splits)
  show ?case
  proof (cases "parent_key s")
    case None
    then show ?thesis using links tight con cnt by (simp add: detach_unlink [of s] tree_wf_def)
  next
    case (Some p)
    have "s \<in> set (siblings T (Some p))"
      using tree_linksD(6) [OF less.prems(1,3)] Some by simp
    then obtain m where "tree_get T p = Some m"
      by (cases "tree_get T p") (simp_all add: siblings_def)
    then obtain pn where pn: "tree_get ?U p = Some pn"
      using Some parent_key_not_self [of s] by (auto simp: tree_get_unlink)
    show ?thesis
    proof (cases "n_by_conn pn = [] \<and> n_children pn = []")
      case True
      then have "detach s T = detach p ?U" using Some pn by (simp add: detach_unlink [of s])
      then show ?thesis
        using less.hyps [OF parent_key_shorter [OF Some] links _ pn] tight True Some con cnt
        by (auto intro: order_trans)
    next
      case False
      then have "detach s T = ?U" using Some pn by (auto simp: detach_unlink [of s])
      moreover have "tight_but None ?U"
        using tight False pn Some unfolding tight_but_def by (metis option.inject)
      ultimately show ?thesis using links con cnt by (simp add: tree_wf_def)
    qed
  qed
qed

subsection \<open>Removing a contribution\<close>

text \<open>What a removal of the entry of \<open>c\<close> at \<open>s\<close> may do to a tree, seen from outside: it stays
  well formed, holds no more entries than before, has lost this entry, and every other entry it
  has lost was below \<open>s\<close>.\<close>

definition removal :: "collation \<Rightarrow> string \<Rightarrow> tree_model \<Rightarrow> tree_model \<Rightarrow> bool" where
  "removal lc s T T' = (tree_wf lc T' \<and> entry_count T' \<le> entry_count T \<and>
     (\<forall>c k. contrib T' c k = contrib T c k \<or> below s k \<and> contrib T' c k = None))"

lemma removalD:
  assumes "removal lc s T T'"
  shows "tree_wf lc T'" "entry_count T' \<le> entry_count T"
    "contrib T' c k = contrib T c k \<or> below s k \<and> contrib T' c k = None"
  using assms by (auto simp: removal_def)

lemma removal_refl: "tree_wf lc T \<Longrightarrow> removal lc s T T"
  by (simp add: removal_def)

lemma removal_trans:
  assumes "removal lc s T U" "removal lc s U V"
  shows "removal lc s T V"
  using assms unfolding removal_def by (metis order_trans)

lemma removal_below:
  assumes "removal lc k T U" "\<And>x. below k x \<Longrightarrow> below s x"
  shows "removal lc s T U"
  using assms unfolding removal_def by blast

text \<open>A fold of partial removals is a removal when each of them is one.\<close>

lemma foldl_bind_removal:
  assumes "\<And>x T. x \<in> set xs \<Longrightarrow> tree_wf lc T \<Longrightarrow> entry_count T \<le> m \<Longrightarrow>
      \<exists>T'. f x T = Some T' \<and> removal lc s T T'"
    and "tree_wf lc T" "entry_count T \<le> m"
  shows "\<exists>T'. foldl (\<lambda>r x. Option.bind r (f x)) (Some T) xs = Some T' \<and> removal lc s T T'"
  using assms
proof (induction xs arbitrary: T)
  case Nil
  then show ?case by (simp add: removal_refl)
next
  case (Cons x xs)
  from Cons.prems obtain U where U: "f x T = Some U" "removal lc s T U" by fastforce
  have "\<exists>T'. foldl (\<lambda>r x. Option.bind r (f x)) (Some U) xs = Some T' \<and> removal lc s U T'"
  proof (rule Cons.IH)
    show "tree_wf lc U" using U(2) by (rule removalD)
    show "entry_count U \<le> m" using removalD(2) [OF U(2)] Cons.prems(3) by linarith
  qed (simp add: Cons.prems(1))
  with U show ?case by (auto intro: removal_trans)
qed

lemma remove_children_removal:
  assumes rm: "\<And>i k T. tree_wf lc T \<Longrightarrow> entry_count T \<le> m \<Longrightarrow>
      \<exists>T'. rm i k T = Some T' \<and> removal lc k T T'"
    and ks: "\<And>k. k \<in> set ks \<Longrightarrow> parent_key k = Some s"
    and T: "tree_wf lc T" "entry_count T \<le> m"
  shows "\<exists>T'. remove_children rm ks T = Some T' \<and> removal lc s T T'"
  unfolding remove_children_def
proof (rule foldl_bind_removal [OF _ T])
  fix k U assume k: "k \<in> set ks" and U: "tree_wf lc U" "entry_count U \<le> m"
  show "\<exists>T'. remove_child rm k U = Some T' \<and> removal lc s U T'"
    unfolding remove_child_def
  proof (rule foldl_bind_removal [OF _ U])
    fix i V assume "tree_wf lc V" "entry_count V \<le> m"
    from rm [OF this, of i k] obtain V' where V': "rm i k V = Some V'" "removal lc k V V'" by blast
    from V'(2) have "removal lc s V V'" using below_child [OF ks [OF k]] by (rule removal_below)
    with V'(1) show "\<exists>V'. rm i k V = Some V' \<and> removal lc s V V'" by blast
  qed
qed

lemma length_delete_Some:
  "jm_wf m \<Longrightarrow> jm_has m c \<Longrightarrow> Suc (length (jm_delete c m)) = length m"
proof (induction m)
  case (Cons x m)
  have "jm_delete c m = m" if "c \<notin> fst ` set m" for m :: "('a, 'b) jsmap"
    using that by (simp add: delete_idem)
  with Cons show ?case by (cases x) (auto simp: jm_has_iff)
qed (simp add: jm_has_def)

text \<open>Deleting the entry itself, before the node is looked at again.\<close>

lemma drop_entry_step:
  assumes T: "tree_wf lc T" and n: "tree_get T s = Some n" "jm_has (n_by_conn n) c"
  defines "T1 \<equiv> update_node s (drop_entry c) T"
  shows "Suc (entry_count T1) = entry_count T"
    and "contrib T1 c' k = (if c' = c \<and> k = s then None else contrib T c' k)"
    and "n_by_conn (drop_entry c n) = [] \<Longrightarrow> tree_links lc T1"
    and "tight_but (Some s) T1"
proof -
  have links: "tree_links lc T" using T by (simp add: tree_wf_def)
  have ok: "node_ok n" using links n(1) by (rule tree_linksD)
  have "entry_count T1 + length (n_by_conn n) = entry_count T + length (jm_delete c (n_by_conn n))"
    unfolding T1_def by (rule entry_count_update_node [OF tree_linksD(1) [OF links] n(1)]) simp
  moreover have "Suc (length (jm_delete c (n_by_conn n))) = length (n_by_conn n)"
    using ok n(2) by (intro length_delete_Some) (simp_all add: node_ok_def)
  ultimately show "Suc (entry_count T1) = entry_count T" by linarith
  show "contrib T1 c' k = (if c' = c \<and> k = s then None else contrib T c' k)"
    unfolding T1_def using n(1) by (auto simp: contrib_update_node contrib_def)
  show "tight_but (Some s) T1"
    using T unfolding T1_def tree_wf_def tight_but_def by auto
  assume e: "n_by_conn (drop_entry c n) = []"
  show "tree_links lc T1"
    unfolding T1_def using links
    by (rule tree_links_update_node) (use n(1) e node_ok_drop_last in auto)
qed

lemma remove_fuel_removal:
  assumes "tree_wf lc T" "entry_count T < fuel"
  shows "\<exists>T'. remove_fuel fuel c s T = Some T' \<and> removal lc s T T' \<and> contrib T' c s = None"
  using assms
proof (induction fuel arbitrary: c s T)
  case 0
  then show ?case by simp
next
  case (Suc fuel)
  show ?case
  proof (cases "contrib T c s")
    case None
    then show ?thesis
      using removal_refl [OF Suc.prems(1)]
      by (auto simp: contrib_def jm_has_def split: option.splits)
  next
    case (Some e)
    then obtain n where n: "tree_get T s = Some n" "jm_has (n_by_conn n) c"
      by (cases "tree_get T s") (auto simp: contrib_def jm_has_def)
    let ?T1 = "update_node s (drop_entry c) T"
    note step = drop_entry_step [OF Suc.prems(1) n]
    have rem1: "removal lc s T U"
      if "tree_wf lc U" "entry_count U \<le> entry_count ?T1" "\<And>c k. contrib U c k = contrib ?T1 c k" for U
      using that step(1,2) unfolding removal_def by auto
    show ?thesis
    proof (cases "n_by_conn (drop_entry c n) = []")
      case False
      have up: "update_node s recompute ?T1 = update_node s (recompute \<circ> drop_entry c) T"
        by (rule update_node_update_node)
      have "tree_links lc (update_node s (recompute \<circ> drop_entry c) T)"
        using Suc.prems(1) by (intro tree_links_update_node)
          (simp_all add: tree_wf_def node_ok_drop_recompute)
      moreover have "tight_but None (update_node s (recompute \<circ> drop_entry c) T)"
        unfolding tight_but_def
      proof (intro allI impI)
        fix k m assume k: "tree_get (update_node s (recompute \<circ> drop_entry c) T) k = Some m"
        show "n_by_conn m \<noteq> [] \<or> n_children m \<noteq> []"
        proof (cases "k = s")
          case True
          with k n(1) False show ?thesis by auto
        next
          case False
          with k have "tree_get ?T1 k = Some m" by simp
          with step(4) False show ?thesis unfolding tight_but_def by blast
        qed
      qed
      ultimately have wf: "tree_wf lc (update_node s recompute ?T1)" by (simp add: up tree_wf_def)
      have cnt: "entry_count (update_node s recompute ?T1) = entry_count ?T1"
        using entry_count_update_node [of ?T1 s "drop_entry c n" recompute "\<lambda>m. m"]
          Suc.prems(1) n(1) tree_linksD(1) [of lc T] by (simp add: tree_wf_def)
      have con: "contrib (update_node s recompute ?T1) c k = contrib ?T1 c k" for c k
        by (cases "tree_get T s") (simp_all add: contrib_def)
      from rem1 [OF wf _ con] cnt step(2) con n False show ?thesis by simp
    next
      case True
      have links: "tree_links lc ?T1" using step(3) True .
      have n1: "tree_get ?T1 s = Some (drop_entry c n)" using n(1) by simp
      show ?thesis
      proof (cases "n_children n = []")
        case empty: True
        have "remove_fuel (Suc fuel) c s T = Some (detach s ?T1)"
          using n True empty by (simp add: remove_children_def)
        then show ?thesis
          using detach_spec [OF links step(4) n1 True] empty rem1 [of "detach s ?T1"] step(2) by simp
      next
        case False
        have wf: "tree_wf lc ?T1"
          using links step(4) n1 False unfolding tree_wf_def tight_but_def
          by (metis drop_entry_fields(3) option.inject)
        have "parent_key k = Some s" if "k \<in> set (n_children n)" for k
          using that tree_linksD(8) [OF links, of k "Some s"] n(1) by (simp add: siblings_def)
        moreover have "\<exists>T'. remove_fuel fuel i k U = Some T' \<and> removal lc k U T'"
          if "tree_wf lc U" "entry_count U \<le> entry_count ?T1" for i k U
          using Suc.IH [OF that(1)] that(2) step(1) Suc.prems(2) by fastforce
        ultimately obtain T2 where T2: "remove_children (remove_fuel fuel) (n_children n) ?T1 = Some T2"
          "removal lc s ?T1 T2"
          using remove_children_removal [OF _ _ wf order_refl] by metis
        have absent: "tree_get T2 s = None \<Longrightarrow> detach s T2 = T2"
          using removalD(1) [OF T2(2)] by (rule detach_absent)
        have present: "n_by_conn n2 \<noteq> [] \<or> n_children n2 \<noteq> []" if "tree_get T2 s = Some n2" for n2
          using removalD(1) [OF T2(2)] that by (simp add: tree_wf_def tight_but_def)
        have "remove_fuel (Suc fuel) c s T = Some T2"
          using n True T2(1) absent present by (simp split: option.splits)
        moreover have "contrib T2 c s = None"
          using removalD(3) [OF T2(2), of c s] step(2) [of c s] by auto
        moreover have "removal lc s T T2"
          using rem1 [OF wf] T2(2) by (auto intro: removal_trans)
        ultimately show ?thesis by blast
      qed
    qed
  qed
qed

subsection \<open>The fuel\<close>

lemma foldl_bind_None [simp]: "foldl (\<lambda>r x. Option.bind r (f x)) None xs = None"
  by (induction xs) auto

lemma foldl_bind_mono:
  assumes "foldl (\<lambda>r x. Option.bind r (f x)) (Some T) xs = Some T'"
    and "\<And>x U V. f x U = Some V \<Longrightarrow> g x U = Some V"
  shows "foldl (\<lambda>r x. Option.bind r (g x)) (Some T) xs = Some T'"
  using assms(1)
proof (induction xs arbitrary: T)
  case (Cons x xs)
  then obtain U where "f x T = Some U" by (cases "f x T") auto
  with Cons assms(2) show ?case by auto
qed simp

lemma remove_children_mono:
  assumes "remove_children rm ks T = Some T'"
    and "\<And>i k U V. rm i k U = Some V \<Longrightarrow> rm' i k U = Some V"
  shows "remove_children rm' ks T = Some T'"
  using assms(1) unfolding remove_children_def remove_child_def
  by (rule foldl_bind_mono) (erule foldl_bind_mono, rule assms(2))

lemma remove_fuel_Suc: "remove_fuel f c s T = Some T' \<Longrightarrow> remove_fuel (Suc f) c s T = Some T'"
proof (induction f arbitrary: c s T T')
  case (Suc f)
  have mono: "remove_children (remove_fuel (Suc f)) ks U = Some V"
    if "remove_children (remove_fuel f) ks U = Some V" for ks U V
    using that Suc.IH by (rule remove_children_mono)
  show ?case
  proof (cases "tree_get T s")
    case None
    with Suc.prems show ?thesis by simp
  next
    case (Some n)
    show ?thesis
    proof (cases "jm_has (n_by_conn n) c \<and> n_by_conn (drop_entry c n) = []")
      case False
      with Suc.prems Some show ?thesis by (auto split: if_splits)
    next
      case True
      let ?T1 = "update_node s (drop_entry c) T"
      from Suc.prems Some True obtain T2 where
        T2: "remove_children (remove_fuel f) (n_children n) ?T1 = Some T2"
        by (cases "remove_children (remove_fuel f) (n_children n) ?T1") auto
      with mono [OF T2] Suc.prems Some True show ?thesis
        unfolding remove_fuel.simps(2) [of "Suc f"] remove_fuel.simps(2) [of f] by simp
    qed
  qed
qed simp

lemma remove_fuel_mono:
  "remove_fuel f c s T = Some T' \<Longrightarrow> f \<le> g \<Longrightarrow> remove_fuel g c s T = Some T'"
  by (induction g) (auto simp: le_Suc_eq simp del: remove_fuel.simps intro: remove_fuel_Suc)

lemma remove_fuel_entry:
  assumes "tree_wf lc T" "entry_count T < fuel"
  shows "remove_fuel fuel c s T = Some (remove_entry c s T)"
proof -
  obtain T' where T': "remove_fuel (Suc (entry_count T)) c s T = Some T'"
    using remove_fuel_removal [OF assms(1), of "Suc (entry_count T)"] by blast
  moreover have "remove_fuel fuel c s T = Some T'"
    using T' by (rule remove_fuel_mono) (use assms(2) in simp)
  ultimately show ?thesis by (simp add: remove_entry_def)
qed

subsection \<open>Removal and the other connections\<close>

text \<open>The view the server sends for a connection holds the ancestors of every subject in it.\<close>

definition ancestor_closed :: "(string \<Rightarrow> subject_entry option) \<Rightarrow> bool" where
  "ancestor_closed m = (\<forall>k p. m k \<noteq> None \<longrightarrow> parent_key k = Some p \<longrightarrow> m p \<noteq> None)"

lemma below_parent: "below s k \<Longrightarrow> s \<noteq> k \<Longrightarrow> \<exists>p. parent_key k = Some p \<and> below s p"
proof -
  assume b: "below s k" and ne: "s \<noteq> k"
  have "tokens s \<noteq> tokens k" using ne by (simp add: split_on_inject)
  with b obtain v vs where k: "tokens k = tokens s @ vs @ [v]"
    unfolding below_def prefix_def by (metis append.right_neutral rev_exhaust)
  moreover have "length (tokens s) \<noteq> 0" by simp
  ultimately have "length (tokens k) > 1" by (simp del: length_0_conv)
  then obtain p where p: "parent_key k = Some p" by (simp add: parent_key_def Let_def)
  have "tokens p = tokens s @ vs" using tokens_parent_key [OF p] k by (simp add: butlast_append)
  with p show ?thesis by (auto simp: below_def)
qed

lemma ancestor_closed_below:
  assumes "ancestor_closed m"
  shows "m k \<noteq> None \<Longrightarrow> below s k \<Longrightarrow> m s \<noteq> None"
proof (induction "length (tokens k)" arbitrary: k rule: less_induct)
  case less
  show ?case
  proof (cases "s = k")
    case False
    then obtain p where "parent_key k = Some p" "below s p" using below_parent less.prems by blast
    with less assms parent_key_shorter show ?thesis unfolding ancestor_closed_def by blast
  qed (use less.prems in simp)
qed

lemma remove_entry_spec:
  assumes "tree_wf lc T"
  shows "removal lc s T (remove_entry c s T)" "contrib (remove_entry c s T) c s = None"
proof -
  obtain T' where "remove_fuel (Suc (entry_count T)) c s T = Some T'" "removal lc s T T'"
    "contrib T' c s = None"
    using remove_fuel_removal [OF assms, of "Suc (entry_count T)"] by blast
  then show "removal lc s T (remove_entry c s T)" "contrib (remove_entry c s T) c s = None"
    by (simp_all add: remove_entry_def)
qed

lemma remove_entry_other:
  assumes T: "tree_wf lc T" and c: "c' \<noteq> c" and cl: "ancestor_closed (contrib T c')"
  shows "contrib (remove_entry c s T) c' = contrib T c'"
proof
  fix k
  show "contrib (remove_entry c s T) c' k = contrib T c' k"
  proof (cases "contrib T c' s")
    case None
    then have "below s k \<Longrightarrow> contrib T c' k = None"
      using ancestor_closed_below [OF cl] by blast
    then show ?thesis using removalD(3) [OF remove_entry_spec(1) [OF T, where s = s and c = c], of c' k] by auto
  next
    case (Some e)
    then obtain n where n: "tree_get T s = Some n" "jm_get (n_by_conn n) c' = Some e"
      by (cases "tree_get T s") (auto simp: contrib_def)
    then have "jm_get (jm_delete c (n_by_conn n)) c' = Some e" using c by simp
    then have "jm_delete c (n_by_conn n) \<noteq> []" by force
    then have "remove_entry c s T = (if jm_has (n_by_conn n) c
        then update_node s recompute (update_node s (drop_entry c) T) else T)"
      using n(1) by (simp add: remove_entry_def)
    then show ?thesis using n(1) c by (auto simp: contrib_def)
  qed
qed

text \<open>A list of removals.\<close>

lemma remove_entries_spec:
  assumes "tree_wf lc T"
  shows "tree_wf lc (foldl (\<lambda>T s. remove_entry c s T) T ss) \<and>
     (\<forall>s \<in> set ss. contrib (foldl (\<lambda>T s. remove_entry c s T) T ss) c s = None) \<and>
     (\<forall>k. contrib (foldl (\<lambda>T s. remove_entry c s T) T ss) c k = contrib T c k \<or>
        (\<exists>s \<in> set ss. below s k) \<and> contrib (foldl (\<lambda>T s. remove_entry c s T) T ss) c k = None)"
  using assms
proof (induction ss arbitrary: T)
  case (Cons s ss)
  let ?U = "remove_entry c s T"
  let ?F = "foldl (\<lambda>T s. remove_entry c s T) ?U ss"
  note r = remove_entry_spec [OF Cons.prems, where s = s and c = c]
  note IH = Cons.IH [OF removalD(1) [OF r(1)]]
  have "contrib ?F c k = contrib T c k \<or> (\<exists>s' \<in> set (s # ss). below s' k) \<and> contrib ?F c k = None" for k
  proof (cases "contrib ?F c k = contrib ?U c k")
    case True
    with removalD(3) [OF r(1), of c k] show ?thesis by auto
  next
    case False
    with IH have "(\<exists>s' \<in> set ss. below s' k) \<and> contrib ?F c k = None" by blast
    then show ?thesis by auto
  qed
  then have 3: "\<forall>k. contrib ?F c k = contrib T c k \<or> (\<exists>s' \<in> set (s # ss). below s' k) \<and> contrib ?F c k = None"
    by blast
  have "contrib ?F c s = None"
    using spec [OF conjunct2 [OF conjunct2 [OF IH]], of s] r(2) by auto
  then have 2: "\<forall>s' \<in> set (s # ss). contrib ?F c s' = None"
    using conjunct1 [OF conjunct2 [OF IH]] by (simp only: set_simps ball_simps)
  show ?case unfolding foldl.simps using conjunct1 [OF IH] 2 3 by (intro conjI)
qed simp

lemma remove_entries_other:
  assumes "tree_wf lc T" "c' \<noteq> c" "ancestor_closed (contrib T c')"
  shows "contrib (foldl (\<lambda>T s. remove_entry c s T) T ss) c' = contrib T c'"
  using assms
proof (induction ss arbitrary: T)
  case (Cons s ss)
  let ?U = "remove_entry c s T"
  have U: "tree_wf lc ?U" "contrib ?U c' = contrib T c'"
    using removalD(1) [OF remove_entry_spec(1) [OF Cons.prems(1)]] remove_entry_other [OF Cons.prems]
    by blast+
  then show ?case using Cons.IH [of ?U] Cons.prems by simp
qed simp

text \<open>\<open>dropConnection\<close> is the removal of its entry at every subject.\<close>

lemma drop_connection_entries:
  "drop_connection c T = foldl (\<lambda>T s. remove_entry c s T) T (jm_keys (t_nodes T))"
proof -
  have "(case tree_get T s of None \<Rightarrow> T
      | Some n \<Rightarrow> if jm_has (n_by_conn n) c then remove_entry c s T else T) = remove_entry c s T" for T s
    by (simp add: remove_entry_def split: option.splits)
  then show ?thesis by (simp add: drop_connection_def)
qed

lemma contrib_key: "contrib T c k \<noteq> None \<Longrightarrow> k \<in> set (jm_keys (t_nodes T))"
  by (cases "tree_get T k") (auto simp: contrib_def tree_get_def dest!: jm_get_in intro: rev_image_eqI)

lemma drop_connection_spec:
  assumes "tree_wf lc T"
  shows "tree_wf lc (drop_connection c T)"
    and "contrib (drop_connection c T) c = Map.empty"
    and "c' \<noteq> c \<Longrightarrow> ancestor_closed (contrib T c') \<Longrightarrow>
      contrib (drop_connection c T) c' = contrib T c'"
proof -
  note r = remove_entries_spec [OF assms, of c "jm_keys (t_nodes T)"]
  show "tree_wf lc (drop_connection c T)" using r by (simp add: drop_connection_entries)
  show "contrib (drop_connection c T) c = Map.empty"
  proof
    fix k
    show "contrib (drop_connection c T) c k = None"
      unfolding drop_connection_entries using r contrib_key [of T c k] by metis
  qed
  show "c' \<noteq> c \<Longrightarrow> ancestor_closed (contrib T c') \<Longrightarrow>
      contrib (drop_connection c T) c' = contrib T c'"
    unfolding drop_connection_entries using remove_entries_other [OF assms] by metis
qed

subsection \<open>The tree as a map\<close>

text \<open>What one message of the feed means for the contributions of its connection.\<close>

definition abs_apply ::
    "bool \<Rightarrow> subject_entry list \<Rightarrow> string list \<Rightarrow> (string \<rightharpoonup> subject_entry) \<Rightarrow> (string \<rightharpoonup> subject_entry)" where
  "abs_apply full entries removed m =
     fold (\<lambda>e m. m(e_s e \<mapsto> e)) entries ((if full then Map.empty else m) |` (- set removed))"

lemma apply_entries_spec:
  assumes lc: "comparator lc" and "tree_wf lc T"
  shows "tree_wf lc (foldl (\<lambda>T e. apply_entry lc c e T) T es)"
    and "contrib (foldl (\<lambda>T e. apply_entry lc c e T) T es) c' =
      (if c' = c then fold (\<lambda>e m. m(e_s e \<mapsto> e)) es (contrib T c') else contrib T c')"
proof -
  have one: "contrib (apply_entry lc c e T) c' =
      (if c' = c then (contrib T c')(e_s e \<mapsto> e) else contrib T c')" if "tree_wf lc T" for T e
  proof
    fix k
    show "contrib (apply_entry lc c e T) c' k =
        (if c' = c then (contrib T c')(e_s e \<mapsto> e) else contrib T c') k"
      using apply_entry_spec [OF lc that, of c e c' k] by auto
  qed
  show "tree_wf lc (foldl (\<lambda>T e. apply_entry lc c e T) T es)"
    using assms(2) apply_entry_spec [OF lc] by (induction es arbitrary: T) auto
  show "contrib (foldl (\<lambda>T e. apply_entry lc c e T) T es) c' =
      (if c' = c then fold (\<lambda>e m. m(e_s e \<mapsto> e)) es (contrib T c') else contrib T c')"
    using assms(2)
  proof (induction es arbitrary: T)
    case (Cons e es)
    have "tree_wf lc (apply_entry lc c e T)" using apply_entry_spec [OF lc Cons.prems] by blast
    with Cons.IH [OF this] one [OF Cons.prems, of e] show ?case
      by (cases "c' = c") (simp_all del: fun_upd_apply)
  qed simp
qed

end
