(* ===== verification/TreeProps.thy ===== *)
theory TreeProps
  imports TreeLaws
begin

text \<open>
  The properties of the subject tree: termination of \<open>removeEntry\<close>, the invariant, the
  refinement of \<open>apply\<close> and \<open>dropConnection\<close> to maps from subjects to entries, and the two
  places where a removal does not do what its comment says.
\<close>

definition sample_entry :: "string \<Rightarrow> int \<Rightarrow> subject_entry" where
  "sample_entry s n = \<lparr>e_s = s, e_n = n, e_r = 0, e_t = n, e_tr = 0, e_c = None, e_sc = None,
     e_p = None, e_pt = None, e_ts = None, e_sz = None\<rparr>"

lemma sample_entry_key [simp]: "e_s (sample_entry s n) = s"
  by (simp add: sample_entry_def)

text \<open>Two connections see \<open>a\<close>, the second one also \<open>a.b\<close>.\<close>

definition sample_tree :: tree_model where
  "sample_tree = tree_apply by_code_units ''c2'' True [sample_entry ''a'' 1, sample_entry ''a.b'' 2] []
     (tree_apply by_code_units ''c1'' True [sample_entry ''a'' 4] [] empty_tree)"

lemma sample_tree_wf: "tree_wf by_code_units sample_tree"
  unfolding sample_tree_def tree_apply_def Let_def if_True
  by (intro apply_entries_spec(1) [OF code_units.comparator_axioms] drop_connection_spec(1)
      conjunct1 [OF remove_entries_spec] tree_wf_empty)

lemma tree_apply_contrib:
  assumes lc: "comparator lc" and T: "tree_wf lc T"
    and others: "\<And>c'. c' \<noteq> c \<Longrightarrow> ancestor_closed (contrib T c')"
    and whole: "\<And>s k. \<not> full \<Longrightarrow> s \<in> set removed \<Longrightarrow> below s k \<Longrightarrow> contrib T c k \<noteq> None \<Longrightarrow> k \<in> set removed"
  shows "contrib (tree_apply lc c full entries removed T) c' =
     (if c' = c then abs_apply full entries removed (contrib T c) else contrib T c')"
proof -
  let ?T1 = "if full then drop_connection c T else T"
  let ?T2 = "foldl (\<lambda>T s. remove_entry c s T) ?T1 removed"
  have T1: "tree_wf lc ?T1" using T drop_connection_spec(1) by auto
  note r = remove_entries_spec [OF T1, of c removed]
  have c1: "contrib ?T1 c = (if full then Map.empty else contrib T c)"
    using drop_connection_spec(2) [OF T] by simp
  have c2: "contrib ?T2 c = contrib ?T1 c |` (- set removed)"
  proof
    fix k
    show "contrib ?T2 c k = (contrib ?T1 c |` (- set removed)) k"
    proof (cases "k \<in> set removed")
      case True
      then show ?thesis using r by simp
    next
      case False
      then have "contrib ?T1 c k = None" if "s \<in> set removed" "below s k" for s
        using whole [of s k] that c1 by (cases full; cases "contrib T c k") auto
      with r False show ?thesis by (auto simp: restrict_map_def)
    qed
  qed
  have other: "contrib ?T2 c' = contrib T c'" if "c' \<noteq> c"
  proof -
    have "contrib ?T1 c' = contrib T c'"
      using drop_connection_spec(3) [OF T that] others [OF that] by simp
    with remove_entries_other [OF T1 that] others [OF that] show ?thesis by simp
  qed
  have "contrib (tree_apply lc c full entries removed T) c' =
      (if c' = c then fold (\<lambda>e m. m(e_s e \<mapsto> e)) entries (contrib ?T2 c') else contrib ?T2 c')"
    unfolding tree_apply_def Let_def by (rule apply_entries_spec(2) [OF lc conjunct1 [OF r]])
  then show ?thesis by (simp add: c1 c2 other abs_apply_def)
qed

lemma contrib_empty [simp]: "contrib empty_tree c = Map.empty"
  by (rule ext) (simp add: contrib_def empty_tree_def tree_get_def)

lemma sample_contrib:
  "contrib sample_tree c =
     (if c = ''c2'' then [''a'' \<mapsto> sample_entry ''a'' 1, ''a.b'' \<mapsto> sample_entry ''a.b'' 2]
      else if c = ''c1'' then [''a'' \<mapsto> sample_entry ''a'' 4] else Map.empty)"
proof -
  let ?T = "tree_apply by_code_units ''c1'' True [sample_entry ''a'' 4] [] empty_tree"
  have wf: "tree_wf by_code_units ?T"
    unfolding tree_apply_def Let_def if_True
    by (intro apply_entries_spec(1) [OF code_units.comparator_axioms] drop_connection_spec(1)
      conjunct1 [OF remove_entries_spec] tree_wf_empty)
  have 1: "contrib ?T c = (if c = ''c1'' then [''a'' \<mapsto> sample_entry ''a'' 4] else Map.empty)" for c
    by (subst tree_apply_contrib [OF code_units.comparator_axioms tree_wf_empty])
       (auto simp: abs_apply_def ancestor_closed_def)
  have "parent_key ''a'' = None" by code_simp
  then have "ancestor_closed (contrib ?T c)" for c by (auto simp: 1 ancestor_closed_def)
  then show ?thesis
    unfolding sample_tree_def
    by (subst tree_apply_contrib [OF code_units.comparator_axioms wf])
       (auto simp: 1 abs_apply_def)
qed

lemma sample_closed: "ancestor_closed (contrib sample_tree c)"
proof -
  have "parent_key ''a'' = None" "parent_key ''a.b'' = Some ''a''" by code_simp+
  then show ?thesis by (auto simp: sample_contrib ancestor_closed_def)
qed

text \<open>C4: \<open>removeEntry\<close> returns. The recursion through the children ends, whatever the links
  between the nodes, in at most as many rounds as the tree has entries, and more fuel gives the
  same tree.\<close>

theorem remove_entry_terminates:
  assumes "tree_wf lc T" "entry_count T < fuel"
  shows "remove_fuel fuel c s T = Some (remove_entry c s T)"
  using assms by (rule remove_fuel_entry)

lemma remove_entry_terminates_witness:
  "remove_fuel 9 ''c1'' ''a'' sample_tree = Some (remove_entry ''c1'' ''a'' sample_tree)"
proof -
  have "entry_count sample_tree < 9" by code_simp
  with remove_entry_terminates [OF sample_tree_wf] show ?thesis .
qed

text \<open>C2: every message of the feed keeps the tree well formed: the parent and child lists agree
  with the map, each list is free of duplicates and sorted by segment, the aggregates of a node
  with entries are the ones computed from them, and no empty placeholder is left.\<close>

theorem tree_apply_wf:
  assumes "comparator lc" "tree_wf lc T"
  shows "tree_wf lc (tree_apply lc c full entries removed T)"
  unfolding tree_apply_def Let_def
  using assms drop_connection_spec(1)
  by (intro apply_entries_spec(1) conjunct1 [OF remove_entries_spec]) (auto split: if_splits)

lemma tree_apply_wf_witness:
  "tree_wf by_code_units (tree_apply by_code_units ''c1'' False [sample_entry ''a.c'' 3] [''a''] sample_tree)"
  by (rule tree_apply_wf [OF code_units.comparator_axioms sample_tree_wf])

text \<open>C1: refinement. On the contributions of its connection a message acts like the update of a
  map from subjects to entries, and the other connections keep theirs, as long as each of them
  has an entry for every ancestor of its subjects (what the server sends) and a removed subject
  takes the subjects below it with it.\<close>

theorem tree_apply_refines:
  assumes "comparator lc" "tree_wf lc T"
    and "\<And>c'. c' \<noteq> c \<Longrightarrow> ancestor_closed (contrib T c')"
    and "\<And>s k. \<not> full \<Longrightarrow> s \<in> set removed \<Longrightarrow> below s k \<Longrightarrow> contrib T c k \<noteq> None \<Longrightarrow> k \<in> set removed"
  shows "contrib (tree_apply lc c full entries removed T) c' =
     (if c' = c then abs_apply full entries removed (contrib T c) else contrib T c')"
  using assms by (rule tree_apply_contrib)

lemma tree_apply_refines_witness:
  "contrib (tree_apply by_code_units ''c2'' False [sample_entry ''x'' 3] [''a'', ''a.b''] sample_tree) ''c2'' =
     [''x'' \<mapsto> sample_entry ''x'' 3] \<and>
   contrib (tree_apply by_code_units ''c2'' False [sample_entry ''x'' 3] [''a'', ''a.b''] sample_tree) ''c1'' =
     [''a'' \<mapsto> sample_entry ''a'' 4]"
proof -
  have "k \<in> set [''a'', ''a.b'']" if "contrib sample_tree ''c2'' k \<noteq> None" for k
    using that by (auto simp: sample_contrib split: if_splits)
  then have r: "contrib (tree_apply by_code_units ''c2'' False [sample_entry ''x'' 3] [''a'', ''a.b''] sample_tree) c' =
     (if c' = ''c2'' then abs_apply False [sample_entry ''x'' 3] [''a'', ''a.b''] (contrib sample_tree ''c2'')
      else contrib sample_tree c')" for c'
    by (intro tree_apply_refines [OF code_units.comparator_axioms sample_tree_wf sample_closed]) blast
  have "(contrib sample_tree ''c2'') |` (- set [''a'', ''a.b'']) = Map.empty"
    by (auto simp: sample_contrib restrict_map_def)
  with r show ?thesis by (auto simp: abs_apply_def sample_contrib)
qed

text \<open>\<open>dropConnection\<close> forgets everything the connection contributed, leaves a well-formed
  tree, and keeps the contributions of every connection that has an entry for each ancestor of
  its subjects.\<close>

theorem drop_connection_correct:
  assumes "tree_wf lc T"
  shows "tree_wf lc (drop_connection c T) \<and> contrib (drop_connection c T) c = Map.empty \<and>
     (\<forall>c'. c' \<noteq> c \<longrightarrow> ancestor_closed (contrib T c') \<longrightarrow>
        contrib (drop_connection c T) c' = contrib T c')"
  using drop_connection_spec [OF assms] by blast

lemma drop_connection_correct_witness:
  "contrib (drop_connection ''c1'' sample_tree) ''c2'' = contrib sample_tree ''c2'' \<and>
   contrib (drop_connection ''c1'' sample_tree) ''c1'' = Map.empty"
  using drop_connection_correct [OF sample_tree_wf, of "''c1''"] sample_closed by simp

text \<open>Without that condition a removal reaches into the contributions of others: dropping the
  only entry of a node drops the entries of every connection below it, where the comment in
  \<open>removeEntry\<close> speaks of a placeholder kept by the children of other connections.\<close>

theorem removal_takes_other_connections:
  "\<exists>T. tree_wf by_code_units T \<and> contrib T ''c2'' ''a.b'' \<noteq> None \<and>
     contrib (remove_entry ''c1'' ''a'' T) ''c2'' ''a.b'' = None"
proof -
  let ?T = "tree_apply by_code_units ''c2'' True [sample_entry ''a.b'' 2] []
     (tree_apply by_code_units ''c1'' True [sample_entry ''a'' 4] [] empty_tree)"
  have "tree_wf by_code_units ?T"
    unfolding tree_apply_def Let_def if_True
    by (intro apply_entries_spec(1) [OF code_units.comparator_axioms] drop_connection_spec(1)
      conjunct1 [OF remove_entries_spec] tree_wf_empty)
  moreover have "contrib ?T ''c2'' ''a.b'' = Some (sample_entry ''a.b'' 2)" by code_simp
  moreover have "contrib (remove_entry ''c1'' ''a'' ?T) ''c2'' ''a.b'' = None" by code_simp
  ultimately show ?thesis by auto
qed

text \<open>A node that stays as a placeholder for a grandchild keeps showing the totals of the
  entry that was removed from it: \<open>removeEntry\<close> returns before it recomputes them.\<close>

theorem placeholder_keeps_stale_totals:
  "\<exists>T. tree_wf by_code_units T \<and>
     (case tree_get (remove_entry ''c1'' ''a'' T) ''a'' of None \<Rightarrow> False
      | Some n \<Rightarrow> n_by_conn n = [] \<and> n_message_count n = 7 \<and> n_total n = 7)"
proof -
  let ?T = "tree_apply by_code_units ''c1'' True [sample_entry ''a'' 7, sample_entry ''a.x.1'' 2] [] empty_tree"
  have "tree_wf by_code_units ?T"
    unfolding tree_apply_def Let_def if_True
    by (intro apply_entries_spec(1) [OF code_units.comparator_axioms] drop_connection_spec(1)
      conjunct1 [OF remove_entries_spec] tree_wf_empty)
  moreover have "(case tree_get (remove_entry ''c1'' ''a'' ?T) ''a'' of None \<Rightarrow> False
      | Some n \<Rightarrow> n_by_conn n = [] \<and> n_message_count n = 7 \<and> n_total n = 7)" by code_simp
  ultimately show ?thesis by blast
qed

end
