(* ===== verification/Wire.thy ===== *)
theory Wire
  imports TreeModel
begin

text \<open>
  The rest of the wire contract of \<open>shared/src\<close> that the client code consumes: connection
  status, subscription statistics, KV entries, stream messages, alerts, the events the server
  pushes over the websocket and the commands the browser sends. Optional fields are options,
  string unions are datatypes, times are integers in milliseconds, rates are rationals.
\<close>

subsection \<open>Statistics\<close>

record history_db_stats =
  hd_path :: string
  hd_messages :: int
  hd_bytes :: int
  hd_oldest :: int
  hd_dropped :: int
  hd_filtered :: int
  hd_queued :: int
  hd_queue_bytes :: int
  hd_retention :: string
  hd_max_bytes :: int
  hd_trimmed :: int

record pattern_stats =
  ps_pattern :: string
  ps_received :: int
  ps_subjects :: int
  ps_rate :: rat

record subscription_stats =
  ss_received :: int
  ss_throttled :: int
  ss_subjects :: int
  ss_rate :: rat
  ss_history_messages :: int
  ss_history_bytes :: int
  ss_history_subjects :: int
  ss_history_db :: "history_db_stats option"
  ss_patterns :: "pattern_stats list option"

subsection \<open>Connections\<close>

datatype link_name = LinkApi | LinkLive | LinkSystem

record connection_link =
  cl_name :: link_name
  cl_connected :: bool
  cl_reconnecting :: bool
  cl_server :: "string option"
  cl_cid :: "int option"
  cl_since :: "int option"
  cl_reconnects :: int

record last_drop =
  ld_at :: int
  ld_reason :: string
  ld_slow_consumer :: "bool option"
  ld_live :: "bool option"

record connection_status =
  cs_id :: string
  cs_name :: string
  cs_connected :: bool
  cs_reconnecting :: bool
  cs_server :: "string option"
  cs_color :: string
  cs_servers :: "string list option"
  cs_subscriptions :: "string list option"
  cs_js_domain :: "string option"
  cs_js_api_prefix :: "string option"
  cs_sys_account :: "bool option"
  cs_sys_error :: "string option"
  cs_last_error :: "string option"
  cs_reconnects :: int
  cs_last_drop :: "last_drop option"
  cs_slow_consumer_drops :: "int option"
  cs_live_reconnecting :: "bool option"
  cs_live_reconnects :: "int option"
  cs_live_error :: "string option"
  cs_live_pause_ms :: "int option"
  cs_live_paused_until :: "int option"
  cs_live_flaps :: "int option"
  cs_links :: "connection_link list option"
  cs_bundle :: "bool option"
  cs_connected_at :: "int option"
  cs_ssh :: "bool option"
  cs_ssh_host_key :: "string option"

subsection \<open>KV entries and stream messages\<close>

datatype kv_operation = KvPut | KvDelete | KvPurge

datatype kv_entry = KvEntry (kv_bucket: string) (kv_key: string) (kv_value: string)
    (kv_payload_type: payload_type) (kv_size: int) (kv_revision: int) (kv_created: string)
    (kv_operation: kv_operation) (kv_history: "kv_entry list option")

record stream_message =
  sm_seq :: int
  sm_subject :: string
  sm_payload :: string
  sm_payload_type :: payload_type
  sm_timestamp :: int
  sm_size :: int
  sm_headers :: "header_map option"

subsection \<open>Alerts\<close>

datatype alert_severity = Info | Warning | Critical

datatype alert_state = Firing | Stale | Rate | Level | Stuck | Resolved

datatype webhook_format = HookJson | HookSlack | HookTeams

datatype alert_agg = AggAvg | AggMin | AggMax

record alert_rule =
  ar_id :: string
  ar_name :: string
  ar_pattern :: string
  ar_expr :: "string option"
  ar_stale_after :: "int option"
  ar_stale_auto :: "bool option"
  ar_severity :: alert_severity
  ar_webhook :: "string option"
  ar_webhook_format :: "webhook_format option"
  ar_email :: "string option"
  ar_enabled :: bool
  ar_window :: "int option"
  ar_min_count :: "int option"
  ar_max_count :: "int option"
  ar_field :: "string option"
  ar_agg :: "alert_agg option"
  ar_above :: "rat option"
  ar_below :: "rat option"
  ar_unchanged_for :: "int option"
  ar_muted_until :: "int option"

record maintenance_window =
  mw_id :: string
  mw_name :: string
  mw_from :: int
  mw_to :: int
  mw_patterns :: "string list option"

record alert =
  al_key :: string
  al_rule_id :: string
  al_rule_name :: string
  al_conn_id :: string
  al_subject :: string
  al_state :: alert_state
  al_severity :: alert_severity
  al_since :: int
  al_preview :: "string option"
  al_at :: "int option"
  al_muted :: "bool option"
  al_acked_at :: "int option"
  al_acked_by :: "string option"

record alert_event =
  ae_time :: int
  ae_rule_id :: string
  ae_rule_name :: string
  ae_conn_id :: string
  ae_subject :: string
  ae_state :: alert_state
  ae_severity :: alert_severity
  ae_preview :: "string option"
  ae_webhook_error :: "string option"
  ae_muted :: "bool option"

text \<open>The severities are ordered, worst last.\<close>

fun severity_rank :: "alert_severity \<Rightarrow> nat" where
  "severity_rank Info = 0"
| "severity_rank Warning = 1"
| "severity_rank Critical = 2"

lemma severity_rank_inject: "severity_rank a = severity_rank b \<longleftrightarrow> a = b"
  by (cases a; cases b) simp_all

instantiation alert_severity :: linorder
begin

definition less_eq_alert_severity :: "alert_severity \<Rightarrow> alert_severity \<Rightarrow> bool" where
  "less_eq_alert_severity a b = (severity_rank a \<le> severity_rank b)"

definition less_alert_severity :: "alert_severity \<Rightarrow> alert_severity \<Rightarrow> bool" where
  "less_alert_severity a b = (severity_rank a < severity_rank b)"

instance
  by standard (auto simp: less_eq_alert_severity_def less_alert_severity_def severity_rank_inject)

end

subsection \<open>Events and commands\<close>

datatype server_event =
    Connections "connection_status list option"
  | SubjectTree string bool "subject_entry list option" "string list option"
  | MessageBatch string "nats_message list option"
  | Stats string subscription_stats
  | KvUpdate string string kv_entry
  | StreamMsg string string stream_message
  | LiveError string "string option" "string option" string
  | FilterError string
  | Alerts "alert list" "alert_event list option"

datatype client_command =
    Focus "string list"
  | ViewCmd bool "string list" string "string option" "bool option"
  | KvWatch string string "string option"
  | KvUnwatch string string
  | StreamTail string string "string option"
  | StreamUntail string string

end
