(* ===== verification/TreeView.thy ===== *)
theory TreeView
  imports TreeProps Wire
begin

text \<open>
  The rows of the tree (\<open>client/src/components/subjects/tree.ts\<close>: \<open>flattenTree\<close>, \<open>ancestorsOf\<close>,
  \<open>isSystemRoot\<close>, \<open>FlatNode\<close>). The closure \<open>walk\<close> pushes rows on a shared array; here it
  returns them. It recurses through the references of the store, so it runs on fuel, and
  \<open>flatten_tree_rows\<close> shows that the depth of the deepest subject is enough.
\<close>

record flat_node =
  f_subject :: string
  f_segment :: string
  f_depth :: nat
  f_has_children :: bool
  f_expanded :: bool
  f_guides :: "bool list"
  f_total :: int
  f_rate :: rat
  f_total_rate :: rat
  f_subjects :: int
  f_last :: "last_message option"
  f_conn_ids :: "string list"

definition is_system_root :: "string \<Rightarrow> bool" where
  "is_system_root seg = (seg = ''_INBOX'' \<or> starts_with seg ''$'')"

definition ancestors_of :: "string \<Rightarrow> string list" where
  "ancestors_of s = (let parts = tokens s in
     map (\<lambda>i. join_with (CHR ''.'') (take i parts)) [1..<length parts])"

definition has_children :: "tree_node \<Rightarrow> bool" where
  "has_children n = (n_child_count n > 0 \<or> n_children n \<noteq> [])"

definition row_of :: "(string \<Rightarrow> bool) \<Rightarrow> nat \<Rightarrow> bool list \<Rightarrow> tree_node \<Rightarrow> flat_node" where
  "row_of ex depth guides n =
     \<lparr>f_subject = n_full n, f_segment = n_segment n, f_depth = depth,
      f_has_children = has_children n, f_expanded = (has_children n \<and> ex (n_full n)),
      f_guides = guides, f_total = n_total n, f_rate = n_rate n, f_total_rate = n_total_rate n,
      f_subjects = n_subjects n, f_last = n_last n, f_conn_ids = n_conn_ids n\<rparr>"

text \<open>\<open>list.forEach((node, i) => \<dots>)\<close>, joining what each call pushes.\<close>

fun concat_opt :: "'a list option list \<Rightarrow> 'a list option" where
  "concat_opt [] = Some []"
| "concat_opt (x # xs) = Option.bind x (\<lambda>r. map_option ((@) r) (concat_opt xs))"

primrec walk :: "nat \<Rightarrow> tree_model \<Rightarrow> (string \<Rightarrow> bool) \<Rightarrow> nat \<Rightarrow> bool list \<Rightarrow> string list \<Rightarrow> flat_node list option" where
  "walk 0 = (\<lambda>T ex depth guides ks. None)"
| "walk (Suc fuel) = (\<lambda>T ex depth guides ks.
     concat_opt (map (\<lambda>(i, k).
       (case tree_get T k of None \<Rightarrow> Some []
        | Some n \<Rightarrow>
            let row = row_of ex depth guides n in
            if f_expanded row \<and> n_children n \<noteq> []
            then map_option ((#) row)
              (walk fuel T ex (depth + 1) (guides @ [i < length ks - 1]) (n_children n))
            else Some [row]))
       (enumerate 0 ks)))"

definition tree_depth :: "tree_model \<Rightarrow> nat" where
  "tree_depth T = foldl (\<lambda>d k. max d (length (tokens k))) 0 (jm_keys (t_nodes T))"

definition visible_roots :: "bool \<Rightarrow> tree_model \<Rightarrow> string list" where
  "visible_roots hide T =
     (if hide then filter (\<lambda>k. \<not> is_system_root (segment_of T k)) (t_roots T) else t_roots T)"

definition flatten_tree :: "tree_model \<Rightarrow> (string \<Rightarrow> bool) \<Rightarrow> bool \<Rightarrow> flat_node list option" where
  "flatten_tree T ex hide = walk (Suc (tree_depth T)) T ex 0 [] (visible_roots hide T)"

subsection \<open>Ancestors\<close>

lemma ancestors_parent:
  "ancestors_of s = (case parent_key s of None \<Rightarrow> [] | Some p \<Rightarrow> ancestors_of p @ [p])"
proof (cases "length (tokens s) \<le> 1")
  case True
  then show ?thesis by (simp add: ancestors_of_def parent_key_def Let_def)
next
  case False
  let ?n = "length (tokens s)"
  let ?p = "join_with (CHR ''.'') (butlast (tokens s))"
  have p: "parent_key s = Some ?p" using False by (simp add: parent_key_def Let_def)
  have tp: "tokens ?p = butlast (tokens s)" using tokens_parent_key [OF p] .
  have "[1..<?n] = [1..<?n - 1] @ [?n - 1]"
    using False by (cases ?n) (auto simp: upt_Suc_append)
  moreover have "take (?n - 1) (tokens s) = butlast (tokens s)" by (simp add: butlast_conv_take)
  moreover have "map (\<lambda>i. join_with (CHR ''.'') (take i (tokens s))) [1..<?n - 1] = ancestors_of ?p"
    unfolding ancestors_of_def Let_def tp
    using False by (intro map_cong) (auto simp: butlast_conv_take min_def split: if_splits)
  ultimately show ?thesis using p by (simp add: ancestors_of_def Let_def)
qed

text \<open>The ancestors are the proper prefixes.\<close>

lemma below_tokens_eq: "below s k \<Longrightarrow> length (tokens k) \<le> length (tokens s) \<Longrightarrow> s = k"
  unfolding below_def prefix_def by (auto simp flip: split_on_inject [of "CHR ''.''"])

lemma below_trans: "below a b \<Longrightarrow> below b c \<Longrightarrow> below a c"
  unfolding below_def by (rule prefix_order.trans)

lemma below_length: "below s k \<Longrightarrow> length (tokens s) \<le> length (tokens k)"
  unfolding below_def by (rule prefix_length_le)

lemma below_antisym: "below a b \<Longrightarrow> below b a \<Longrightarrow> a = b"
  using below_tokens_eq below_length by blast

lemma parent_below: "parent_key k = Some p \<Longrightarrow> below p k"
  by (rule below_child [OF _ below_refl])

lemma in_ancestors_iff: "a \<in> set (ancestors_of k) \<longleftrightarrow> below a k \<and> a \<noteq> k"
proof (induction "length (tokens k)" arbitrary: k rule: less_induct)
  case less
  show ?case
  proof (cases "parent_key k")
    case None
    then have "\<not> (below a k \<and> a \<noteq> k)" using below_parent [of a k] by auto
    then show ?thesis using None ancestors_parent [of k] by simp
  next
    case (Some p)
    have "below a k \<and> a \<noteq> k \<longleftrightarrow> below a p"
    proof
      assume "below a k \<and> a \<noteq> k"
      then show "below a p" using below_parent [of a k] Some by auto
    next
      assume "below a p"
      then show "below a k \<and> a \<noteq> k"
        using parent_below [OF Some] parent_key_shorter [OF Some] below_trans below_length
        by (metis leD)
    qed
    then show ?thesis
      using less(1) [OF parent_key_shorter [OF Some]] Some ancestors_parent [of k] by auto
  qed
qed

subsection \<open>What is shown\<close>

lemma concat_opt_Some:
  assumes "\<And>x. x \<in> set xs \<Longrightarrow> \<exists>r. f x = Some r"
  shows "concat_opt (map f xs) = Some (concat (map (\<lambda>x. the (f x)) xs))"
  using assms
proof (induction xs)
  case (Cons x xs)
  then obtain r where "f x = Some r" by fastforce
  with Cons show ?case by simp
qed simp

lemma child_towards:
  assumes T: "tree_links lc T" and x: "tree_get T x = Some m" and b: "below k x" "k \<noteq> x"
  shows "\<exists>n k'. tree_get T k = Some n \<and> k' \<in> set (n_children n) \<and> below k' x"
  using x b
proof (induction "length (tokens x)" arbitrary: x m rule: less_induct)
  case less
  obtain p where p: "parent_key x = Some p" "below k p" using below_parent less.prems by blast
  have "x \<in> set (siblings T (Some p))" using tree_linksD(6) [OF T less.prems(1)] p(1) by simp
  then obtain pn where pn: "tree_get T p = Some pn" "x \<in> set (n_children pn)"
    by (cases "tree_get T p") (simp_all add: siblings_def)
  show ?case
  proof (cases "k = p")
    case True
    with pn show ?thesis by auto
  next
    case False
    from less.hyps [OF parent_key_shorter [OF p(1)] pn(1) p(2) False]
    obtain n k' where "tree_get T k = Some n" "k' \<in> set (n_children n)" "below k' p" by blast
    with below_trans [OF _ parent_below [OF p(1)]] show ?thesis by blast
  qed
qed

lemma children_of:
  assumes "tree_links lc T" "tree_get T k = Some n" "k' \<in> set (n_children n)"
  shows "parent_key k' = Some k" "tree_get T k' \<noteq> None" "length (tokens k') = Suc (length (tokens k))"
proof -
  have k': "k' \<in> set (siblings T (Some k))" using assms by (simp add: siblings_def)
  then show p: "parent_key k' = Some k" "tree_get T k' \<noteq> None"
    using tree_linksD(7,8) [OF assms(1)] by blast+
  show "length (tokens k') = Suc (length (tokens k))"
    using tokens_parent_key [OF p(1)] parent_key_shorter [OF p(1)] by simp
qed

text \<open>The rows below a list of siblings: a subject is shown when it is in the tree, below one of
  them, and every branch in between is open.\<close>

definition open_between :: "(string \<Rightarrow> bool) \<Rightarrow> string \<Rightarrow> string \<Rightarrow> bool" where
  "open_between ex k x = (\<forall>a \<in> set (ancestors_of x). below k a \<longrightarrow> ex a)"

definition rows_ok :: "tree_model \<Rightarrow> (string \<Rightarrow> bool) \<Rightarrow> string list \<Rightarrow> flat_node list \<Rightarrow> bool" where
  "rows_ok T ex ks rows =
     ((\<forall>x. x \<in> f_subject ` set rows \<longleftrightarrow>
        tree_get T x \<noteq> None \<and> (\<exists>k \<in> set ks. below k x \<and> open_between ex k x)) \<and>
      distinct (map f_subject rows) \<and>
      (\<forall>r \<in> set rows. \<exists>n guides. tree_get T (f_subject r) = Some n \<and>
         r = row_of ex (length (ancestors_of (f_subject r))) guides n))"

lemma rows_okD:
  assumes "rows_ok T ex ks rows"
  shows "x \<in> f_subject ` set rows \<longleftrightarrow>
        tree_get T x \<noteq> None \<and> (\<exists>k \<in> set ks. below k x \<and> open_between ex k x)"
    and "distinct (map f_subject rows)"
    and "r \<in> set rows \<Longrightarrow> \<exists>n guides. tree_get T (f_subject r) = Some n \<and>
         r = row_of ex (length (ancestors_of (f_subject r))) guides n"
  using assms unfolding rows_ok_def by blast+

lemma below_same_length:
  "below k x \<Longrightarrow> below k' x \<Longrightarrow> length (tokens k) \<le> length (tokens k') \<Longrightarrow> below k k'"
  unfolding below_def by (rule prefix_length_prefix)

lemma open_between_refl: "open_between ex k k"
  by (auto simp: open_between_def in_ancestors_iff dest: below_antisym)

lemma open_between_child:
  assumes k': "length (tokens k') = Suc (length (tokens k))" "below k k'" "below k' x"
  shows "open_between ex k x \<longleftrightarrow> ex k \<and> open_between ex k' x"
proof
  assume o: "open_between ex k x"
  have "below k x" using k'(2,3) by (rule below_trans)
  moreover have "k \<noteq> x" using k' below_length by fastforce
  ultimately have "ex k" using o by (simp add: open_between_def in_ancestors_iff)
  with o show "ex k \<and> open_between ex k' x"
    using below_trans [OF k'(2)] by (auto simp: open_between_def)
next
  assume o: "ex k \<and> open_between ex k' x"
  show "open_between ex k x"
    unfolding open_between_def
  proof (intro ballI impI)
    fix a assume a: "a \<in> set (ancestors_of x)" "below k a"
    show "ex a"
    proof (cases "a = k")
      case False
      then have "length (tokens k) < length (tokens a)"
        using a(2) below_tokens_eq by (metis not_le)
      then have "below k' a"
        using a(1) k'(1,3) by (auto simp: in_ancestors_iff intro: below_same_length)
      with o a(1) show ?thesis by (auto simp: open_between_def)
    qed (use o in simp)
  qed
qed

lemma rows_ok_node:
  assumes T: "tree_links lc T" and n: "tree_get T k = Some n"
    and depth: "Suc depth = length (tokens k)"
    and sub: "f_expanded (row_of ex depth guides n) \<Longrightarrow> n_children n \<noteq> [] \<Longrightarrow> rows_ok T ex (n_children n) sub"
  defines "row \<equiv> row_of ex depth guides n"
  shows "rows_ok T ex [k] (if f_expanded row \<and> n_children n \<noteq> [] then row # sub else [row])"
proof -
  have fs: "f_subject row = k" using tree_linksD(2) [OF T n] by (simp add: row_def row_of_def)
  have fe: "n_children n \<noteq> [] \<Longrightarrow> f_expanded row = ex k"
    using tree_linksD(2) [OF T n] by (simp add: row_def row_of_def has_children_def)
  have self: "row = row_of ex (length (ancestors_of k)) guides n"
  proof -
    have "length (ancestors_of k) = depth" using depth [symmetric] by (simp add: ancestors_of_def Let_def)
    then show ?thesis by (simp add: row_def)
  qed
  have below_self: "tree_get T x \<noteq> None \<and> below k x \<and> open_between ex k x \<longleftrightarrow>
      x = k \<or> (n_children n \<noteq> [] \<and> ex k \<and> tree_get T x \<noteq> None \<and>
        (\<exists>k' \<in> set (n_children n). below k' x \<and> open_between ex k' x))" (is "?L x \<longleftrightarrow> ?R x") for x
  proof
    assume L: "?L x"
    show "?R x"
    proof (cases "x = k")
      case False
      from L obtain m where "tree_get T x = Some m" by blast
      from child_towards [OF T this, of k] L False n
      obtain k' where k': "k' \<in> set (n_children n)" "below k' x" by auto
      note c = children_of [OF T n k'(1)]
      from L open_between_child [OF c(3) parent_below [OF c(1)] k'(2)] k'
      have "ex k \<and> open_between ex k' x" by blast
      moreover have "n_children n \<noteq> []" using k'(1) by auto
      ultimately show ?thesis using L k' by blast
    qed simp
  next
    assume R: "?R x"
    show "?L x"
    proof (cases "x = k")
      case True
      with n show ?thesis by (simp add: open_between_refl)
    next
      case False
      with R obtain k' where k': "k' \<in> set (n_children n)" "below k' x" "open_between ex k' x"
        and x: "ex k" "tree_get T x \<noteq> None" by blast
      note c = children_of [OF T n k'(1)]
      from k' x open_between_child [OF c(3) parent_below [OF c(1)] k'(2)]
        below_trans [OF parent_below [OF c(1)] k'(2)] show ?thesis by simp
    qed
  qed
  show ?thesis
  proof (cases "f_expanded row \<and> n_children n \<noteq> []")
    case True
    then have s: "rows_ok T ex (n_children n) sub" using sub by (simp add: row_def)
    have "k \<notin> f_subject ` set sub"
    proof
      assume "k \<in> f_subject ` set sub"
      then obtain k' where k': "k' \<in> set (n_children n)" "below k' k"
        using rows_okD(1) [OF s] by blast
      with children_of(3) [OF T n k'(1)] below_length [OF k'(2)] show False by simp
    qed
    moreover have "x \<in> f_subject ` set (row # sub) \<longleftrightarrow>
        tree_get T x \<noteq> None \<and> below k x \<and> open_between ex k x" for x
      unfolding below_self using True fe rows_okD(1) [OF s, of x] by (auto simp: fs)
    ultimately show ?thesis
      using True rows_okD(2,3) [OF s] n self fs unfolding rows_ok_def by auto
  next
    case False
    have closed: "\<not> (n_children n \<noteq> [] \<and> ex k)" using False fe by blast
    have "x \<in> f_subject ` set [row] \<longleftrightarrow> tree_get T x \<noteq> None \<and> below k x \<and> open_between ex k x" for x
    proof -
      have "x \<in> f_subject ` set [row] \<longleftrightarrow> x = k" using fs by auto
      with closed below_self [of x] show ?thesis by blast
    qed
    moreover have "\<exists>n guides. tree_get T (f_subject row) = Some n \<and>
        row = row_of ex (length (ancestors_of (f_subject row))) guides n"
      using n self unfolding fs by blast
    ultimately have "rows_ok T ex [k] [row]" unfolding rows_ok_def by simp
    then show ?thesis by (simp only: False if_False)
  qed
qed

lemma rows_ok_concat:
  assumes "distinct ks" "\<And>k. k \<in> set ks \<Longrightarrow> length (tokens k) = d"
    and "list_all2 (\<lambda>k rows. rows_ok T ex [k] rows) ks rss"
  shows "rows_ok T ex ks (concat rss)"
  using assms(3,1,2)
proof (induction ks rss rule: list_all2_induct)
  case Nil
  then show ?case by (simp add: rows_ok_def)
next
  case (Cons k ks rows rss)
  have IH: "rows_ok T ex ks (concat rss)" using Cons by simp
  note one = rows_okD [OF Cons.hyps(1)] and rest_ok = rows_okD [OF IH]
  have "f_subject ` set rows \<inter> f_subject ` set (concat rss) = {}"
  proof (rule ccontr)
    assume "f_subject ` set rows \<inter> f_subject ` set (concat rss) \<noteq> {}"
    then obtain x where "x \<in> f_subject ` set rows" "x \<in> f_subject ` set (concat rss)" by blast
    then obtain k' where x: "below k x" "k' \<in> set ks" "below k' x"
      using one(1) [of x] rest_ok(1) [of x] by auto
    have len: "length (tokens k) = d" "length (tokens k') = d" using Cons.prems(2) x(2) by simp_all
    have "below k k'" using below_same_length [OF x(1,3)] len by simp
    then have "k = k'" using len below_tokens_eq by simp
    with Cons.prems(1) x(2) show False by simp
  qed
  moreover have "x \<in> f_subject ` set (rows @ concat rss) \<longleftrightarrow>
      tree_get T x \<noteq> None \<and> (\<exists>k' \<in> set (k # ks). below k' x \<and> open_between ex k' x)" for x
    unfolding set_append image_Un Un_iff one(1) rest_ok(1) by auto
  moreover have "distinct (map f_subject (rows @ concat rss))"
    using calculation(1) one(2) rest_ok(2) unfolding map_append distinct_append set_map by blast
  moreover have "\<exists>n guides. tree_get T (f_subject r) = Some n \<and>
      r = row_of ex (length (ancestors_of (f_subject r))) guides n" if "r \<in> set (rows @ concat rss)" for r
    using that one(3) rest_ok(3) unfolding set_append Un_iff by blast
  ultimately show ?case unfolding rows_ok_def concat.simps by blast
qed

lemma walk_spec:
  assumes T: "tree_links lc T"
    and "\<And>k. k \<in> set ks \<Longrightarrow> tree_get T k \<noteq> None \<and> length (tokens k) = Suc depth" "distinct ks"
    and "\<And>x. tree_get T x \<noteq> None \<Longrightarrow> length (tokens x) \<le> depth + fuel" "0 < fuel"
  shows "\<exists>rows. walk fuel T ex depth guides ks = Some rows \<and> rows_ok T ex ks rows"
  using assms(2-)
proof (induction fuel arbitrary: depth guides ks)
  case 0
  then show ?case by simp
next
  case (Suc fuel)
  let ?f = "\<lambda>(i, k). (case tree_get T k of None \<Rightarrow> Some []
        | Some n \<Rightarrow>
            let row = row_of ex depth guides n in
            if f_expanded row \<and> n_children n \<noteq> []
            then map_option ((#) row)
              (walk fuel T ex (depth + 1) (guides @ [i < length ks - 1]) (n_children n))
            else Some [row])"
  have piece: "\<exists>rows. ?f (i, k) = Some rows \<and> rows_ok T ex [k] rows" if k: "k \<in> set ks" for i k
  proof -
    from Suc.prems(1) [OF k] obtain n where n: "tree_get T k = Some n" by blast
    let ?row = "row_of ex depth guides n"
    have "\<exists>sub. walk fuel T ex (depth + 1) (guides @ [i < length ks - 1]) (n_children n) = Some sub \<and>
        rows_ok T ex (n_children n) sub" if "n_children n \<noteq> []"
    proof (rule Suc.IH)
      fix k' assume "k' \<in> set (n_children n)"
      from children_of [OF T n this] Suc.prems(1) [OF k]
      show "tree_get T k' \<noteq> None \<and> length (tokens k') = Suc (depth + 1)" by simp
    next
      show "distinct (n_children n)"
        using tree_linksD(9) [OF T, of "Some k"] n by (simp add: siblings_def)
    next
      fix x assume "tree_get T x \<noteq> None"
      then show "length (tokens x) \<le> depth + 1 + fuel" using Suc.prems(3) [of x] by simp
    next
      from that obtain k' where k': "k' \<in> set (n_children n)" by (cases "n_children n") auto
      note c = children_of [OF T n k']
      from c(3) Suc.prems(1) [OF k] Suc.prems(3) [OF c(2)] show "0 < fuel" by simp
    qed
    then obtain sub where sub: "n_children n \<noteq> [] \<Longrightarrow>
        walk fuel T ex (depth + 1) (guides @ [i < length ks - 1]) (n_children n) = Some sub \<and>
        rows_ok T ex (n_children n) sub" by blast
    have "rows_ok T ex [k] (if f_expanded ?row \<and> n_children n \<noteq> [] then ?row # sub else [?row])"
      using T n by (rule rows_ok_node) (use Suc.prems(1) [OF k] sub in auto)
    moreover have "?f (i, k) = Some (if f_expanded ?row \<and> n_children n \<noteq> [] then ?row # sub else [?row])"
      using n sub by (simp add: Let_def)
    ultimately show ?thesis by blast
  qed
  have "walk (Suc fuel) T ex depth guides ks = concat_opt (map ?f (enumerate 0 ks))" by simp
  also have "\<dots> = Some (concat (map (\<lambda>x. the (?f x)) (enumerate 0 ks)))"
  proof (rule concat_opt_Some)
    fix x assume "x \<in> set (enumerate 0 ks)"
    moreover obtain i k where "x = (i, k)" by (cases x)
    ultimately have "x = (i, k)" "k \<in> set ks"
      by (auto simp: enumerate_eq_zip dest: set_zip_rightD)
    with piece show "\<exists>r. ?f x = Some r" by blast
  qed
  finally have w: "walk (Suc fuel) T ex depth guides ks =
      Some (concat (map (\<lambda>x. the (?f x)) (enumerate 0 ks)))" .
  have "rows_ok T ex ks (concat (map (\<lambda>x. the (?f x)) (enumerate 0 ks)))"
  proof (rule rows_ok_concat)
    show "list_all2 (\<lambda>k rows. rows_ok T ex [k] rows) ks (map (\<lambda>x. the (?f x)) (enumerate 0 ks))"
      using piece by (auto simp: list_all2_conv_all_nth nth_enumerate_eq)
        (metis (no_types, lifting) nth_mem option.sel)
  qed (use Suc.prems in auto)
  with w show ?case by blast
qed

text \<open>The depth of the tree is fuel enough, and the roots are the subjects of one segment.\<close>

lemma foldl_max_ge: "(d :: nat) \<le> foldl (\<lambda>d k. max d (f k)) d ks"
proof (induction ks arbitrary: d)
  case (Cons k ks)
  show ?case using Cons.IH [of "max d (f k)"] by simp
qed simp

lemma foldl_max_upper: "k \<in> set ks \<Longrightarrow> (f k :: nat) \<le> foldl (\<lambda>d k. max d (f k)) d ks"
proof (induction ks arbitrary: d)
  case (Cons k' ks)
  then show ?case using foldl_max_ge [of "max d (f k)" f ks] by (auto simp: max_def split: if_splits)
qed simp

lemma tree_depth_ge: "tree_get T x \<noteq> None \<Longrightarrow> length (tokens x) \<le> tree_depth T"
  unfolding tree_depth_def by (rule foldl_max_upper) (auto simp: tree_get_def dest!: jm_get_in intro: rev_image_eqI)

lemma roots_single:
  assumes "tree_links lc T" "k \<in> set (t_roots T)"
  shows "tree_get T k \<noteq> None" "length (tokens k) = 1" "tokens k = [k]"
proof -
  have "k \<in> set (siblings T None)" using assms(2) by (simp add: siblings_def)
  then have p: "tree_get T k \<noteq> None" "parent_key k = None" using tree_linksD(7,8) [OF assms(1)] by blast+
  then show "tree_get T k \<noteq> None" by simp
  have "length (tokens k) \<le> 1" using p(2) by (simp add: parent_key_def Let_def split: if_splits)
  moreover have "length (tokens k) \<noteq> 0" by simp
  ultimately show l: "length (tokens k) = 1" by linarith
  then obtain t where "tokens k = [t]" by (auto simp: length_Suc_conv)
  then show "tokens k = [k]" using join_split [of "CHR ''.''" k] by simp
qed

lemma flatten_tree_ok:
  assumes "tree_links lc T"
  shows "\<exists>rows. flatten_tree T ex hide = Some rows \<and> rows_ok T ex (visible_roots hide T) rows"
  unfolding flatten_tree_def
proof (rule walk_spec [OF assms])
  fix k assume "k \<in> set (visible_roots hide T)"
  then show "tree_get T k \<noteq> None \<and> length (tokens k) = Suc 0"
    using roots_single [OF assms] by (auto simp: visible_roots_def split: if_splits)
next
  show "distinct (visible_roots hide T)"
    using tree_linksD(9) [OF assms, of None] by (simp add: visible_roots_def siblings_def)
qed (use tree_depth_ge in force)+

lemma root_of:
  assumes T: "tree_links lc T" and x: "tree_get T x = Some n"
  shows "hd (tokens x) \<in> set (t_roots T)" "below (hd (tokens x)) x"
proof -
  have "hd (tokens x) \<in> set (t_roots T) \<and> below (hd (tokens x)) x"
    using x
  proof (induction "length (tokens x)" arbitrary: x n rule: less_induct)
    case less
    show ?case
    proof (cases "parent_key x")
      case None
      then have "x \<in> set (t_roots T)" using tree_linksD(6) [OF T less.prems] by (simp add: siblings_def)
      with roots_single(3) [OF T this] show ?thesis by simp
    next
      case (Some p)
      have "x \<in> set (siblings T (Some p))" using tree_linksD(6) [OF T less.prems] Some by simp
      then obtain pn where pn: "tree_get T p = Some pn"
        by (cases "tree_get T p") (simp_all add: siblings_def)
      have "hd (tokens p) = hd (tokens x)"
        using tokens_parent_key [OF Some] by (metis split_on_not_Nil butlast_snoc hd_append2 append_butlast_last_id)
      with less.hyps [OF parent_key_shorter [OF Some] pn] below_trans [OF _ parent_below [OF Some]]
      show ?thesis by auto
    qed
  qed
  then show "hd (tokens x) \<in> set (t_roots T)" "below (hd (tokens x)) x" by simp_all
qed

text \<open>C3: the layout of a tree always ends; a subject has a row exactly when it is in the tree,
  all its ancestors are open and its root is not hidden; it has one row, with the depth and the
  totals of its node.\<close>

theorem flatten_tree_rows:
  assumes T: "tree_links lc T"
  shows "\<exists>rows. flatten_tree T ex hide = Some rows \<and> distinct (map f_subject rows) \<and>
     (\<forall>x. x \<in> f_subject ` set rows \<longleftrightarrow>
        tree_get T x \<noteq> None \<and> (\<forall>a \<in> set (ancestors_of x). ex a) \<and>
        \<not> (hide \<and> is_system_root (hd (tokens x)))) \<and>
     (\<forall>r \<in> set rows. \<exists>n guides. tree_get T (f_subject r) = Some n \<and>
        r = row_of ex (length (ancestors_of (f_subject r))) guides n)"
proof -
  obtain rows where rows: "flatten_tree T ex hide = Some rows" "rows_ok T ex (visible_roots hide T) rows"
    using flatten_tree_ok [OF T] by blast
  have "(\<exists>k \<in> set (visible_roots hide T). below k x \<and> open_between ex k x) \<longleftrightarrow>
      (\<forall>a \<in> set (ancestors_of x). ex a) \<and> \<not> (hide \<and> is_system_root (hd (tokens x)))"
    if x: "tree_get T x = Some n" for x n
  proof -
    have uniq: "k = hd (tokens x)" if "k \<in> set (t_roots T)" "below k x" for k
      using roots_single(3) [OF T that(1)] that(2) by (auto simp: below_def prefix_def)
    have seg: "segment_of T k = k" if "k \<in> set (t_roots T)" for k
      using roots_single [OF T that] tree_linksD(3) [OF T] by (fastforce simp: segment_of_def)
    have "below (hd (tokens x)) a" if "a \<in> set (ancestors_of x)" for a
    proof -
      from that have a: "below a x" by (simp add: in_ancestors_iff)
      have "tokens (hd (tokens x)) = [hd (tokens x)]" using roots_single(3) [OF T root_of(1) [OF T x]] .
      moreover have "tokens a \<noteq> []" by simp
      ultimately show ?thesis using a by (cases "tokens a") (auto simp: below_def prefix_def)
    qed
    then have op: "open_between ex (hd (tokens x)) x \<longleftrightarrow> (\<forall>a \<in> set (ancestors_of x). ex a)"
      by (auto simp: open_between_def)
    have "hd (tokens x) \<in> set (visible_roots hide T) \<longleftrightarrow> \<not> (hide \<and> is_system_root (hd (tokens x)))"
      using root_of(1) [OF T x] seg by (auto simp: visible_roots_def)
    moreover have "set (visible_roots hide T) \<subseteq> set (t_roots T)" by (auto simp: visible_roots_def)
    ultimately show ?thesis using uniq op root_of(2) [OF T x] by blast
  qed
  then have "x \<in> f_subject ` set rows \<longleftrightarrow> tree_get T x \<noteq> None \<and>
      (\<forall>a \<in> set (ancestors_of x). ex a) \<and> \<not> (hide \<and> is_system_root (hd (tokens x)))" for x
    unfolding rows_okD(1) [OF rows(2)] by (cases "tree_get T x") simp_all
  with rows rows_okD(2,3) [OF rows(2)] show ?thesis by blast
qed

lemma flatten_tree_rows_witness:
  "\<exists>rows. flatten_tree sample_tree (\<lambda>p. p = ''a'') True = Some rows \<and>
     ''a.b'' \<in> f_subject ` set rows \<and> ''a.c'' \<notin> f_subject ` set rows"
proof -
  have T: "tree_links by_code_units sample_tree" using sample_tree_wf by (simp add: tree_wf_def)
  have "(\<forall>a \<in> set (ancestors_of ''a.b''). a = ''a'')" "hd (tokens ''a.b'') = ''a''"
    "\<not> is_system_root ''a''" "tree_get sample_tree ''a.c'' = None"
    "tree_get sample_tree ''a.b'' = None \<longleftrightarrow> False"
    by code_simp+
  with flatten_tree_rows [OF T, of "\<lambda>p. p = ''a''" True] show ?thesis by auto
qed

end
