(* ===== verification/FeedWorker.thy ===== *)
theory FeedWorker
  imports TreeView
begin

text \<open>
  The state machine inside the feed worker (\<open>client/src/worker/feedCore.ts\<close>, class \<open>FeedCore\<close>,
  with the messages of \<open>client/src/worker/protocol.ts\<close>): the merged tree, the view of the tab, the
  live messages waiting for the next frame, and the two scheduled callbacks.

  \<open>post\<close> appends to the list of posted messages. \<open>schedule\<close> appends to the list of armed timers;
  a timer fires as a step of its own, in any order, so every interleaving of server events,
  callbacks, view changes and resets is a path of \<open>core_step\<close>.
\<close>

record tree_view =
  v_all :: bool
  v_paths :: "string list"
  v_filter :: string
  v_filter_collapsed :: "string list"
  v_expr :: string
  v_hide_system :: bool
  v_preview :: bool

datatype ws_status = WsConnecting | WsOpen | WsClosed

datatype from_worker =
    PostStatus ws_status
  | PostAuthRequired
  | PostEvent server_event
  | PostFeed "nats_message list"
  | PostTree "flat_node list" nat

datatype core_task = LayoutTree | FlushFeed

record feed_core =
  fc_model :: tree_model
  fc_view :: tree_view
  fc_known :: "string list"
  fc_pending :: "nats_message list"
  fc_tree_scheduled :: bool
  fc_feed_scheduled :: bool
  fc_posts :: "from_worker list"
  fc_timers :: "(core_task \<times> nat) list"

definition max_pending :: nat where
  "max_pending = 10000"

definition initial_view :: tree_view where
  "initial_view = \<lparr>v_all = False, v_paths = [], v_filter = [], v_filter_collapsed = [],
     v_expr = [], v_hide_system = True, v_preview = False\<rparr>"

definition initial_core :: feed_core where
  "initial_core = \<lparr>fc_model = empty_tree, fc_view = initial_view, fc_known = [], fc_pending = [],
     fc_tree_scheduled = False, fc_feed_scheduled = False, fc_posts = [], fc_timers = []\<rparr>"

subsection \<open>Operations\<close>

definition post :: "from_worker \<Rightarrow> feed_core \<Rightarrow> feed_core" where
  "post m c = c\<lparr>fc_posts := fc_posts c @ [m]\<rparr>"

definition arm :: "core_task \<Rightarrow> nat \<Rightarrow> feed_core \<Rightarrow> feed_core" where
  "arm t ms c = c\<lparr>fc_timers := fc_timers c @ [(t, ms)]\<rparr>"

definition schedule_tree :: "feed_core \<Rightarrow> feed_core" where
  "schedule_tree c = (if fc_tree_scheduled c then c
     else arm LayoutTree 0 (c\<lparr>fc_tree_scheduled := True\<rparr>))"

definition queue_feed :: "string \<Rightarrow> nats_message list \<Rightarrow> feed_core \<Rightarrow> feed_core" where
  "queue_feed conn msgs c =
     (let c1 = c\<lparr>fc_pending := keep_last max_pending
                  (fc_pending c @ map (\<lambda>m. m\<lparr>m_conn_id := Some conn\<rparr>) msgs)\<rparr>
      in if fc_feed_scheduled c1 then c1 else arm FlushFeed 16 (c1\<lparr>fc_feed_scheduled := True\<rparr>))"

definition flush_feed :: "feed_core \<Rightarrow> feed_core" where
  "flush_feed c = post (PostFeed (fc_pending c)) (c\<lparr>fc_feed_scheduled := False, fc_pending := []\<rparr>)"

text \<open>The regular expression \<open>/^\s*[$_]/\<close>.\<close>

definition wants_system :: "string \<Rightarrow> bool" where
  "wants_system f = (case dropWhile is_space f of [] \<Rightarrow> False
     | c # _ \<Rightarrow> c = CHR ''$'' \<or> c = CHR ''_'')"

definition view_expanded :: "tree_view \<Rightarrow> string \<Rightarrow> bool" where
  "view_expanded v p =
     (if length (trim (v_filter v)) > 0 then p \<notin> set (v_filter_collapsed v)
      else if v_all v then p \<notin> set (v_paths v) else p \<in> set (v_paths v))"

definition layout_tree :: "feed_core \<Rightarrow> feed_core" where
  "layout_tree c =
     (let v = fc_view c; T = fc_model c;
          hide = (v_hide_system v \<and> \<not> wants_system (v_filter v));
          rows = (case flatten_tree T (view_expanded v) hide of Some rs \<Rightarrow> rs | None \<Rightarrow> []);
          system_count = length (filter (\<lambda>k. is_system_root (segment_of T k)) (t_roots T))
      in post (PostTree rows system_count) (c\<lparr>fc_tree_scheduled := False\<rparr>))"

definition drop_all :: "string list \<Rightarrow> tree_model \<Rightarrow> tree_model" where
  "drop_all ids T = foldl (\<lambda>T i. drop_connection i T) T ids"

definition handle_event :: "collation \<Rightarrow> server_event \<Rightarrow> feed_core \<Rightarrow> feed_core" where
  "handle_event lc ev c = (case ev of
     SubjectTree conn full entries removed \<Rightarrow>
       schedule_tree (c\<lparr>fc_model :=
         tree_apply lc conn full (nullish entries []) (nullish removed []) (fc_model c)\<rparr>)
   | MessageBatch conn msgs \<Rightarrow> queue_feed conn (nullish msgs []) c
   | Connections conns \<Rightarrow>
       (let cs = nullish conns []; live = js_uniq (map cs_id cs);
            gone = filter (\<lambda>i. i \<notin> set live) (fc_known c)
        in post (PostEvent (Connections (Some cs)))
             (schedule_tree (c\<lparr>fc_model := drop_all gone (fc_model c), fc_known := live\<rparr>)))
   | _ \<Rightarrow> post (PostEvent ev) c)"

definition core_reset :: "feed_core \<Rightarrow> feed_core" where
  "core_reset c = schedule_tree (c\<lparr>fc_model := drop_all (fc_known c) (fc_model c),
     fc_known := [], fc_pending := []\<rparr>)"

text \<open>The command \<open>view\<close> of the main thread sets the view and lays the tree out at once.\<close>

definition set_view :: "tree_view \<Rightarrow> feed_core \<Rightarrow> feed_core" where
  "set_view v c = layout_tree (c\<lparr>fc_view := v\<rparr>)"

definition run_task :: "core_task \<Rightarrow> feed_core \<Rightarrow> feed_core" where
  "run_task t c = (case t of LayoutTree \<Rightarrow> layout_tree c | FlushFeed \<Rightarrow> flush_feed c)"

subsection \<open>The step relation\<close>

inductive core_step :: "collation \<Rightarrow> feed_core \<Rightarrow> feed_core \<Rightarrow> bool" for lc where
  event: "core_step lc c (handle_event lc ev c)"
| fire: "(t, ms) \<in> set (fc_timers c) \<Longrightarrow>
    core_step lc c (run_task t (c\<lparr>fc_timers := remove1 (t, ms) (fc_timers c)\<rparr>))"
| change_view: "core_step lc c (set_view v c)"
| reset: "core_step lc c (core_reset c)"

inductive core_reachable :: "collation \<Rightarrow> feed_core \<Rightarrow> bool" for lc where
  start: "core_reachable lc initial_core"
| step: "core_reachable lc c \<Longrightarrow> core_step lc c c' \<Longrightarrow> core_reachable lc c'"

inductive_cases core_stepE: "core_step lc c c'"

text \<open>The invariant: the tree is well formed, the queue is bounded, waiting messages have exactly
  one flush ahead of them, and a scheduled layout has its timer.\<close>

definition timers_of :: "core_task \<Rightarrow> feed_core \<Rightarrow> nat" where
  "timers_of t c = length (filter (\<lambda>x. fst x = t) (fc_timers c))"

definition core_ok :: "collation \<Rightarrow> feed_core \<Rightarrow> bool" where
  "core_ok lc c = (tree_wf lc (fc_model c) \<and> length (fc_pending c) \<le> max_pending \<and>
     (fc_pending c \<noteq> [] \<longrightarrow> fc_feed_scheduled c) \<and>
     timers_of FlushFeed c = (if fc_feed_scheduled c then 1 else 0) \<and>
     (fc_tree_scheduled c \<longrightarrow> timers_of LayoutTree c > 0))"

lemma post_fields [simp]:
  "fc_model (post m c) = fc_model c" "fc_view (post m c) = fc_view c"
  "fc_known (post m c) = fc_known c" "fc_pending (post m c) = fc_pending c"
  "fc_tree_scheduled (post m c) = fc_tree_scheduled c"
  "fc_feed_scheduled (post m c) = fc_feed_scheduled c"
  "fc_posts (post m c) = fc_posts c @ [m]" "timers_of t (post m c) = timers_of t c"
  "fc_timers (post m c) = fc_timers c"
  by (simp_all add: post_def timers_of_def)

lemma core_ok_post [simp]: "core_ok lc (post m c) = core_ok lc c"
  by (simp add: core_ok_def)

lemma core_ok_schedule_tree: "core_ok lc c \<Longrightarrow> core_ok lc (schedule_tree c)"
  by (simp add: schedule_tree_def core_ok_def arm_def timers_of_def)

lemma core_ok_queue_feed: "core_ok lc c \<Longrightarrow> core_ok lc (queue_feed conn msgs c)"
  by (simp add: queue_feed_def core_ok_def arm_def timers_of_def Let_def)

lemma core_ok_layout: "core_ok lc c \<Longrightarrow> core_ok lc (layout_tree c)"
  by (simp add: layout_tree_def core_ok_def timers_of_def Let_def)

lemma core_ok_model: "core_ok lc c \<Longrightarrow> tree_wf lc T \<Longrightarrow> core_ok lc (c\<lparr>fc_model := T\<rparr>)"
  by (simp add: core_ok_def timers_of_def)

lemma drop_all_wf: "tree_wf lc T \<Longrightarrow> tree_wf lc (drop_all ids T)"
  unfolding drop_all_def by (induction ids arbitrary: T) (auto intro: drop_connection_spec(1))

lemma tree_apply_keeps_wf:
  assumes "comparator lc" "tree_wf lc T"
  shows "tree_wf lc (tree_apply lc c full entries removed T)"
  unfolding tree_apply_def Let_def
  using assms drop_connection_spec(1)
  by (intro apply_entries_spec(1) conjunct1 [OF remove_entries_spec]) (auto split: if_splits)

lemma core_ok_event:
  assumes "comparator lc" "core_ok lc c"
  shows "core_ok lc (handle_event lc ev c)"
proof -
  have T: "tree_wf lc (fc_model c)" using assms(2) by (simp add: core_ok_def)
  have known: "core_ok lc (c\<lparr>fc_model := drop_all gone (fc_model c), fc_known := live\<rparr>)" for gone live
    using assms(2) drop_all_wf [OF T] by (simp add: core_ok_def timers_of_def)
  show ?thesis
    using assms T known
    by (auto simp: handle_event_def Let_def split: server_event.split
        intro!: core_ok_schedule_tree core_ok_queue_feed core_ok_model tree_apply_keeps_wf)
qed

lemma filter_remove1:
  "x \<in> set xs \<Longrightarrow> length (filter P (remove1 x xs)) = length (filter P xs) - (if P x then 1 else 0)"
proof (induction xs)
  case (Cons y ys)
  have "P x \<Longrightarrow> x \<in> set ys \<Longrightarrow> 0 < length (filter P ys)" by (auto simp: filter_empty_conv)
  with Cons show ?case by auto
qed simp

lemma core_ok_fire:
  assumes ok: "core_ok lc c" and t: "(t, ms) \<in> set (fc_timers c)"
  shows "core_ok lc (run_task t (c\<lparr>fc_timers := remove1 (t, ms) (fc_timers c)\<rparr>))"
proof (cases t)
  case LayoutTree
  have f: "timers_of FlushFeed (c\<lparr>fc_timers := remove1 (t, ms) (fc_timers c)\<rparr>) = timers_of FlushFeed c"
    using t LayoutTree by (simp add: timers_of_def filter_remove1)
  then show ?thesis
    using ok LayoutTree
    by (simp add: run_task_def layout_tree_def core_ok_def Let_def timers_of_def)
next
  case FlushFeed
  have f: "timers_of FlushFeed (c\<lparr>fc_timers := remove1 (t, ms) (fc_timers c)\<rparr>) = timers_of FlushFeed c - 1"
    and l: "timers_of LayoutTree (c\<lparr>fc_timers := remove1 (t, ms) (fc_timers c)\<rparr>) = timers_of LayoutTree c"
    using t FlushFeed by (simp_all add: timers_of_def filter_remove1)
  then show ?thesis
    using ok FlushFeed
    by (simp add: run_task_def flush_feed_def core_ok_def timers_of_def split: if_splits)
qed

lemma core_ok_step: "comparator lc \<Longrightarrow> core_step lc c c' \<Longrightarrow> core_ok lc c \<Longrightarrow> core_ok lc c'"
proof (erule core_stepE)
  fix ev assume "comparator lc" "core_ok lc c" "c' = handle_event lc ev c"
  then show "core_ok lc c'" by (simp add: core_ok_event)
next
  fix t ms assume "core_ok lc c" "(t, ms) \<in> set (fc_timers c)"
    "c' = run_task t (c\<lparr>fc_timers := remove1 (t, ms) (fc_timers c)\<rparr>)"
  then show "core_ok lc c'" by (simp add: core_ok_fire)
next
  fix v assume ok: "core_ok lc c" and c': "c' = set_view v c"
  have "core_ok lc (c\<lparr>fc_view := v\<rparr>)" using ok by (simp add: core_ok_def timers_of_def)
  then show "core_ok lc c'" unfolding c' set_view_def by (rule core_ok_layout)
next
  assume ok: "core_ok lc c" and c': "c' = core_reset c"
  have "tree_wf lc (fc_model c)" using ok by (simp add: core_ok_def)
  from drop_all_wf [OF this] ok
  have "core_ok lc (c\<lparr>fc_model := drop_all (fc_known c) (fc_model c), fc_known := [], fc_pending := []\<rparr>)"
    by (simp add: core_ok_def timers_of_def)
  then show "core_ok lc c'" unfolding c' core_reset_def by (rule core_ok_schedule_tree)
qed

lemma core_ok_initial: "core_ok lc initial_core"
  by (simp add: core_ok_def initial_core_def tree_wf_empty timers_of_def)

lemma core_reachable_ok:
  assumes "comparator lc" "core_reachable lc c"
  shows "core_ok lc c"
  using assms(2)
proof (induction rule: core_reachable.induct)
  case start
  show ?case by (rule core_ok_initial)
next
  case (step c c')
  then show ?case using core_ok_step [OF assms(1)] by blast
qed

subsection \<open>An empty tree\<close>

lemma drop_connection_loses:
  assumes "tree_wf lc T"
  shows "contrib (drop_connection c T) c' k = contrib T c' k \<or> contrib (drop_connection c T) c' k = None"
proof -
  have "contrib (foldl (\<lambda>T s. remove_entry c s T) T ss) c' k = contrib T c' k \<or>
      contrib (foldl (\<lambda>T s. remove_entry c s T) T ss) c' k = None" for ss
    using assms
  proof (induction ss arbitrary: T)
    case (Cons s ss)
    note r = remove_entry_spec(1) [OF Cons.prems, where s = s and c = c]
    from Cons.IH [OF removalD(1) [OF r]] removalD(3) [OF r, of c' k] show ?case by auto
  qed simp
  then show ?thesis by (simp add: drop_connection_entries)
qed

lemma drop_all_contrib:
  assumes "tree_wf lc T"
  shows "contrib (drop_all ids T) c k = contrib T c k \<or> contrib (drop_all ids T) c k = None"
    and "c \<in> set ids \<Longrightarrow> contrib (drop_all ids T) c k = None"
proof -
  have "(contrib (drop_all ids T) c k = contrib T c k \<or> contrib (drop_all ids T) c k = None) \<and>
      (c \<in> set ids \<longrightarrow> contrib (drop_all ids T) c k = None)"
    using assms
  proof (induction ids arbitrary: T)
    case (Cons i ids)
    let ?U = "drop_connection i T"
    have U: "tree_wf lc ?U" "contrib ?U i k = None" using drop_connection_spec [OF Cons.prems] by auto
    have step: "drop_all (i # ids) T = drop_all ids ?U" by (simp add: drop_all_def)
    show ?case
      unfolding step using Cons.IH [OF U(1)] U(2) drop_connection_loses [OF Cons.prems, of i c k] by auto
  qed (simp add: drop_all_def)
  then show "contrib (drop_all ids T) c k = contrib T c k \<or> contrib (drop_all ids T) c k = None"
    and "c \<in> set ids \<Longrightarrow> contrib (drop_all ids T) c k = None" by simp_all
qed

lemma no_contrib_empty:
  assumes T: "tree_wf lc T" and none: "\<And>c k. contrib T c k = None"
  shows "T = empty_tree"
proof -
  have links: "tree_links lc T" and tight: "tight_but None T" using T by (simp_all add: tree_wf_def)
  have "tree_get T k = None" for k
  proof (rule ccontr)
    assume "tree_get T k \<noteq> None"
    then obtain n where "tree_get T k = Some n" by blast
    then show False
    proof (induction "tree_depth T - length (tokens k)" arbitrary: k n rule: less_induct)
      case less
      show ?case
      proof (cases "n_children n")
        case Nil
        then have "n_by_conn n \<noteq> []" using tight less.prems by (auto simp: tight_but_def)
        then obtain c e m where "n_by_conn n = (c, e) # m" by (cases "n_by_conn n") auto
        then have "jm_get (n_by_conn n) c = Some e" by simp
        with none [of c k] less.prems show False by (simp add: contrib_def)
      next
        case (Cons k' ks)
        then have c: "k' \<in> set (n_children n)" by simp
        note ch = children_of [OF links less.prems c]
        obtain m where m: "tree_get T k' = Some m" using ch(2) by blast
        have "length (tokens k') \<le> tree_depth T" using ch(2) by (rule tree_depth_ge)
        then have "tree_depth T - length (tokens k') < tree_depth T - length (tokens k)"
          using ch(3) by linarith
        then show False using m by (rule less.hyps)
      qed
    qed
  qed
  then have gone: "tree_get T k = None" for k .
  then have "t_nodes T = []" by (cases "t_nodes T") (force simp: tree_get_def split: if_splits)+
  moreover have "t_roots T = []"
    using tree_linksD(7) [OF links, of _ None] gone by (cases "t_roots T") (auto simp: siblings_def)
  ultimately show ?thesis by (simp add: empty_tree_def)
qed

lemma reset_empties:
  assumes "core_ok lc c" "\<And>i k. contrib (fc_model c) i k \<noteq> None \<Longrightarrow> i \<in> set (fc_known c)"
  shows "fc_model (core_reset c) = empty_tree"
proof -
  have T: "tree_wf lc (fc_model c)" using assms(1) by (simp add: core_ok_def)
  have "contrib (drop_all (fc_known c) (fc_model c)) i k = None" for i k
    using drop_all_contrib [OF T, where ids = "fc_known c" and c = i and k = k] assms(2) [of i k]
    by (cases "contrib (fc_model c) i k") auto
  with drop_all_wf [OF T] have "drop_all (fc_known c) (fc_model c) = empty_tree"
    by (rule no_contrib_empty)
  then show ?thesis by (simp add: core_reset_def schedule_tree_def arm_def)
qed

subsection \<open>Properties\<close>

text \<open>C5: in every reachable state of the worker, whatever the order of server events, timers,
  view changes and resets, the tree is well formed, at most \<open>MAX_PENDING\<close> messages wait, waiting
  messages have exactly one flush ahead of them, and a layout marked as scheduled has its timer.\<close>

theorem core_invariant:
  assumes "comparator lc" "core_reachable lc c"
  shows "tree_wf lc (fc_model c) \<and> length (fc_pending c) \<le> 10000 \<and>
     (fc_pending c \<noteq> [] \<longrightarrow> timers_of FlushFeed c = 1) \<and>
     (fc_tree_scheduled c \<longrightarrow> timers_of LayoutTree c > 0)"
  using core_reachable_ok [OF assms] by (auto simp: core_ok_def max_pending_def split: if_splits)

lemma core_invariant_witness:
  "length (fc_pending (handle_event by_code_units (MessageBatch ''c'' (Some [sample_message])) initial_core)) \<le> 10000"
  using core_invariant [OF code_units.comparator_axioms
      core_reachable.step [OF core_reachable.start core_step.event]] by blast

text \<open>C6: between two frames nothing but the oldest messages beyond \<open>MAX_PENDING\<close> is lost, and
  nothing is reordered or duplicated: the flush posts the newest messages of all batches queued
  since the last one, each tagged with its connection.\<close>

theorem flush_posts_newest:
  assumes "length (fc_pending c) \<le> 10000"
  shows "fc_posts (flush_feed (fold (\<lambda>(conn, ms). queue_feed conn ms) bs c)) = fc_posts c @
     [PostFeed (keep_last 10000 (fc_pending c @
        concat (map (\<lambda>(conn, ms). map (\<lambda>m. m\<lparr>m_conn_id := Some conn\<rparr>) ms) bs)))]"
proof -
  let ?tag = "\<lambda>(conn, ms). map (\<lambda>m. m\<lparr>m_conn_id := Some conn\<rparr>) ms"
  have "fc_posts (fold (\<lambda>(conn, ms). queue_feed conn ms) bs c) = fc_posts c \<and>
      fc_pending (fold (\<lambda>(conn, ms). queue_feed conn ms) bs c) =
        keep_last max_pending (fc_pending c @ concat (map ?tag bs))"
  proof (induction bs rule: rev_induct)
    case Nil
    then show ?case using assms by (simp add: max_pending_def)
  next
    case (snoc b bs)
    obtain conn ms where b: "b = (conn, ms)" by (cases b)
    from snoc show ?case
      by (simp add: b queue_feed_def arm_def Let_def keep_last_append)
  qed
  then show ?thesis by (simp add: flush_feed_def max_pending_def)
qed

lemma flush_posts_newest_witness:
  "fc_posts (flush_feed (queue_feed ''c2'' [sample_message] (queue_feed ''c1'' [sample_message] initial_core))) =
     [PostFeed [sample_message\<lparr>m_conn_id := Some ''c1''\<rparr>, sample_message\<lparr>m_conn_id := Some ''c2''\<rparr>]]"
  using flush_posts_newest [of initial_core "[(''c1'', [sample_message]), (''c2'', [sample_message])]"]
  by (simp add: initial_core_def)

text \<open>A reset, done when the socket reopens, leaves the empty tree when every connection that
  contributed to it had been announced by a \<open>connections\<close> event.\<close>

theorem reset_clears_tree:
  assumes "comparator lc" "core_reachable lc c"
    and "\<And>i k. contrib (fc_model c) i k \<noteq> None \<Longrightarrow> i \<in> set (fc_known c)"
  shows "fc_model (core_reset c) = empty_tree"
  using core_reachable_ok [OF assms(1,2)] assms(3) by (rule reset_empties)

lemma reset_clears_tree_witness: "fc_model (core_reset initial_core) = empty_tree"
proof (rule reset_clears_tree [OF code_units.comparator_axioms core_reachable.start])
  fix i k assume "contrib (fc_model initial_core) i k \<noteq> None"
  then show "i \<in> set (fc_known initial_core)" by (simp add: initial_core_def)
qed

text \<open>The tree of a connection that no \<open>connections\<close> event has announced yet survives the
  reset, although the reset is documented to clear the tree.\<close>

theorem reset_keeps_unannounced:
  "\<exists>c. core_reachable by_code_units c \<and> fc_model (core_reset c) \<noteq> empty_tree"
proof -
  let ?c = "handle_event by_code_units (SubjectTree ''c1'' True (Some [sample_entry ''a'' 1]) None) initial_core"
  have "core_reachable by_code_units ?c"
    by (rule core_reachable.step [OF core_reachable.start core_step.event])
  moreover have "tree_get (fc_model (core_reset ?c)) ''a'' = None \<longleftrightarrow> False" by code_simp
  then have "fc_model (core_reset ?c) \<noteq> empty_tree" by (auto simp: empty_tree_def tree_get_def)
  ultimately show ?thesis by blast
qed

end
