(* ===== verification/Socket.thy ===== *)
theory Socket
  imports FeedWorker
begin

text \<open>
  The websocket: \<open>client/src/worker/feed.worker.ts\<close> (connecting, reconnecting with a growing
  delay, closing, and the commands of the main thread) and \<open>client/src/lib/ws.ts\<close> (the class
  \<open>WsClient\<close> of the main thread, which relays commands and fans events out).

  Sockets are numbered in the order they are created. The browser's side of a socket is its ready
  state and whether the handlers are still attached; its callbacks arrive as events, in any order
  the ready states allow, also for sockets the worker has already replaced. The decoders of a
  frame (\<open>JSON.parse\<close> and the MessagePack package) are the parameters \<open>parse\<close> and \<open>unpack\<close>; a
  thrown exception is \<open>None\<close>.
\<close>

subsection \<open>State\<close>

datatype ready_state = SockConnecting | SockOpen | SockClosing | SockClosed

record socket =
  so_url :: string
  so_ready :: ready_state
  so_handlers :: bool

datatype frame = TextFrame string | BinaryFrame "nat list" | OtherFrame

datatype to_worker =
    Connect string bool string
  | Disconnect
  | SendCmd client_command
  | SetView tree_view

record feed_worker =
  w_core :: feed_core
  w_sockets :: "socket list"
  w_ws :: "nat option"
  w_url :: string
  w_auth_url :: string
  w_binary :: bool
  w_status :: ws_status
  w_manually_closed :: bool
  w_reconnect_timer :: "nat option"
  w_reconnect_delay :: nat
  w_view_timer :: bool
  w_sent :: "(nat \<times> client_command) list"
  w_auth_asked :: nat

definition max_reconnect_delay :: nat where
  "max_reconnect_delay = 15000"

definition initial_worker :: feed_worker where
  "initial_worker = \<lparr>w_core = initial_core, w_sockets = [], w_ws = None, w_url = [],
     w_auth_url = ''/api/auth'', w_binary = True, w_status = WsClosed, w_manually_closed = False,
     w_reconnect_timer = None, w_reconnect_delay = 1000, w_view_timer = False, w_sent = [],
     w_auth_asked = 0\<rparr>"

definition ready_of :: "feed_worker \<Rightarrow> nat \<Rightarrow> ready_state" where
  "ready_of w i = (if i < length (w_sockets w) then so_ready (w_sockets w ! i) else SockClosed)"

definition set_ready :: "nat \<Rightarrow> ready_state \<Rightarrow> feed_worker \<Rightarrow> feed_worker" where
  "set_ready i r w = w\<lparr>w_sockets := (w_sockets w)[i := (w_sockets w ! i)\<lparr>so_ready := r\<rparr>]\<rparr>"

text \<open>\<open>sock.close()\<close> starts the closing handshake of a socket that is not closed yet.\<close>

definition close_socket :: "nat \<Rightarrow> feed_worker \<Rightarrow> feed_worker" where
  "close_socket i w = (if ready_of w i = SockConnecting \<or> ready_of w i = SockOpen
     then set_ready i SockClosing w else w)"

subsection \<open>Operations\<close>

definition on_core :: "(feed_core \<Rightarrow> feed_core) \<Rightarrow> feed_worker \<Rightarrow> feed_worker" where
  "on_core f w = w\<lparr>w_core := f (w_core w)\<rparr>"

definition set_status :: "ws_status \<Rightarrow> feed_worker \<Rightarrow> feed_worker" where
  "set_status s w = (if w_status w = s then w
     else on_core (post (PostStatus s)) (w\<lparr>w_status := s\<rparr>))"

definition send_cmd :: "client_command \<Rightarrow> feed_worker \<Rightarrow> feed_worker" where
  "send_cmd cmd w = (case w_ws w of None \<Rightarrow> w
     | Some i \<Rightarrow> if ready_of w i \<noteq> SockOpen then w else w\<lparr>w_sent := w_sent w @ [(i, cmd)]\<rparr>)"

definition send_view :: "feed_worker \<Rightarrow> feed_worker" where
  "send_view w = (let v = fc_view (w_core w) in
     send_cmd (ViewCmd (v_all v) (v_paths v) (v_filter v) (Some (v_expr v)) (Some (\<not> v_preview v))) w)"

definition decode_frame ::
    "(string \<Rightarrow> server_event option) \<Rightarrow> (nat list \<Rightarrow> server_event option) \<Rightarrow> frame \<Rightarrow> server_event option" where
  "decode_frame parse unpack f = (case f of BinaryFrame b \<Rightarrow> unpack b | TextFrame t \<Rightarrow> parse t
     | OtherFrame \<Rightarrow> None)"

definition socket_url_of :: "feed_worker \<Rightarrow> string" where
  "socket_url_of w = (if w_binary w
     then w_url w @ (if includes_str (w_url w) ''?'' then ''&'' else ''?'') @ ''enc=msgpack''
     else w_url w)"

definition connect :: "feed_worker \<Rightarrow> feed_worker" where
  "connect w0 = (let w = w0\<lparr>w_manually_closed := False\<rparr> in
     if (case w_ws w of None \<Rightarrow> False
         | Some i \<Rightarrow> ready_of w i = SockOpen \<or> ready_of w i = SockConnecting) then w
     else set_status WsConnecting
       (w\<lparr>w_sockets := w_sockets w @ [\<lparr>so_url = socket_url_of w, so_ready = SockConnecting, so_handlers = True\<rparr>],
          w_ws := Some (length (w_sockets w))\<rparr>))"

definition schedule_reconnect :: "feed_worker \<Rightarrow> feed_worker" where
  "schedule_reconnect w = (if w_reconnect_timer w \<noteq> None then w
     else w\<lparr>w_reconnect_timer := Some (w_reconnect_delay w)\<rparr>)"

definition next_delay :: "nat \<Rightarrow> nat" where
  "next_delay d = min (d * 2) max_reconnect_delay"

definition reconnect_fired :: "feed_worker \<Rightarrow> feed_worker" where
  "reconnect_fired w =
     connect (w\<lparr>w_reconnect_timer := None, w_reconnect_delay := next_delay (w_reconnect_delay w)\<rparr>)"

definition disconnect :: "feed_worker \<Rightarrow> feed_worker" where
  "disconnect w =
     (let w1 = w\<lparr>w_manually_closed := True, w_reconnect_timer := None, w_ws := None\<rparr>;
          w2 = (case w_ws w of None \<Rightarrow> w1
            | Some i \<Rightarrow> close_socket i
                (w1\<lparr>w_sockets := (w_sockets w1)[i := (w_sockets w1 ! i)\<lparr>so_handlers := False\<rparr>]\<rparr>))
      in set_status WsClosed w2)"

definition on_open :: "nat \<Rightarrow> feed_worker \<Rightarrow> feed_worker" where
  "on_open i w = (if w_ws w \<noteq> Some i then w
     else set_status WsOpen (send_view (on_core core_reset (w\<lparr>w_reconnect_delay := 1000\<rparr>))))"

definition on_message :: "collation \<Rightarrow> nat \<Rightarrow> server_event option \<Rightarrow> feed_worker \<Rightarrow> feed_worker" where
  "on_message lc i msg w = (if w_ws w \<noteq> Some i then w
     else (case msg of None \<Rightarrow> w | Some ev \<Rightarrow> on_core (handle_event lc ev) w))"

definition on_close :: "nat \<Rightarrow> nat \<Rightarrow> feed_worker \<Rightarrow> feed_worker" where
  "on_close i code w = (if w_ws w \<noteq> Some i then w
     else (let w1 = set_status WsClosed (w\<lparr>w_ws := None\<rparr>);
               w2 = (if code = 1008 \<or> code = 1006 then w1\<lparr>w_auth_asked := Suc (w_auth_asked w1)\<rparr> else w1)
           in if w_manually_closed w2 then w2 else schedule_reconnect w2))"

text \<open>The answer of \<open>/api/auth\<close>; a failed request is \<open>None\<close>.\<close>

definition auth_answer :: "bool option \<Rightarrow> feed_worker \<Rightarrow> feed_worker" where
  "auth_answer a w = (case a of Some False \<Rightarrow> on_core (post PostAuthRequired) w | _ \<Rightarrow> w)"

definition on_command :: "to_worker \<Rightarrow> feed_worker \<Rightarrow> feed_worker" where
  "on_command msg w = (case msg of
     Connect url binary auth \<Rightarrow>
       (let w1 = (if w_url w \<noteq> url \<or> w_binary w \<noteq> binary then disconnect w else w)
        in connect (w1\<lparr>w_url := url, w_binary := binary, w_auth_url := auth, w_reconnect_delay := 1000\<rparr>))
   | Disconnect \<Rightarrow> disconnect w
   | SendCmd cmd \<Rightarrow> send_cmd cmd w
   | SetView v \<Rightarrow>
       (let filter_changed = (v_filter v \<noteq> v_filter (fc_view (w_core w)));
            w1 = (on_core (set_view v) w)\<lparr>w_view_timer := False\<rparr>
        in if filter_changed then w1\<lparr>w_view_timer := True\<rparr> else send_view w1))"

subsection \<open>The step relation\<close>

inductive worker_step ::
    "(string \<Rightarrow> server_event option) \<Rightarrow> (nat list \<Rightarrow> server_event option) \<Rightarrow> collation \<Rightarrow> feed_worker \<Rightarrow> feed_worker \<Rightarrow> bool"
  for parse unpack lc where
  opened: "i < length (w_sockets w) \<Longrightarrow> ready_of w i = SockConnecting \<Longrightarrow> so_handlers (w_sockets w ! i) \<Longrightarrow>
    worker_step parse unpack lc w (on_open i (set_ready i SockOpen w))"
| message: "i < length (w_sockets w) \<Longrightarrow> so_handlers (w_sockets w ! i) \<Longrightarrow>
    worker_step parse unpack lc w (on_message lc i (decode_frame parse unpack f) w)"
| failed: "i < length (w_sockets w) \<Longrightarrow> so_handlers (w_sockets w ! i) \<Longrightarrow>
    worker_step parse unpack lc w (close_socket i w)"
| closed: "i < length (w_sockets w) \<Longrightarrow> so_handlers (w_sockets w ! i) \<Longrightarrow>
    worker_step parse unpack lc w (on_close i code (set_ready i SockClosed w))"
| quiet_close: "i < length (w_sockets w) \<Longrightarrow> \<not> so_handlers (w_sockets w ! i) \<Longrightarrow>
    worker_step parse unpack lc w (set_ready i SockClosed w)"
| retry: "w_reconnect_timer w = Some d \<Longrightarrow> worker_step parse unpack lc w (reconnect_fired w)"
| view_timer: "w_view_timer w \<Longrightarrow> worker_step parse unpack lc w (send_view (w\<lparr>w_view_timer := False\<rparr>))"
| auth: "worker_step parse unpack lc w (auth_answer a w)"
| command: "worker_step parse unpack lc w (on_command msg w)"
| core: "(t, ms) \<in> set (fc_timers (w_core w)) \<Longrightarrow>
    worker_step parse unpack lc w
      (on_core (\<lambda>c. run_task t (c\<lparr>fc_timers := remove1 (t, ms) (fc_timers c)\<rparr>)) w)"

text \<open>Reachable once the main thread has asked for a connection.\<close>

inductive worker_reachable ::
    "(string \<Rightarrow> server_event option) \<Rightarrow> (nat list \<Rightarrow> server_event option) \<Rightarrow> collation \<Rightarrow> feed_worker \<Rightarrow> bool"
  for parse unpack lc where
  start: "worker_reachable parse unpack lc (on_command (Connect url binary auth) initial_worker)"
| step: "worker_reachable parse unpack lc w \<Longrightarrow> worker_step parse unpack lc w w' \<Longrightarrow>
    worker_reachable parse unpack lc w'"

inductive_cases worker_stepE: "worker_step parse unpack lc w w'"

subsection \<open>The invariant\<close>

definition worker_ok :: "feed_worker \<Rightarrow> bool" where
  "worker_ok w =
     ((w_status w = WsClosed \<longleftrightarrow> w_ws w = None) \<and>
      (\<forall>i. w_ws w = Some i \<longrightarrow> i < length (w_sockets w) \<and> so_handlers (w_sockets w ! i) \<and>
         ready_of w i \<noteq> SockClosed \<and>
         (w_status w = WsConnecting \<longrightarrow> ready_of w i \<noteq> SockOpen) \<and>
         (w_status w = WsOpen \<longrightarrow> ready_of w i \<noteq> SockConnecting)) \<and>
      1000 \<le> w_reconnect_delay w \<and> w_reconnect_delay w \<le> 15000 \<and>
      (\<forall>d. w_reconnect_timer w = Some d \<longrightarrow> 1000 \<le> d \<and> d \<le> 15000) \<and>
      (w_manually_closed w \<longrightarrow> w_ws w = None \<and> w_reconnect_timer w = None) \<and>
      (\<not> w_manually_closed w \<longrightarrow> w_ws w \<noteq> None \<or> w_reconnect_timer w \<noteq> None))"

lemma ready_of_set_ready [simp]:
  "ready_of (set_ready i r w) j = (if i = j \<and> i < length (w_sockets w) then r else ready_of w j)"
  by (auto simp: ready_of_def set_ready_def)

lemma set_ready_fields [simp]:
  "w_ws (set_ready i r w) = w_ws w" "w_status (set_ready i r w) = w_status w"
  "length (w_sockets (set_ready i r w)) = length (w_sockets w)"
  "w_reconnect_delay (set_ready i r w) = w_reconnect_delay w"
  "w_reconnect_timer (set_ready i r w) = w_reconnect_timer w"
  "w_manually_closed (set_ready i r w) = w_manually_closed w"
  "w_core (set_ready i r w) = w_core w" "w_sent (set_ready i r w) = w_sent w"
  "so_handlers (w_sockets (set_ready i r w) ! j) = so_handlers (w_sockets w ! j)"
  by (simp_all add: set_ready_def)
     (cases "i < length (w_sockets w)"; cases "i = j"; simp add: list_update_beyond)

lemma on_core_fields [simp]:
  "w_ws (on_core f w) = w_ws w" "w_status (on_core f w) = w_status w"
  "w_sockets (on_core f w) = w_sockets w" "w_reconnect_delay (on_core f w) = w_reconnect_delay w"
  "w_reconnect_timer (on_core f w) = w_reconnect_timer w" "w_sent (on_core f w) = w_sent w"
  "w_manually_closed (on_core f w) = w_manually_closed w" "w_core (on_core f w) = f (w_core w)"
  by (simp_all add: on_core_def)

lemma set_status_fields [simp]:
  "w_ws (set_status s w) = w_ws w" "w_status (set_status s w) = s"
  "w_sockets (set_status s w) = w_sockets w" "w_reconnect_delay (set_status s w) = w_reconnect_delay w"
  "w_reconnect_timer (set_status s w) = w_reconnect_timer w" "w_sent (set_status s w) = w_sent w"
  "w_manually_closed (set_status s w) = w_manually_closed w"
  by (simp_all add: set_status_def)

lemma send_cmd_fields [simp]:
  "w_ws (send_cmd c w) = w_ws w" "w_status (send_cmd c w) = w_status w"
  "w_sockets (send_cmd c w) = w_sockets w" "w_reconnect_delay (send_cmd c w) = w_reconnect_delay w"
  "w_reconnect_timer (send_cmd c w) = w_reconnect_timer w"
  "w_manually_closed (send_cmd c w) = w_manually_closed w" "w_core (send_cmd c w) = w_core w"
  by (simp_all add: send_cmd_def split: option.splits)

lemma ready_of_sockets: "w_sockets w' = w_sockets w \<Longrightarrow> ready_of w' i = ready_of w i"
  by (simp add: ready_of_def)

lemmas ready_of_same [simp] =
  ready_of_sockets [OF on_core_fields(3)] ready_of_sockets [OF set_status_fields(3)]
  ready_of_sockets [OF send_cmd_fields(3)]

lemma ready_of_updates [simp]:
  "ready_of (w\<lparr>w_manually_closed := b\<rparr>) i = ready_of w i"
  "ready_of (w\<lparr>w_reconnect_timer := t\<rparr>) i = ready_of w i"
  "ready_of (w\<lparr>w_reconnect_delay := d\<rparr>) i = ready_of w i"
  "ready_of (w\<lparr>w_ws := s\<rparr>) i = ready_of w i"
  "ready_of (w\<lparr>w_url := u\<rparr>) i = ready_of w i"
  "ready_of (w\<lparr>w_binary := b\<rparr>) i = ready_of w i"
  "ready_of (w\<lparr>w_auth_url := u\<rparr>) i = ready_of w i"
  "ready_of (w\<lparr>w_auth_asked := n\<rparr>) i = ready_of w i"
  by (simp_all add: ready_of_def)

lemma worker_ok_cong:
  "worker_ok w \<Longrightarrow> w_ws w' = w_ws w \<Longrightarrow> w_status w' = w_status w \<Longrightarrow> w_sockets w' = w_sockets w \<Longrightarrow>
   w_reconnect_delay w' = w_reconnect_delay w \<Longrightarrow> w_reconnect_timer w' = w_reconnect_timer w \<Longrightarrow>
   w_manually_closed w' = w_manually_closed w \<Longrightarrow> worker_ok w'"
  by (auto simp: worker_ok_def ready_of_def)

lemma worker_ok_send_view: "worker_ok w \<Longrightarrow> worker_ok (send_view w)"
  unfolding send_view_def Let_def by (erule worker_ok_cong) simp_all

lemma worker_ok_on_core: "worker_ok w \<Longrightarrow> worker_ok (on_core f w)"
  by (erule worker_ok_cong) simp_all

text \<open>\<open>connect\<close> needs nothing about the timers of the state it starts from.\<close>

lemma worker_ok_connect:
  assumes "w_status w = WsClosed \<longleftrightarrow> w_ws w = None"
    and "\<And>i. w_ws w = Some i \<Longrightarrow> i < length (w_sockets w) \<and> so_handlers (w_sockets w ! i) \<and>
         ready_of w i \<noteq> SockClosed \<and> (w_status w = WsConnecting \<longrightarrow> ready_of w i \<noteq> SockOpen) \<and>
         (w_status w = WsOpen \<longrightarrow> ready_of w i \<noteq> SockConnecting)"
    and "1000 \<le> w_reconnect_delay w" "w_reconnect_delay w \<le> 15000"
    and "\<And>d. w_reconnect_timer w = Some d \<Longrightarrow> 1000 \<le> d \<and> d \<le> 15000"
  shows "worker_ok (connect w)"
proof (cases "\<exists>i. w_ws w = Some i \<and> (ready_of w i = SockOpen \<or> ready_of w i = SockConnecting)")
  case True
  then have "connect w = w\<lparr>w_manually_closed := False\<rparr>"
    by (auto simp: connect_def Let_def)
  then show ?thesis using assms True by (auto simp: worker_ok_def)
next
  case False
  let ?w = "w\<lparr>w_manually_closed := False,
     w_sockets := w_sockets w @ [\<lparr>so_url = socket_url_of w, so_ready = SockConnecting, so_handlers = True\<rparr>],
     w_ws := Some (length (w_sockets w))\<rparr>"
  from False have "connect w = set_status WsConnecting ?w"
    by (auto simp: connect_def Let_def socket_url_of_def split: option.splits)
  moreover have "ready_of ?w (length (w_sockets w)) = SockConnecting" by (simp add: ready_of_def)
  ultimately show ?thesis using assms by (simp add: worker_ok_def)
qed

lemma worker_ok_disconnect:
  assumes "worker_ok w"
  shows "worker_ok (disconnect w)"
  using assms by (auto simp: worker_ok_def disconnect_def Let_def close_socket_def split: option.splits)

lemma worker_ok_close_socket:
  assumes "worker_ok w"
  shows "worker_ok (close_socket i w)"
  using assms by (auto simp: worker_ok_def close_socket_def)

lemma worker_ok_retry:
  assumes "worker_ok w"
  shows "worker_ok (reconnect_fired w)"
  unfolding reconnect_fired_def
  using assms
  by (intro worker_ok_connect) (auto simp: worker_ok_def next_delay_def max_reconnect_delay_def ready_of_def)

lemma worker_ok_command:
  assumes "worker_ok w"
  shows "worker_ok (on_command msg w)"
proof (cases msg)
  case (Connect url binary auth)
  let ?w1 = "if w_url w \<noteq> url \<or> w_binary w \<noteq> binary then disconnect w else w"
  have "worker_ok ?w1" using assms worker_ok_disconnect by simp
  then show ?thesis
    unfolding Connect on_command_def Let_def to_worker.case
    by (intro worker_ok_connect) (auto simp: worker_ok_def ready_of_def)
next
  case Disconnect
  then show ?thesis using assms by (simp add: on_command_def worker_ok_disconnect)
next
  case (SendCmd cmd)
  then show ?thesis using assms by (auto simp: on_command_def intro: worker_ok_cong)
next
  case (SetView v)
  have v: "worker_ok (w\<lparr>w_core := c, w_view_timer := b\<rparr>)" for c b
    using assms by (rule worker_ok_cong) simp_all
  then show ?thesis
    using assms unfolding SetView by (auto simp: on_command_def Let_def on_core_def intro!: worker_ok_send_view)
qed

lemma worker_ok_closed:
  assumes "worker_ok w" "i < length (w_sockets w)"
  shows "worker_ok (on_close i code (set_ready i SockClosed w))"
proof (cases "w_ws w = Some i")
  case False
  then show ?thesis using assms by (simp add: worker_ok_def on_close_def)
next
  case True
  then show ?thesis using assms
    by (simp add: worker_ok_def on_close_def Let_def schedule_reconnect_def)
qed

lemma worker_ok_opened:
  assumes "worker_ok w" "i < length (w_sockets w)" "ready_of w i = SockConnecting"
  shows "worker_ok (on_open i (set_ready i SockOpen w))"
proof (cases "w_ws w = Some i")
  case False
  then show ?thesis using assms by (auto simp: worker_ok_def on_open_def)
next
  case True
  then show ?thesis
    using assms by (auto simp: worker_ok_def on_open_def send_view_def Let_def ready_of_def set_ready_def)
qed

lemma worker_ok_step:
  assumes "worker_step parse unpack lc w w'" "worker_ok w"
  shows "worker_ok w'"
  using assms
proof (cases rule: worker_step.cases)
  case (message i f)
  then show ?thesis using assms(2)
    by (auto simp: on_message_def intro: worker_ok_on_core split: option.splits)
next
  case (quiet_close i)
  then show ?thesis using assms(2) by (auto simp: worker_ok_def)
next
  case view_timer
  have "worker_ok (w\<lparr>w_view_timer := False\<rparr>)" using assms(2) by (rule worker_ok_cong) simp_all
  with view_timer show ?thesis by (simp add: worker_ok_send_view)
next
  case (auth a)
  then show ?thesis using assms(2)
    by (auto simp: auth_answer_def intro: worker_ok_on_core split: option.splits bool.splits)
qed (use assms(2) worker_ok_opened worker_ok_close_socket worker_ok_closed worker_ok_retry
      worker_ok_command worker_ok_on_core in auto)

lemma worker_ok_start: "worker_ok (on_command (Connect url binary auth) initial_worker)"
proof -
  have "worker_ok (connect (w\<lparr>w_url := url, w_binary := binary, w_auth_url := auth, w_reconnect_delay := 1000\<rparr>))"
    if "w_ws w = None" "w_status w = WsClosed" "w_reconnect_timer w = None" for w
    using that by (intro worker_ok_connect) simp_all
  moreover have "w_ws (disconnect initial_worker) = None" "w_status (disconnect initial_worker) = WsClosed"
    "w_reconnect_timer (disconnect initial_worker) = None"
    by (simp_all add: disconnect_def initial_worker_def Let_def)
  ultimately show ?thesis by (auto simp: on_command_def Let_def initial_worker_def)
qed

lemma worker_reachable_ok: "worker_reachable parse unpack lc w \<Longrightarrow> worker_ok w"
  by (induction rule: worker_reachable.induct) (auto intro: worker_ok_start worker_ok_step)

subsection \<open>Properties of the worker\<close>

text \<open>C7: in every reachable state the reported status agrees with the socket (closed exactly when
  there is none, open only once it has opened), every delay is between one and fifteen seconds,
  and a worker that was not told to disconnect always has a socket or an armed retry: it never
  gives up, and a worker that was told to disconnect has neither.\<close>

theorem worker_invariant:
  assumes "worker_reachable parse unpack lc w"
  shows "(w_status w = WsClosed \<longleftrightarrow> w_ws w = None) \<and>
     (w_status w = WsOpen \<longrightarrow> (\<exists>i. w_ws w = Some i \<and> ready_of w i \<in> {SockOpen, SockClosing})) \<and>
     (\<forall>d. w_reconnect_timer w = Some d \<longrightarrow> 1000 \<le> d \<and> d \<le> 15000) \<and>
     (w_manually_closed w \<longleftrightarrow> w_ws w = None \<and> w_reconnect_timer w = None)"
proof -
  have ok: "worker_ok w" using assms by (rule worker_reachable_ok)
  have "ready_of w i \<in> {SockOpen, SockClosing}" if "w_status w = WsOpen" "w_ws w = Some i" for i
    using ok that by (cases "ready_of w i") (auto simp: worker_ok_def)
  with ok show ?thesis unfolding worker_ok_def by auto
qed

lemma worker_invariant_witness:
  "\<exists>d. w_reconnect_timer (on_close 0 1006 (set_ready 0 SockClosed
     (on_command (Connect ''ws://h'' True ''/api/auth'') initial_worker))) = Some d \<and> 1000 \<le> d \<and> d \<le> 15000"
proof -
  let ?w = "on_command (Connect ''ws://h'' True ''/api/auth'') initial_worker"
  let ?w' = "on_close 0 1006 (set_ready 0 SockClosed ?w)"
  have "worker_step (\<lambda>_. None) (\<lambda>_. None) by_code_units ?w ?w'"
    by (rule worker_step.closed) code_simp+
  note inv = worker_invariant [OF worker_reachable.step [OF worker_reachable.start this]]
  have "w_manually_closed ?w' \<longleftrightarrow> w_ws ?w' = None \<and> w_reconnect_timer ?w' = None"
    using inv by (elim conjE)
  moreover have "\<not> w_manually_closed ?w'" "w_ws ?w' = None" by code_simp+
  ultimately have "w_reconnect_timer ?w' \<noteq> None" by argo
  then obtain d where d: "w_reconnect_timer ?w' = Some d" unfolding not_None_eq ..
  moreover have "1000 \<le> d \<and> d \<le> 15000" using inv d by blast
  ultimately show ?thesis by blast
qed

text \<open>The events of a socket the worker has replaced or let go change nothing but the record
  of that socket: they post nothing, send nothing, and touch neither the tree nor the timers.\<close>

theorem stale_socket_ignored:
  assumes "w_ws w \<noteq> Some i"
  shows "on_open i w = w \<and> on_message lc i msg w = w \<and> on_close i code w = w"
  using assms by (simp add: on_open_def on_message_def on_close_def)

lemma stale_socket_ignored_witness:
  "on_close 0 1006 (disconnect (connect initial_worker)) = disconnect (connect initial_worker)"
proof -
  have "w_ws (disconnect (connect initial_worker)) \<noteq> Some 0" by code_simp
  from stale_socket_ignored [OF this] show ?thesis by blast
qed

text \<open>The delay doubles with every retry up to the maximum: after \<open>n\<close> retries without a
  successful connection it is \<open>min(1000 * 2^n, 15000)\<close>.\<close>

theorem backoff_schedule:
  "w_reconnect_delay ((reconnect_fired ^^ n) (w\<lparr>w_reconnect_delay := 1000\<rparr>)) = min (1000 * 2 ^ n) 15000"
proof (induction n)
  case (Suc n)
  have d: "w_reconnect_delay (connect w) = w_reconnect_delay w" for w
    by (auto simp: connect_def Let_def split: option.splits)
  show ?case using Suc.IH
    by (simp add: reconnect_fired_def d next_delay_def max_reconnect_delay_def min_def)
qed simp

end
