(* ===== verification/WsClient.thy ===== *)
theory WsClient
  imports Socket
begin

text \<open>
  The main-thread side of the websocket: the class \<open>WsClient\<close> of \<open>client/src/lib/ws.ts\<close>. A callback
  is a number, and what is called is a log of calls; the worker is the list of messages posted to
  it. The URLs and the setting \<open>ne.wire\<close> that \<open>connect\<close> reads are arguments.
\<close>

datatype ws_call =
    CallEvent nat server_event
  | CallStatus nat ws_status
  | CallTree nat "flat_node list" nat
  | CallFeed nat "nats_message list"
  | AuthRequired

record ws_client =
  wc_worker :: bool
  wc_to_worker :: "to_worker list"
  wc_listeners :: "(string, nat list) jsmap"
  wc_status_listeners :: "nat list"
  wc_tree_listeners :: "nat list"
  wc_feed_listeners :: "nat list"
  wc_view :: "tree_view option"
  wc_status :: ws_status
  wc_endpoint :: string
  wc_calls :: "ws_call list"

definition initial_ws_client :: ws_client where
  "initial_ws_client = \<lparr>wc_worker = False, wc_to_worker = [], wc_listeners = [],
     wc_status_listeners = [], wc_tree_listeners = [], wc_feed_listeners = [], wc_view = None,
     wc_status = WsClosed, wc_endpoint = [], wc_calls = []\<rparr>"

fun event_type :: "server_event \<Rightarrow> string" where
  "event_type (Connections _) = ''connections''"
| "event_type (SubjectTree _ _ _ _) = ''subject-tree''"
| "event_type (MessageBatch _ _) = ''message-batch''"
| "event_type (Stats _ _) = ''stats''"
| "event_type (KvUpdate _ _ _) = ''kv-update''"
| "event_type (StreamMsg _ _ _) = ''stream-msg''"
| "event_type (LiveError _ _ _ _) = ''live-error''"
| "event_type (FilterError _) = ''filter-error''"
| "event_type (Alerts _ _) = ''alerts''"

definition calls :: "ws_call list \<Rightarrow> ws_client \<Rightarrow> ws_client" where
  "calls cs c = c\<lparr>wc_calls := wc_calls c @ cs\<rparr>"

definition ensure_worker :: "ws_client \<Rightarrow> ws_client" where
  "ensure_worker c = (if wc_worker c then c
     else c\<lparr>wc_worker := True,
            wc_to_worker := wc_to_worker c @ (case wc_view c of None \<Rightarrow> [] | Some v \<Rightarrow> [SetView v])\<rparr>)"

definition post_worker :: "to_worker \<Rightarrow> ws_client \<Rightarrow> ws_client" where
  "post_worker m c = (let c1 = ensure_worker c in c1\<lparr>wc_to_worker := wc_to_worker c1 @ [m]\<rparr>)"

definition client_set_status :: "ws_status \<Rightarrow> ws_client \<Rightarrow> ws_client" where
  "client_set_status s c = (if wc_status c = s then c
     else calls (map (\<lambda>cb. CallStatus cb s) (wc_status_listeners c)) (c\<lparr>wc_status := s\<rparr>))"

definition client_handle :: "from_worker \<Rightarrow> ws_client \<Rightarrow> ws_client" where
  "client_handle msg c = (case msg of
     PostStatus s \<Rightarrow> client_set_status s c
   | PostAuthRequired \<Rightarrow> calls [AuthRequired] c
   | PostEvent ev \<Rightarrow>
       calls (map (\<lambda>cb. CallEvent cb ev) (nullish (jm_get (wc_listeners c) (event_type ev)) [])) c
   | PostFeed msgs \<Rightarrow> calls (map (\<lambda>cb. CallFeed cb msgs) (wc_feed_listeners c)) c
   | PostTree rows n \<Rightarrow> calls (map (\<lambda>cb. CallTree cb rows n) (wc_tree_listeners c)) c)"

definition client_connect :: "string \<Rightarrow> string \<Rightarrow> string \<Rightarrow> ws_client \<Rightarrow> ws_client" where
  "client_connect wire url auth c =
     (let c1 = c\<lparr>wc_endpoint := url\<rparr>
      in post_worker (Connect (wc_endpoint c1) (wire \<noteq> ''json'') auth) c1)"

definition client_disconnect :: "ws_client \<Rightarrow> ws_client" where
  "client_disconnect c =
     client_set_status WsClosed (if wc_worker c then post_worker Disconnect c else c)"

definition client_reset :: "string \<Rightarrow> string \<Rightarrow> string \<Rightarrow> ws_client \<Rightarrow> ws_client" where
  "client_reset wire url auth c = client_connect wire url auth (client_disconnect c)"

definition client_send :: "client_command \<Rightarrow> ws_client \<Rightarrow> ws_client \<times> bool" where
  "client_send cmd c = (if wc_status c \<noteq> WsOpen then (c, False)
     else (post_worker (SendCmd cmd) c, True))"

definition client_set_view :: "tree_view \<Rightarrow> ws_client \<Rightarrow> ws_client" where
  "client_set_view v c = post_worker (SetView v) (c\<lparr>wc_view := Some v\<rparr>)"

text \<open>\<open>on\<close> and the function it returns; the same for the three sets of listeners.\<close>

definition client_on :: "string \<Rightarrow> nat \<Rightarrow> ws_client \<Rightarrow> ws_client" where
  "client_on t cb c = c\<lparr>wc_listeners :=
     jm_set t (js_add cb (nullish (jm_get (wc_listeners c) t) [])) (wc_listeners c)\<rparr>"

definition client_off :: "string \<Rightarrow> nat \<Rightarrow> ws_client \<Rightarrow> ws_client" where
  "client_off t cb c = c\<lparr>wc_listeners :=
     jm_set t (filter (\<lambda>x. x \<noteq> cb) (nullish (jm_get (wc_listeners c) t) [])) (wc_listeners c)\<rparr>"

definition client_on_tree :: "nat \<Rightarrow> ws_client \<Rightarrow> ws_client" where
  "client_on_tree cb c = c\<lparr>wc_tree_listeners := js_add cb (wc_tree_listeners c)\<rparr>"

definition client_on_feed :: "nat \<Rightarrow> ws_client \<Rightarrow> ws_client" where
  "client_on_feed cb c = c\<lparr>wc_feed_listeners := js_add cb (wc_feed_listeners c)\<rparr>"

definition client_on_status :: "nat \<Rightarrow> ws_client \<Rightarrow> ws_client" where
  "client_on_status cb c = calls [CallStatus cb (wc_status c)]
     (c\<lparr>wc_status_listeners := js_add cb (wc_status_listeners c)\<rparr>)"

subsection \<open>What a listener sees\<close>

definition status_seen :: "nat \<Rightarrow> ws_client \<Rightarrow> ws_status list" where
  "status_seen cb c = concat (map (\<lambda>x. case x of CallStatus b s \<Rightarrow> (if b = cb then [s] else []) | _ \<Rightarrow> [])
     (wc_calls c))"

lemma status_seen_calls:
  "status_seen cb (calls cs c) = status_seen cb c @
     concat (map (\<lambda>x. case x of CallStatus b s \<Rightarrow> (if b = cb then [s] else []) | _ \<Rightarrow> []) cs)"
  by (simp add: status_seen_def calls_def)

lemma concat_status:
  "distinct bs \<Longrightarrow> concat (map (\<lambda>x. case x of CallStatus b s \<Rightarrow> (if b = cb then [s] else []) | _ \<Rightarrow> [])
     (map (\<lambda>b. CallStatus b s) bs)) = (if cb \<in> set bs then [s] else [])"
  by (induction bs) auto

text \<open>A registered status listener has been told the current status last, and never the same
  status twice in a row.\<close>

definition listener_ok :: "nat \<Rightarrow> ws_client \<Rightarrow> bool" where
  "listener_ok cb c = (distinct (wc_status_listeners c) \<and> cb \<in> set (wc_status_listeners c) \<and>
     status_seen cb c \<noteq> [] \<and> last (status_seen cb c) = wc_status c \<and>
     distinct_adj (status_seen cb c))"

lemma listener_ok_set_status:
  assumes "listener_ok cb c"
  shows "listener_ok cb (client_set_status s c)"
proof (cases "wc_status c = s")
  case False
  have "status_seen cb (calls (map (\<lambda>cb. CallStatus cb s) (wc_status_listeners c)) (c\<lparr>wc_status := s\<rparr>)) =
      status_seen cb (c\<lparr>wc_status := s\<rparr>) @ [s]"
    unfolding status_seen_calls using assms by (subst concat_status) (simp_all add: listener_ok_def)
  then have "status_seen cb (client_set_status s c) = status_seen cb c @ [s]"
    using False by (simp add: client_set_status_def) (simp add: status_seen_def)
  with False assms show ?thesis
    by (auto simp: listener_ok_def client_set_status_def calls_def distinct_adj_append_iff)
qed (use assms in \<open>simp add: client_set_status_def\<close>)

text \<open>Whatever the worker posts, a status listener that has been told the status it
  registered under hears of every change, in order, and of nothing else: its last call carries the
  current status and no two calls in a row carry the same one.\<close>

theorem status_listener_in_step:
  assumes "listener_ok cb c"
  shows "listener_ok cb (fold client_handle msgs c)"
  using assms
proof (induction msgs arbitrary: c)
  case (Cons m msgs)
  have same: "listener_ok cb (calls cs c)" if "\<And>b s. CallStatus b s \<notin> set cs" for cs
  proof -
    have "concat (map (\<lambda>x. case x of CallStatus b s \<Rightarrow> (if b = cb then [s] else []) | _ \<Rightarrow> []) cs) = []"
      using that by (auto split: ws_call.splits)
    then have "status_seen cb (calls cs c) = status_seen cb c" by (simp add: status_seen_calls)
    with Cons.prems show ?thesis by (simp add: listener_ok_def) (simp add: calls_def)
  qed
  have "listener_ok cb (client_handle m c)"
    using Cons.prems listener_ok_set_status
    by (cases m) (auto simp: client_handle_def intro!: same)
  then show ?case using Cons.IH by simp
qed simp

lemma status_listener_in_step_witness:
  "listener_ok 7 (fold client_handle [PostStatus WsConnecting, PostStatus WsOpen, PostStatus WsOpen]
     (client_on_status 7 initial_ws_client))"
proof (rule status_listener_in_step)
  show "listener_ok 7 (client_on_status 7 initial_ws_client)"
    by (simp add: listener_ok_def client_on_status_def initial_ws_client_def calls_def status_seen_def js_add_def)
qed

end
