(* ===== verification/LiveViews.thy ===== *)
theory LiveViews
  imports Messages
begin

text \<open>
  The live view of a selected subject (\<open>client/src/store/index.ts\<close>, \<open>LiveView\<close>) and what the
  store's actions do to one view: feeding live messages in, merging the recorded history,
  and paging backwards in the list of the subject (oldest first) and of its branch (newest
  first). The actions themselves, which look the view up and put it back, are in AppStore.
\<close>

definition max_subject_messages :: nat where "max_subject_messages = 1000"

definition max_loaded_messages :: nat where "max_loaded_messages = 10000"

definition older_page :: nat where "older_page = 500"

definition max_branch_messages :: nat where "max_branch_messages = 200"

lemmas limit_defs [simp] = max_subject_messages_def max_loaded_messages_def max_branch_messages_def

record live_view =
  lv_subject :: string
  lv_messages :: "nats_message list"
  lv_branch :: "nats_message list"
  lv_loading :: bool
  lv_error :: "string option"
  lv_cap :: nat
  lv_loading_older :: bool
  lv_at_oldest :: bool
  lv_branch_cap :: nat
  lv_loading_older_branch :: bool
  lv_branch_at_oldest :: bool

definition empty_view :: "string \<Rightarrow> live_view" where
  "empty_view subject = \<lparr>lv_subject = subject, lv_messages = [], lv_branch = [], lv_loading = True,
     lv_error = None, lv_cap = max_subject_messages, lv_loading_older = False,
     lv_at_oldest = False, lv_branch_cap = max_branch_messages, lv_loading_older_branch = False,
     lv_branch_at_oldest = False\<rparr>"

subsection \<open>Live messages\<close>

definition is_below :: "string \<Rightarrow> string \<Rightarrow> bool" where
  "is_below subject s = starts_with s (subject @ ''.'')"

definition exact_of :: "string \<Rightarrow> nats_message list \<Rightarrow> nats_message list" where
  "exact_of subject msgs = filter (\<lambda>m. m_subject m = subject) msgs"

definition below_of :: "string \<Rightarrow> nats_message list \<Rightarrow> nats_message list" where
  "below_of subject msgs =
     filter (\<lambda>m. m_subject m \<noteq> subject \<and> is_below subject (m_subject m)) msgs"

definition ingest_view :: "nats_message list \<Rightarrow> string \<Rightarrow> live_view \<Rightarrow> live_view" where
  "ingest_view msgs subject v =
     (let exact = exact_of subject msgs; below = below_of subject msgs;
          v1 = (if exact = [] then v
                else v\<lparr>lv_messages := keep_last (lv_cap v) (lv_messages v @ exact)\<rparr>)
      in if below = [] then v1
         else v1\<lparr>lv_branch := keep_first (lv_branch_cap v) (rev below @ lv_branch v)\<rparr>)"

subsection \<open>History\<close>

definition unseen :: "nats_message list \<Rightarrow> nats_message list \<Rightarrow> nats_message list" where
  "unseen known msgs = filter (\<lambda>m. message_key m \<notin> message_key ` set known) msgs"

definition merge_history :: "string \<Rightarrow> history_response \<Rightarrow> bool \<Rightarrow> live_view \<Rightarrow> live_view" where
  "merge_history subject res replace v =
     (let extra = (if replace then [] else unseen (hr_messages res) (lv_messages v));
          messages0 = hr_messages res @ extra;
          messages1 = (if extra \<noteq> [] then js_sort by_arrival messages0 else messages0);
          messages = keep_last max_subject_messages messages1;
          branch0 = (if replace then hr_branch res
                     else unseen (hr_branch res) (lv_branch v) @ hr_branch res);
          branch1 = (if length branch0 \<noteq> length (hr_branch res)
                     then js_sort newer_first branch0 else branch0);
          branch = keep_first max_branch_messages branch1
      in v\<lparr>lv_subject := subject, lv_messages := messages, lv_branch := branch,
           lv_loading := False, lv_error := None, lv_cap := max_subject_messages,
           lv_loading_older := False, lv_at_oldest := False, lv_branch_cap := max_branch_messages,
           lv_loading_older_branch := False, lv_branch_at_oldest := False\<rparr>)"

definition prepend_view :: "nats_message list \<Rightarrow> bool \<Rightarrow> live_view \<Rightarrow> live_view" where
  "prepend_view msgs at_oldest v =
     (let older = unseen (lv_messages v) msgs;
          messages = (if older \<noteq> [] then js_sort by_arrival (older @ lv_messages v) else lv_messages v);
          cap = min max_loaded_messages (max (lv_cap v) (length messages + max_subject_messages))
      in v\<lparr>lv_messages := keep_last cap messages, lv_cap := cap, lv_loading_older := False,
           lv_at_oldest := (at_oldest \<or> length messages \<ge> max_loaded_messages)\<rparr>)"

definition append_branch_view :: "nats_message list \<Rightarrow> bool \<Rightarrow> live_view \<Rightarrow> live_view" where
  "append_branch_view msgs at_oldest v =
     (let older = unseen (lv_branch v) msgs;
          branch = (if older \<noteq> [] then js_sort newer_first (lv_branch v @ older) else lv_branch v);
          cap = min max_loaded_messages (max (lv_branch_cap v) (length branch + max_branch_messages))
      in v\<lparr>lv_branch := keep_first cap branch, lv_branch_cap := cap,
           lv_loading_older_branch := False,
           lv_branch_at_oldest := (at_oldest \<or> length branch \<ge> max_loaded_messages)\<rparr>)"

definition forget_view :: "live_view \<Rightarrow> live_view" where
  "forget_view v = v\<lparr>lv_messages := [], lv_branch := [], lv_cap := max_subject_messages,
     lv_at_oldest := False, lv_branch_cap := max_branch_messages, lv_branch_at_oldest := False\<rparr>"

subsection \<open>Bounds\<close>

definition view_bounded :: "live_view \<Rightarrow> bool" where
  "view_bounded v = (length (lv_messages v) \<le> lv_cap v \<and> 1000 \<le> lv_cap v \<and> lv_cap v \<le> 10000 \<and>
     length (lv_branch v) \<le> lv_branch_cap v \<and> 200 \<le> lv_branch_cap v \<and> lv_branch_cap v \<le> 10000)"

lemma view_bounded_empty [bounds_intro]: "view_bounded (empty_view s)"
  by (simp add: view_bounded_def empty_view_def)

lemma view_bounded_ingest [bounds_intro]: "view_bounded v \<Longrightarrow> view_bounded (ingest_view msgs s v)"
  by (simp add: view_bounded_def ingest_view_def Let_def)

lemma view_bounded_merge [bounds_intro]: "view_bounded (merge_history s res replace v)"
  by (simp add: view_bounded_def merge_history_def Let_def)

lemma view_bounded_prepend [bounds_intro]: "view_bounded v \<Longrightarrow> view_bounded (prepend_view msgs o' v)"
  by (auto simp: view_bounded_def prepend_view_def Let_def)

lemma view_bounded_append [bounds_intro]: "view_bounded v \<Longrightarrow> view_bounded (append_branch_view msgs o' v)"
  by (auto simp: view_bounded_def append_branch_view_def Let_def)

lemma view_bounded_forget [bounds_intro]: "view_bounded v \<Longrightarrow> view_bounded (forget_view v)"
  by (simp add: view_bounded_def forget_view_def)

lemma view_bounded_filter [bounds_intro]:
  "view_bounded v \<Longrightarrow> view_bounded (v\<lparr>lv_messages := filter P (lv_messages v), lv_branch := filter Q (lv_branch v)\<rparr>)"
  by (auto simp: view_bounded_def intro: order_trans [OF length_filter_le])

subsection \<open>Order and identity\<close>

text \<open>The view is in order and holds no message twice.\<close>

definition view_sorted :: "live_view \<Rightarrow> bool" where
  "view_sorted v = (ascending by_arrival (lv_messages v) \<and> ascending newer_first (lv_branch v) \<and>
     distinct (map message_key (lv_messages v)) \<and> distinct (map message_key (lv_branch v)))"

definition response_ok :: "history_response \<Rightarrow> bool" where
  "response_ok res = (ascending by_arrival (hr_messages res) \<and> ascending newer_first (hr_branch res) \<and>
     distinct (map message_key (hr_messages res)) \<and> distinct (map message_key (hr_branch res)))"

lemma set_unseen: "m \<in> set (unseen known msgs) \<longleftrightarrow> m \<in> set msgs \<and> message_key m \<notin> message_key ` set known"
  by (auto simp: unseen_def)

lemma unseen_disjoint: "message_key ` set (unseen known msgs) \<inter> message_key ` set known = {}"
proof -
  have "message_key m \<notin> message_key ` set known" if "m \<in> set (unseen known msgs)" for m
    using that by (simp add: unseen_def)
  then show ?thesis by blast
qed

lemma distinct_unseen_left:
  "distinct (map message_key known) \<Longrightarrow> distinct (map message_key msgs) \<Longrightarrow>
     distinct (map message_key (known @ unseen known msgs))"
  using unseen_disjoint [of known msgs] by (simp add: Int_commute unseen_def distinct_map_filter)

lemma distinct_unseen_right:
  "distinct (map message_key known) \<Longrightarrow> distinct (map message_key msgs) \<Longrightarrow>
     distinct (map message_key (unseen known msgs @ known))"
  using unseen_disjoint [of known msgs] by (simp add: unseen_def distinct_map_filter)

lemma keys_unseen: "message_key ` set (known @ unseen known msgs) = message_key ` (set known \<union> set msgs)"
  by (auto simp: unseen_def)

text \<open>Sorting only when something was added is sorting always, on an ordered list.\<close>

lemma merge_messages_eq:
  assumes "ascending by_arrival (hr_messages res)"
  shows "lv_messages (merge_history s res replace v) = keep_last max_subject_messages
     (js_sort by_arrival (hr_messages res @ (if replace then [] else unseen (hr_messages res) (lv_messages v))))"
  using assms by (simp add: merge_history_def Let_def js_sort_id)

lemma merge_branch_eq:
  assumes "ascending newer_first (hr_branch res)"
  shows "lv_branch (merge_history s res replace v) = keep_first max_branch_messages
     (js_sort newer_first ((if replace then [] else unseen (hr_branch res) (lv_branch v)) @ hr_branch res))"
  using assms by (simp add: merge_history_def Let_def js_sort_id)

lemma prepend_messages_eq:
  assumes "ascending by_arrival (lv_messages v)"
  shows "lv_messages (prepend_view msgs o' v) = keep_last (lv_cap (prepend_view msgs o' v))
     (js_sort by_arrival (unseen (lv_messages v) msgs @ lv_messages v))"
  using assms by (simp add: prepend_view_def Let_def js_sort_id)

lemma append_branch_eq:
  assumes "ascending newer_first (lv_branch v)"
  shows "lv_branch (append_branch_view msgs o' v) = keep_first (lv_branch_cap (append_branch_view msgs o' v))
     (js_sort newer_first (lv_branch v @ unseen (lv_branch v) msgs))"
  using assms by (simp add: append_branch_view_def Let_def js_sort_id)

lemma distinct_keep_last_map: "distinct (map f xs) \<Longrightarrow> distinct (map f (keep_last n xs))"
  by (simp add: keep_last_eq drop_map [symmetric])

lemma distinct_keep_first_map: "distinct (map f xs) \<Longrightarrow> distinct (map f (keep_first n xs))"
  by (simp add: keep_first_eq take_map [symmetric])

lemmas sorted_keep = sorted_wrt_keep_last [OF arrival.ascending_sort]
  sorted_wrt_keep_first [OF newest.ascending_sort]

lemma view_sorted_merge:
  assumes "view_sorted v" "response_ok res"
  shows "view_sorted (merge_history s res replace v)"
  using assms unfolding view_sorted_def response_ok_def
  by (auto simp: merge_messages_eq merge_branch_eq simp del: map_append
      intro!: sorted_keep distinct_keep_last_map distinct_keep_first_map
        distinct_unseen_left distinct_unseen_right)

lemma view_sorted_prepend:
  assumes "view_sorted v" "distinct (map message_key msgs)"
  shows "view_sorted (prepend_view msgs o' v)"
proof -
  have "lv_branch (prepend_view msgs o' v) = lv_branch v" by (simp add: prepend_view_def Let_def)
  with assms show ?thesis unfolding view_sorted_def
    by (auto simp: prepend_messages_eq simp del: map_append
        intro!: sorted_keep distinct_keep_last_map distinct_unseen_right)
qed

lemma view_sorted_append:
  assumes "view_sorted v" "distinct (map message_key msgs)"
  shows "view_sorted (append_branch_view msgs o' v)"
proof -
  have "lv_messages (append_branch_view msgs o' v) = lv_messages v" by (simp add: append_branch_view_def Let_def)
  with assms show ?thesis unfolding view_sorted_def
    by (auto simp: append_branch_eq simp del: map_append
        intro!: sorted_keep distinct_keep_first_map distinct_unseen_left)
qed

subsection \<open>Properties\<close>

text \<open>C10: merging the recorded history into a view keeps it ordered and free of duplicates, and
  loses no message: every message of the answer and every live message already there is in the
  result, unless there are more than \<open>MAX_SUBJECT_MESSAGES\<close>, and then only older ones are missing.\<close>

theorem merge_history_correct:
  assumes "view_sorted v" "response_ok res"
  shows "view_sorted (merge_history s res False v) \<and>
     (\<exists>all dropped. all = dropped @ lv_messages (merge_history s res False v) \<and>
        message_key ` set all = message_key ` (set (hr_messages res) \<union> set (lv_messages v)) \<and>
        ascending by_arrival all \<and> (dropped \<noteq> [] \<longrightarrow>
          length (lv_messages (merge_history s res False v)) = 1000))"
proof
  show "view_sorted (merge_history s res False v)" using assms by (rule view_sorted_merge)
  let ?all = "js_sort by_arrival (hr_messages res @ unseen (hr_messages res) (lv_messages v))"
  have m: "lv_messages (merge_history s res False v) = keep_last 1000 ?all"
    using assms(2) by (simp add: merge_messages_eq response_ok_def)
  have "?all = take (length ?all - 1000) ?all @ keep_last 1000 ?all" by (simp add: keep_last_eq)
  moreover have "message_key ` set ?all = message_key ` (set (hr_messages res) \<union> set (lv_messages v))"
    unfolding set_js_sort by (rule keys_unseen)
  moreover have "take (length ?all - 1000) ?all \<noteq> [] \<longrightarrow> length (keep_last 1000 ?all) = 1000" by auto
  ultimately show "\<exists>all dropped. all = dropped @ lv_messages (merge_history s res False v) \<and>
        message_key ` set all = message_key ` (set (hr_messages res) \<union> set (lv_messages v)) \<and>
        ascending by_arrival all \<and> (dropped \<noteq> [] \<longrightarrow>
          length (lv_messages (merge_history s res False v)) = 1000)"
    unfolding m using arrival.ascending_sort by blast
qed

lemma merge_history_correct_witness:
  "view_sorted (merge_history ''a:b.c'' \<lparr>hr_subject = ''a:b.c'', hr_messages = [sample_message], hr_branch = [],
       hr_more = None, hr_branch_more = None\<rparr> False
     ((empty_view ''a:b.c'')\<lparr>lv_messages := [sample_message, sample_message\<lparr>m_timestamp := 13\<rparr>]\<rparr>))"
proof (rule merge_history_correct [THEN conjunct1])
  have "message_key sample_message \<noteq> message_key (sample_message\<lparr>m_timestamp := 13\<rparr>)" by code_simp
  then show "view_sorted ((empty_view ''a:b.c'')\<lparr>lv_messages := [sample_message, sample_message\<lparr>m_timestamp := 13\<rparr>]\<rparr>)"
    by (simp add: view_sorted_def empty_view_def by_arrival_def sample_message_def Let_def)
qed (simp add: response_ok_def)

text \<open>Paging backwards loses nothing while the view holds at most \<open>MAX_LOADED_MESSAGES\<close>: the
  list is exactly the old one and the new messages of the page, in order, and the cap leaves room
  for a page of live messages before the first of them is pushed out.\<close>

theorem prepend_older_correct:
  assumes "view_sorted v" "view_bounded v" "distinct (map message_key msgs)"
    and "length (lv_messages v) + length msgs \<le> 10000"
  shows "message_key ` set (lv_messages (prepend_view msgs e v)) = message_key ` (set (lv_messages v) \<union> set msgs) \<and>
     view_sorted (prepend_view msgs e v) \<and>
     lv_cap (prepend_view msgs e v) \<ge> min 10000 (length (lv_messages (prepend_view msgs e v)) + 1000)"
proof -
  let ?all = "js_sort by_arrival (unseen (lv_messages v) msgs @ lv_messages v)"
  have le: "length ?all \<le> 10000"
  proof -
    have "length (unseen (lv_messages v) msgs) \<le> length msgs" unfolding unseen_def by (rule length_filter_le)
    then show ?thesis using assms(4) by simp
  qed
  have asc: "ascending by_arrival (lv_messages v)" using assms(1) by (simp add: view_sorted_def)
  have "lv_cap (prepend_view msgs e v) = min 10000 (max (lv_cap v) (length ?all + 1000))"
    using asc by (simp add: prepend_view_def Let_def js_sort_id)
  moreover from this le have all: "lv_messages (prepend_view msgs e v) = ?all"
    unfolding prepend_messages_eq [OF asc] by (intro keep_last_all) auto
  moreover have "message_key ` set ?all = message_key ` (set (lv_messages v) \<union> set msgs)"
    unfolding set_js_sort by (auto simp: unseen_def)
  ultimately show ?thesis using view_sorted_prepend [OF assms(1,3)] by auto
qed

lemma prepend_older_correct_witness:
  "view_sorted (prepend_view [sample_message] False (empty_view ''a:b.c'')) \<and>
     lv_cap (prepend_view [sample_message] False (empty_view ''a:b.c'')) \<ge> 1001"
proof -
  have "view_sorted (empty_view ''a:b.c'')" by (simp add: view_sorted_def empty_view_def)
  from prepend_older_correct [OF this view_bounded_empty, of "[sample_message]" False]
  have "message_key ` set (lv_messages (prepend_view [sample_message] False (empty_view ''a:b.c''))) =
      message_key ` (set (lv_messages (empty_view ''a:b.c'')) \<union> set [sample_message])"
    and s: "view_sorted (prepend_view [sample_message] False (empty_view ''a:b.c''))"
    and c: "lv_cap (prepend_view [sample_message] False (empty_view ''a:b.c'')) \<ge>
      min 10000 (length (lv_messages (prepend_view [sample_message] False (empty_view ''a:b.c''))) + 1000)"
    by (simp_all add: empty_view_def)
  moreover have "length (lv_messages (prepend_view [sample_message] False (empty_view ''a:b.c''))) = 1"
    by (simp add: prepend_view_def empty_view_def Let_def unseen_def)
  ultimately show ?thesis by simp
qed

end
