(* ===== verification/AppStore.thy ===== *)
theory AppStore
  imports LiveViews FeedWorker
begin

text \<open>
  The application store (\<open>client/src/store/index.ts\<close>): its state and its actions. An action is a
  function on the state; \<open>set(patch)\<close> is a record update. Settings the store writes
  (\<open>writeSetting\<close>) are the map \<open>s_settings\<close>, and the number of times the cache of \<open>useAsync\<close> was
  cleared is \<open>s_cache_clears\<close>. The clock of \<open>setConnections\<close> is an argument.
\<close>

subsection \<open>State\<close>

datatype split_module = SplitJetstream | SplitKv | SplitObjects

datatype module_id = ModSubjects | ModState | ModJetstream | ModKv | ModObjects | ModServices
  | ModRequests | ModEvents | ModMonitor | ModCluster | ModAlerts | ModAudit

datatype theme = Dark | Light

datatype narrow_pane = PaneList | PaneDetail

datatype request_mode = Publish | Request

datatype setting = SBool bool | SInt int | SString string

record time_range =
  tr_from :: int
  tr_to :: int
  tr_label :: string
  tr_prose :: string

record app_state =
  s_connections :: "connection_status list"
  s_connections_loaded :: bool
  s_active_conn :: "string option"
  s_module :: module_id
  s_theme :: theme
  s_explorer_width :: int
  s_rail_width :: int
  s_connections_dialog :: "bool \<times> string option"
  s_settings_open :: bool
  s_narrow_pane :: narrow_pane
  s_palette_open :: bool
  s_history_db :: bool
  s_history_retention :: string
  s_ws_online :: bool
  s_tree_rows :: "flat_node list"
  s_system_count :: nat
  s_filter :: string
  s_expr :: string
  s_filter_error :: "string option"
  s_hide_system :: bool
  s_hide_internal :: bool
  s_tree_preview :: bool
  s_selected :: "string list"
  s_subject :: "string option"
  s_expand_all :: bool
  s_expanded :: "string list"
  s_filter_collapsed :: "string list"
  s_live :: "(string, live_view) jsmap"
  s_message :: "nats_message option"
  s_range :: "time_range option"
  s_stats :: "(string, subscription_stats) jsmap"
  s_total_subjects :: int
  s_publish_open :: bool
  s_prefill :: "(string \<times> string option \<times> request_mode option) option"
  s_stream :: "string option"
  s_bucket :: "string option"
  s_kv_key :: "string option"
  s_obj_store :: "string option"
  s_beside :: "(split_module \<times> string) option"
  s_service :: "string option"
  s_template :: "string option"
  s_refresh :: nat
  s_js_domain :: "(string, string) jsmap"
  s_settings :: "(string, setting) jsmap"
  s_cache_clears :: nat

definition explorer_width_limits :: "int \<times> int \<times> int" where
  "explorer_width_limits = (220, 800, 340)"

definition rail_width_limits :: "int \<times> int \<times> int" where
  "rail_width_limits = (180, 800, 288)"

text \<open>\<open>Number(localStorage.getItem(key))\<close> is the argument; \<open>None\<close> is NaN or a storage that throws.\<close>

definition read_width :: "int option \<Rightarrow> int \<times> int \<times> int \<Rightarrow> int" where
  "read_width stored limits = (case limits of (lo, hi, fallback) \<Rightarrow>
     (case stored of None \<Rightarrow> fallback | Some n \<Rightarrow> if n \<ge> lo \<and> n \<le> hi then n else fallback))"

definition clamp_width :: "rat \<Rightarrow> int \<times> int \<times> int \<Rightarrow> int" where
  "clamp_width w limits = (case limits of (lo, hi, _) \<Rightarrow> max lo (min hi \<lfloor>w + 1 / 2\<rfloor>))"

definition count_subjects :: "(string, subscription_stats) jsmap \<Rightarrow> int" where
  "count_subjects stats = sum_list (map ss_subjects (jm_values stats))"

definition initial_state :: "theme \<Rightarrow> int option \<Rightarrow> int option \<Rightarrow> string \<Rightarrow> bool \<Rightarrow> bool \<Rightarrow> bool \<Rightarrow> app_state" where
  "initial_state th width rail expr hide_system hide_internal preview =
    \<lparr>s_connections = [], s_connections_loaded = False, s_active_conn = None,
     s_module = ModSubjects, s_theme = th,
     s_explorer_width = read_width width explorer_width_limits,
     s_rail_width = read_width rail rail_width_limits,
     s_connections_dialog = (False, None), s_settings_open = False, s_narrow_pane = PaneList,
     s_palette_open = False, s_history_db = False, s_history_retention = [], s_ws_online = False,
     s_tree_rows = [], s_system_count = 0, s_filter = [], s_expr = expr, s_filter_error = None,
     s_hide_system = hide_system, s_hide_internal = hide_internal, s_tree_preview = preview,
     s_selected = [], s_subject = None, s_expand_all = False, s_expanded = [],
     s_filter_collapsed = [], s_live = [], s_message = None, s_range = None, s_stats = [],
     s_total_subjects = 0, s_publish_open = False, s_prefill = None, s_stream = None,
     s_bucket = None, s_kv_key = None, s_obj_store = None, s_beside = None, s_service = None,
     s_template = None, s_refresh = 0, s_js_domain = [], s_settings = [], s_cache_clears = 0\<rparr>"

subsection \<open>Connections\<close>

definition stamp_pause :: "int \<Rightarrow> connection_status \<Rightarrow> connection_status" where
  "stamp_pause now c = (case cs_live_pause_ms c of None \<Rightarrow> c
     | Some ms \<Rightarrow> if ms = 0 then c else c\<lparr>cs_live_paused_until := Some (now + ms)\<rparr>)"

definition choose_active :: "connection_status list \<Rightarrow> string option \<Rightarrow> string option" where
  "choose_active conns active =
     (if (\<exists>c \<in> set conns. Some (cs_id c) = active) then active
      else (case List.find cs_connected conns of Some c \<Rightarrow> Some (cs_id c)
        | None \<Rightarrow> (case conns of [] \<Rightarrow> None | c # _ \<Rightarrow> Some (cs_id c))))"

definition of_live :: "string list \<Rightarrow> nats_message \<Rightarrow> bool" where
  "of_live live m = (\<not> truthy (m_conn_id m) \<or> nullish (m_conn_id m) [] \<in> set live)"

definition clear_selections :: "app_state \<Rightarrow> app_state" where
  "clear_selections s = s\<lparr>s_stream := None, s_bucket := None, s_kv_key := None,
     s_obj_store := None, s_service := None, s_beside := None\<rparr>"

definition keep_messages :: "(nats_message \<Rightarrow> bool) \<Rightarrow> live_view \<Rightarrow> live_view" where
  "keep_messages P v = v\<lparr>lv_messages := filter P (lv_messages v), lv_branch := filter P (lv_branch v)\<rparr>"

definition set_connections :: "int \<Rightarrow> connection_status list \<Rightarrow> app_state \<Rightarrow> app_state" where
  "set_connections now received s =
     (let conns = map (stamp_pause now) received;
          active = choose_active conns (s_active_conn s);
          live = map cs_id conns;
          changed = (\<exists>i \<in> set (jm_keys (s_stats s)). i \<notin> set live);
          stats = filter (\<lambda>(i, _). i \<in> set live) (s_stats s);
          s1 = s\<lparr>s_connections := conns, s_active_conn := active, s_connections_loaded := True\<rparr>;
          s2 = (if changed then
                  s1\<lparr>s_stats := stats, s_total_subjects := count_subjects stats,
                     s_live := map (\<lambda>(k, v). (k, keep_messages (of_live live) v)) (s_live s)\<rparr>
                else s1)
      in if active \<noteq> s_active_conn s then clear_selections s2 else s2)"

definition set_active_conn :: "string option \<Rightarrow> app_state \<Rightarrow> app_state" where
  "set_active_conn i s = (if s_active_conn s = i then s
     else clear_selections (s\<lparr>s_active_conn := i\<rparr>))"

subsection \<open>Shell\<close>

definition write_setting :: "string \<Rightarrow> setting \<Rightarrow> app_state \<Rightarrow> app_state" where
  "write_setting k v s = s\<lparr>s_settings := jm_set k v (s_settings s)\<rparr>"

definition set_theme :: "theme \<Rightarrow> app_state \<Rightarrow> app_state" where
  "set_theme t s = (write_setting ''ne.theme'' (SString (case t of Dark \<Rightarrow> ''dark'' | Light \<Rightarrow> ''light'')) s)
     \<lparr>s_theme := t\<rparr>"

definition toggle_theme :: "app_state \<Rightarrow> app_state" where
  "toggle_theme s = set_theme (if s_theme s = Dark then Light else Dark) s"

definition set_explorer_width :: "rat \<Rightarrow> app_state \<Rightarrow> app_state" where
  "set_explorer_width w s = (let clamped = clamp_width w explorer_width_limits in
     (write_setting ''ne.explorerWidth'' (SInt clamped) s)\<lparr>s_explorer_width := clamped\<rparr>)"

definition set_rail_width :: "rat \<Rightarrow> app_state \<Rightarrow> app_state" where
  "set_rail_width w s = (let clamped = clamp_width w rail_width_limits in
     (write_setting ''ne.historyRailWidth'' (SInt clamped) s)\<lparr>s_rail_width := clamped\<rparr>)"

definition open_connections_dialog :: "string option \<Rightarrow> app_state \<Rightarrow> app_state" where
  "open_connections_dialog edit s = s\<lparr>s_connections_dialog := (True, edit)\<rparr>"

definition close_connections_dialog :: "app_state \<Rightarrow> app_state" where
  "close_connections_dialog s = s\<lparr>s_connections_dialog := (False, None)\<rparr>"

definition set_history_db :: "bool \<Rightarrow> string \<Rightarrow> app_state \<Rightarrow> app_state" where
  "set_history_db enabled retention s = s\<lparr>s_history_db := enabled, s_history_retention := retention\<rparr>"

subsection \<open>The tree\<close>

definition set_tree_rows :: "flat_node list \<Rightarrow> nat \<Rightarrow> app_state \<Rightarrow> app_state" where
  "set_tree_rows rows n s = s\<lparr>s_tree_rows := rows, s_system_count := n\<rparr>"

definition set_subject_filter :: "string \<Rightarrow> app_state \<Rightarrow> app_state" where
  "set_subject_filter f s = s\<lparr>s_filter := f, s_filter_collapsed := []\<rparr>"

definition set_subject_expr :: "string \<Rightarrow> app_state \<Rightarrow> app_state" where
  "set_subject_expr e s = (let s1 = (write_setting ''ne.subjectExpr'' (SString e) s)\<lparr>s_expr := e\<rparr> in
     if trim e \<noteq> [] then s1 else s1\<lparr>s_filter_error := None\<rparr>)"

definition set_filter_error :: "string \<Rightarrow> app_state \<Rightarrow> app_state" where
  "set_filter_error e s = s\<lparr>s_filter_error := or_undefined e\<rparr>"

definition set_hide_system :: "bool \<Rightarrow> app_state \<Rightarrow> app_state" where
  "set_hide_system b s = (write_setting ''ne.hideSystemSubjects'' (SBool b) s)\<lparr>s_hide_system := b\<rparr>"

definition set_hide_internal :: "bool \<Rightarrow> app_state \<Rightarrow> app_state" where
  "set_hide_internal b s = (write_setting ''ne.hideInternalStreams'' (SBool b) s)\<lparr>s_hide_internal := b\<rparr>"

definition set_tree_preview :: "bool \<Rightarrow> app_state \<Rightarrow> app_state" where
  "set_tree_preview b s = (write_setting ''ne.treePreview'' (SBool b) s)\<lparr>s_tree_preview := b\<rparr>"

text \<open>\<open>set.has(x) ? set.delete(x) : set.add(x)\<close>.\<close>

definition js_toggle :: "'a \<Rightarrow> 'a list \<Rightarrow> 'a list" where
  "js_toggle x xs = (if x \<in> set xs then filter (\<lambda>y. y \<noteq> x) xs else xs @ [x])"

definition is_expanded :: "app_state \<Rightarrow> string \<Rightarrow> bool" where
  "is_expanded s path =
     (if trim (s_filter s) \<noteq> [] then path \<notin> set (s_filter_collapsed s)
      else if s_expand_all s then path \<notin> set (s_expanded s) else path \<in> set (s_expanded s))"

definition toggle_expanded :: "string \<Rightarrow> app_state \<Rightarrow> app_state" where
  "toggle_expanded path s =
     (if trim (s_filter s) \<noteq> []
      then s\<lparr>s_filter_collapsed := js_toggle path (s_filter_collapsed s)\<rparr>
      else s\<lparr>s_expanded := js_toggle path (s_expanded s)\<rparr>)"

definition set_expanded :: "string list \<Rightarrow> app_state \<Rightarrow> app_state" where
  "set_expanded paths s = s\<lparr>s_expand_all := False, s_expanded := js_uniq paths\<rparr>"

definition expand_all_branches :: "app_state \<Rightarrow> app_state" where
  "expand_all_branches s = (if trim (s_filter s) \<noteq> [] then s\<lparr>s_filter_collapsed := []\<rparr>
     else s\<lparr>s_expand_all := True, s_expanded := []\<rparr>)"

definition collapse_all :: "app_state \<Rightarrow> app_state" where
  "collapse_all s = (if trim (s_filter s) = [] then s\<lparr>s_expand_all := False, s_expanded := []\<rparr>
     else s\<lparr>s_filter_collapsed := js_uniq (map f_subject (filter f_has_children (s_tree_rows s)))\<rparr>)"

subsection \<open>The selection\<close>

definition set_selected_subject :: "string option \<Rightarrow> app_state \<Rightarrow> app_state" where
  "set_selected_subject subject s =
     (if s_subject s = subject \<and> length (s_selected s) \<le> 1 then s
      else s\<lparr>s_selected := (if truthy subject then [the subject] else []), s_subject := subject,
             s_message := None, s_range := None,
             s_live := (if truthy subject
               then [(the subject, nullish (jm_get (s_live s) (the subject)) (empty_view (the subject)))]
               else [])\<rparr>)"

definition reveal_subject :: "string \<Rightarrow> app_state \<Rightarrow> app_state" where
  "reveal_subject subject s = set_selected_subject (Some subject)
     (s\<lparr>s_expanded := fold (\<lambda>p xs. if s_expand_all s then filter (\<lambda>y. y \<noteq> p) xs else js_add p xs)
        (ancestors_of subject) (s_expanded s)\<rparr>)"

definition toggle_selected_subject :: "string \<Rightarrow> app_state \<Rightarrow> app_state" where
  "toggle_selected_subject subject s =
     (let present = (subject \<in> set (s_selected s));
          selected = (if present then filter (\<lambda>x. x \<noteq> subject) (s_selected s)
                      else s_selected s @ [subject]);
          live = (if present then jm_delete subject (s_live s)
                  else jm_set subject (empty_view subject) (s_live s))
      in s\<lparr>s_selected := selected,
           s_subject := (if selected = [] then None else Some (last selected)),
           s_message := None, s_range := None, s_live := live\<rparr>)"

subsection \<open>Live views\<close>

text \<open>\<open>ingestFeed\<close> replaces the views that got something; the others keep theirs.\<close>

definition ingest_feed :: "nats_message list \<Rightarrow> app_state \<Rightarrow> app_state" where
  "ingest_feed msgs s = (if s_live s = [] \<or> msgs = [] then s
     else s\<lparr>s_live := map (\<lambda>(subject, v). (subject, ingest_view msgs subject v)) (s_live s)\<rparr>)"

text \<open>\<open>const view = get().live.get(subject); if (!view) return; \<dots> live.set(subject, \<dots>)\<close>.\<close>

definition with_view :: "string \<Rightarrow> (live_view \<Rightarrow> live_view) \<Rightarrow> app_state \<Rightarrow> app_state" where
  "with_view subject f s = (case jm_get (s_live s) subject of None \<Rightarrow> s
     | Some v \<Rightarrow> s\<lparr>s_live := jm_set subject (f v) (s_live s)\<rparr>)"

definition apply_history :: "string \<Rightarrow> history_response \<Rightarrow> bool \<Rightarrow> app_state \<Rightarrow> app_state" where
  "apply_history subject res replace = with_view subject (merge_history subject res replace)"

definition set_loading_older :: "string \<Rightarrow> bool \<Rightarrow> app_state \<Rightarrow> app_state" where
  "set_loading_older subject b = with_view subject (\<lambda>v. v\<lparr>lv_loading_older := b\<rparr>)"

definition set_loading_older_branch :: "string \<Rightarrow> bool \<Rightarrow> app_state \<Rightarrow> app_state" where
  "set_loading_older_branch subject b = with_view subject (\<lambda>v. v\<lparr>lv_loading_older_branch := b\<rparr>)"

definition append_older_branch :: "string \<Rightarrow> nats_message list \<Rightarrow> bool \<Rightarrow> app_state \<Rightarrow> app_state" where
  "append_older_branch subject msgs e = with_view subject (append_branch_view msgs e)"

definition prepend_older :: "string \<Rightarrow> nats_message list \<Rightarrow> bool \<Rightarrow> app_state \<Rightarrow> app_state" where
  "prepend_older subject msgs e = with_view subject (prepend_view msgs e)"

definition set_live_error :: "string \<Rightarrow> string \<Rightarrow> app_state \<Rightarrow> app_state" where
  "set_live_error subject e = with_view subject (\<lambda>v. v\<lparr>lv_loading := False, lv_error := Some e\<rparr>)"

definition reset_live :: "app_state \<Rightarrow> app_state" where
  "reset_live s = s\<lparr>s_live := map (\<lambda>(k, v). (k, forget_view v)) (s_live s), s_message := None\<rparr>"

definition set_subscription_stats :: "string \<Rightarrow> subscription_stats \<Rightarrow> app_state \<Rightarrow> app_state" where
  "set_subscription_stats conn st s = (let stats = jm_set conn st (s_stats s) in
     s\<lparr>s_stats := stats, s_total_subjects := count_subjects stats\<rparr>)"

subsection \<open>Publishing and module selections\<close>

definition prefill_publish ::
    "(string \<times> string option \<times> request_mode option) option \<Rightarrow> app_state \<Rightarrow> app_state" where
  "prefill_publish p s = s\<lparr>s_prefill := p, s_publish_open := (p \<noteq> None \<or> s_publish_open s)\<rparr>"

definition set_selected_bucket :: "string option \<Rightarrow> app_state \<Rightarrow> app_state" where
  "set_selected_bucket b s = (if s_bucket s = b then s else s\<lparr>s_bucket := b, s_kv_key := None\<rparr>)"

definition bump_refresh :: "app_state \<Rightarrow> app_state" where
  "bump_refresh s = s\<lparr>s_refresh := s_refresh s + 1\<rparr>"

definition set_js_domain_override :: "string \<Rightarrow> string \<Rightarrow> app_state \<Rightarrow> app_state" where
  "set_js_domain_override conn domain s =
     (let next = (if trim domain \<noteq> [] then jm_set conn (trim domain) (s_js_domain s)
                  else jm_delete conn (s_js_domain s))
      in s\<lparr>s_js_domain := next, s_refresh := s_refresh s + 1, s_stream := None, s_bucket := None,
           s_kv_key := None, s_obj_store := None, s_beside := None,
           s_cache_clears := s_cache_clears s + 1\<rparr>)"

subsection \<open>Plain setters\<close>

definition set_module :: "module_id \<Rightarrow> app_state \<Rightarrow> app_state" where
  "set_module x s = s\<lparr>s_module := x\<rparr>"

definition set_settings_open :: "bool \<Rightarrow> app_state \<Rightarrow> app_state" where
  "set_settings_open x s = s\<lparr>s_settings_open := x\<rparr>"

definition set_narrow_pane :: "narrow_pane \<Rightarrow> app_state \<Rightarrow> app_state" where
  "set_narrow_pane x s = s\<lparr>s_narrow_pane := x\<rparr>"

definition set_palette_open :: "bool \<Rightarrow> app_state \<Rightarrow> app_state" where
  "set_palette_open x s = s\<lparr>s_palette_open := x\<rparr>"

definition set_ws_online :: "bool \<Rightarrow> app_state \<Rightarrow> app_state" where
  "set_ws_online x s = s\<lparr>s_ws_online := x\<rparr>"

definition set_range :: "time_range option \<Rightarrow> app_state \<Rightarrow> app_state" where
  "set_range x s = s\<lparr>s_range := x\<rparr>"

definition set_selected_message :: "nats_message option \<Rightarrow> app_state \<Rightarrow> app_state" where
  "set_selected_message x s = s\<lparr>s_message := x\<rparr>"

definition set_publish_open :: "bool \<Rightarrow> app_state \<Rightarrow> app_state" where
  "set_publish_open x s = s\<lparr>s_publish_open := x\<rparr>"

definition set_selected_stream :: "string option \<Rightarrow> app_state \<Rightarrow> app_state" where
  "set_selected_stream x s = s\<lparr>s_stream := x\<rparr>"

definition set_selected_kv_key :: "string option \<Rightarrow> app_state \<Rightarrow> app_state" where
  "set_selected_kv_key x s = s\<lparr>s_kv_key := x\<rparr>"

definition set_selected_obj_store :: "string option \<Rightarrow> app_state \<Rightarrow> app_state" where
  "set_selected_obj_store x s = s\<lparr>s_obj_store := x\<rparr>"

definition set_selected_service :: "string option \<Rightarrow> app_state \<Rightarrow> app_state" where
  "set_selected_service x s = s\<lparr>s_service := x\<rparr>"

definition set_selected_template :: "string option \<Rightarrow> app_state \<Rightarrow> app_state" where
  "set_selected_template x s = s\<lparr>s_template := x\<rparr>"

definition open_beside :: "split_module \<Rightarrow> string \<Rightarrow> app_state \<Rightarrow> app_state" where
  "open_beside m name s = s\<lparr>s_beside := Some (m, name)\<rparr>"

definition close_beside :: "app_state \<Rightarrow> app_state" where
  "close_beside s = s\<lparr>s_beside := None\<rparr>"

lemmas plain_setter_defs = set_module_def set_settings_open_def
  set_narrow_pane_def set_palette_open_def set_ws_online_def set_range_def set_selected_message_def
  set_publish_open_def set_selected_stream_def set_selected_kv_key_def set_selected_obj_store_def set_selected_service_def set_selected_template_def open_beside_def close_beside_def

subsection \<open>Selectors\<close>

definition js_domain_override :: "app_state \<Rightarrow> string option \<Rightarrow> string option" where
  "js_domain_override s conn = (if truthy conn then jm_get (s_js_domain s) (the conn) else None)"

definition active_connection :: "app_state \<Rightarrow> connection_status option" where
  "active_connection s = List.find (\<lambda>c. Some (cs_id c) = s_active_conn s) (s_connections s)"

definition subject_messages :: "app_state \<Rightarrow> string option \<Rightarrow> nats_message list" where
  "subject_messages s subject = (if truthy subject
     then (case jm_get (s_live s) (the subject) of None \<Rightarrow> [] | Some v \<Rightarrow> lv_messages v) else [])"

definition branch_messages :: "app_state \<Rightarrow> string option \<Rightarrow> nats_message list" where
  "branch_messages s subject = (if truthy subject
     then (case jm_get (s_live s) (the subject) of None \<Rightarrow> [] | Some v \<Rightarrow> lv_branch v) else [])"

text \<open>The view of the tree the store hands to the worker (\<open>treeView\<close> of \<open>client/src/lib/feed.ts\<close>).\<close>

definition tree_view_of :: "app_state \<Rightarrow> tree_view" where
  "tree_view_of s = \<lparr>v_all = s_expand_all s, v_paths = s_expanded s, v_filter = s_filter s,
     v_filter_collapsed = s_filter_collapsed s, v_expr = s_expr s, v_hide_system = s_hide_system s,
     v_preview = s_tree_preview s\<rparr>"

end
