(* ===== verification/AppProps.thy ===== *)
theory AppProps
  imports AppStore
begin

text \<open>
  The properties of the application store: what holds in every state the actions can reach, what
  a batch of live messages does to each view, the agreement between the store and the worker on
  what is expanded, and the choice of the active connection.
\<close>

inductive store_step :: "app_state \<Rightarrow> app_state \<Rightarrow> bool" where
  "store_step s (set_connections now conns s)"
| "store_step s (set_active_conn i s)"
| "store_step s (set_theme t s)"
| "store_step s (toggle_theme s)"
| "store_step s (set_explorer_width w s)"
| "store_step s (set_rail_width w s)"
| "store_step s (open_connections_dialog e s)"
| "store_step s (close_connections_dialog s)"
| "store_step s (set_history_db b r s)"
| "store_step s (set_tree_rows rows n s)"
| "store_step s (set_subject_filter f s)"
| "store_step s (set_subject_expr f s)"
| "store_step s (set_filter_error f s)"
| "store_step s (set_hide_system b s)"
| "store_step s (set_hide_internal b s)"
| "store_step s (set_tree_preview b s)"
| "store_step s (toggle_expanded p s)"
| "store_step s (set_expanded ps s)"
| "store_step s (expand_all_branches s)"
| "store_step s (collapse_all s)"
| "store_step s (set_selected_subject sub s)"
| "store_step s (reveal_subject p s)"
| "store_step s (toggle_selected_subject p s)"
| "store_step s (ingest_feed msgs s)"
| "store_step s (apply_history p res b s)"
| "store_step s (set_loading_older p b s)"
| "store_step s (set_loading_older_branch p b s)"
| "store_step s (append_older_branch p msgs b s)"
| "store_step s (prepend_older p msgs b s)"
| "store_step s (set_live_error p e s)"
| "store_step s (reset_live s)"
| "store_step s (set_subscription_stats c st s)"
| "store_step s (prefill_publish pre s)"
| "store_step s (set_selected_bucket sub s)"
| "store_step s (bump_refresh s)"
| "store_step s (set_js_domain_override c d s)"
| "store_step s (set_module x0 s)"
| "store_step s (set_settings_open x1 s)"
| "store_step s (set_narrow_pane x2 s)"
| "store_step s (set_palette_open x3 s)"
| "store_step s (set_ws_online x4 s)"
| "store_step s (set_range x5 s)"
| "store_step s (set_selected_message x6 s)"
| "store_step s (set_publish_open x7 s)"
| "store_step s (set_selected_stream x8 s)"
| "store_step s (set_selected_kv_key x9 s)"
| "store_step s (set_selected_obj_store x10 s)"
| "store_step s (set_selected_service x11 s)"
| "store_step s (set_selected_template x12 s)"
| "store_step s (open_beside m name s)"
| "store_step s (close_beside s)"

inductive store_reachable :: "app_state \<Rightarrow> bool" where
  start: "store_reachable (initial_state th w r e hs hi pv)"
| step: "store_reachable s \<Longrightarrow> store_step s s' \<Longrightarrow> store_reachable s'"

definition in_limits :: "int \<times> int \<times> int \<Rightarrow> int \<Rightarrow> bool" where
  "in_limits limits w = (fst limits \<le> w \<and> w \<le> fst (snd limits))"

definition store_ok :: "app_state \<Rightarrow> bool" where
  "store_ok s = (jm_keys (s_live s) = s_selected s \<and> distinct (s_selected s) \<and>
     (\<forall>(k, v) \<in> set (s_live s). view_bounded v \<and> lv_subject v = k) \<and>
     (s_selected s = [] \<longrightarrow> s_subject s = None \<or> s_subject s = Some []) \<and>
     (s_selected s \<noteq> [] \<longrightarrow> s_subject s = Some (last (s_selected s))) \<and>
     s_total_subjects s = count_subjects (s_stats s) \<and>
     in_limits explorer_width_limits (s_explorer_width s) \<and> in_limits rail_width_limits (s_rail_width s))"

lemma read_width_in_limits:
  "lo \<le> d \<Longrightarrow> d \<le> hi \<Longrightarrow> in_limits (lo, hi, d) (read_width stored (lo, hi, d))"
  by (simp add: in_limits_def read_width_def split: option.splits)

lemma clamp_width_in_limits: "lo \<le> hi \<Longrightarrow> in_limits (lo, hi, d) (clamp_width w (lo, hi, d))"
  by (simp add: in_limits_def clamp_width_def)

lemma store_ok_initial: "store_ok (initial_state th w r e hs hi pv)"
  by (simp add: store_ok_def initial_state_def count_subjects_def read_width_in_limits
      explorer_width_limits_def rail_width_limits_def)

text \<open>An action that leaves the selection, the views, the counters and the widths alone.\<close>

lemma store_ok_cong:
  "store_ok s \<Longrightarrow> s_live s' = s_live s \<Longrightarrow> s_selected s' = s_selected s \<Longrightarrow> s_subject s' = s_subject s \<Longrightarrow>
   s_total_subjects s' = s_total_subjects s \<Longrightarrow> s_stats s' = s_stats s \<Longrightarrow>
   s_explorer_width s' = s_explorer_width s \<Longrightarrow> s_rail_width s' = s_rail_width s \<Longrightarrow> store_ok s'"
  by (simp add: store_ok_def)

lemma store_ok_live:
  assumes "store_ok s" "jm_keys l = jm_keys (s_live s)"
    and "\<forall>(k, v) \<in> set l. view_bounded v \<and> lv_subject v = k"
  shows "store_ok (s\<lparr>s_live := l\<rparr>)"
  using assms by (simp add: store_ok_def)

lemma store_ok_map_live:
  assumes "store_ok s" "\<And>k v. view_bounded v \<Longrightarrow> lv_subject v = k \<Longrightarrow> view_bounded (f k v) \<and> lv_subject (f k v) = k"
  shows "store_ok (s\<lparr>s_live := map (\<lambda>(k, v). (k, f k v)) (s_live s)\<rparr>)"
  using assms(1)
proof (rule store_ok_live)
  show "jm_keys (map (\<lambda>(k, v). (k, f k v)) (s_live s)) = jm_keys (s_live s)" by auto
  show "\<forall>(k, v) \<in> set (map (\<lambda>(k, v). (k, f k v)) (s_live s)). view_bounded v \<and> lv_subject v = k"
    using assms by (fastforce simp: store_ok_def)
qed

lemma store_ok_with_view:
  assumes "store_ok s" "\<And>v. view_bounded v \<Longrightarrow> lv_subject v = k \<Longrightarrow> view_bounded (f v) \<and> lv_subject (f v) = k"
  shows "store_ok (with_view k f s)"
proof (cases "jm_get (s_live s) k")
  case (Some v)
  then have v: "view_bounded v \<and> lv_subject v = k"
    using assms(1) by (fastforce simp: store_ok_def dest: map_of_SomeD)
  have "store_ok (s\<lparr>s_live := jm_set k (f v) (s_live s)\<rparr>)"
    using assms(1)
  proof (rule store_ok_live)
    show "jm_keys (jm_set k (f v) (s_live s)) = jm_keys (s_live s)"
      using Some by (simp add: update_keys) (metis jm_get_None option.discI set_map)
    show "\<forall>(k', v') \<in> set (jm_set k (f v) (s_live s)). view_bounded v' \<and> lv_subject v' = k'"
      using set_update_subset [of k "f v" "s_live s"] assms v by (fastforce simp: store_ok_def)
  qed
  with Some show ?thesis by (simp add: with_view_def)
qed (use assms in \<open>simp add: with_view_def\<close>)

lemma ingest_view_subject [simp]: "lv_subject (ingest_view msgs k v) = lv_subject v"
  by (simp add: ingest_view_def Let_def)

lemma view_subjects [simp]:
  "lv_subject (forget_view v) = lv_subject v" "lv_subject (prepend_view msgs e v) = lv_subject v"
  "lv_subject (append_branch_view msgs e v) = lv_subject v" "lv_subject (keep_messages P v) = lv_subject v"
  "lv_subject (merge_history k res b v) = k" "lv_subject (empty_view k) = k"
  by (simp_all add: forget_view_def prepend_view_def append_branch_view_def keep_messages_def
      merge_history_def empty_view_def Let_def)

lemma view_bounded_keep [bounds_intro]: "view_bounded v \<Longrightarrow> view_bounded (keep_messages P v)"
  unfolding keep_messages_def by (rule view_bounded_filter)

lemma view_bounded_flags [bounds_intro]:
  "view_bounded (v\<lparr>lv_loading_older := b\<rparr>) = view_bounded v"
  "view_bounded (v\<lparr>lv_loading_older_branch := b\<rparr>) = view_bounded v"
  "view_bounded (v\<lparr>lv_loading := b, lv_error := e\<rparr>) = view_bounded v"
  by (simp_all add: view_bounded_def)

lemma store_ok_clear_selections [simp]: "store_ok (clear_selections s) = store_ok s"
  by (simp add: store_ok_def clear_selections_def)

lemma store_ok_connections:
  assumes "store_ok s"
  shows "store_ok (set_connections now conns s)"
proof -
  let ?live = "map cs_id (map (stamp_pause now) conns)"
  let ?keep = "map (\<lambda>(k, v). (k, keep_messages (of_live ?live) v)) (s_live s)"
  have "store_ok (s\<lparr>s_live := ?keep\<rparr>)"
    using assms by (rule store_ok_map_live) (auto intro: bounds_intro)
  then have "store_ok (s\<lparr>s_connections := c, s_active_conn := a, s_connections_loaded := True, s_stats := st,
      s_total_subjects := count_subjects st, s_live := ?keep\<rparr>)" for c a st
    by (simp add: store_ok_def)
  moreover have "store_ok (s\<lparr>s_connections := c, s_active_conn := a, s_connections_loaded := True\<rparr>)" for c a
    using assms by (rule store_ok_cong) simp_all
  ultimately show ?thesis
    unfolding set_connections_def Let_def
    by (simp only: store_ok_clear_selections split: if_split) blast
qed

lemma store_ok_select:
  assumes s: "store_ok s"
  shows "store_ok (set_selected_subject subject s)"
proof (cases "s_subject s = subject \<and> length (s_selected s) \<le> 1")
  case True
  then have "set_selected_subject subject s = s" by (simp add: set_selected_subject_def)
  with s show ?thesis by simp
next
  case False
  have changed: "set_selected_subject subject s =
      s\<lparr>s_selected := (if truthy subject then [the subject] else []), s_subject := subject,
         s_message := None, s_range := None, s_live := (if truthy subject
           then [(the subject, nullish (jm_get (s_live s) (the subject)) (empty_view (the subject)))]
           else [])\<rparr>"
    unfolding set_selected_subject_def using False by (simp only: if_False)
  show ?thesis
  proof (cases "truthy subject")
    case True
    then obtain k where k: "subject = Some k" "k \<noteq> []" by (cases subject) simp_all
    have "view_bounded v \<and> lv_subject v = k" if "jm_get (s_live s) k = Some v" for v
      using that s by (fastforce simp: store_ok_def dest: map_of_SomeD)
    then have "view_bounded (nullish (jm_get (s_live s) k) (empty_view k)) \<and>
        lv_subject (nullish (jm_get (s_live s) k) (empty_view k)) = k"
      using view_bounded_empty [of k] by (cases "jm_get (s_live s) k") simp_all
    with k s show ?thesis unfolding changed by (simp add: store_ok_def)
  next
    case False
    then have "subject = None \<or> subject = Some []" by (cases subject) simp_all
    with False s show ?thesis unfolding changed by (auto simp: store_ok_def)
  qed
qed

lemma jm_delete_keys: "jm_keys (jm_delete k m) = filter (\<lambda>x. x \<noteq> k) (jm_keys m)"
  by (induction m) auto

lemma set_jm_delete_subset: "set (jm_delete k m) \<subseteq> set m"
  by (induction m) auto

lemma store_ok_toggle:
  assumes "store_ok s"
  shows "store_ok (toggle_selected_subject k s)"
proof (cases "k \<in> set (s_selected s)")
  case True
  then show ?thesis using assms
    by (auto simp: toggle_selected_subject_def store_ok_def jm_delete_keys Let_def
        dest!: subsetD [OF set_jm_delete_subset])
next
  case False
  moreover have "\<forall>(k', v) \<in> set (jm_set k (empty_view k) (s_live s)). view_bounded v \<and> lv_subject v = k'"
    using set_update_subset [of k "empty_view k" "s_live s"] assms view_bounded_empty [of k]
    by (fastforce simp: store_ok_def)
  moreover have "jm_keys (jm_set k (empty_view k) (s_live s)) = s_selected s @ [k]"
    using False assms by (simp add: store_ok_def update_keys)
  ultimately show ?thesis using assms
    by (simp add: toggle_selected_subject_def store_ok_def Let_def)
qed

lemma store_ok_reveal:
  assumes "store_ok s"
  shows "store_ok (reveal_subject k s)"
  unfolding reveal_subject_def
  by (rule store_ok_select, rule store_ok_cong [OF assms]) simp_all

lemmas simple_action_defs = set_theme_def toggle_theme_def write_setting_def
  open_connections_dialog_def close_connections_dialog_def set_history_db_def set_tree_rows_def
  set_subject_filter_def set_subject_expr_def set_filter_error_def set_hide_system_def
  set_hide_internal_def set_tree_preview_def toggle_expanded_def set_expanded_def
  expand_all_branches_def collapse_all_def prefill_publish_def set_selected_bucket_def
  bump_refresh_def set_js_domain_override_def

lemma store_ok_simple:
  assumes "store_ok s"
  shows "store_ok (set_theme t s)" "store_ok (toggle_theme s)"
    "store_ok (open_connections_dialog e s)" "store_ok (close_connections_dialog s)"
    "store_ok (set_history_db b r s)" "store_ok (set_tree_rows rows n s)"
    "store_ok (set_subject_filter f s)" "store_ok (set_subject_expr f s)"
    "store_ok (set_filter_error f s)" "store_ok (set_hide_system b s)"
    "store_ok (set_hide_internal b s)" "store_ok (set_tree_preview b s)"
    "store_ok (toggle_expanded p s)" "store_ok (set_expanded ps s)"
    "store_ok (expand_all_branches s)" "store_ok (collapse_all s)"
    "store_ok (prefill_publish pre s)" "store_ok (set_selected_bucket sub s)"
    "store_ok (bump_refresh s)" "store_ok (set_js_domain_override c d s)"
  by (rule store_ok_cong [OF assms]; simp add: simple_action_defs Let_def)+

lemma store_ok_plain:
  assumes "store_ok s"
  shows "store_ok (set_module x0 s)"
    "store_ok (set_settings_open x1 s)"
    "store_ok (set_narrow_pane x2 s)"
    "store_ok (set_palette_open x3 s)"
    "store_ok (set_ws_online x4 s)"
    "store_ok (set_range x5 s)"
    "store_ok (set_selected_message x6 s)"
    "store_ok (set_publish_open x7 s)"
    "store_ok (set_selected_stream x8 s)"
    "store_ok (set_selected_kv_key x9 s)"
    "store_ok (set_selected_obj_store x10 s)"
    "store_ok (set_selected_service x11 s)"
    "store_ok (set_selected_template x12 s)"
    "store_ok (open_beside m name s)" "store_ok (close_beside s)"
  by (rule store_ok_cong [OF assms]; simp add: plain_setter_defs)+

lemma store_ok_step: "store_step s s' \<Longrightarrow> store_ok s \<Longrightarrow> store_ok s'"
proof (induction rule: store_step.induct)
  case (2 s i)
  have "store_ok (s\<lparr>s_active_conn := i\<rparr>)" using 2 by (rule store_ok_cong) simp_all
  with 2 show ?case by (simp add: set_active_conn_def)
next
  case (5 s w)
  then show ?case by (simp add: set_explorer_width_def write_setting_def Let_def store_ok_def
      clamp_width_in_limits explorer_width_limits_def)
next
  case (6 s w)
  then show ?case by (simp add: set_rail_width_def write_setting_def Let_def store_ok_def
      clamp_width_in_limits rail_width_limits_def)
next
  case (24 s msgs)
  then show ?case unfolding ingest_feed_def
    by (simp add: store_ok_map_live view_bounded_ingest)
next
  case (31 s)
  have "store_ok (s\<lparr>s_live := map (\<lambda>(k, v). (k, forget_view v)) (s_live s)\<rparr>)"
    using 31 by (rule store_ok_map_live) (simp add: view_bounded_forget)
  then show ?case unfolding reset_live_def by (rule store_ok_cong) simp_all
next
  case (32 s c st)
  then show ?case by (simp add: set_subscription_stats_def Let_def store_ok_def)
qed (auto simp: view_bounded_flags apply_history_def set_loading_older_def set_loading_older_branch_def
      append_older_branch_def prepend_older_def set_live_error_def
      intro: store_ok_simple store_ok_plain store_ok_connections store_ok_select store_ok_reveal store_ok_toggle
        bounds_intro intro!: store_ok_with_view)

lemma store_reachable_ok: "store_reachable s \<Longrightarrow> store_ok s"
  by (induction rule: store_reachable.induct) (auto intro: store_ok_initial store_ok_step)

subsection \<open>Properties\<close>

text \<open>C8: in every state the actions can reach there is exactly one live view per selected subject,
  in the order of the selection; each holds at most its cap, and the cap is bounded; the selected
  subject is the last of the selection; the subject total is the sum over the connections; the
  pane widths are within their limits.\<close>

theorem store_invariant:
  assumes "store_reachable s"
  shows "jm_keys (s_live s) = s_selected s \<and> distinct (s_selected s) \<and>
     (\<forall>k v. jm_get (s_live s) k = Some v \<longrightarrow> lv_subject v = k \<and>
        length (lv_messages v) \<le> lv_cap v \<and> lv_cap v \<le> 10000 \<and>
        length (lv_branch v) \<le> lv_branch_cap v \<and> lv_branch_cap v \<le> 10000) \<and>
     (s_selected s \<noteq> [] \<longrightarrow> s_subject s = Some (last (s_selected s))) \<and>
     s_total_subjects s = count_subjects (s_stats s) \<and>
     220 \<le> s_explorer_width s \<and> s_explorer_width s \<le> 800 \<and>
     180 \<le> s_rail_width s \<and> s_rail_width s \<le> 800"
proof -
  have ok: "store_ok s" using assms by (rule store_reachable_ok)
  have "view_bounded v \<and> lv_subject v = k" if "jm_get (s_live s) k = Some v" for k v
    using ok map_of_SomeD [OF that] by (auto simp: store_ok_def)
  with ok show ?thesis
    by (auto simp: store_ok_def view_bounded_def in_limits_def explorer_width_limits_def rail_width_limits_def)
qed

lemma store_invariant_witness:
  "jm_keys (s_live (toggle_selected_subject ''b'' (set_selected_subject (Some ''a'')
     (initial_state Dark None None [] True True False)))) = [''a'', ''b'']"
proof -
  let ?s = "toggle_selected_subject ''b'' (set_selected_subject (Some ''a'')
     (initial_state Dark None None [] True True False))"
  have "store_reachable ?s"
    by (rule store_reachable.step [OF store_reachable.step [OF store_reachable.start store_step.intros(21)]
          store_step.intros(23)])
  then have "jm_keys (s_live ?s) = s_selected ?s" by (rule store_invariant [THEN conjunct1])
  also have "s_selected ?s = [''a'', ''b'']"
    by (simp add: toggle_selected_subject_def set_selected_subject_def initial_state_def Let_def)
  finally show ?thesis .
qed

lemma ingest_view_fields:
  assumes "view_bounded v"
  shows "lv_messages (ingest_view msgs k v) = keep_last (lv_cap v) (lv_messages v @ exact_of k msgs)"
    and "lv_branch (ingest_view msgs k v) = keep_first (lv_branch_cap v) (rev (below_of k msgs) @ lv_branch v)"
    and "lv_cap (ingest_view msgs k v) = lv_cap v" "lv_branch_cap (ingest_view msgs k v) = lv_branch_cap v"
  using assms by (simp_all add: ingest_view_def Let_def view_bounded_def)

lemma ingest_view_append:
  assumes "view_bounded v"
  shows "ingest_view ms2 k (ingest_view ms1 k v) = ingest_view (ms1 @ ms2) k v"
proof -
  have "lv_messages (ingest_view ms2 k (ingest_view ms1 k v)) = lv_messages (ingest_view (ms1 @ ms2) k v)"
    using assms view_bounded_ingest [OF assms, of ms1 k]
    by (simp add: ingest_view_fields keep_last_append exact_of_def)
  moreover have "lv_branch (ingest_view ms2 k (ingest_view ms1 k v)) = lv_branch (ingest_view (ms1 @ ms2) k v)"
    using assms view_bounded_ingest [OF assms, of ms1 k]
    by (simp add: ingest_view_fields keep_first_append below_of_def)
  ultimately show ?thesis by (simp add: ingest_view_def Let_def)
qed

lemma jm_get_map_values: "jm_get (map (\<lambda>(k, v). (k, f k v)) m) k = map_option (f k) (jm_get m k)"
  by (induction m) auto

lemma below_of_alt: "below_of k msgs = filter (\<lambda>m. starts_with (m_subject m) (k @ ''.'')) msgs"
  unfolding below_of_def by (rule filter_cong) (auto simp: is_below_def)

text \<open>C9: a batch of live messages adds to each view exactly the messages on its subject, in the
  order they came, and to its branch exactly those below the subject, newest first; what falls out
  are the oldest messages beyond the cap, and nothing else.\<close>

theorem ingest_feed_exact:
  assumes "store_reachable s" "jm_get (s_live s) k = Some v"
  shows "\<exists>v'. jm_get (s_live (ingest_feed msgs s)) k = Some v' \<and>
     lv_messages v' = keep_last (lv_cap v) (lv_messages v @ filter (\<lambda>m. m_subject m = k) msgs) \<and>
     lv_branch v' = keep_first (lv_branch_cap v)
       (rev (filter (\<lambda>m. starts_with (m_subject m) (k @ ''.'')) msgs) @ lv_branch v)"
proof -
  have v: "view_bounded v"
    using store_reachable_ok [OF assms(1)] map_of_SomeD [OF assms(2)] by (auto simp: store_ok_def)
  show ?thesis
  proof (cases "msgs = []")
    case True
    with assms(2) v show ?thesis by (simp add: ingest_feed_def view_bounded_def)
  next
    case False
    then have "jm_get (s_live (ingest_feed msgs s)) k = Some (ingest_view msgs k v)"
      using assms(2) by (cases "s_live s = []") (auto simp: ingest_feed_def jm_get_map_values)
    with ingest_view_fields [OF v] show ?thesis by (simp add: exact_of_def below_of_alt)
  qed
qed

lemma sample_selected: "store_reachable (set_selected_subject (Some ''a:b.c'') (initial_state Dark None None [] True True False))"
  by (rule store_reachable.step [OF store_reachable.start store_step.intros(21)])

lemma ingest_feed_exact_witness:
  "\<exists>v'. jm_get (s_live (ingest_feed [sample_message]
      (set_selected_subject (Some ''a:b.c'') (initial_state Dark None None [] True True False)))) ''a:b.c'' = Some v' \<and>
     lv_messages v' = [sample_message]"
proof -
  have "jm_get (s_live (set_selected_subject (Some ''a:b.c'') (initial_state Dark None None [] True True False)))
      ''a:b.c'' = Some (empty_view ''a:b.c'')"
    by (simp add: set_selected_subject_def initial_state_def)
  from ingest_feed_exact [OF sample_selected this, of "[sample_message]"]
  show ?thesis by (auto simp: empty_view_def sample_message_def)
qed

text \<open>Batching does not matter: feeding two batches one after the other is feeding them as one.\<close>

theorem ingest_feed_batches:
  assumes "store_reachable s"
  shows "ingest_feed ms2 (ingest_feed ms1 s) = ingest_feed (ms1 @ ms2) s"
proof -
  have "view_bounded v" if "(k, v) \<in> set (s_live s)" for k v
    using store_reachable_ok [OF assms] that by (auto simp: store_ok_def)
  then have "map (\<lambda>(k, v). (k, ingest_view ms2 k (ingest_view ms1 k v))) (s_live s) =
      map (\<lambda>(k, v). (k, ingest_view (ms1 @ ms2) k v)) (s_live s)"
    by (auto simp: ingest_view_append)
  then show ?thesis by (auto simp: ingest_feed_def comp_def case_prod_beta')
qed

lemma ingest_feed_batches_witness:
  "ingest_feed [sample_message] (ingest_feed [sample_message]
      (set_selected_subject (Some ''a:b.c'') (initial_state Dark None None [] True True False))) =
   ingest_feed [sample_message, sample_message]
      (set_selected_subject (Some ''a:b.c'') (initial_state Dark None None [] True True False))"
  using ingest_feed_batches [OF sample_selected, of "[sample_message]" "[sample_message]"] by simp

text \<open>The store and the worker agree on what is expanded, in every mode (filter, everything
  expanded, nothing expanded), and toggling a path changes that path and no other.\<close>

theorem expansion_agrees:
  "view_expanded (tree_view_of s) p = is_expanded s p \<and>
   is_expanded (toggle_expanded q s) p = (if p = q then \<not> is_expanded s p else is_expanded s p)"
  by (auto simp: view_expanded_def tree_view_of_def is_expanded_def toggle_expanded_def js_toggle_def)

text \<open>Revealing a subject opens every branch above it when no filter is on, closes none, and
  selects it.\<close>

theorem reveal_opens_ancestors:
  assumes "trim (s_filter s) = []" "subject \<noteq> []"
  shows "(\<forall>p. is_expanded (reveal_subject subject s) p \<longleftrightarrow>
        is_expanded s p \<or> p \<in> set (ancestors_of subject)) \<and>
     s_subject (reveal_subject subject s) = Some subject"
proof -
  have add: "set (fold js_add ps xs) = set xs \<union> set ps" for ps and xs :: "string list"
    by (rule set_fold_js_add)
  have del: "set (fold (\<lambda>p xs. filter (\<lambda>y. y \<noteq> p) xs) ps xs) = set xs - set ps" for ps and xs :: "string list"
    by (induction ps arbitrary: xs) auto
  let ?xs = "fold (\<lambda>p xs. if s_expand_all s then filter (\<lambda>y. y \<noteq> p) xs else js_add p xs)
        (ancestors_of subject) (s_expanded s)"
  have "s_expanded (reveal_subject subject s) = ?xs" "s_expand_all (reveal_subject subject s) = s_expand_all s"
    "s_filter (reveal_subject subject s) = s_filter s" "s_subject (reveal_subject subject s) = Some subject"
    by (simp_all add: reveal_subject_def set_selected_subject_def)
  moreover have "set ?xs = (if s_expand_all s then set (s_expanded s) - set (ancestors_of subject)
      else set (s_expanded s) \<union> set (ancestors_of subject))"
    by (cases "s_expand_all s") (simp_all add: add del)
  ultimately show ?thesis using assms(1) by (auto simp: is_expanded_def)
qed

lemma reveal_opens_ancestors_witness:
  "is_expanded (reveal_subject ''a.b.c'' (initial_state Dark None None [] True True False)) ''a.b''"
proof -
  have "trim (s_filter (initial_state Dark None None [] True True False)) = []"
    by (simp add: initial_state_def trim_def)
  moreover have "''a.b'' \<in> set (ancestors_of ''a.b.c'')" by code_simp
  ultimately show ?thesis using reveal_opens_ancestors [of "initial_state Dark None None [] True True False" "''a.b.c''"]
    by simp
qed

lemma cs_id_stamp [simp]: "cs_id (stamp_pause now c) = cs_id c"
  by (simp add: stamp_pause_def split: option.splits)

lemma cs_connected_stamp [simp]: "cs_connected (stamp_pause now c) = cs_connected c"
  by (simp add: stamp_pause_def split: option.splits)

lemma find_map: "List.find P (map f xs) = map_option f (List.find (P \<circ> f) xs)"
  by (induction xs) auto

lemma set_connections_active:
  "s_active_conn (set_connections now conns s) = choose_active (map (stamp_pause now) conns) (s_active_conn s)"
  by (simp add: set_connections_def clear_selections_def Let_def)

text \<open>The active connection stays as long as the server lists it; otherwise it becomes the first
  connected one, or the first one when none is connected, or none when the list is empty; and when
  it changes, what was selected inside the old one is forgotten.\<close>

theorem set_connections_active_spec:
  "s_active_conn (set_connections now conns s) =
     (if s_active_conn s \<in> Some ` cs_id ` set conns then s_active_conn s
      else if conns = [] then None
      else if \<exists>c \<in> set conns. cs_connected c then Some (cs_id (the (List.find cs_connected conns)))
      else Some (cs_id (hd conns))) \<and>
   (s_active_conn (set_connections now conns s) \<noteq> s_active_conn s \<longrightarrow>
     s_stream (set_connections now conns s) = None \<and> s_bucket (set_connections now conns s) = None \<and>
     s_kv_key (set_connections now conns s) = None \<and> s_obj_store (set_connections now conns s) = None \<and>
     s_service (set_connections now conns s) = None \<and> s_beside (set_connections now conns s) = None)"
proof
  have f: "cs_connected \<circ> stamp_pause now = cs_connected" by (simp add: fun_eq_iff)
  have none: "List.find cs_connected conns = None \<longleftrightarrow> \<not> (\<exists>c \<in> set conns. cs_connected c)"
    by (auto simp: find_None_iff)
  show "s_active_conn (set_connections now conns s) =
     (if s_active_conn s \<in> Some ` cs_id ` set conns then s_active_conn s
      else if conns = [] then None
      else if \<exists>c \<in> set conns. cs_connected c then Some (cs_id (the (List.find cs_connected conns)))
      else Some (cs_id (hd conns)))"
    unfolding set_connections_active choose_active_def find_map f
    using none by (cases "List.find cs_connected conns"; cases conns) (auto simp: image_iff, metis+)
  show "s_active_conn (set_connections now conns s) \<noteq> s_active_conn s \<longrightarrow>
     s_stream (set_connections now conns s) = None \<and> s_bucket (set_connections now conns s) = None \<and>
     s_kv_key (set_connections now conns s) = None \<and> s_obj_store (set_connections now conns s) = None \<and>
     s_service (set_connections now conns s) = None \<and> s_beside (set_connections now conns s) = None"
    by (simp add: set_connections_def clear_selections_def Let_def)
qed

lemma set_connections_active_spec_witness:
  "s_active_conn (set_connections 5 [] (initial_state Dark None None [] True True False)\<lparr>s_active_conn := Some ''x''\<rparr>)
     = Some ''x'' \<and>
   s_stream (set_connections 5 [] ((initial_state Dark None None [] True True False)
     \<lparr>s_active_conn := Some ''x'', s_stream := Some ''orders''\<rparr>)) = None"
proof -
  let ?s = "(initial_state Dark None None [] True True False)
     \<lparr>s_active_conn := Some ''x'', s_stream := Some ''orders''\<rparr>"
  have "s_active_conn (set_connections 5 [] ?s) = None"
    using set_connections_active_spec [of 5 "[]" ?s] by simp
  then have "s_active_conn (set_connections 5 [] ?s) \<noteq> s_active_conn ?s" by simp
  with set_connections_active_spec [of 5 "[]" ?s] show ?thesis by simp
qed

text \<open>The buffered messages of a connection that vanished stay in the views when it had no
  statistics yet: the store drops them only together with a counter, although its comment
  promises to drop both.\<close>

theorem vanished_messages_stay:
  "\<exists>s. store_reachable s \<and> (\<exists>v m. jm_get (s_live (set_connections 0 [] s)) ''a:b.c'' = Some v \<and>
     m \<in> set (lv_messages v) \<and> m_conn_id m = Some ''c1'')"
proof -
  let ?s0 = "set_selected_subject (Some ''a:b.c'') (initial_state Dark None None [] True True False)"
  let ?s = "ingest_feed [sample_message] ?s0"
  have "store_reachable ?s" by (rule store_reachable.step [OF sample_selected store_step.intros(24)])
  moreover have "jm_get (s_live (set_connections 0 [] ?s)) ''a:b.c'' =
      Some (ingest_view [sample_message] ''a:b.c'' (empty_view ''a:b.c''))"
    by (simp add: set_connections_def ingest_feed_def set_selected_subject_def initial_state_def
        choose_active_def clear_selections_def Let_def)
  moreover have "sample_message \<in> set (lv_messages (ingest_view [sample_message] ''a:b.c'' (empty_view ''a:b.c'')))"
    "m_conn_id sample_message = Some ''c1''"
    by (simp_all add: ingest_view_def empty_view_def exact_of_def below_of_def sample_message_def Let_def)
  ultimately show ?thesis by blast
qed

end
