(* ===== verification/HistoryFeed.thy ===== *)
theory HistoryFeed
  imports AppProps
begin

text \<open>
  The wiring between the websocket, the recorded history and the store
  (\<open>client/src/lib/feed.ts\<close>): the queue that updates the store once per frame, the history
  requests with their sequence numbers, paging backwards with a cursor per connection, clearing,
  and the reactions to a change of the store.

  A call of the history API is a request in flight; its answer, a response or an error, arrives as
  an event of its own, in any order. What the code does after the \<open>await\<close> is the handler of that
  event. The toasts are left out.
\<close>

subsection \<open>State\<close>

record cursor =
  cu_seq :: int
  cu_ts :: int

datatype feed_request =
    HistoryRequest string nat bool "string option"
  | OlderRequest string "(string, cursor) jsmap" "string option"
  | OlderBranchRequest string "(string, cursor) jsmap" "string option"

record feed_state =
  fe_app :: app_state
  fe_pending :: "nats_message list"
  fe_scheduled :: bool
  fe_load_seq :: "(string, nat) jsmap"
  fe_requests :: "feed_request list"
  fe_commands :: "client_command list"
  fe_views :: "tree_view list"

definition initial_feed :: "app_state \<Rightarrow> feed_state" where
  "initial_feed app = \<lparr>fe_app = app, fe_pending = [], fe_scheduled = False, fe_load_seq = [],
     fe_requests = [], fe_commands = [], fe_views = []\<rparr>"

definition on_app :: "(app_state \<Rightarrow> app_state) \<Rightarrow> feed_state \<Rightarrow> feed_state" where
  "on_app f s = s\<lparr>fe_app := f (fe_app s)\<rparr>"

subsection \<open>The frame queue\<close>

definition enqueue :: "nats_message list \<Rightarrow> feed_state \<Rightarrow> feed_state" where
  "enqueue msgs s = s\<lparr>fe_pending := keep_last 10000 (fe_pending s @ msgs), fe_scheduled := True\<rparr>"

definition flush_frame :: "feed_state \<Rightarrow> feed_state" where
  "flush_frame s = on_app (ingest_feed (fe_pending s)) (s\<lparr>fe_scheduled := False, fe_pending := []\<rparr>)"

subsection \<open>History requests\<close>

definition current_expr :: "feed_state \<Rightarrow> string option" where
  "current_expr s = or_undefined (trim (s_expr (fe_app s)))"

definition load_subject :: "bool \<Rightarrow> string \<Rightarrow> feed_state \<Rightarrow> feed_state" where
  "load_subject replace subject s =
     (let seq = nullish (jm_get (fe_load_seq s) subject) 0 + 1
      in s\<lparr>fe_load_seq := jm_set subject seq (fe_load_seq s),
           fe_requests := fe_requests s @ [HistoryRequest subject seq replace (current_expr s)]\<rparr>)"

definition history_answer ::
    "string \<Rightarrow> nat \<Rightarrow> bool \<Rightarrow> string + history_response \<Rightarrow> feed_state \<Rightarrow> feed_state" where
  "history_answer subject seq replace answer s =
     (if jm_get (fe_load_seq s) subject \<noteq> Some seq then s
      else on_app (case answer of Inr res \<Rightarrow> apply_history subject res replace
                   | Inl e \<Rightarrow> set_live_error subject e) s)"

definition load_history :: "bool \<Rightarrow> bool \<Rightarrow> feed_state \<Rightarrow> feed_state" where
  "load_history all_subjects replace s =
     fold (load_subject replace)
       (filter (\<lambda>k. all_subjects \<or> (case jm_get (s_live (fe_app s)) k of None \<Rightarrow> False | Some v \<Rightarrow> lv_loading v))
          (s_selected (fe_app s))) s"

subsection \<open>Paging backwards\<close>

text \<open>The first message of each connection that carries a sequence, in a list sorted oldest
  first.\<close>

definition first_cursors :: "nats_message list \<Rightarrow> (string, cursor) jsmap" where
  "first_cursors msgs = fold (\<lambda>m cs.
     (case m_sequence m of None \<Rightarrow> cs
      | Some q \<Rightarrow> if truthy (m_conn_id m) \<and> \<not> jm_has cs (the (m_conn_id m))
                  then jm_set (the (m_conn_id m)) \<lparr>cu_seq = q, cu_ts = m_timestamp m\<rparr> cs else cs)) msgs []"

text \<open>The last one, in a list sorted newest first.\<close>

definition last_cursors :: "nats_message list \<Rightarrow> (string, cursor) jsmap" where
  "last_cursors msgs = fold (\<lambda>m cs.
     (case m_sequence m of None \<Rightarrow> cs
      | Some q \<Rightarrow> if truthy (m_conn_id m)
                  then jm_set (the (m_conn_id m)) \<lparr>cu_seq = q, cu_ts = m_timestamp m\<rparr> cs else cs)) msgs []"

definition load_older :: "string \<Rightarrow> feed_state \<Rightarrow> feed_state" where
  "load_older subject s = (case jm_get (s_live (fe_app s)) subject of None \<Rightarrow> s
     | Some v \<Rightarrow>
        if lv_loading v \<or> lv_loading_older v \<or> lv_at_oldest v then s
        else if length (lv_messages v) \<ge> max_loaded_messages then s
        else (let cursors = first_cursors (lv_messages v) in
          if cursors = [] then s
          else (let s1 = on_app (set_loading_older subject True) s
                in s1\<lparr>fe_requests := fe_requests s1 @ [OlderRequest subject cursors (current_expr s)]\<rparr>)))"

definition older_answer :: "string \<Rightarrow> string + history_response list \<Rightarrow> feed_state \<Rightarrow> feed_state" where
  "older_answer subject answer = on_app (case answer of
     Inr pages \<Rightarrow> prepend_older subject (concat (map hr_messages pages))
                    (list_all (\<lambda>p. \<not> nullish (hr_more p) False) pages)
   | Inl e \<Rightarrow> set_loading_older subject False)"

definition load_older_branch :: "string \<Rightarrow> feed_state \<Rightarrow> feed_state" where
  "load_older_branch subject s = (case jm_get (s_live (fe_app s)) subject of None \<Rightarrow> s
     | Some v \<Rightarrow>
        if lv_loading v \<or> lv_loading_older_branch v \<or> lv_branch_at_oldest v then s
        else if length (lv_branch v) \<ge> max_loaded_messages then s
        else (let cursors = last_cursors (lv_branch v) in
          if cursors = [] then s
          else (let s1 = on_app (set_loading_older_branch subject True) s
                in s1\<lparr>fe_requests := fe_requests s1 @ [OlderBranchRequest subject cursors (current_expr s)]\<rparr>)))"

definition older_branch_answer :: "string \<Rightarrow> string + history_response list \<Rightarrow> feed_state \<Rightarrow> feed_state" where
  "older_branch_answer subject answer = on_app (case answer of
     Inr pages \<Rightarrow> append_older_branch subject (concat (map hr_branch pages))
                    (list_all (\<lambda>p. \<not> nullish (hr_branch_more p) False) pages)
   | Inl e \<Rightarrow> set_loading_older_branch subject False)"

subsection \<open>Clearing\<close>

definition cleared_history :: "feed_state \<Rightarrow> feed_state" where
  "cleared_history = on_app reset_live"

definition cleared_subject :: "string \<Rightarrow> bool \<Rightarrow> feed_state \<Rightarrow> feed_state" where
  "cleared_subject subject branch s =
     (if \<exists>k \<in> set (s_selected (fe_app s)). k = subject \<or> (branch \<and> starts_with k (subject @ ''.''))
      then load_history True False (on_app reset_live s) else s)"

subsection \<open>Reactions\<close>

definition send_focus :: "feed_state \<Rightarrow> feed_state" where
  "send_focus s = s\<lparr>fe_commands := fe_commands s @ [Focus (s_selected (fe_app s))]\<rparr>"

definition connected_ids :: "app_state \<Rightarrow> string" where
  "connected_ids a = join_str '','' (js_sort by_code_units (map cs_id (filter cs_connected (s_connections a))))"

definition subscription_key :: "app_state \<Rightarrow> string" where
  "subscription_key a = join_str '','' (js_sort by_code_units
     (map (\<lambda>c. cs_id c @ ''='' @ join_str ''|'' (nullish (cs_subscriptions c) []))
        (filter cs_connected (s_connections a))))"

text \<open>The subscribers of the store run after every change from \<open>prev\<close> to the current state, in the
  order they were registered. JavaScript compares the lists by reference; here a change of
  reference with the same contents counts as no change.\<close>

definition view_changed :: "app_state \<Rightarrow> app_state \<Rightarrow> bool" where
  "view_changed a prev = (s_expanded a \<noteq> s_expanded prev \<or> s_expand_all a \<noteq> s_expand_all prev \<or>
     s_filter_collapsed a \<noteq> s_filter_collapsed prev \<or> s_filter a \<noteq> s_filter prev \<or>
     s_expr a \<noteq> s_expr prev \<or> s_hide_system a \<noteq> s_hide_system prev \<or>
     s_tree_preview a \<noteq> s_tree_preview prev)"

definition after_change :: "app_state \<Rightarrow> feed_state \<Rightarrow> feed_state" where
  "after_change prev s =
     (let a = fe_app s;
          s1 = (if view_changed a prev then s\<lparr>fe_views := fe_views s @ [tree_view_of a]\<rparr> else s);
          s2 = (if s_expr a \<noteq> s_expr prev \<and> s_selected a \<noteq> [] then load_history True True s1 else s1)
      in if s_selected a \<noteq> s_selected prev then load_history False False (send_focus s2)
         else if s_selected a \<noteq> [] \<and> connected_ids a \<noteq> connected_ids prev then load_history True False s2
         else if s_selected a \<noteq> [] \<and> subscription_key a \<noteq> subscription_key prev then load_history True False s2
         else s2)"

definition status_changed :: "ws_status \<Rightarrow> feed_state \<Rightarrow> feed_state" where
  "status_changed st s = (let s1 = on_app (set_ws_online (st = WsOpen)) s in
     if st \<noteq> WsOpen then s1 else load_history True False (send_focus s1))"

subsection \<open>Sequence numbers\<close>

text \<open>The requests of a subject in flight carry different numbers, none above the current one.\<close>

definition seq_of :: "string \<Rightarrow> feed_state \<Rightarrow> nat" where
  "seq_of k s = nullish (jm_get (fe_load_seq s) k) 0"

fun numbers_in :: "string \<Rightarrow> feed_request list \<Rightarrow> nat list" where
  "numbers_in k [] = []"
| "numbers_in k (HistoryRequest k' q _ _ # rs) = (if k' = k then q # numbers_in k rs else numbers_in k rs)"
| "numbers_in k (OlderRequest _ _ _ # rs) = numbers_in k rs"
| "numbers_in k (OlderBranchRequest _ _ _ # rs) = numbers_in k rs"

definition numbered :: "feed_state \<Rightarrow> bool" where
  "numbered s = (\<forall>k. distinct (numbers_in k (fe_requests s)) \<and>
     (\<forall>q \<in> set (numbers_in k (fe_requests s)). 1 \<le> q \<and> q \<le> seq_of k s))"

lemma numbers_in_append [simp]: "numbers_in k (rs @ rs') = numbers_in k rs @ numbers_in k rs'"
  by (induction k rs rule: numbers_in.induct) simp_all

lemma numbers_in_mem: "HistoryRequest k q r e \<in> set rs \<Longrightarrow> q \<in> set (numbers_in k rs)"
  by (induction k rs rule: numbers_in.induct) auto

lemma numbered_initial: "numbered (initial_feed a)"
  by (simp add: numbered_def initial_feed_def seq_of_def)

lemma load_subject_simps [simp]:
  "numbers_in k (fe_requests (load_subject r k' s)) =
     numbers_in k (fe_requests s) @ (if k' = k then [Suc (seq_of k s)] else [])"
  "seq_of k (load_subject r k' s) = (if k' = k then Suc (seq_of k s) else seq_of k s)"
  "fe_app (load_subject r k' s) = fe_app s" "fe_pending (load_subject r k' s) = fe_pending s"
  by (auto simp: seq_of_def load_subject_def Let_def)

lemma numbered_load_subject: "numbered s \<Longrightarrow> numbered (load_subject r k s)"
  by (fastforce simp: numbered_def)

lemma fold_load_simps [simp]:
  "fe_app (fold (load_subject r) ks s) = fe_app s"
  "fe_pending (fold (load_subject r) ks s) = fe_pending s"
  "seq_of k (fold (load_subject r) ks s) = seq_of k s + count_list ks k"
  by (induction ks arbitrary: s) simp_all

lemma numbered_fold_load: "numbered s \<Longrightarrow> numbered (fold (load_subject r) ks s)"
  by (induction ks arbitrary: s) (auto intro: numbered_load_subject)

lemma numbered_load_history: "numbered s \<Longrightarrow> numbered (load_history a r s)"
  unfolding load_history_def by (rule numbered_fold_load)

lemma load_history_simps [simp]:
  "fe_app (load_history a r s) = fe_app s" "fe_pending (load_history a r s) = fe_pending s"
  by (simp_all add: load_history_def)

lemma numbered_same:
  "fe_load_seq s' = fe_load_seq s \<Longrightarrow> \<forall>k. numbers_in k (fe_requests s') = numbers_in k (fe_requests s) \<Longrightarrow>
   numbered s' = numbered s"
  by (simp add: numbered_def seq_of_def)

lemma on_app_simps [simp]:
  "fe_app (on_app f s) = f (fe_app s)" "fe_pending (on_app f s) = fe_pending s"
  "fe_requests (on_app f s) = fe_requests s" "fe_load_seq (on_app f s) = fe_load_seq s"
  by (simp_all add: on_app_def)

lemma numbered_on_app [simp]: "numbered (on_app f s) = numbered s"
  by (rule numbered_same) simp_all

lemma history_answer_stale:
  "q \<noteq> seq_of k s \<Longrightarrow> history_answer k q r a s = s"
  by (auto simp: history_answer_def seq_of_def)

text \<open>An answer takes its request out of flight.\<close>

definition settle :: "feed_request \<Rightarrow> feed_state \<Rightarrow> feed_state" where
  "settle r s = s\<lparr>fe_requests := remove1 r (fe_requests s)\<rparr>"

lemma set_numbers_in_remove1: "set (numbers_in k (remove1 r rs)) \<subseteq> set (numbers_in k rs)"
  by (induction k rs rule: numbers_in.induct) auto

lemma distinct_numbers_in_remove1: "distinct (numbers_in k rs) \<Longrightarrow> distinct (numbers_in k (remove1 r rs))"
  by (induction k rs rule: numbers_in.induct) (auto dest: subsetD [OF set_numbers_in_remove1])

lemma select_request [simp]: "fe_requests (settle r s) = remove1 r (fe_requests s)"
  by (simp add: settle_def)

lemma settle_simps [simp]:
  "fe_app (settle r s) = fe_app s" "fe_pending (settle r s) = fe_pending s"
  "seq_of k (settle r s) = seq_of k s" "fe_load_seq (settle r s) = fe_load_seq s"
  by (simp_all add: settle_def seq_of_def)

lemma numbered_settle: "numbered s \<Longrightarrow> numbered (settle r s)"
  using set_numbers_in_remove1 [of _ r "fe_requests s"]
  by (simp add: numbered_def settle_def seq_of_def distinct_numbers_in_remove1) blast

text \<open>A run of the feed: requests, answers, frames and changes of the store in any order.\<close>

inductive feed_step :: "feed_state \<Rightarrow> feed_state \<Rightarrow> bool" where
  "feed_step s (enqueue msgs s)"
| "fe_scheduled s \<Longrightarrow> feed_step s (flush_frame s)"
| "feed_step s (load_history all_subjects replace s)"
| "HistoryRequest k q replace e \<in> set (fe_requests s) \<Longrightarrow>
     feed_step s (history_answer k q replace a (settle (HistoryRequest k q replace e) s))"
| "feed_step s (load_older k s)"
| "OlderRequest k cs e \<in> set (fe_requests s) \<Longrightarrow>
     feed_step s (older_answer k b (settle (OlderRequest k cs e) s))"
| "feed_step s (load_older_branch k s)"
| "OlderBranchRequest k cs e \<in> set (fe_requests s) \<Longrightarrow>
     feed_step s (older_branch_answer k b (settle (OlderBranchRequest k cs e) s))"
| "feed_step s (cleared_history s)"
| "feed_step s (cleared_subject k br s)"
| "store_step (fe_app s) a \<Longrightarrow> feed_step s (after_change (fe_app s) (s\<lparr>fe_app := a\<rparr>))"
| "feed_step s (status_changed st s)"

inductive feed_reachable :: "feed_state \<Rightarrow> bool" where
  start: "feed_reachable (initial_feed (initial_state th w r e hs hi pv))"
| step: "feed_reachable s \<Longrightarrow> feed_step s s' \<Longrightarrow> feed_reachable s'"

subsection \<open>What holds in every run\<close>

text \<open>Whatever the feed does to the store is a sequence of store actions.\<close>

abbreviation store_steps :: "app_state \<Rightarrow> app_state \<Rightarrow> bool" where
  "store_steps \<equiv> store_step\<^sup>*\<^sup>*"

lemma store_reachable_steps: "store_steps a b \<Longrightarrow> store_reachable a \<Longrightarrow> store_reachable b"
  by (induction rule: rtranclp_induct) (auto intro: store_reachable.step)

definition feed_ok :: "feed_state \<Rightarrow> bool" where
  "feed_ok s = (numbered s \<and> length (fe_pending s) \<le> 10000 \<and> store_reachable (fe_app s))"

lemma send_focus_simps [simp]:
  "fe_app (send_focus s) = fe_app s" "fe_pending (send_focus s) = fe_pending s"
  "numbered (send_focus s) = numbered s"
  by (simp_all add: send_focus_def numbered_def seq_of_def)

lemma load_older_cases:
  obtains "load_older k s = s"
  | v cs where "jm_get (s_live (fe_app s)) k = Some v" "cs = first_cursors (lv_messages v)" "cs \<noteq> []"
      "\<not> lv_loading_older v"
      "load_older k s = (on_app (set_loading_older k True) s)
         \<lparr>fe_requests := fe_requests s @ [OlderRequest k cs (current_expr s)]\<rparr>"
proof (cases "jm_get (s_live (fe_app s)) k")
  case None
  then show ?thesis using that(1) by (simp add: load_older_def)
next
  case (Some v)
  then show ?thesis
    using that by (fastforce simp: load_older_def Let_def split: if_splits)
qed

lemma load_older_branch_cases:
  obtains "load_older_branch k s = s"
  | v cs where "jm_get (s_live (fe_app s)) k = Some v" "cs = last_cursors (lv_branch v)" "cs \<noteq> []"
      "\<not> lv_loading_older_branch v"
      "load_older_branch k s = (on_app (set_loading_older_branch k True) s)
         \<lparr>fe_requests := fe_requests s @ [OlderBranchRequest k cs (current_expr s)]\<rparr>"
proof (cases "jm_get (s_live (fe_app s)) k")
  case None
  then show ?thesis using that(1) by (simp add: load_older_branch_def)
next
  case (Some v)
  then show ?thesis
    using that by (fastforce simp: load_older_branch_def Let_def split: if_splits)
qed

lemma feed_ok_load: "feed_ok s \<Longrightarrow> feed_ok (load_history a r s)"
  by (simp add: feed_ok_def numbered_load_history)

lemma feed_ok_send_focus: "feed_ok (send_focus s) = feed_ok s"
  by (simp add: feed_ok_def)

lemma feed_ok_app: "feed_ok s \<Longrightarrow> store_step (fe_app s) (f (fe_app s)) \<Longrightarrow> feed_ok (on_app f s)"
  by (auto simp: feed_ok_def intro: store_reachable.step)

lemma feed_ok_view: "feed_ok s \<Longrightarrow> feed_ok (s\<lparr>fe_views := vs\<rparr>)"
  by (simp add: feed_ok_def numbered_def seq_of_def)

lemma feed_ok_request:
  "feed_ok s \<Longrightarrow> \<forall>k. numbers_in k [r] = [] \<Longrightarrow> feed_ok (s\<lparr>fe_requests := fe_requests s @ [r]\<rparr>)"
  by (simp add: feed_ok_def numbered_def seq_of_def)

lemma feed_ok_set_app: "feed_ok s \<Longrightarrow> store_step (fe_app s) a \<Longrightarrow> feed_ok (s\<lparr>fe_app := a\<rparr>)"
  by (auto simp: feed_ok_def numbered_def seq_of_def intro: store_reachable.step)

lemma feed_ok_settle: "feed_ok s \<Longrightarrow> feed_ok (settle r s)"
  by (simp add: feed_ok_def numbered_settle)

lemma feed_ok_after_change: "feed_ok s \<Longrightarrow> feed_ok (after_change prev s)"
  unfolding after_change_def Let_def
  by (auto intro!: feed_ok_load simp: feed_ok_send_focus feed_ok_view)

lemma feed_ok_step: "feed_step s s' \<Longrightarrow> feed_ok s \<Longrightarrow> feed_ok s'"
proof (induction rule: feed_step.induct)
  case (1 s msgs)
  then show ?case by (simp add: feed_ok_def enqueue_def numbered_def seq_of_def)
next
  case (2 s)
  then have "feed_ok (s\<lparr>fe_scheduled := False, fe_pending := []\<rparr>)"
    by (simp add: feed_ok_def numbered_def seq_of_def)
  then show ?case unfolding flush_frame_def by (rule feed_ok_app) (rule store_step.intros)
next
  case (4 k q r e s a)
  have "feed_ok (settle (HistoryRequest k q r e) s)" using 4 by (simp add: feed_ok_settle)
  then show ?case
    by (auto simp: history_answer_def split: sum.split intro!: feed_ok_app store_step.intros)
next
  case (5 s k)
  show ?case
  proof (cases rule: load_older_cases [of k s])
    case 1
    with 5 show ?thesis by simp
  next
    case (2 v cs)
    have "feed_ok (on_app (set_loading_older k True) s)"
      using 5 by (rule feed_ok_app) (rule store_step.intros)
    from feed_ok_request [OF this] show ?thesis using 2 by simp
  qed
next
  case (7 s k)
  show ?case
  proof (cases rule: load_older_branch_cases [of k s])
    case 1
    with 7 show ?thesis by simp
  next
    case (2 v cs)
    have "feed_ok (on_app (set_loading_older_branch k True) s)"
      using 7 by (rule feed_ok_app) (rule store_step.intros)
    from feed_ok_request [OF this] show ?thesis using 2 by simp
  qed
next
  case (10 s k br)
  have "feed_ok (on_app reset_live s)" using 10 by (rule feed_ok_app) (rule store_step.intros)
  with 10 show ?case by (simp add: cleared_subject_def feed_ok_load)
next
  case (12 s st)
  have "feed_ok (on_app (set_ws_online (st = WsOpen)) s)"
    using 12 by (rule feed_ok_app) (rule store_step.intros)
  then show ?case
    by (cases "st = WsOpen") (simp_all add: status_changed_def Let_def feed_ok_load feed_ok_send_focus)
qed (auto simp: older_answer_def older_branch_answer_def cleared_history_def
    intro!: feed_ok_load feed_ok_app feed_ok_settle store_step.intros feed_ok_after_change feed_ok_set_app
    split: sum.split)

lemma feed_ok_reachable: "feed_reachable s \<Longrightarrow> feed_ok s"
proof (induction rule: feed_reachable.induct)
  case (start th w r e hs hi pv)
  then show ?case
    using numbered_initial [of "initial_state th w r e hs hi pv"]
    by (simp add: feed_ok_def initial_feed_def store_reachable.start)
qed (rule feed_ok_step)

subsection \<open>No view waits in vain\<close>

definition served :: "string \<Rightarrow> feed_state \<Rightarrow> bool" where
  "served k s = (\<exists>r e. HistoryRequest k (seq_of k s) r e \<in> set (fe_requests s))"

definition loading_in :: "app_state \<Rightarrow> string \<Rightarrow> bool" where
  "loading_in a k = (case jm_get (s_live a) k of None \<Rightarrow> False | Some v \<Rightarrow> lv_loading v)"

text \<open>Every view that shows itself loading has the request that will end it in flight.\<close>

definition waits_served :: "feed_state \<Rightarrow> bool" where
  "waits_served s = (\<forall>k. loading_in (fe_app s) k \<longrightarrow> served k s)"

lemma requests_load: "set (fe_requests s) \<subseteq> set (fe_requests (load_subject r k s))"
  by (auto simp: load_subject_def Let_def)

lemma served_load_subject: "served k s \<or> k' = k \<Longrightarrow> served k (load_subject r k' s)"
proof (cases "k' = k")
  case True
  have "HistoryRequest k (seq_of k (load_subject r k s)) r (current_expr s)
      \<in> set (fe_requests (load_subject r k s))"
    by (simp add: load_subject_def seq_of_def Let_def)
  with True show ?thesis unfolding served_def by blast
next
  case False
  moreover assume "served k s \<or> k' = k"
  ultimately show ?thesis using requests_load [of s r k'] by (auto simp: served_def)
qed

lemma served_fold_load: "served k s \<or> k \<in> set ks \<Longrightarrow> served k (fold (load_subject r) ks s)"
  by (induction ks arbitrary: s) (auto intro: served_load_subject)

lemma served_load_history: "served k s \<Longrightarrow> served k (load_history a r s)"
  unfolding load_history_def by (rule served_fold_load) simp

lemma loading_selected: "store_ok a \<Longrightarrow> loading_in a k \<Longrightarrow> k \<in> set (s_selected a)"
  using jm_get_None [of "s_live a" k] by (auto simp: loading_in_def store_ok_def split: option.splits)

lemma waits_served_all:
  assumes "store_ok (fe_app s)"
  shows "waits_served (load_history a r s)"
  unfolding waits_served_def load_history_def fold_load_simps
proof (intro allI impI)
  fix k
  assume k: "loading_in (fe_app s) k"
  then have "k \<in> set (s_selected (fe_app s))" using assms by (rule loading_selected [rotated])
  then show "served k (fold (load_subject r)
      (filter (\<lambda>k. a \<or> (case jm_get (s_live (fe_app s)) k of None \<Rightarrow> False | Some v \<Rightarrow> lv_loading v))
        (s_selected (fe_app s))) s)"
    using k by (intro served_fold_load) (simp add: loading_in_def)
qed

lemma waits_served_load: "waits_served s \<Longrightarrow> waits_served (load_history a r s)"
  by (simp add: waits_served_def served_load_history)

lemma served_same:
  "set (fe_requests s) \<subseteq> set (fe_requests s') \<Longrightarrow> fe_load_seq s' = fe_load_seq s \<Longrightarrow> served k s \<Longrightarrow> served k s'"
  by (auto simp: served_def seq_of_def)

lemma waits_served_same:
  assumes "waits_served s" "set (fe_requests s) \<subseteq> set (fe_requests s')" "fe_load_seq s' = fe_load_seq s"
    and "\<And>k. loading_in (fe_app s') k \<Longrightarrow> loading_in (fe_app s) k"
  shows "waits_served s'"
  using assms served_same [OF assms(2,3)] by (auto simp: waits_served_def)

lemma loading_with_view:
  assumes "\<And>v. lv_loading (f v) \<Longrightarrow> lv_loading v"
  shows "loading_in (with_view k' f a) k \<Longrightarrow> loading_in a k"
  using assms by (auto simp: loading_in_def with_view_def split: option.splits if_splits)

lemma loading_map_live:
  assumes "\<And>k v. lv_loading (f k v) \<Longrightarrow> lv_loading v"
  shows "loading_in (a\<lparr>s_live := map (\<lambda>(k, v). (k, f k v)) (s_live a)\<rparr>) k \<Longrightarrow> loading_in a k"
  using assms by (auto simp: loading_in_def jm_get_map_values split: option.splits)

text \<open>Only a change of the selection makes a view that loads; every other action of the store
  leaves the loading views or ends their loading.\<close>

lemmas keep_live_defs = set_active_conn_def clear_selections_def set_theme_def toggle_theme_def
  write_setting_def set_explorer_width_def set_rail_width_def open_connections_dialog_def
  close_connections_dialog_def set_history_db_def set_tree_rows_def set_subject_filter_def
  set_subject_expr_def set_filter_error_def set_hide_system_def set_hide_internal_def
  set_tree_preview_def toggle_expanded_def set_expanded_def expand_all_branches_def collapse_all_def
  set_subscription_stats_def prefill_publish_def set_selected_bucket_def bump_refresh_def
  set_js_domain_override_def plain_setter_defs Let_def

lemma loading_same_live: "s_live b = s_live a \<Longrightarrow> loading_in b k \<Longrightarrow> loading_in a k"
  by (simp add: loading_in_def)

lemma loading_select:
  assumes "store_ok a" "s_selected (set_selected_subject sub a) = s_selected a"
    and "loading_in (set_selected_subject sub a) k"
  shows "loading_in a k"
proof (cases "s_subject a = sub \<and> length (s_selected a) \<le> 1")
  case True
  then have "set_selected_subject sub a = a" by (simp add: set_selected_subject_def)
  with assms show ?thesis by simp
next
  case False
  then have eq: "set_selected_subject sub a = a\<lparr>s_selected := (if truthy sub then [the sub] else []),
      s_subject := sub, s_message := None, s_range := None,
      s_live := (if truthy sub
        then [(the sub, nullish (jm_get (s_live a) (the sub)) (empty_view (the sub)))] else [])\<rparr>"
    unfolding set_selected_subject_def by (simp only: if_False)
  have t: "truthy sub" using assms(3) unfolding eq by (simp add: loading_in_def split: if_splits)
  then have sel: "s_selected a = [the sub]" using assms(2) unfolding eq by simp
  then have "jm_get (s_live a) (the sub) \<noteq> None"
    using assms(1) jm_get_None [of "s_live a" "the sub"] by (simp add: store_ok_def)
  with t assms(3) show ?thesis
    unfolding eq by (auto simp: loading_in_def split: if_splits option.splits)
qed

lemma loading_connections: "loading_in (set_connections now conns a) k \<Longrightarrow> loading_in a k"
  by (auto simp: loading_in_def set_connections_def Let_def clear_selections_def jm_get_map_values
      keep_messages_def split: if_splits option.splits)

lemma loading_ingest: "loading_in (ingest_feed msgs a) k \<Longrightarrow> loading_in a k"
  by (auto simp: loading_in_def ingest_feed_def jm_get_map_values ingest_view_def Let_def
      split: if_splits option.splits)

lemma toggle_changes_selection: "s_selected (toggle_selected_subject p a) \<noteq> s_selected a"
  using filter_id_conv [of "\<lambda>x. x \<noteq> p" "s_selected a"]
  by (cases "p \<in> set (s_selected a)") (simp_all add: toggle_selected_subject_def Let_def)

lemma loading_kept:
  assumes "store_step a b" "store_ok a" "s_selected b = s_selected a" "loading_in b k"
  shows "loading_in a k"
  using assms
proof (induction rule: store_step.induct)
  case (22 s p)
  let ?a = "s\<lparr>s_expanded := fold (\<lambda>p xs. if s_expand_all s then filter (\<lambda>y. y \<noteq> p) xs else js_add p xs)
      (ancestors_of p) (s_expanded s)\<rparr>"
  have "store_ok ?a" using 22(1) by (rule store_ok_cong) simp_all
  then have "loading_in ?a k" using 22(2,3) by (intro loading_select [of ?a]) (simp_all add: reveal_subject_def)
  then show ?case by (simp add: loading_in_def)
next
  case (23 s p)
  then show ?case
    using toggle_changes_selection by blast
next
  case (25 s p res r)
  then show ?case
    unfolding apply_history_def by (elim loading_with_view [rotated]) (simp add: merge_history_def Let_def)
next
  case (28 s p msgs r)
  then show ?case
    unfolding append_older_branch_def
    by (elim loading_with_view [rotated]) (simp add: append_branch_view_def Let_def)
next
  case (29 s p msgs r)
  then show ?case
    unfolding prepend_older_def by (elim loading_with_view [rotated]) (simp add: prepend_view_def Let_def)
next
  case (31 s)
  then show ?case
    by (auto simp: reset_live_def loading_in_def jm_get_map_values forget_view_def split: option.splits)
next
  case (1 now conns s)
  then show ?case by (simp add: loading_connections)
next
  case (21 s sub)
  then show ?case by (simp add: loading_select)
next
  case (24 s msgs)
  then show ?case by (simp add: loading_ingest)
next
  case (26 s p b)
  then show ?case unfolding set_loading_older_def by (elim loading_with_view [rotated]) simp
next
  case (27 s p b)
  then show ?case unfolding set_loading_older_branch_def by (elim loading_with_view [rotated]) simp
next
  case (30 s p e)
  then show ?case unfolding set_live_error_def by (elim loading_with_view [rotated]) simp
qed (simp_all add: loading_in_def keep_live_defs split: if_splits)

lemma waits_served_app:
  assumes "waits_served s" "store_ok (fe_app s)" "store_step (fe_app s) (f (fe_app s))"
    and "s_selected (f (fe_app s)) = s_selected (fe_app s)"
  shows "waits_served (on_app f s)"
  using assms(1) by (rule waits_served_same) (auto intro: loading_kept [OF assms(3,2,4)])

lemma served_settle_other:
  "served k s \<Longrightarrow> (\<And>r e. x \<noteq> HistoryRequest k (seq_of k s) r e) \<Longrightarrow> served k (settle x s)"
  unfolding served_def settle_simps by (metis in_set_remove1 select_request)

lemma waits_served_settle:
  assumes "waits_served s" "\<And>k q r e. x \<noteq> HistoryRequest k q r e"
  shows "waits_served (settle x s)"
  using assms served_settle_other [of _ s x] by (simp add: waits_served_def)

lemma selected_with_view [simp]: "s_selected (with_view k f a) = s_selected a"
  by (simp add: with_view_def split: option.split)

lemma selected_actions [simp]:
  "s_selected (set_loading_older k b a) = s_selected a"
  "s_selected (set_loading_older_branch k b a) = s_selected a"
  "s_selected (prepend_older k msgs b a) = s_selected a"
  "s_selected (append_older_branch k msgs b a) = s_selected a"
  "s_selected (reset_live a) = s_selected a" "s_selected (ingest_feed msgs a) = s_selected a"
  "s_selected (set_ws_online b a) = s_selected a"
  by (simp_all add: set_loading_older_def set_loading_older_branch_def prepend_older_def
      append_older_branch_def reset_live_def ingest_feed_def set_ws_online_def)

lemma loading_with_view_ended:
  "(\<And>v. \<not> lv_loading (f v)) \<Longrightarrow> \<not> loading_in (with_view k f a) k"
  by (simp add: loading_in_def with_view_def split: option.split)

lemma loading_with_view_other:
  "k' \<noteq> k \<Longrightarrow> loading_in (with_view k f a) k' = loading_in a k'"
  by (simp add: loading_in_def with_view_def split: option.split)

definition answered :: "string \<Rightarrow> bool \<Rightarrow> string + history_response \<Rightarrow> live_view \<Rightarrow> live_view" where
  "answered k r a v = (case a of Inr res \<Rightarrow> merge_history k res r v
     | Inl e \<Rightarrow> v\<lparr>lv_loading := False, lv_error := Some e\<rparr>)"

lemma history_answer_current:
  "1 \<le> q \<Longrightarrow> q = seq_of k s \<Longrightarrow> history_answer k q r a s = on_app (with_view k (answered k r a)) s"
  by (cases "jm_get (fe_load_seq s) k")
    (auto simp: history_answer_def seq_of_def apply_history_def set_live_error_def answered_def [abs_def]
      split: sum.split)

lemma answered_not_loading [simp]: "\<not> lv_loading (answered k r a v)"
  by (simp add: answered_def merge_history_def Let_def split: sum.split)

lemma waits_served_answer:
  assumes s: "waits_served s" and n: "numbered s" and x: "HistoryRequest k q r e \<in> set (fe_requests s)"
  shows "waits_served (history_answer k q r a (settle (HistoryRequest k q r e) s))" (is "waits_served (history_answer k q r a ?t)")
proof (cases "q = seq_of k s")
  case False
  then have "history_answer k q r a ?t = ?t" by (simp add: history_answer_stale)
  moreover have "served k' ?t" if "served k' s" for k'
    using that False by (intro served_settle_other) auto
  ultimately show ?thesis using s by (simp add: waits_served_def)
next
  case True
  have "1 \<le> q" using n numbers_in_mem [OF x] by (simp add: numbered_def)
  then have eq: "history_answer k q r a ?t = on_app (with_view k (answered k r a)) ?t"
    using True by (intro history_answer_current) simp_all
  have "served k' (on_app (with_view k (answered k r a)) ?t)"
    if l: "loading_in (with_view k (answered k r a) (fe_app s)) k'" for k'
  proof -
    have "k' \<noteq> k" using l loading_with_view_ended by fastforce
    then have "served k' s" using l s by (simp add: loading_with_view_other waits_served_def)
    then have "served k' ?t" using \<open>k' \<noteq> k\<close> by (intro served_settle_other) simp_all
    then show ?thesis by (simp add: served_def seq_of_def)
  qed
  then show ?thesis unfolding eq by (simp add: waits_served_def)
qed

lemma store_ok_feed: "feed_ok s \<Longrightarrow> store_ok (fe_app s)"
  by (simp add: feed_ok_def store_reachable_ok)

lemma waits_served_focus [simp]: "waits_served (send_focus s) = waits_served s"
  by (simp add: waits_served_def served_def send_focus_def seq_of_def)

lemma waits_served_view [simp]: "waits_served (s\<lparr>fe_views := vs\<rparr>) = waits_served s"
  by (simp add: waits_served_def served_def seq_of_def)

lemma waits_served_request: "waits_served s \<Longrightarrow> waits_served (s\<lparr>fe_requests := fe_requests s @ rs\<rparr>)"
  by (rule waits_served_same) auto

lemma waits_served_after_change:
  assumes s: "waits_served s" "feed_ok s" and a: "store_step (fe_app s) a"
  shows "waits_served (after_change (fe_app s) (s\<lparr>fe_app := a\<rparr>))"
proof -
  let ?s = "s\<lparr>fe_app := a\<rparr>"
  have ok: "store_ok a" using s(2) a by (auto dest: store_ok_feed intro: store_ok_step)
  show ?thesis
  proof (cases "s_selected a = s_selected (fe_app s)")
    case True
    have "waits_served ?s"
      using s(1) by (rule waits_served_same) (auto intro: loading_kept [OF a store_ok_feed [OF s(2)] True])
    with True show ?thesis
      unfolding after_change_def Let_def by (auto intro!: waits_served_load)
  next
    case False
    then show ?thesis
      unfolding after_change_def Let_def using ok by (auto intro!: waits_served_all)
  qed
qed

lemma waits_served_step: "feed_step s s' \<Longrightarrow> feed_ok s \<Longrightarrow> waits_served s \<Longrightarrow> waits_served s'"
proof (induction rule: feed_step.induct)
  case (1 s msgs)
  then show ?case by (auto simp: enqueue_def intro: waits_served_same)
next
  case (2 s)
  let ?s = "s\<lparr>fe_scheduled := False, fe_pending := []\<rparr>"
  have "waits_served ?s" using 2 by (auto intro: waits_served_same)
  then have "waits_served (on_app (ingest_feed (fe_pending s)) ?s)"
    using 2 by (intro waits_served_app store_step.intros) (simp_all add: store_ok_feed)
  then show ?case by (simp add: flush_frame_def)
next
  case (4 k q r e s a)
  then show ?case by (simp add: waits_served_answer feed_ok_def)
next
  case (5 s k)
  show ?case
  proof (cases rule: load_older_cases [of k s])
    case 1
    with 5 show ?thesis by simp
  next
    case (2 v cs)
    have "waits_served (on_app (set_loading_older k True) s)"
      using 5 by (intro waits_served_app store_step.intros) (simp_all add: store_ok_feed)
    from waits_served_request [OF this] show ?thesis using 2 by simp
  qed
next
  case (6 k cs e s b)
  have "waits_served (settle (OlderRequest k cs e) s)" "feed_ok (settle (OlderRequest k cs e) s)"
    using 6 by (auto intro: waits_served_settle feed_ok_settle)
  then show ?case unfolding older_answer_def
    by (cases b; intro waits_served_app)
      (auto intro: store_step.intros dest: store_ok_feed)
next
  case (7 s k)
  show ?case
  proof (cases rule: load_older_branch_cases [of k s])
    case 1
    with 7 show ?thesis by simp
  next
    case (2 v cs)
    have "waits_served (on_app (set_loading_older_branch k True) s)"
      using 7 by (intro waits_served_app store_step.intros) (simp_all add: store_ok_feed)
    from waits_served_request [OF this] show ?thesis using 2 by simp
  qed
next
  case (8 k cs e s b)
  have "waits_served (settle (OlderBranchRequest k cs e) s)" "feed_ok (settle (OlderBranchRequest k cs e) s)"
    using 8 by (auto intro: waits_served_settle feed_ok_settle)
  then show ?case unfolding older_branch_answer_def
    by (cases b; intro waits_served_app)
      (auto intro: store_step.intros dest: store_ok_feed)
next
  case (9 s)
  then show ?case unfolding cleared_history_def
    by (intro waits_served_app store_step.intros) (simp_all add: store_ok_feed)
next
  case (10 s k br)
  have "waits_served (on_app reset_live s)"
    using 10 by (intro waits_served_app store_step.intros) (simp_all add: store_ok_feed)
  with 10 show ?case by (simp add: cleared_subject_def waits_served_load)
next
  case (11 s a)
  then show ?case by (simp add: waits_served_after_change)
next
  case (12 s st)
  have "waits_served (on_app (set_ws_online (st = WsOpen)) s)"
    using 12 by (intro waits_served_app store_step.intros) (simp_all add: store_ok_feed)
  then show ?case by (cases "st = WsOpen") (simp_all add: status_changed_def Let_def waits_served_load)
qed (rule waits_served_load)

lemma waits_served_initial: "waits_served (initial_feed (initial_state th w r e hs hi pv))"
  by (simp add: waits_served_def loading_in_def initial_feed_def initial_state_def)

lemma waits_served_reachable: "feed_reachable s \<Longrightarrow> waits_served s"
  by (induction rule: feed_reachable.induct)
    (auto intro: waits_served_initial waits_served_step feed_ok_reachable)

subsection \<open>Properties\<close>


definition start_feed :: feed_state where
  "start_feed = initial_feed (initial_state Dark None None [] True True False)"


text \<open>C14: No view waits in vain: in every run, a view that shows itself loading has the current
  request of its subject in flight, and whichever way that request is answered, with a response or
  with an error, the view stops loading.\<close>

theorem loading_ends:
  assumes "feed_reachable s" "jm_get (s_live (fe_app s)) k = Some v" "lv_loading v"
  shows "\<exists>r e. HistoryRequest k (seq_of k s) r e \<in> set (fe_requests s) \<and>
     (\<forall>a. \<exists>v'. jm_get (s_live (fe_app (history_answer k (seq_of k s) r a s))) k = Some v' \<and> \<not> lv_loading v')"
proof -
  have "loading_in (fe_app s) k" using assms(2,3) by (simp add: loading_in_def)
  then obtain r e where req: "HistoryRequest k (seq_of k s) r e \<in> set (fe_requests s)"
    using waits_served_reachable [OF assms(1)] by (auto simp: waits_served_def served_def)
  have "1 \<le> seq_of k s"
    using feed_ok_reachable [OF assms(1)] numbers_in_mem [OF req] by (auto simp: feed_ok_def numbered_def)
  then have "history_answer k (seq_of k s) r a s = on_app (with_view k (answered k r a)) s" for a
    by (intro history_answer_current) simp_all
  then show ?thesis using req assms(2) by (auto simp: with_view_def)
qed

definition selecting_feed :: feed_state where
  "selecting_feed = after_change (fe_app start_feed)
     (start_feed\<lparr>fe_app := set_selected_subject (Some ''a'') (fe_app start_feed)\<rparr>)"

lemma selecting_feed_reachable: "feed_reachable selecting_feed"
proof -
  have "feed_reachable start_feed" unfolding start_feed_def by (rule feed_reachable.start)
  then show ?thesis unfolding selecting_feed_def
    by (rule feed_reachable.step) (intro feed_step.intros store_step.intros)
qed

lemma selecting_feed_live: "s_live (fe_app selecting_feed) = [(''a'', empty_view ''a'')]"
  by (simp add: selecting_feed_def start_feed_def initial_feed_def initial_state_def after_change_def
      set_selected_subject_def view_changed_def Let_def)

lemma loading_ends_witness:
  "\<exists>r e. HistoryRequest ''a'' (seq_of ''a'' selecting_feed) r e \<in> set (fe_requests selecting_feed) \<and>
     (\<forall>a. \<exists>v'. jm_get (s_live (fe_app (history_answer ''a'' (seq_of ''a'' selecting_feed) r a selecting_feed))) ''a''
        = Some v' \<and> \<not> lv_loading v')"
  by (rule loading_ends [where v = "empty_view ''a''"])
    (simp_all add: selecting_feed_reachable selecting_feed_live empty_view_def)

text \<open>C15: However many history requests of a subject are answered, in whatever order, only the answer
  to the latest request counts: dropping all other answers changes nothing.\<close>

theorem answers_in_any_order:
  "fold (\<lambda>(q, r, a). history_answer k q r a) answers s =
   fold (\<lambda>(q, r, a). history_answer k q r a) (filter (\<lambda>(q, _). q = seq_of k s) answers) s"
proof (induction answers arbitrary: s)
  case (Cons x xs)
  obtain q r a where x: "x = (q, r, a)" by (cases x)
  have seq: "seq_of k (history_answer k q r a s) = seq_of k s" by (simp add: history_answer_def seq_of_def)
  show ?case
  proof (cases "q = seq_of k s")
    case True
    with x Cons.IH [of "history_answer k q r a s"] seq show ?thesis by simp
  next
    case False
    with x Cons.IH [of s] show ?thesis by (simp add: history_answer_stale)
  qed
qed simp

text \<open>Paging backwards asks every connection with the cursor of its own oldest message that
  carries a sequence: the first one in the list of the subject (oldest first), the last one in the
  list of the branch (newest first).\<close>

definition cursor_of :: "nats_message \<Rightarrow> cursor" where
  "cursor_of m = \<lparr>cu_seq = nullish (m_sequence m) 0, cu_ts = m_timestamp m\<rparr>"

abbreviation numbered_by :: "string \<Rightarrow> nats_message \<Rightarrow> bool" where
  "numbered_by c m \<equiv> m_conn_id m = Some c \<and> m_sequence m \<noteq> None"

lemma find_append: "List.find P (xs @ ys) = (case List.find P xs of None \<Rightarrow> List.find P ys | Some x \<Rightarrow> Some x)"
  by (induction xs) auto

theorem older_cursors:
  assumes "c \<noteq> []"
  shows "jm_get (first_cursors msgs) c = map_option cursor_of (List.find (numbered_by c) msgs) \<and>
     jm_get (last_cursors msgs) c = map_option cursor_of (List.find (numbered_by c) (rev msgs))"
proof (induction msgs rule: rev_induct)
  case Nil
  then show ?case by (simp add: first_cursors_def last_cursors_def)
next
  case (snoc m msgs)
  have f: "first_cursors (msgs @ [m]) = (case m_sequence m of None \<Rightarrow> first_cursors msgs
      | Some q \<Rightarrow> if truthy (m_conn_id m) \<and> \<not> jm_has (first_cursors msgs) (the (m_conn_id m))
          then jm_set (the (m_conn_id m)) (cursor_of m) (first_cursors msgs) else first_cursors msgs)"
    by (simp add: first_cursors_def cursor_of_def split: option.split)
  have l: "last_cursors (msgs @ [m]) = (case m_sequence m of None \<Rightarrow> last_cursors msgs
      | Some q \<Rightarrow> if truthy (m_conn_id m)
          then jm_set (the (m_conn_id m)) (cursor_of m) (last_cursors msgs) else last_cursors msgs)"
    by (simp add: last_cursors_def cursor_of_def split: option.split)
  from snoc assms show ?case
    unfolding f l by (cases "m_conn_id m")
      (auto simp: find_append jm_has_def split: option.splits)
qed

definition old_message :: nats_message where
  "old_message = \<lparr>m_subject = ''a'', m_payload = ''x'', m_payload_type = PString, m_headers = None,
     m_timestamp = 5, m_reply = None, m_size = 1, m_sequence = Some 2, m_conn_id = Some ''c'', m_schema = None\<rparr>"

lemma older_cursors_witness:
  "jm_get (first_cursors [old_message]) ''c'' = map_option cursor_of (List.find (numbered_by ''c'') [old_message]) \<and>
     jm_get (last_cursors [old_message]) ''c'' = map_option cursor_of (List.find (numbered_by ''c'') (rev [old_message]))"
  by (rule older_cursors) simp

text \<open>Forgetting the history does not forget the page in flight: an answer that was on its way
  when the history was cleared fills the emptied view with the cleared messages again.\<close>

theorem cleared_messages_return:
  assumes "jm_get (s_live (fe_app s)) k = Some v" "hr_messages page \<noteq> []" "length (hr_messages page) \<le> 1000"
  shows "\<exists>v'. jm_get (s_live (fe_app (older_answer k (Inr [page]) (cleared_history s)))) k = Some v' \<and>
     mset (lv_messages v') = mset (hr_messages page)"
  using assms
  by (simp add: older_answer_def cleared_history_def prepend_older_def with_view_def reset_live_def
      jm_get_map_values prepend_view_def forget_view_def unseen_def Let_def)

lemma cleared_messages_return_witness:
  "\<exists>v'. jm_get (s_live (fe_app (older_answer ''a''
       (Inr [\<lparr>hr_subject = ''a'', hr_messages = [old_message], hr_branch = [], hr_more = None, hr_branch_more = None\<rparr>])
       (cleared_history selecting_feed)))) ''a'' = Some v' \<and> mset (lv_messages v') = mset [old_message]"
  using cleared_messages_return [of selecting_feed "''a''" "empty_view ''a''"
      "\<lparr>hr_subject = ''a'', hr_messages = [old_message], hr_branch = [], hr_more = None, hr_branch_more = None\<rparr>"]
  by (simp add: selecting_feed_live)

end
