(* ===== verification/Alerts.thy ===== *)
theory Alerts
  imports Wire Subjects
begin

text \<open>
  Alert rules and alerts (\<open>client/src/lib/alerts.ts\<close>, \<open>client/src/store/alerts.ts\<close> and the alerts
  handler of \<open>client/src/lib/feed.ts\<close>): checking a rule before it is sent, its description, the
  order of the list, the store with its bounded log, and which events raise a toast.

  The id of a new rule (\<open>uuid()\<close>), the text of a number that need not be whole and the local text
  of a date come from the platform and are arguments. A call of the alerts API is split at its
  \<open>await\<close>: the definition takes the answer, \<open>Inl\<close> the text of the error or \<open>Inr\<close> the body.
\<close>

subsection \<open>Severities and tones\<close>

definition severities :: "alert_severity list" where
  "severities = [Info, Warning, Critical]"

datatype badge_tone = ToneNeutral | ToneInfo | ToneWarn | ToneDanger

fun severity_tone :: "alert_severity \<Rightarrow> badge_tone" where
  "severity_tone Info = ToneInfo"
| "severity_tone Warning = ToneWarn"
| "severity_tone Critical = ToneDanger"

lemma index_severities: "index_of s severities = Some (severity_rank s)"
  by (cases s) (simp_all add: severities_def)

subsection \<open>Rules\<close>

definition new_alert_rule :: "string \<Rightarrow> alert_rule" where
  "new_alert_rule uuid = \<lparr>ar_id = uuid, ar_name = [], ar_pattern = [], ar_expr = None,
     ar_stale_after = None, ar_stale_auto = None, ar_severity = Warning, ar_webhook = None,
     ar_webhook_format = None, ar_email = None, ar_enabled = True, ar_window = None,
     ar_min_count = None, ar_max_count = None, ar_field = None, ar_agg = None, ar_above = None,
     ar_below = None, ar_unchanged_for = None, ar_muted_until = None\<rparr>"

definition alert_rule_for_subject :: "string \<Rightarrow> string \<Rightarrow> bool \<Rightarrow> alert_rule" where
  "alert_rule_for_subject uuid subject branch =
     (let pattern = (if branch then subject @ ''.>'' else subject)
      in (new_alert_rule uuid)\<lparr>ar_pattern := pattern, ar_name := pattern\<rparr>)"

text \<open>\<open>s?.trim()\<close> as a condition, and \<open>n && n > 0\<close>.\<close>

definition filled :: "string option \<Rightarrow> bool" where
  "filled s = (case s of None \<Rightarrow> False | Some v \<Rightarrow> trim v \<noteq> [])"

definition positive :: "int option \<Rightarrow> bool" where
  "positive n = (case n of None \<Rightarrow> False | Some v \<Rightarrow> v > 0)"

definition rule_window :: "alert_rule \<Rightarrow> int" where
  "rule_window r = nullish (ar_window r) 0"

definition has_counts :: "alert_rule \<Rightarrow> bool" where
  "has_counts r = (ar_min_count r \<noteq> None \<or> ar_max_count r \<noteq> None)"

definition has_threshold :: "alert_rule \<Rightarrow> bool" where
  "has_threshold r = (ar_above r \<noteq> None \<or> ar_below r \<noteq> None)"

definition is_http_url :: "string \<Rightarrow> bool" where
  "is_http_url s = (starts_with s ''http://'' \<or> starts_with s ''https://'')"

definition email_separator :: "char \<Rightarrow> bool" where
  "email_separator c = (c = CHR '','' \<or> c = CHR '';'' \<or> c = CHR '' '')"

text \<open>\<open>tokens.some((t, i) => t === '>' && i !== tokens.length - 1)\<close>.\<close>

definition wildcard_inside :: "string list \<Rightarrow> bool" where
  "wildcard_inside toks = list_ex (\<lambda>t. t = ''>'') (butlast toks)"

definition validate_rule :: "alert_rule \<Rightarrow> string option" where
  "validate_rule r =
     (let pattern = trim (ar_pattern r); toks = tokens pattern; window = rule_window r in
      if trim (ar_name r) = [] then Some ''A rule needs a name.''
      else if pattern = [] then Some ''A rule needs a subject pattern.''
      else if list_ex is_space pattern then Some ''A subject pattern cannot contain spaces.''
      else if [] \<in> set toks then Some ''A subject pattern cannot have empty tokens.''
      else if wildcard_inside toks then Some ''The > wildcard is only allowed as the last token.''
      else if (has_counts r \<or> has_threshold r) \<and> window \<le> 0
        then Some ''A count or a threshold over time needs a window.''
      else if \<not> filled (ar_expr r) \<and> \<not> positive (ar_stale_after r) \<and> \<not> nullish (ar_stale_auto r) False \<and>
          \<not> (window > 0 \<and> (has_counts r \<or> has_threshold r)) \<and> \<not> positive (ar_unchanged_for r)
        then Some ''A rule needs a condition: an expression, a silence, a count or a threshold over a window, or an unchanged value.''
      else if nullish (ar_stale_after r) 0 < 0 then Some ''The silence timeout cannot be negative.''
      else if window < 0 \<or> window > 24 * 3600 then Some ''The window must be between 1 s and 24 h.''
      else if nullish (ar_min_count r) 0 < 0 \<or> nullish (ar_max_count r) 0 < 0
        then Some ''A message count cannot be negative.''
      else if has_threshold r \<and> \<not> filled (ar_field r) then Some ''A threshold over time needs a field.''
      else if nullish (ar_unchanged_for r) 0 < 0 then Some ''The unchanged time cannot be negative.''
      else if filled (ar_webhook r) \<and> \<not> is_http_url (trim (the (ar_webhook r)))
        then Some ''The webhook must be an http:// or https:// URL.''
      else if filled (ar_email r) \<and>
          list_ex (\<lambda>a. CHR ''@'' \<notin> set a) (fields_by email_separator [] (the (ar_email r)))
        then Some ''Every recipient needs an email address.''
      else None)"

subsection \<open>Descriptions\<close>

definition describe_window :: "int \<Rightarrow> string" where
  "describe_window s =
     (if s \<ge> 3600 \<and> s mod 3600 = 0 then int_str (s div 3600) @ '' h''
      else if s \<ge> 120 \<and> s mod 60 = 0 then int_str (s div 60) @ '' min''
      else int_str s @ '' s'')"

fun agg_name :: "alert_agg \<Rightarrow> string" where
  "agg_name AggAvg = ''avg''" | "agg_name AggMin = ''min''" | "agg_name AggMax = ''max''"

definition stale_part :: "alert_rule \<Rightarrow> string list" where
  "stale_part r =
     (if nullish (ar_stale_auto r) False
      then [if nullish (ar_stale_after r) 0 \<noteq> 0
            then ''silent for ten times its usual gap, at least '' @ int_str (the (ar_stale_after r)) @ ''s''
            else ''silent for ten times its usual gap'']
      else if positive (ar_stale_after r) then [''silent for '' @ int_str (the (ar_stale_after r)) @ ''s'']
      else [])"

definition option_part :: "'a option \<Rightarrow> ('a \<Rightarrow> string) \<Rightarrow> string list" where
  "option_part v f = (case v of None \<Rightarrow> [] | Some x \<Rightarrow> [f x])"

definition window_part :: "(rat \<Rightarrow> string) \<Rightarrow> alert_rule \<Rightarrow> string list" where
  "window_part show_number r = (let w = describe_window (rule_window r) in
     option_part (ar_min_count r) (\<lambda>n. ''fewer than '' @ int_str n @ '' messages in '' @ w) @
     option_part (ar_max_count r) (\<lambda>n. ''more than '' @ int_str n @ '' messages in '' @ w) @
     (if truthy (ar_field r) \<and> has_threshold r
      then (let agg = agg_name (nullish (ar_agg r) AggAvg) @ '' '' @ the (ar_field r) @ '' over '' @ w in
        option_part (ar_above r) (\<lambda>x. agg @ '' above '' @ show_number x) @
        option_part (ar_below r) (\<lambda>x. agg @ '' below '' @ show_number x))
      else []))"

definition rule_parts :: "(rat \<Rightarrow> string) \<Rightarrow> alert_rule \<Rightarrow> string list" where
  "rule_parts show_number r =
     (if filled (ar_expr r) then [trim (the (ar_expr r))] else []) @
     stale_part r @
     (if rule_window r > 0 then window_part show_number r else []) @
     (if positive (ar_unchanged_for r)
      then [(if truthy (ar_field r) then the (ar_field r) else ''payload'') @ '' unchanged for '' @
            describe_window (the (ar_unchanged_for r))]
      else [])"

definition describe_rule :: "(rat \<Rightarrow> string) \<Rightarrow> alert_rule \<Rightarrow> string" where
  "describe_rule show_number r = join_str '' or '' (rule_parts show_number r)"

text \<open>\<open>Math.ceil(left / 60000)\<close> and \<open>Math.round(min / 60)\<close> on whole numbers.\<close>

definition describe_mute :: "(int \<Rightarrow> string) \<Rightarrow> alert_rule \<Rightarrow> int \<Rightarrow> string" where
  "describe_mute local_time r now =
     (let left = nullish (ar_muted_until r) 0 - now in
      if left \<le> 0 then []
      else let m = - ((- left) div 60000) in
        if m < 60 then ''muted for '' @ int_str m @ '' min''
        else if m < 24 * 60 then ''muted for '' @ int_str ((m + 30) div 60) @ '' h''
        else ''muted until '' @ local_time (the (ar_muted_until r)))"

subsection \<open>Lists of alerts\<close>

definition worst_first :: "alert \<Rightarrow> alert \<Rightarrow> int" where
  "worst_first a b =
     (let d = int (the (index_of (al_severity b) severities)) - int (the (index_of (al_severity a) severities))
      in if d \<noteq> 0 then d else al_since b - al_since a)"

definition sort_alerts :: "alert list \<Rightarrow> alert list" where
  "sort_alerts alerts = js_sort worst_first alerts"

definition newly_firing :: "alert list \<Rightarrow> alert list \<Rightarrow> alert list" where
  "newly_firing previous nxt = filter (\<lambda>a. al_key a \<notin> set (map al_key previous)) nxt"

definition unattended :: "alert list \<Rightarrow> alert list" where
  "unattended active = filter (\<lambda>a. nullish (al_acked_at a) 0 = 0 \<and> \<not> nullish (al_muted a) False) active"

text \<open>The loop with its early return; the accumulator is \<open>worst\<close>.\<close>

fun worst_from :: "alert_severity option \<Rightarrow> alert list \<Rightarrow> alert_severity option" where
  "worst_from worst [] = worst"
| "worst_from worst (a # as) =
     (if al_severity a = Critical then Some Critical
      else if al_severity a = Warning then worst_from (Some Warning) as
      else worst_from (if worst = None then Some Info else worst) as)"

definition worst_severity :: "alert list \<Rightarrow> alert_severity option" where
  "worst_severity active = worst_from None active"

subsection \<open>Event texts\<close>

text \<open>\<open>describeEvent\<close> of the library, by rule name, and of the store, by subject.\<close>

fun state_name :: "alert_state \<Rightarrow> string" where
  "state_name Firing = ''firing''" | "state_name Stale = ''stale''" | "state_name Rate = ''rate''"
| "state_name Level = ''level''" | "state_name Stuck = ''stuck''" | "state_name Resolved = ''resolved''"

definition describe_rule_event :: "alert_event \<Rightarrow> string" where
  "describe_rule_event e = (case ae_state e of
       Firing \<Rightarrow> ae_rule_name e @ '' fired''
     | Stale \<Rightarrow> ae_rule_name e @ '': no messages''
     | Resolved \<Rightarrow> ae_rule_name e @ '' resolved''
     | st \<Rightarrow> ae_rule_name e @ '': '' @ nullish (ae_preview e) (state_name st))"

definition describe_event :: "alert_event \<Rightarrow> string" where
  "describe_event e = (case ae_state e of
       Stale \<Rightarrow> ae_subject e @ '' fell silent''
     | Resolved \<Rightarrow> ae_subject e @ '' is back to normal''
     | Firing \<Rightarrow> ae_subject e @ '' matches '' @ ae_rule_name e
     | _ \<Rightarrow> if truthy (ae_preview e) then ae_subject e @ '': '' @ the (ae_preview e)
            else ae_subject e @ '' ('' @ ae_rule_name e @ '')'')"

subsection \<open>The store\<close>

record alerts_state =
  as_rules :: "alert_rule list"
  as_active :: "alert list"
  as_events :: "alert_event list"
  as_loading :: bool
  as_error :: "string option"
  as_maintenance :: "maintenance_window list"

definition initial_alerts :: alerts_state where
  "initial_alerts = \<lparr>as_rules = [], as_active = [], as_events = [], as_loading = False,
     as_error = None, as_maintenance = []\<rparr>"

definition load_alerts :: "alerts_state \<Rightarrow> alerts_state" where
  "load_alerts s = s\<lparr>as_loading := True\<rparr>"

definition alerts_loaded ::
    "string + (alert_rule list option \<times> alert list option \<times> alert_event list option) \<Rightarrow>
     alerts_state \<Rightarrow> alerts_state" where
  "alerts_loaded answer s = (case answer of
       Inr (rules, active, events) \<Rightarrow> s\<lparr>as_rules := nullish rules [], as_active := nullish active [],
         as_events := nullish events [], as_loading := False, as_error := None\<rparr>
     | Inl e \<Rightarrow> s\<lparr>as_loading := False, as_error := Some e\<rparr>)"

definition apply_alerts :: "alert list \<Rightarrow> alert_event list option \<Rightarrow> alerts_state \<Rightarrow> alerts_state" where
  "apply_alerts active events s =
     s\<lparr>as_active := active,
       as_events := (case events of None \<Rightarrow> as_events s
         | Some es \<Rightarrow> if es = [] then as_events s else take 500 (es @ as_events s))\<rparr>"

text \<open>After the calls succeeded; a failed call leaves the state and is the caller's error.\<close>

definition rule_saved :: "alert_rule list option \<Rightarrow> alerts_state \<Rightarrow> alerts_state" where
  "rule_saved rules s = s\<lparr>as_rules := nullish rules []\<rparr>"

definition rule_removed :: "string \<Rightarrow> alerts_state \<Rightarrow> alerts_state" where
  "rule_removed i s = s\<lparr>as_rules := filter (\<lambda>r. ar_id r \<noteq> i) (as_rules s)\<rparr>"

definition alert_acked :: "alert list option \<Rightarrow> alerts_state \<Rightarrow> alerts_state" where
  "alert_acked active s = s\<lparr>as_active := nullish active []\<rparr>"

text \<open>The rule \<open>mute\<close> saves.\<close>

definition muted_rule :: "alert_rule \<Rightarrow> int option \<Rightarrow> alert_rule" where
  "muted_rule r until = r\<lparr>ar_muted_until := (if nullish until 0 \<noteq> 0 then until else None)\<rparr>"

definition maintenance_loaded ::
    "string + maintenance_window list option \<Rightarrow> alerts_state \<Rightarrow> alerts_state" where
  "maintenance_loaded answer s = (case answer of
       Inr windows \<Rightarrow> s\<lparr>as_maintenance := nullish windows []\<rparr>
     | Inl e \<Rightarrow> s\<lparr>as_error := Some e\<rparr>)"

definition maintenance_saved :: "maintenance_window list option \<Rightarrow> alerts_state \<Rightarrow> alerts_state" where
  "maintenance_saved windows s = s\<lparr>as_maintenance := nullish windows []\<rparr>"

text \<open>The toasts of a push: red for a critical event, else amber, with a title and a text.\<close>

definition alert_toasts :: "alert_event list option \<Rightarrow> (bool \<times> string \<times> string) list" where
  "alert_toasts events =
     map (\<lambda>e. (ae_severity e = Critical, if ae_rule_name e \<noteq> [] then ae_rule_name e else ''Alert'', describe_event e))
       (filter (\<lambda>e. ae_state e \<noteq> Resolved \<and> ae_severity e \<noteq> Info \<and> \<not> nullish (ae_muted e) False)
         (nullish events []))"

subsection \<open>Properties\<close>

text \<open>A rule the dialog accepts has a pattern NATS accepts and something to say about what it
  watches: its description is never empty.\<close>

lemma join_str_Nil_iff: "join_str sep ws = [] \<longleftrightarrow> ws = [] \<or> ws = [[]] \<or> (sep = [] \<and> (\<forall>w \<in> set ws. w = []))"
  by (induction sep ws rule: join_str.induct) auto

lemma describe_window_not_Nil [simp]: "describe_window n \<noteq> []"
  by (simp add: describe_window_def)

lemma describe_rule_not_Nil: "rule_parts f r \<noteq> [] \<Longrightarrow> [] \<notin> set (rule_parts f r) \<Longrightarrow> describe_rule f r \<noteq> []"
  by (auto simp: describe_rule_def join_str_Nil_iff)

lemma rule_parts_filled: "[] \<notin> set (rule_parts f r)"
  by (auto simp: rule_parts_def window_part_def stale_part_def option_part_def Let_def filled_def
      split: option.splits if_splits)

lemma filled_truthy: "filled s \<Longrightarrow> truthy s"
  by (cases s) (auto simp: filled_def trim_def)

lemma if_Some_None: "(if c then Some x else e) = None \<longleftrightarrow> \<not> c \<and> e = None"
  by simp

lemmas validate_rule_None = validate_rule_def [of r, unfolded Let_def, THEN arg_cong [of _ _ "\<lambda>v. v = None"],
  unfolded if_Some_None] for r

text \<open>A rule that passes the check has a pattern that is valid for the server and at least one condition,
  which its description names.\<close>

theorem accepted_rule_described:
  assumes "validate_rule r = None"
  shows "valid_pattern (trim (ar_pattern r)) \<and> describe_rule show_number r \<noteq> []"
proof -
  have v: "\<not> wildcard_inside (tokens (trim (ar_pattern r)))" "[] \<notin> set (tokens (trim (ar_pattern r)))"
    "(has_counts r \<or> has_threshold r) \<longrightarrow> 0 < rule_window r" "has_threshold r \<longrightarrow> filled (ar_field r)"
    and c: "filled (ar_expr r) \<or> positive (ar_stale_after r) \<or> nullish (ar_stale_auto r) False \<or>
      (has_counts r \<or> has_threshold r) \<or> positive (ar_unchanged_for r)"
    using assms validate_rule_None [of r] by (simp_all add: not_le) argo+
  have "tail_only (tokens (trim (ar_pattern r)))"
    using v(1) by (simp add: tail_only_iff wildcard_inside_def list_ex_iff)
  moreover have "rule_parts show_number r \<noteq> []"
  proof (cases "filled (ar_expr r) \<or> stale_part r \<noteq> [] \<or> positive (ar_unchanged_for r)")
    case True
    then show ?thesis by (auto simp: rule_parts_def)
  next
    case False
    then have "has_counts r \<or> has_threshold r" using c by (auto simp: stale_part_def split: if_splits)
    then have "0 < rule_window r" "window_part show_number r \<noteq> []"
      using v(3,4) filled_truthy [of "ar_field r"]
      by (auto simp: window_part_def option_part_def has_counts_def has_threshold_def Let_def split: option.splits)
    then show ?thesis by (simp add: rule_parts_def)
  qed
  ultimately show ?thesis
    using v(2) describe_rule_not_Nil [OF _ rule_parts_filled, of show_number r]
    by (simp add: valid_pattern_def)
qed

definition stale_rule :: alert_rule where
  "stale_rule = (alert_rule_for_subject ''u'' ''plant.line'' True)\<lparr>ar_stale_after := Some 30\<rparr>"

lemma accepted_rule_described_witness:
  "valid_pattern (trim (ar_pattern stale_rule)) \<and> describe_rule (\<lambda>_. []) stale_rule \<noteq> []"
  by (rule accepted_rule_described) code_simp

text \<open>The rule made for the subject on screen watches exactly that subject, or, for a branch,
  exactly the subjects below it.\<close>

lemma nats_match_literal: "''>'' \<notin> set ts \<Longrightarrow> ''*'' \<notin> set ts \<Longrightarrow> nats_match ts st \<longleftrightarrow> ts = st"
proof (induction ts arbitrary: st)
  case (Cons t ts)
  then show ?case by (cases st) (auto simp: nats_match_rec)
qed auto

lemma nats_match_literal_tail:
  "''>'' \<notin> set ts \<Longrightarrow> ''*'' \<notin> set ts \<Longrightarrow>
   nats_match (ts @ [''>'']) st \<longleftrightarrow> (\<exists>rest. rest \<noteq> [] \<and> st = ts @ rest)"
proof (induction ts arbitrary: st)
  case Nil
  then show ?case by (auto simp: nats_match_rec)
next
  case (Cons t ts)
  then show ?case by (cases st) (auto simp: nats_match_rec)
qed

lemma tokens_append_dot: "tokens (a @ CHR ''.'' # b) = tokens a @ tokens b"
proof (induction a)
  case (Cons c cs)
  then show ?case by (cases "tokens cs") auto
qed simp

lemma tokens_prefix_iff: "(\<exists>rest. rest \<noteq> [] \<and> tokens s = tokens a @ rest) \<longleftrightarrow> starts_with s (a @ ''.'')"
proof
  assume "\<exists>rest. rest \<noteq> [] \<and> tokens s = tokens a @ rest"
  then obtain rest where r: "rest \<noteq> []" "tokens s = tokens a @ rest" by blast
  then have "rest = tokens (join_with CHR ''.'' rest)"
    using split_on_parts [of _ "CHR ''.''" s] by (intro split_join [symmetric]) auto
  with r have "tokens s = tokens (a @ CHR ''.'' # join_with CHR ''.'' rest)"
    by (simp add: tokens_append_dot)
  then have "s = a @ CHR ''.'' # join_with CHR ''.'' rest" by (simp only: split_on_inject)
  then show "starts_with s (a @ ''.'')" by simp
next
  assume "starts_with s (a @ ''.'')"
  then obtain b where "s = a @ CHR ''.'' # b" by (auto simp: prefix_def)
  then show "\<exists>rest. rest \<noteq> [] \<and> tokens s = tokens a @ rest"
    using tokens_append_dot by (intro exI [of _ "tokens b"]) simp
qed

theorem subject_rule_watches:
  assumes "subject \<noteq> []" "''>'' \<notin> set (tokens subject)" "''*'' \<notin> set (tokens subject)"
  shows "subject_matches (ar_pattern (alert_rule_for_subject uuid subject branch)) s \<longleftrightarrow>
     (if branch then starts_with s (subject @ ''.'') else s = subject)"
proof (cases branch)
  case True
  have "tokens (subject @ ''.>'') = tokens subject @ [''>'']"
    using tokens_append_dot [of subject "''>''"] by simp
  then have "subject_matches (subject @ ''.>'') s \<longleftrightarrow> s \<noteq> [] \<and> starts_with s (subject @ ''.'')"
    using assms by (simp add: subject_matches_nats nats_match_literal_tail tokens_prefix_iff)
  then show ?thesis using True by (auto simp: alert_rule_for_subject_def new_alert_rule_def Let_def)
next
  case False
  then show ?thesis
    using assms by (auto simp: alert_rule_for_subject_def new_alert_rule_def Let_def subject_matches_nats
        nats_match_literal split_on_inject)
qed

lemma subject_rule_watches_witness:
  "subject_matches (ar_pattern (alert_rule_for_subject ''u'' ''a.b'' True)) ''a.b.c'' \<longleftrightarrow>
     (if True then starts_with ''a.b.c'' (''a.b'' @ ''.'') else ''a.b.c'' = ''a.b'')"
  by (rule subject_rule_watches) simp_all

text \<open>The badge shows the greatest severity there is.\<close>

lemma worst_from_fold:
  "worst_from worst as = (if Critical \<in> set (map al_severity as) then Some Critical
     else if Warning \<in> set (map al_severity as) then Some Warning
     else if as \<noteq> [] \<and> worst = None then Some Info else worst)"
proof (induction as arbitrary: worst)
  case (Cons a as)
  then show ?case by (cases "al_severity a") auto
qed simp

theorem worst_severity_max:
  "worst_severity active = (if active = [] then None else Some (Max (set (map al_severity active))))"
proof (cases "active = []")
  case False
  let ?S = "set (map al_severity active)"
  have ne: "?S \<noteq> {}" using False by simp
  have "Max ?S = (if Critical \<in> ?S then Critical else if Warning \<in> ?S then Warning else Info)"
  proof (rule Max_eqI)
    fix y assume y: "y \<in> ?S"
    show "y \<le> (if Critical \<in> ?S then Critical else if Warning \<in> ?S then Warning else Info)"
      using y by (cases rule: alert_severity.exhaust [of y]) (auto simp: less_eq_alert_severity_def)
  next
    obtain y where y: "y \<in> ?S" using ne by (meson ex_in_conv)
    then show "(if Critical \<in> ?S then Critical else if Warning \<in> ?S then Warning else Info) \<in> ?S"
      by (cases rule: alert_severity.exhaust [of y]) auto
  qed simp
  then show ?thesis using False by (simp add: worst_severity_def worst_from_fold)
qed (simp add: worst_severity_def)

text \<open>The list shows every alert once, worst first, the newest first among equals.\<close>

lemma worst_first_then_by:
  "worst_first = then_by (\<lambda>a b. int (severity_rank (al_severity b)) - int (severity_rank (al_severity a)))
     (\<lambda>a b. al_since b - al_since a)"
  by (simp add: fun_eq_iff worst_first_def then_by_def index_severities Let_def)

interpretation alert_order: comparator worst_first
  unfolding worst_first_then_by by (intro comparator_then_by comparator_by_number_desc)

text \<open>The sorted list has every alert once, the most severe first, the more recent first among equals.\<close>

theorem sort_alerts_correct:
  "mset (sort_alerts alerts) = mset alerts \<and>
   sorted_wrt (\<lambda>a b. al_severity b < al_severity a \<or> al_severity b = al_severity a \<and> al_since b \<le> al_since a)
     (sort_alerts alerts)"
proof
  have "ascending worst_first (sort_alerts alerts)"
    unfolding sort_alerts_def by (rule alert_order.ascending_sort)
  then show "sorted_wrt (\<lambda>a b. al_severity b < al_severity a \<or> al_severity b = al_severity a \<and> al_since b \<le> al_since a)
     (sort_alerts alerts)"
    by (rule sorted_wrt_mono_rel [rotated])
      (auto simp: worst_first_def index_severities less_alert_severity_def Let_def severity_rank_inject
        split: if_splits dest: order.not_eq_order_implies_strict [rotated] intro!: le_neq_implies_less)
qed (simp add: sort_alerts_def)

text \<open>The log after any number of pushes is the newest 500 events of all of them, the last push
  first.\<close>

lemma take_append_take: "take n (xs @ take n ys) = take n (xs @ ys)"
  by (simp add: take_append min_def)

lemma events_after_push:
  "length (as_events s) \<le> 500 \<Longrightarrow> as_events (apply_alerts a es s) = take 500 (nullish es [] @ as_events s)"
  by (auto simp: apply_alerts_def split: option.split)


text \<open>A window in words is exact: read back with its unit it gives the seconds it was made from.\<close>

definition window_seconds :: "string \<Rightarrow> int option" where
  "window_seconds text = (case split_on CHR '' '' text of
     [n, u] \<Rightarrow> map_option (\<lambda>i. i * (if u = ''h'' then 3600 else if u = ''min'' then 60 else 1)) (parse_int n)
   | _ \<Rightarrow> None)"

lemma split_int_unit: "CHR '' '' \<notin> set u \<Longrightarrow> split_on CHR '' '' (int_str i @ CHR '' '' # u) = [int_str i, u]"
  using int_str_free [of "CHR '' ''" i] by (simp add: split_on_append split_on_single is_digit_def)

text \<open>The words for a window determine its seconds: no two windows are described alike.\<close>

theorem window_roundtrip: "window_seconds (describe_window n) = Some n"
  using split_int_unit [of "''h''" "n div 3600"] split_int_unit [of "''min''" "n div 60"]
    split_int_unit [of "''s''" n]
  by (auto simp: window_seconds_def describe_window_def)

text \<open>A mute of less than an hour shows the minutes that are left, rounded up: never less than
  the time left, and by less than one minute more.\<close>

theorem mute_minutes:
  assumes "ar_muted_until r = Some t" "now < t" "t - now \<le> 59 * 60000"
  shows "\<exists>m. describe_mute loc r now = ''muted for '' @ int_str m @ '' min'' \<and>
     m * 60000 < t - now + 60000 \<and> t - now \<le> m * 60000"
proof -
  define q where "q = (now - t) div 60000"
  define m where "m = - q"
  define p where "p = (now - t) mod 60000"
  have "q * 60000 + p = now - t" unfolding q_def p_def by (rule div_mult_mod_eq)
  moreover have "0 \<le> p" "p < 60000" by (simp_all add: p_def)
  ultimately have m: "m * 60000 < t - now + 60000" "t - now \<le> m * 60000" "m < 60"
    using assms(2,3) unfolding m_def by - linarith+
  have "describe_mute loc r now = ''muted for '' @ int_str m @ '' min''"
    using assms m by (simp add: describe_mute_def Let_def m_def q_def)
  with m show ?thesis by blast
qed

lemma mute_minutes_witness:
  "\<exists>m. describe_mute (\<lambda>_. []) (muted_rule stale_rule (Some 90000)) 0 = ''muted for '' @ int_str m @ '' min'' \<and>
     m * 60000 < (90000::int) - 0 + 60000 \<and> (90000::int) - 0 \<le> m * 60000"
  by (rule mute_minutes) (simp_all add: muted_rule_def)

end
