(* ===== verification/ItemStore.thy ===== *)
theory ItemStore
  imports Subjects
begin

text \<open>
  The stores that keep a list of items by a key and write the whole list back after each change:
  saved requests, saved connections, payload decoders and bookmarks all have the operations
  \<open>upsert\<close> and \<open>remove\<close>. Their contract is the locale \<open>item_store\<close>: what a lookup by key returns
  after an upsert and a remove, and what happens to the list of keys. The consequences for any
  sequence of operations are proved in it once; each store interprets it in its own theory, the
  decoders and the bookmarks at the end of this one.
\<close>

datatype ('k, 'a) store_op = Put 'a | Drop 'k

locale item_store =
  fixes key :: "'a \<Rightarrow> 'k"
    and upsert :: "'a \<Rightarrow> 'a list \<Rightarrow> 'a list"
    and remove :: "'k \<Rightarrow> 'a list \<Rightarrow> 'a list"
  assumes find_upsert: "List.find (\<lambda>x. key x = k) (upsert a xs) =
      (if k = key a then Some a else List.find (\<lambda>x. key x = k) xs)"
    and find_remove: "List.find (\<lambda>x. key x = k) (remove k' xs) =
      (if k = k' then None else List.find (\<lambda>x. key x = k) xs)"
    and keys_upsert: "map key (upsert a xs) = js_add (key a) (map key xs)"
    and keys_remove: "map key (remove k' xs) = filter (\<lambda>k. k \<noteq> k') (map key xs)"
begin

definition run :: "('k, 'a) store_op list \<Rightarrow> 'a list \<Rightarrow> 'a list" where
  "run ops xs = fold (\<lambda>c xs. case c of Put a \<Rightarrow> upsert a xs | Drop k \<Rightarrow> remove k xs) ops xs"

lemma distinct_upsert: "distinct (map key xs) \<Longrightarrow> distinct (map key (upsert a xs))"
  by (simp add: keys_upsert)

lemma distinct_remove: "distinct (map key xs) \<Longrightarrow> distinct (map key (remove k xs))"
  by (simp add: keys_remove)

lemma distinct_run: "distinct (map key xs) \<Longrightarrow> distinct (map key (run ops xs))"
proof (induction ops arbitrary: xs)
  case (Cons c cs)
  have "distinct (map key (case c of Put a \<Rightarrow> upsert a xs | Drop k \<Rightarrow> remove k xs))"
    using Cons.prems by (cases c) (simp_all add: distinct_upsert distinct_remove)
  from Cons.IH [OF this] show ?case by (simp add: run_def)
qed (simp add: run_def)

text \<open>The last operation on a key decides what it holds.\<close>

fun last_on :: "'k \<Rightarrow> ('k, 'a) store_op list \<Rightarrow> 'a option \<Rightarrow> 'a option" where
  "last_on k [] v = v"
| "last_on k (Put a # ops) v = last_on k ops (if key a = k then Some a else v)"
| "last_on k (Drop k' # ops) v = last_on k ops (if k' = k then None else v)"

lemma find_run:
  "List.find (\<lambda>x. key x = k) (run ops xs) = last_on k ops (List.find (\<lambda>x. key x = k) xs)"
proof (induction ops arbitrary: xs)
  case (Cons c cs)
  then show ?case
    by (cases c) (auto simp: run_def find_upsert find_remove)
qed (simp add: run_def)

end

text \<open>\<open>items.some(i => i.id === item.id) ? items.map(i => (i.id === item.id ? item : i)) : [...items, item]\<close>
  and \<open>items.filter(i => i.id !== id)\<close>, as every store has them.\<close>

lemma find_map_replace:
  "List.find (\<lambda>x. f x = k) (map (\<lambda>x. if f x = f a then a else x) xs) =
     (if k = f a then (if f a \<in> f ` set xs then Some a else None) else List.find (\<lambda>x. f x = k) xs)"
  by (induction xs) auto

lemma find_None_key: "k \<notin> f ` set xs \<Longrightarrow> List.find (\<lambda>x. f x = k) xs = None"
  by (induction xs) auto

lemma find_snoc_key:
  "f a \<notin> f ` set xs \<Longrightarrow> List.find (\<lambda>x. f x = k) (xs @ [a]) =
     (if k = f a then Some a else List.find (\<lambda>x. f x = k) xs)"
  by (induction xs) auto

lemma find_filter_key:
  "List.find (\<lambda>x. f x = k) (filter (\<lambda>x. f x \<noteq> k') xs) =
     (if k = k' then None else List.find (\<lambda>x. f x = k) xs)"
  by (induction xs) auto

lemma item_store_standard:
  assumes "\<And>a xs. up a xs = (if list_ex (\<lambda>x. f x = f a) xs then map (\<lambda>x. if f x = f a then a else x) xs else xs @ [a])"
    and "\<And>k xs. rm k xs = filter (\<lambda>x. f x \<noteq> k) xs"
  shows "item_store f up rm"
proof
  fix a xs k k'
  have ex: "list_ex (\<lambda>x. f x = f a) xs \<longleftrightarrow> f a \<in> f ` set xs"
    by (auto simp: list_ex_iff) (metis image_eqI)
  show "List.find (\<lambda>x. f x = k) (up a xs) = (if k = f a then Some a else List.find (\<lambda>x. f x = k) xs)"
    unfolding assms ex by (simp add: find_map_replace find_snoc_key)
  show "List.find (\<lambda>x. f x = k) (rm k' xs) = (if k = k' then None else List.find (\<lambda>x. f x = k) xs)"
    unfolding assms by (rule find_filter_key)
  show "map f (up a xs) = js_add (f a) (map f xs)"
    unfolding assms ex by (simp add: map_replace_key js_add_def)
  show "map f (rm k' xs) = filter (\<lambda>k. k \<noteq> k') (map f xs)"
    unfolding assms by (simp add: filter_map o_def)
qed

subsection \<open>Payload decoders (\<open>client/src/lib/decoders.ts\<close>)\<close>

definition save_rule :: "decoder_rule \<Rightarrow> decoder_rule list \<Rightarrow> decoder_rule list" where
  "save_rule rule rules = (if list_ex (\<lambda>r. dr_id r = dr_id rule) rules
     then map (\<lambda>r. if dr_id r = dr_id rule then rule else r) rules else rules @ [rule])"

definition remove_rule :: "string \<Rightarrow> decoder_rule list \<Rightarrow> decoder_rule list" where
  "remove_rule i rules = filter (\<lambda>r. dr_id r \<noteq> i) rules"

interpretation rules: item_store dr_id save_rule remove_rule
  by (rule item_store_standard) (simp_all add: save_rule_def remove_rule_def)

definition format_label :: "decoder_format \<Rightarrow> string" where
  "format_label f = (case f of FMsgpack \<Rightarrow> ''MessagePack'' | FProtobuf \<Rightarrow> ''Protocol Buffers''
     | FAvro \<Rightarrow> ''Avro'' | FScript \<Rightarrow> ''JavaScript'')"

subsection \<open>Bookmarks (\<open>client/src/lib/bookmarks.ts\<close>)\<close>

record bookmark =
  bm_subject :: string
  bm_label :: "string option"
  bm_group :: "string option"
  bm_note :: "string option"
  bm_created_at :: int

definition find_bookmark :: "bookmark list \<Rightarrow> string option \<Rightarrow> bookmark option" where
  "find_bookmark items subject =
     (if truthy subject then List.find (\<lambda>b. bm_subject b = the subject) items else None)"

definition toggle_bookmark :: "string \<Rightarrow> int \<Rightarrow> bookmark list \<Rightarrow> bookmark list" where
  "toggle_bookmark subject now items =
     (if list_ex (\<lambda>b. bm_subject b = subject) items then filter (\<lambda>b. bm_subject b \<noteq> subject) items
      else items @ [\<lparr>bm_subject = subject, bm_label = None, bm_group = None, bm_note = None, bm_created_at = now\<rparr>])"

definition save_bookmark :: "bookmark \<Rightarrow> bookmark list \<Rightarrow> bookmark list" where
  "save_bookmark bookmark items = (if list_ex (\<lambda>b. bm_subject b = bm_subject bookmark) items
     then map (\<lambda>b. if bm_subject b = bm_subject bookmark then bookmark else b) items else items @ [bookmark])"

definition remove_bookmark :: "string \<Rightarrow> bookmark list \<Rightarrow> bookmark list" where
  "remove_bookmark subject items = filter (\<lambda>b. bm_subject b \<noteq> subject) items"

interpretation bookmarks: item_store bm_subject save_bookmark remove_bookmark
  by (rule item_store_standard) (simp_all add: save_bookmark_def remove_bookmark_def)

definition group_name :: "bookmark \<Rightarrow> string" where
  "group_name b = trim (nullish (bm_group b) [])"

definition groups_of :: "(string \<Rightarrow> string \<Rightarrow> int) \<Rightarrow> bookmark list \<Rightarrow> string list" where
  "groups_of lc items = js_sort lc (js_uniq (map group_name (filter (\<lambda>b. group_name b \<noteq> []) items)))"

text \<open>\<open>byGroup\<close>: the groups in a map, the ungrouped ones under the empty key and last.\<close>

definition add_to_group :: "bookmark \<Rightarrow> (string, bookmark list) jsmap \<Rightarrow> (string, bookmark list) jsmap" where
  "add_to_group b m = jm_set (group_name b)
     (case jm_get m (group_name b) of None \<Rightarrow> [b] | Some bs \<Rightarrow> bs @ [b]) m"

definition group_order :: "(string \<Rightarrow> string \<Rightarrow> int) \<Rightarrow> string \<Rightarrow> string \<Rightarrow> int" where
  "group_order lc a b = (if a = [] then 1 else if b = [] then -1 else lc a b)"

definition bookmark_title :: "bookmark \<Rightarrow> string" where
  "bookmark_title b = nullish (bm_label b) (bm_subject b)"

definition by_group :: "(string \<Rightarrow> string \<Rightarrow> int) \<Rightarrow> bookmark list \<Rightarrow> (string \<times> bookmark list) list" where
  "by_group lc items =
     map (\<lambda>(g, bs). (g, js_sort (\<lambda>x y. lc (bookmark_title x) (bookmark_title y)) bs))
       (js_sort (\<lambda>x y. group_order lc (fst x) (fst y)) (fold add_to_group items []))"

subsection \<open>Grouping\<close>

lemma get_add_to_group:
  "jm_get (fold add_to_group items m) g =
     (let new = filter (\<lambda>b. group_name b = g) items
      in case jm_get m g of Some bs \<Rightarrow> Some (bs @ new) | None \<Rightarrow> if new = [] then None else Some new)"
  by (induction items arbitrary: m) (auto simp: add_to_group_def Let_def split: option.splits)

lemma jm_wf_add_to_group: "jm_wf m \<Longrightarrow> jm_wf (fold add_to_group items m)"
  by (induction items arbitrary: m) (simp_all add: add_to_group_def)

lemma js_insert_cong:
  "(\<And>y. y \<in> set ys \<Longrightarrow> (c x y \<le> 0) = (d x y \<le> 0)) \<Longrightarrow> js_insert c x ys = js_insert d x ys"
  by (induction ys) auto

lemma js_sort_cong:
  assumes "distinct xs" "\<And>x y. x \<in> set xs \<Longrightarrow> y \<in> set xs \<Longrightarrow> x \<noteq> y \<Longrightarrow> (c x y \<le> 0) = (d x y \<le> 0)"
  shows "js_sort c xs = js_sort d xs"
  using assms
proof (induction xs)
  case (Cons x xs)
  then have "js_sort c xs = js_sort d xs" by auto
  moreover have "js_insert c x (js_sort d xs) = js_insert d x (js_sort d xs)"
    using Cons.prems by (intro js_insert_cong) auto
  ultimately show ?case by simp
qed simp

text \<open>The comparator of the groups is consistent where it is used, on different names.\<close>

definition group_order_total :: "(string \<Rightarrow> string \<Rightarrow> int) \<Rightarrow> string \<Rightarrow> string \<Rightarrow> int" where
  "group_order_total lc a b = (if a = [] then (if b = [] then 0 else 1) else if b = [] then -1 else lc a b)"

lemma comparator_group_order:
  assumes "comparator lc"
  shows "comparator (group_order_total lc)"
proof -
  note flip = comparator.flip [OF assms]
  show ?thesis
  proof
    show "sgn (group_order_total lc y x) = - sgn (group_order_total lc x y)" for x y
      using flip [of x y] by (simp add: group_order_total_def)
    show "group_order_total lc x z \<le> 0" if "group_order_total lc x y \<le> 0" "group_order_total lc y z \<le> 0" for x y z
      using that comparator.trans [OF assms, of x y z] by (simp add: group_order_total_def split: if_splits)
  qed
qed

lemma comparator_on:
  assumes "comparator c"
  shows "comparator (\<lambda>x y. c (f x) (f y))"
proof
  show "sgn (c (f y) (f x)) = - sgn (c (f x) (f y))" for x y
    by (rule comparator.flip [OF assms])
  show "c (f x) (f z) \<le> 0" if "c (f x) (f y) \<le> 0" "c (f y) (f z) \<le> 0" for x y z
    using that by (rule comparator.trans [OF assms])
qed

lemma sorted_wrt_distinct: "sorted_wrt R xs \<Longrightarrow> distinct xs \<Longrightarrow> sorted_wrt (\<lambda>a b. a \<noteq> b \<and> R a b) xs"
  by (induction xs) auto

text \<open>Every bookmark is listed once, under its own group; the groups come in order with the
  ungrouped bookmarks last, and each group is sorted by its titles.\<close>

lemma by_group_map:
  assumes "comparator lc"
  shows "by_group lc items = map (\<lambda>(g, bs). (g, js_sort (\<lambda>x y. lc (bookmark_title x) (bookmark_title y)) bs))
     (js_sort (\<lambda>x y. group_order_total lc (fst x) (fst y)) (fold add_to_group items []))"
proof -
  let ?m = "fold add_to_group items []"
  have "jm_wf ?m" by (rule jm_wf_add_to_group) simp
  then have "distinct ?m" and m: "inj_on fst (set ?m)"
    by (simp_all add: distinct_map)
  have "fst x \<noteq> fst y" if "x \<in> set ?m" "y \<in> set ?m" "x \<noteq> y" for x y
    using m that by (meson inj_onD)
  with \<open>distinct ?m\<close> have "js_sort (\<lambda>x y. group_order lc (fst x) (fst y)) ?m =
      js_sort (\<lambda>x y. group_order_total lc (fst x) (fst y)) ?m"
    by (intro js_sort_cong) (fastforce simp: group_order_def group_order_total_def)+
  then show ?thesis by (simp add: by_group_def)
qed

theorem by_group_correct:
  assumes lc: "comparator lc" and g: "(g, bs) \<in> set (by_group lc items)"
  shows "bs \<noteq> [] \<and> mset bs = mset (filter (\<lambda>b. group_name b = g) items) \<and>
     ascending (\<lambda>x y. lc (bookmark_title x) (bookmark_title y)) bs \<and>
     sorted_wrt (\<lambda>a b. a \<noteq> [] \<and> (b = [] \<or> lc a b \<le> 0)) (map fst (by_group lc items))"
proof -
  let ?m = "fold add_to_group items []"
  let ?s = "js_sort (\<lambda>x y. group_order_total lc (fst x) (fst y)) ?m"
  have wf: "jm_wf ?m" by (rule jm_wf_add_to_group) simp
  obtain bs0 where bs0: "(g, bs0) \<in> set ?m"
      "bs = js_sort (\<lambda>x y. lc (bookmark_title x) (bookmark_title y)) bs0"
    using g unfolding by_group_map [OF lc] by auto
  then have "jm_get ?m g = Some bs0" using wf by (auto dest: jm_in_get)
  then have m: "bs0 \<noteq> []" "bs0 = filter (\<lambda>b. group_name b = g) items"
    by (auto simp: get_add_to_group Let_def split: if_splits)
  have titles: "comparator (\<lambda>x y. lc (bookmark_title x) (bookmark_title y))"
    using lc by (rule comparator_on)
  have "comparator (\<lambda>x y :: string \<times> bookmark list. group_order_total lc (fst x) (fst y))"
    by (rule comparator_on [OF comparator_group_order [OF lc]])
  then have "ascending (\<lambda>x y. group_order_total lc (fst x) (fst y)) ?s"
    by (rule comparator.ascending_sort)
  then have "sorted_wrt (\<lambda>a b. group_order_total lc a b \<le> 0) (map fst ?s)"
    by (simp add: sorted_wrt_map)
  moreover have "distinct (map fst ?s)" using wf by simp
  ultimately have "sorted_wrt (\<lambda>a b. a \<noteq> b \<and> group_order_total lc a b \<le> 0) (map fst ?s)"
    by (rule sorted_wrt_distinct)
  then have "sorted_wrt (\<lambda>a b. a \<noteq> [] \<and> (b = [] \<or> lc a b \<le> 0)) (map fst ?s)"
    by (rule sorted_wrt_mono_rel [rotated]) (auto simp: group_order_total_def split: if_splits)
  moreover have "map fst (by_group lc items) = map fst ?s"
    unfolding by_group_map [OF lc] by (auto simp: o_def case_prod_unfold)
  moreover have "bs \<noteq> []" using bs0(2) m(1) by (metis length_0_conv length_js_sort)
  ultimately show ?thesis
    using bs0(2) m(2) comparator.ascending_sort [OF titles] by simp
qed

lemma by_group_correct_witness:
  "sorted_wrt (\<lambda>a b. a \<noteq> [] \<and> (b = [] \<or> by_code_units a b \<le> 0)) (map fst (by_group by_code_units
     [\<lparr>bm_subject = ''a'', bm_label = None, bm_group = None, bm_note = None, bm_created_at = 1\<rparr>,
      \<lparr>bm_subject = ''b'', bm_label = None, bm_group = Some ''ops '', bm_note = None, bm_created_at = 2\<rparr>]))"
  (is "sorted_wrt _ (map fst (by_group _ ?items))")
proof -
  have "trim ''ops '' = ''ops''" "trim [] = []" by (simp_all add: trim_def trim_start_def is_space_def)
  then have "([], [\<lparr>bm_subject = ''a'', bm_label = None, bm_group = None, bm_note = None, bm_created_at = 1\<rparr>])
      \<in> set (by_group by_code_units ?items)"
    by (simp add: by_group_def add_to_group_def group_name_def)
  from by_group_correct [OF code_units.comparator_axioms this] show ?thesis by blast
qed

end
