(* ===== verification/Bytes.thy ===== *)
theory Bytes
  imports JsText "HOL-Library.Word"
begin

text \<open>
  Bytes as the browser writes them: UTF-8 of a string whose code units are below 256, hexadecimal
  digits, and base64 (\<open>btoa\<close>, and \<open>atob\<close> with the forgiving decoding of the platform). A
  \<open>Uint8Array\<close> is a list of 8-bit words.
\<close>

type_synonym bytes = "8 word list"

abbreviation byte :: "nat \<Rightarrow> 8 word" where
  "byte \<equiv> word_of_nat"

lemma unat_byte [simp]: "n < 256 \<Longrightarrow> unat (byte n) = n"
  by (simp add: unat_of_nat take_bit_eq_mod)

lemma byte_unat_lt: "unat (b :: 8 word) < 256"
proof -
  have "unat b < 2 ^ LENGTH(8)" by (rule unsigned_less)
  then show ?thesis by simp
qed

text \<open>\<open>new TextEncoder().encode(s)\<close>.\<close>

definition utf8_char :: "char \<Rightarrow> bytes" where
  "utf8_char c = (let n = (of_char c :: nat) in
     if n < 128 then [byte n] else [byte (192 + n div 64), byte (128 + n mod 64)])"

definition utf8 :: "string \<Rightarrow> bytes" where
  "utf8 s = concat (map utf8_char s)"

subsection \<open>Hexadecimal\<close>

definition hex_char :: "nat \<Rightarrow> char" where
  "hex_char d = (if d < 10 then digit_char d else char_of (87 + d))"

definition hex_val :: "char \<Rightarrow> nat option" where
  "hex_val c = (let n = (of_char c :: nat) in
     if is_digit c then Some (n - 48)
     else if 97 \<le> n \<and> n \<le> 102 then Some (n - 87)
     else if 65 \<le> n \<and> n \<le> 70 then Some (n - 55)
     else None)"

text \<open>\<open>b.toString(16).padStart(2, '0')\<close>.\<close>

definition hex_byte :: "8 word \<Rightarrow> string" where
  "hex_byte b = [hex_char (unat b div 16), hex_char (unat b mod 16)]"

lemma of_char_hex_char:
  "d < 16 \<Longrightarrow> (of_char (hex_char d) :: nat) = (if d < 10 then 48 + d else 87 + d)"
  by (simp add: hex_char_def of_char_digit_char)

lemma hex_val_hex_char [simp]: "d < 16 \<Longrightarrow> hex_val (hex_char d) = Some d"
  using of_char_hex_char [of d] by (auto simp: hex_val_def is_digit_def Let_def split: if_splits)

lemma hex_val_lt: "hex_val c = Some d \<Longrightarrow> d < 16"
  by (auto simp: hex_val_def is_digit_def Let_def split: if_splits)

fun hex_pairs :: "string \<Rightarrow> bytes option" where
  "hex_pairs [] = Some []"
| "hex_pairs (c # d # cs) = (case (hex_val c, hex_val d, hex_pairs cs) of
     (Some h, Some l, Some bs) \<Rightarrow> Some (byte (16 * h + l) # bs) | _ \<Rightarrow> None)"
| "hex_pairs [c] = None"

lemma hex_pairs_hex_byte [simp]:
  "hex_pairs (hex_byte b @ s) = map_option (\<lambda>bs. b # bs) (hex_pairs s)"
proof -
  have "unat b div 16 < 16" using byte_unat_lt [of b] by simp
  then show ?thesis by (simp add: hex_byte_def split: option.split)
qed

lemma hex_pairs_concat: "hex_pairs (concat (map hex_byte bs)) = Some bs"
  by (induction bs) simp_all

lemma length_hex_pairs: "hex_pairs s = Some bs \<Longrightarrow> length s = 2 * length bs"
  by (induction s arbitrary: bs rule: hex_pairs.induct) (auto split: option.splits)

subsection \<open>Base64\<close>

definition b64_alphabet :: string where
  "b64_alphabet = ''ABCDEFGHIJKLMNOPQRSTUVWXYZabcdefghijklmnopqrstuvwxyz0123456789+/''"

definition b64_char :: "nat \<Rightarrow> char" where
  "b64_char i = b64_alphabet ! i"

definition b64_val :: "char \<Rightarrow> nat option" where
  "b64_val c = index_of c b64_alphabet"

lemma length_b64_alphabet [simp]: "length b64_alphabet = 64"
  by (simp add: b64_alphabet_def)

lemma distinct_b64_alphabet: "distinct b64_alphabet"
  unfolding b64_alphabet_def by code_simp

lemma index_of_distinct: "distinct xs \<Longrightarrow> i < length xs \<Longrightarrow> index_of (xs ! i) xs = Some i"
  by (induction xs arbitrary: i) (auto simp: nth_Cons split: nat.split)

lemma b64_val_char [simp]: "i < 64 \<Longrightarrow> b64_val (b64_char i) = Some i"
  using index_of_distinct [OF distinct_b64_alphabet] by (simp add: b64_val_def b64_char_def)

lemma b64_val_lt: "b64_val c = Some i \<Longrightarrow> i < 64"
  using index_of_Some [of c b64_alphabet i] by (simp add: b64_val_def)

lemma b64_char_in: "i < 64 \<Longrightarrow> b64_char i \<in> set b64_alphabet"
  by (simp add: b64_char_def)

lemma pad_not_alphabet: "CHR ''='' \<notin> set b64_alphabet"
  by (simp add: b64_alphabet_def)

lemma alphabet_not_space: "c \<in> set b64_alphabet \<Longrightarrow> \<not> is_space c"
proof -
  have "list_all (\<lambda>c. \<not> is_space c) b64_alphabet"
    unfolding b64_alphabet_def by code_simp
  then show "c \<in> set b64_alphabet \<Longrightarrow> \<not> is_space c" by (auto simp: list_all_iff)
qed

fun btoa :: "bytes \<Rightarrow> string" where
  "btoa [] = []"
| "btoa [a] = [b64_char (unat a div 4), b64_char (unat a mod 4 * 16), CHR ''='', CHR ''='']"
| "btoa [a, b] = [b64_char (unat a div 4), b64_char (unat a mod 4 * 16 + unat b div 16),
     b64_char (unat b mod 16 * 4), CHR ''='']"
| "btoa (a # b # c # rest) = b64_char (unat a div 4) # b64_char (unat a mod 4 * 16 + unat b div 16) #
     b64_char (unat b mod 16 * 4 + unat c div 64) # b64_char (unat c mod 64) # btoa rest"

text \<open>The decoding of \<open>atob\<close> without padding: groups of four digits, the bits left over dropped.\<close>

fun b64_groups :: "nat list \<Rightarrow> bytes option" where
  "b64_groups [] = Some []"
| "b64_groups [v] = None"
| "b64_groups [v, w] = Some [byte (v * 4 + w div 16)]"
| "b64_groups [v, w, x] = Some [byte (v * 4 + w div 16), byte (w mod 16 * 16 + x div 4)]"
| "b64_groups (v # w # x # y # rest) = map_option (\<lambda>bs. byte (v * 4 + w div 16) #
     byte (w mod 16 * 16 + x div 4) # byte (x mod 4 * 64 + y) # bs) (b64_groups rest)"

fun all_some :: "'a option list \<Rightarrow> 'a list option" where
  "all_some [] = Some []"
| "all_some (x # xs) = (case x of None \<Rightarrow> None | Some v \<Rightarrow> map_option (\<lambda>vs. v # vs) (all_some xs))"

definition strip_padding :: "string \<Rightarrow> string" where
  "strip_padding s =
     (if length s mod 4 = 0 then
        (if suffix ''=='' s then take (length s - 2) s
         else if suffix ''='' s then take (length s - 1) s else s)
      else s)"

definition atob :: "string \<Rightarrow> bytes option" where
  "atob s = (case all_some (map b64_val (strip_padding (filter (\<lambda>c. \<not> is_space c) s))) of
     None \<Rightarrow> None | Some vs \<Rightarrow> b64_groups vs)"

lemma length_btoa: "length (btoa bs) mod 4 = 0"
  by (induction bs rule: btoa.induct) simp_all

text \<open>The digits of \<open>btoa\<close> without the padding.\<close>

fun b64_digits :: "bytes \<Rightarrow> nat list" where
  "b64_digits [] = []"
| "b64_digits [a] = [unat a div 4, unat a mod 4 * 16]"
| "b64_digits [a, b] = [unat a div 4, unat a mod 4 * 16 + unat b div 16, unat b mod 16 * 4]"
| "b64_digits (a # b # c # rest) = unat a div 4 # (unat a mod 4 * 16 + unat b div 16) #
     (unat b mod 16 * 4 + unat c div 64) # unat c mod 64 # b64_digits rest"

fun b64_padding :: "bytes \<Rightarrow> string" where
  "b64_padding [a] = ''==''"
| "b64_padding [a, b] = ''=''"
| "b64_padding (a # b # c # rest) = b64_padding rest"
| "b64_padding [] = []"

lemma b64_digits_lt: "d \<in> set (b64_digits bs) \<Longrightarrow> d < 64"
proof (induction bs rule: b64_digits.induct)
  case (2 a)
  then show ?case using byte_unat_lt [of a] by auto
next
  case (3 a b)
  then show ?case using byte_unat_lt [of a] byte_unat_lt [of b] by auto
next
  case (4 a b c rest)
  then show ?case using byte_unat_lt [of a] byte_unat_lt [of b] byte_unat_lt [of c] by auto
qed simp

lemma btoa_digits: "btoa bs = map b64_char (b64_digits bs) @ b64_padding bs"
  by (induction bs rule: btoa.induct) simp_all

lemma byte_eq: "n = unat b \<Longrightarrow> byte n = b"
  by simp

lemma group_bytes:
  "byte (unat a div 4 * 4 + unat a mod 4 * 16 div 16) = a"
  "byte (unat a div 4 * 4 + (unat a mod 4 * 16 + unat b div 16) div 16) = a"
  "byte ((unat a mod 4 * 16 + unat b div 16) mod 16 * 16 + unat b mod 16 * 4 div 4) = b"
  "byte ((unat a mod 4 * 16 + unat b div 16) mod 16 * 16 + (unat b mod 16 * 4 + unat c div 64) div 4) = b"
  "byte ((unat b mod 16 * 4 + unat c div 64) mod 4 * 64 + unat c mod 64) = c"
  using byte_unat_lt [of a] byte_unat_lt [of b] byte_unat_lt [of c]
  by - (rule byte_eq; simp)+

lemma b64_groups_digits: "b64_groups (b64_digits bs) = Some bs"
  by (induction bs rule: b64_digits.induct)
    (simp_all only: b64_digits.simps b64_groups.simps group_bytes option.map)

lemma all_some_map_Some: "all_some (map Some xs) = Some xs"
  by (induction xs) simp_all

lemma suffix_same: "suffix (xs @ [a]) (ys @ [b]) \<longleftrightarrow> a = b \<and> suffix xs ys"
  by (simp add: suffix_def) (metis append_assoc)

lemma not_suffix_pad: "CHR ''='' \<notin> set s \<Longrightarrow> \<not> suffix ''='' s \<and> \<not> suffix ''=='' s \<and> \<not> suffix ''=='' (s @ ''='')"
  by (auto simp: suffix_def append_eq_append_conv2 Cons_eq_append_conv append_eq_Cons_conv)

lemma strip_padding_btoa: "strip_padding (btoa bs) = map b64_char (b64_digits bs)"
proof -
  let ?d = "map b64_char (b64_digits bs)"
  have no: "CHR ''='' \<notin> set ?d"
    using b64_digits_lt [of _ bs] b64_char_in pad_not_alphabet by fastforce
  have len: "length (btoa bs) mod 4 = 0" by (rule length_btoa)
  have "b64_padding bs = [] \<or> b64_padding bs = ''='' \<or> b64_padding bs = ''==''"
    by (induction bs rule: b64_padding.induct) simp_all
  then show ?thesis
  proof (elim disjE)
    assume p: "b64_padding bs = []"
    with no len not_suffix_pad [OF no] show ?thesis by (simp add: btoa_digits strip_padding_def)
  next
    assume p: "b64_padding bs = ''=''"
    have "suffix ''='' (?d @ ''='')" by (simp add: suffix_def)
    with p len not_suffix_pad [OF no] show ?thesis
      unfolding btoa_digits p strip_padding_def by simp
  next
    assume p: "b64_padding bs = ''==''"
    have "suffix ''=='' (?d @ ''=='')" by (simp add: suffix_def)
    with p len show ?thesis unfolding btoa_digits p strip_padding_def by simp
  qed
qed

lemma equals_not_space: "\<not> is_space CHR ''=''"
  by (simp add: is_space_def)

lemma filter_space_btoa: "filter (\<lambda>c. \<not> is_space c) (btoa bs) = btoa bs"
proof (rule filter_True)
  have "c \<in> set b64_alphabet \<or> c = CHR ''=''" if "c \<in> set (btoa bs)" for c
  proof -
    have "set (b64_padding bs) \<subseteq> {CHR ''=''}" by (induction bs rule: b64_padding.induct) auto
    then show ?thesis
      using that b64_digits_lt [of _ bs] b64_char_in unfolding btoa_digits by fastforce
  qed
  then show "\<forall>c \<in> set (btoa bs). \<not> is_space c"
    using alphabet_not_space equals_not_space by blast
qed

text \<open>White space between the digits is ignored, so a text broken into lines reads the same.\<close>

lemma atob_spaces: "filter (\<lambda>c. \<not> is_space c) s = btoa bs \<Longrightarrow> atob s = Some bs"
proof -
  assume s: "filter (\<lambda>c. \<not> is_space c) s = btoa bs"
  have "map b64_val (map b64_char (b64_digits bs)) = map Some (b64_digits bs)"
    using b64_digits_lt by simp
  then show ?thesis
    unfolding atob_def s strip_padding_btoa by (simp only: all_some_map_Some b64_groups_digits option.case)
qed

lemma atob_btoa: "atob (btoa bs) = Some bs"
  using filter_space_btoa by (rule atob_spaces)

end
