(* ===== verification/Json.thy ===== *)
theory Json
  imports JsText
begin

text \<open>
  JSON documents as \<open>JSON.parse\<close> returns them and \<open>JSON.stringify\<close> takes them. The text itself is
  not modelled: an operation of the client that parses takes the parsed document, one that prints
  returns the document it prints. Numbers are rationals; the text of a number is the argument
  \<open>num\<close> of the operations that need it.
\<close>

datatype json = JNull | JBool bool | JNum rat | JStr string | JArr "json list"
  | JObj "(string \<times> json) list"

fun is_object :: "json \<Rightarrow> bool" where
  "is_object (JObj _) = True"
| "is_object (JArr _) = True"
| "is_object _ = False"

text \<open>\<open>(v as Record<string, unknown>)[k]\<close>; \<open>None\<close> is undefined. An array has its elements under
  their indices.\<close>

fun json_field :: "json \<Rightarrow> string \<Rightarrow> json option" where
  "json_field (JObj fs) k = jm_get fs k"
| "json_field (JArr xs) k = (case parse_nat k of None \<Rightarrow> None
     | Some i \<Rightarrow> if nat_str i = k \<and> i < length xs then Some (xs ! i) else None)"
| "json_field _ k = None"

text \<open>The same with the length of an array.\<close>

definition js_member :: "json \<Rightarrow> string \<Rightarrow> json option" where
  "js_member v k = (case v of
       JArr xs \<Rightarrow> if k = ''length'' then Some (JNum (of_nat (length xs))) else json_field v k
     | _ \<Rightarrow> json_field v k)"

fun json_text :: "json option \<Rightarrow> string option" where
  "json_text (Some (JStr s)) = Some s"
| "json_text _ = None"

fun json_number :: "json option \<Rightarrow> rat option" where
  "json_number (Some (JNum n)) = Some n"
| "json_number _ = None"

fun json_items :: "json option \<Rightarrow> json list option" where
  "json_items (Some (JArr xs)) = Some xs"
| "json_items _ = None"

text \<open>\<open>String(v)\<close>.\<close>

fun js_string :: "(rat \<Rightarrow> string) \<Rightarrow> json \<Rightarrow> string" where
  "js_string num JNull = ''null''"
| "js_string num (JBool b) = (if b then ''true'' else ''false'')"
| "js_string num (JNum n) = num n"
| "js_string num (JStr s) = s"
| "js_string num (JArr xs) = join_str '','' (map (\<lambda>x. if x = JNull then [] else js_string num x) xs)"
| "js_string num (JObj fs) = ''[object Object]''"

text \<open>\<open>v ?? ''\<close> on a field: null and undefined give the empty string.\<close>

definition string_or_empty :: "(rat \<Rightarrow> string) \<Rightarrow> json option \<Rightarrow> string" where
  "string_or_empty num v = (case v of None \<Rightarrow> [] | Some JNull \<Rightarrow> [] | Some x \<Rightarrow> js_string num x)"

end
