(* ===== verification/PayloadFormat.thy ===== *)
theory PayloadFormat
  imports Bytes Json Subjects
begin

text \<open>
  What the text in a payload editor means and what it becomes on the wire
  (\<open>client/src/lib/payloadFormat.ts\<close>): the readers of hex and base64, the check, the markup guess,
  the tidied forms and the wire payload.

  \<open>JSON.parse\<close> of a text (\<open>parse_json\<close>), the tidied print of a document (\<open>print_json\<close>), the
  browser's XML parser (\<open>xml_error\<close>: the message of the first parse error) and the protobuf
  encoder of the decoders (\<open>encode\<close>) are arguments.
\<close>

datatype payload_format = FmtJson | FmtText | FmtXml | FmtHtml | FmtHex | FmtBase64 | FmtProtobuf

definition payload_formats :: "(payload_format \<times> string) list" where
  "payload_formats = [(FmtJson, ''JSON''), (FmtText, ''Text''), (FmtXml, ''XML''), (FmtHtml, ''HTML''),
     (FmtHex, ''Hex''), (FmtBase64, ''Base64''), (FmtProtobuf, ''Protobuf'')]"

fun is_binary_format :: "payload_format \<Rightarrow> bool" where
  "is_binary_format f = (f = FmtHex \<or> f = FmtBase64 \<or> f = FmtProtobuf)"

record wire_payload =
  wp_payload :: string
  wp_binary :: bool

subsection \<open>Reading hex and base64\<close>

text \<open>\<open>text.replace(/0x/gi, '')\<close>.\<close>

fun remove_0x :: "string \<Rightarrow> string" where
  "remove_0x (c # d # cs) =
     (if c = CHR ''0'' \<and> (d = CHR ''x'' \<or> d = CHR ''X'') then remove_0x cs else c # remove_0x (d # cs))"
| "remove_0x cs = cs"

definition hex_noise :: "char \<Rightarrow> bool" where
  "hex_noise c = (is_space c \<or> c \<in> set '':,_-'')"

definition hex_clean :: "string \<Rightarrow> string" where
  "hex_clean text = trim (filter (\<lambda>c. \<not> hex_noise c) (remove_0x text))"

definition parse_hex :: "string \<Rightarrow> bytes option" where
  "parse_hex text = (let clean = hex_clean text in
     if clean = [] then Some []
     else if length clean mod 2 \<noteq> 0 \<or> \<not> list_all (\<lambda>c. hex_val c \<noteq> None) clean then None
     else hex_pairs clean)"

text \<open>\<open>/^[A-Za-z0-9+/]+={0,2}$/\<close>: at least one digit, then at most two equals signs.\<close>

definition base64_shape :: "string \<Rightarrow> bool" where
  "base64_shape s = (let digits = takeWhile (\<lambda>c. c \<in> set b64_alphabet) s;
       tail = dropWhile (\<lambda>c. c \<in> set b64_alphabet) s
     in digits \<noteq> [] \<and> (tail = [] \<or> tail = ''='' \<or> tail = ''==''))"

definition parse_base64 :: "string \<Rightarrow> bytes option" where
  "parse_base64 text = (let clean = filter (\<lambda>c. \<not> is_space c) text in
     if clean = [] then Some []
     else if \<not> base64_shape clean then None
     else atob clean)"

definition to_base64 :: "bytes \<Rightarrow> string" where
  "to_base64 bs = btoa bs"

text \<open>\<open>text.match(/.{1,76}/g)\<close>, joined by line breaks; the dot matches no line break.\<close>

fun chunks :: "nat \<Rightarrow> 'a list \<Rightarrow> 'a list list" where
  "chunks n xs = (if n = 0 \<or> xs = [] then [] else take n xs # chunks n (drop n xs))"

declare chunks.simps [simp del]

definition line_break :: "char \<Rightarrow> bool" where
  "line_break c = (c = CHR 0x0A \<or> c = CHR 0x0D)"

definition in_lines :: "string \<Rightarrow> string" where
  "in_lines s = join_with (CHR 0x0A) (concat (map (chunks 76) (fields_by line_break [] s)))"

definition wrap_base64 :: "string \<Rightarrow> string" where
  "wrap_base64 text = (if list_all line_break text then text else in_lines text)"

definition wire_length :: "payload_format \<Rightarrow> string \<Rightarrow> nat option" where
  "wire_length format text = (case format of
     FmtHex \<Rightarrow> map_option length (parse_hex text)
   | FmtBase64 \<Rightarrow> map_option length (parse_base64 text)
   | FmtProtobuf \<Rightarrow> None
   | _ \<Rightarrow> Some (length (utf8 text)))"

subsection \<open>The check\<close>

text \<open>\<open>text.replace(/\{\{[^{}]*\}\}/g, '1')\<close>.\<close>

definition no_brace :: "char \<Rightarrow> bool" where
  "no_brace c = (c \<noteq> CHR ''{'' \<and> c \<noteq> CHR ''}'')"

definition placeholder_at :: "string \<Rightarrow> string option" where
  "placeholder_at s = (if starts_with s ''{{'' then
       (let rest = dropWhile no_brace (drop 2 s) in if starts_with rest ''}}'' then Some (drop 2 rest) else None)
     else None)"

lemma placeholder_shorter: "placeholder_at s = Some r \<Longrightarrow> length r < length s"
  using length_dropWhile_le [of no_brace "drop 2 s"]
  by (cases s) (auto simp: placeholder_at_def Let_def split: if_splits)

function without_placeholders :: "string \<Rightarrow> string" where
  "without_placeholders s = (case placeholder_at s of
     Some r \<Rightarrow> CHR ''1'' # without_placeholders r
   | None \<Rightarrow> (case s of [] \<Rightarrow> [] | c # cs \<Rightarrow> c # without_placeholders cs))"
  by pat_completeness auto
termination
  by (relation "measure length") (auto dest: placeholder_shorter)

declare without_placeholders.simps [simp del]

definition payload_problem ::
    "(string \<Rightarrow> json option) \<Rightarrow> (string \<Rightarrow> string option) \<Rightarrow> payload_format \<Rightarrow> string \<Rightarrow> string option" where
  "payload_problem parse_json xml_error format text =
     (if trim text = [] then None
      else (case format of
        FmtXml \<Rightarrow> map_option (\<lambda>e. ''Not well-formed XML: '' @ e)
          (if truthy (xml_error text) then xml_error text else None)
      | FmtHex \<Rightarrow> if parse_hex text \<noteq> None then None
          else Some ''Not hex: an even number of 0-9 a-f digits, spaces and 0x aside.''
      | FmtBase64 \<Rightarrow> if parse_base64 text \<noteq> None then None else Some ''Not base64.''
      | FmtText \<Rightarrow> None
      | FmtHtml \<Rightarrow> None
      | _ \<Rightarrow> if parse_json (without_placeholders text) \<noteq> None then None
          else Some ''Not JSON: it will be sent as it stands.''))"

subsection \<open>Markup\<close>

datatype markup = MarkupXml | MarkupHtml

definition is_word :: "char \<Rightarrow> bool" where
  "is_word c = (is_digit c \<or> is_upper c \<or> is_lower c \<or> c = CHR ''_'')"

definition html_tags :: "string list" where
  "html_tags = [''html'', ''head'', ''body'', ''div'', ''p'', ''span'', ''table'', ''ul'', ''ol'', ''section'',
     ''article'', ''a'', ''img'', ''h1'', ''h2'', ''h3'', ''h4'', ''h5'', ''h6'']"

text \<open>\<open>/^<!doctype\s+html/i\<close>, \<open>/^<(html|\dots)\b/i\<close> and \<open>/^<[a-z_:][\w.:-]*[\s/>]/i\<close>, on the lower-case
  text.\<close>

definition doctype_html :: "string \<Rightarrow> bool" where
  "doctype_html t = (starts_with t ''<!doctype'' \<and> (let rest = drop 9 t in
     rest \<noteq> [] \<and> is_space (hd rest) \<and> starts_with (dropWhile is_space rest) ''html''))"

definition html_tag :: "string \<Rightarrow> bool" where
  "html_tag t = list_ex (\<lambda>tag. starts_with t (CHR ''<'' # tag) \<and>
     (let rest = drop (Suc (length tag)) t in rest = [] \<or> \<not> is_word (hd rest))) html_tags"

definition xml_tag :: "string \<Rightarrow> bool" where
  "xml_tag t = (case t of c # d # cs \<Rightarrow> c = CHR ''<'' \<and> (is_lower d \<or> d = CHR ''_'' \<or> d = CHR '':'') \<and>
       (case dropWhile (\<lambda>c. is_word c \<or> c \<in> set ''.:-'') cs of [] \<Rightarrow> False
        | e # _ \<Rightarrow> is_space e \<or> e = CHR ''/'' \<or> e = CHR ''>'')
     | _ \<Rightarrow> False)"

definition markup_of :: "string \<Rightarrow> markup option" where
  "markup_of text = (let t = to_lower (trim_start text) in
     if \<not> starts_with t ''<'' then None
     else if starts_with t ''<?xml'' then Some MarkupXml
     else if doctype_html t \<or> html_tag t then Some MarkupHtml
     else if xml_tag t then Some MarkupXml else None)"

subsection \<open>Tidying\<close>

definition void_elements :: "string list" where
  "void_elements = [''area'', ''base'', ''br'', ''col'', ''embed'', ''hr'', ''img'', ''input'', ''link'', ''meta'',
     ''param'', ''source'', ''track'', ''wbr'']"

text \<open>\<open>replace(/>\s*</g, '><')\<close> and \<open>replace(/></g, '>\n<')\<close>.\<close>

function close_gaps :: "string \<Rightarrow> string" where
  "close_gaps s = (case s of [] \<Rightarrow> [] | c # cs \<Rightarrow>
     (let rest = dropWhile is_space cs in
      if c = CHR ''>'' \<and> starts_with rest ''<'' then ''><'' @ close_gaps (tl rest)
      else c # close_gaps cs))"
  by pat_completeness auto
termination
proof (relation "measure length")
  show "(tl x, s) \<in> measure length" if "s = c # cs" "x = dropWhile is_space cs" for s x c cs
    using that length_dropWhile_le [of is_space cs] by simp
qed simp_all

fun break_tags :: "string \<Rightarrow> string" where
  "break_tags (c # d # cs) = (if c = CHR ''>'' \<and> d = CHR ''<''
     then CHR ''>'' # CHR 0x0A # CHR ''<'' # break_tags cs else c # break_tags (d # cs))"
| "break_tags cs = cs"

definition name_char :: "char \<Rightarrow> bool" where
  "name_char c = (\<not> is_space c \<and> c \<noteq> CHR ''>'' \<and> c \<noteq> CHR ''/'')"

text \<open>\<open>/^<\/?([^\s>/]+)/.exec(t)?.[1]\<close>.\<close>

definition tag_name :: "string \<Rightarrow> string" where
  "tag_name t = (if starts_with t ''</'' then takeWhile name_char (drop 2 t)
     else if starts_with t ''<'' then takeWhile name_char (drop 1 t) else [])"

text \<open>\<open>/^<([^\s>/]+)[^>]*>.*<\/\1>$/\<close>: the name may be any non-empty prefix of the longest one, as the
  matcher backtracks.\<close>

definition closed_on_line :: "string \<Rightarrow> bool" where
  "closed_on_line t = (starts_with t ''<'' \<and>
     (let name = takeWhile name_char (drop 1 t);
          after = dropWhile (\<lambda>c. c \<noteq> CHR ''>'') (drop (Suc (length name)) t)
      in after \<noteq> [] \<and> CHR 0x0D \<notin> set (tl after) \<and>
        list_ex (\<lambda>k. suffix (''</'' @ take k name @ ''>'') (tl after)) [1..<Suc (length name)]))"

definition is_flat :: "string \<Rightarrow> bool" where
  "is_flat t = (starts_with t ''</'' \<or> suffix ''/>'' t \<or> starts_with t ''<!'' \<or> starts_with t ''<?'' \<or>
     to_lower (tag_name t) \<in> set void_elements \<or> closed_on_line t)"

fun indent_lines :: "nat \<Rightarrow> string list \<Rightarrow> string list" where
  "indent_lines depth [] = []"
| "indent_lines depth (l # ls) =
     (let t = trim l in
      if t = [] then indent_lines depth ls
      else (let d = (if starts_with t ''</'' then depth - 1 else depth)
            in (replicate (2 * d) (CHR '' '') @ t) # indent_lines (if is_flat t then d else Suc d) ls))"

definition pretty_xml :: "string \<Rightarrow> string" where
  "pretty_xml text =
     join_with (CHR 0x0A) (indent_lines 0 (split_on (CHR 0x0A) (break_tags (close_gaps text))))"

text \<open>\<open>replace(/((?:[0-9a-f]{2} ){16})/g, '$1\n')\<close>.\<close>

definition hex_word :: "string \<Rightarrow> bool" where
  "hex_word w = (length w = 3 \<and> hex_val (w ! 0) \<noteq> None \<and> \<not> is_upper (w ! 0) \<and>
     hex_val (w ! 1) \<noteq> None \<and> \<not> is_upper (w ! 1) \<and> w ! 2 = CHR '' '')"

function break_hex :: "string \<Rightarrow> string" where
  "break_hex s = (if length s \<ge> 48 \<and> list_all hex_word (chunks 3 (take 48 s))
     then take 48 s @ CHR 0x0A # break_hex (drop 48 s)
     else (case s of [] \<Rightarrow> [] | c # cs \<Rightarrow> c # break_hex cs))"
  by pat_completeness auto
termination
  by (relation "measure length") auto

declare break_hex.simps [simp del]

definition pretty_hex :: "bytes \<Rightarrow> string" where
  "pretty_hex bs = trim (break_hex (join_with (CHR '' '') (map hex_byte bs)))"

definition pretty_payload ::
    "(string \<Rightarrow> string option) \<Rightarrow> (string \<Rightarrow> string option) \<Rightarrow> payload_format \<Rightarrow> string \<Rightarrow> string option" where
  "pretty_payload print_json xml_error format text = (case format of
     FmtXml \<Rightarrow> if xml_error text = None then Some (pretty_xml text) else None
   | FmtHtml \<Rightarrow> Some (pretty_xml text)
   | FmtHex \<Rightarrow> map_option pretty_hex (parse_hex text)
   | FmtBase64 \<Rightarrow> map_option (\<lambda>bs. in_lines (to_base64 bs)) (parse_base64 text)
   | FmtText \<Rightarrow> None
   | _ \<Rightarrow> map_option (\<lambda>t. t @ [CHR 0x0A]) (print_json text))"

subsection \<open>The wire\<close>

definition format_name :: "decoder_format \<Rightarrow> string" where
  "format_name f = (case f of FMsgpack \<Rightarrow> ''msgpack'' | FProtobuf \<Rightarrow> ''protobuf'' | FAvro \<Rightarrow> ''avro''
     | FScript \<Rightarrow> ''script'')"

definition bytes_wire :: "(string \<Rightarrow> json option) \<Rightarrow> (string \<Rightarrow> string option) \<Rightarrow> payload_format \<Rightarrow> string \<Rightarrow>
    bytes option \<Rightarrow> string + wire_payload" where
  "bytes_wire parse_json xml_error format text bs = (case bs of
     None \<Rightarrow> Inl (case payload_problem parse_json xml_error format text of Some p \<Rightarrow> p
       | None \<Rightarrow> ''not '' @ (if format = FmtHex then ''hex'' else ''base64''))
   | Some b \<Rightarrow> Inr \<lparr>wp_payload = to_base64 b, wp_binary = True\<rparr>)"

definition to_wire :: "(string \<Rightarrow> json option) \<Rightarrow> (string \<Rightarrow> string option) \<Rightarrow>
    (decoder_rule \<Rightarrow> json \<Rightarrow> string + bytes) \<Rightarrow> payload_format \<Rightarrow> string \<Rightarrow> string \<Rightarrow> decoder_rule list \<Rightarrow>
    string + wire_payload" where
  "to_wire parse_json xml_error encode format text subject rules = (case format of
     FmtHex \<Rightarrow> bytes_wire parse_json xml_error format text (parse_hex text)
   | FmtBase64 \<Rightarrow> bytes_wire parse_json xml_error format text (parse_base64 text)
   | FmtProtobuf \<Rightarrow> (case find_rule rules (Some subject) of
       None \<Rightarrow> Inl (''no payload decoder matches '' @ (if subject \<noteq> [] then subject else ''this subject'') @
         ''; add one to encode with its .proto'')
     | Some rule \<Rightarrow>
         if dr_format rule \<noteq> FProtobuf
         then Inl (''the decoder for '' @ dr_pattern rule @ '' is '' @ format_name (dr_format rule) @ '', not protobuf'')
         else (case parse_json (if text = [] then ''{}'' else text) of
             None \<Rightarrow> Inl ''a protobuf message is written as JSON here, and this is not JSON''
           | Some v \<Rightarrow> (case encode rule v of Inl e \<Rightarrow> Inl e
               | Inr bs \<Rightarrow> Inr \<lparr>wp_payload = to_base64 bs, wp_binary = True\<rparr>)))
   | _ \<Rightarrow> Inr \<lparr>wp_payload = text, wp_binary = False\<rparr>)"

subsection \<open>Properties\<close>

lemma remove_0x_none: "CHR ''x'' \<notin> set s \<Longrightarrow> CHR ''X'' \<notin> set s \<Longrightarrow> remove_0x s = s"
  by (induction s rule: remove_0x.induct) auto

lemma filter_trim: "(\<And>c. is_space c \<Longrightarrow> \<not> P c) \<Longrightarrow> filter P (trim s) = filter P s"
proof -
  assume P: "\<And>c. is_space c \<Longrightarrow> \<not> P c"
  have drop: "filter P (dropWhile is_space xs) = filter P xs" for xs
    by (induction xs) (simp_all add: P)
  show ?thesis
    unfolding trim_def rev_filter [symmetric] drop by (simp add: rev_filter)
qed

lemma hex_char_props:
  assumes "d < 16"
  shows "\<not> hex_noise (hex_char d)" "hex_char d \<noteq> CHR ''x''" "hex_char d \<noteq> CHR ''X''"
    "\<not> is_space (hex_char d)"
proof -
  let ?n = "of_char (hex_char d) :: nat"
  have n: "(48 \<le> ?n \<and> ?n \<le> 57) \<or> (97 \<le> ?n \<and> ?n \<le> 102)"
    using of_char_hex_char [OF assms] assms by auto
  have ne: "hex_char d \<noteq> c" if "\<not> ((48 \<le> (of_char c :: nat) \<and> (of_char c :: nat) \<le> 57) \<or>
      (97 \<le> (of_char c :: nat) \<and> (of_char c :: nat) \<le> 102))" for c
    using n that by blast
  show "hex_char d \<noteq> CHR ''x''" "hex_char d \<noteq> CHR ''X''" by (rule ne; simp)+
  show space: "\<not> is_space (hex_char d)" using n by (auto simp: is_space_def Let_def)
  have "hex_char d \<noteq> CHR '':''" "hex_char d \<noteq> CHR '',''" "hex_char d \<noteq> CHR ''_''" "hex_char d \<noteq> CHR ''-''"
    by (rule ne; simp)+
  with space show "\<not> hex_noise (hex_char d)" by (simp add: hex_noise_def)
qed

lemma hex_byte_chars:
  "c \<in> set (hex_byte b) \<Longrightarrow> \<exists>d<16. c = hex_char d"
proof -
  have "unat b div 16 < 16" "unat b mod 16 < 16" using byte_unat_lt [of b] by simp_all
  moreover assume "c \<in> set (hex_byte b)"
  then have "c = hex_char (unat b div 16) \<or> c = hex_char (unat b mod 16)" by (simp add: hex_byte_def)
  ultimately show ?thesis by blast
qed

lemma break_hex_cases:
  obtains "s = []" "break_hex s = []"
  | "48 \<le> length s" "break_hex s = take 48 s @ CHR 0x0A # break_hex (drop 48 s)"
  | c cs where "s = c # cs" "break_hex s = c # break_hex cs"
proof (cases "length s \<ge> 48 \<and> list_all hex_word (chunks 3 (take 48 s))")
  case True
  then show ?thesis using that(2) break_hex.simps [of s] by (simp only: if_P simp_thms)
next
  case False
  have "break_hex s = (case s of [] \<Rightarrow> [] | c # cs \<Rightarrow> c # break_hex cs)"
    by (simp only: break_hex.simps [of s] if_not_P [OF False])
  then show ?thesis using that(1,3) by (cases s) simp_all
qed

lemma filter_break_hex: "\<not> P (CHR 0x0A) \<Longrightarrow> filter P (break_hex s) = filter P s"
proof (induction s rule: length_induct)
  case (1 s)
  show ?case
  proof (cases rule: break_hex_cases [of s])
    case 2
    have "filter P s = filter P (take 48 s) @ filter P (drop 48 s)"
      by (metis append_take_drop_id filter_append)
    with 1 2 show ?thesis by simp
  qed (use 1 in simp_all)
qed

lemma set_break_hex: "set (break_hex s) \<subseteq> insert (CHR 0x0A) (set s)"
proof (induction s rule: length_induct)
  case (1 s)
  show ?case
  proof (cases rule: break_hex_cases [of s])
    case 2
    then have "set (break_hex (drop 48 s)) \<subseteq> insert (CHR 0x0A) (set (drop 48 s))" using 1 by simp
    with 2 show ?thesis by (auto dest: in_set_takeD in_set_dropD)
  next
    case (3 c cs)
    then have "set (break_hex cs) \<subseteq> insert (CHR 0x0A) (set cs)" using 1 by simp
    with 3 show ?thesis by auto
  qed simp
qed

lemma filter_join: "\<not> P d \<Longrightarrow> filter P (join_with d ws) = concat (map (filter P) ws)"
  by (induction d ws rule: join_with.induct) simp_all

lemma set_join: "set (join_with d ws) \<subseteq> insert d (\<Union> (set ` set ws))"
  by (induction d ws rule: join_with.induct) auto

lemma hex_clean_pretty: "hex_clean (pretty_hex bs) = concat (map hex_byte bs)"
proof -
  let ?j = "join_with (CHR '' '') (map hex_byte bs)"
  have chars: "c = CHR 0x0A \<or> c = CHR '' '' \<or> (\<exists>d<16. c = hex_char d)" if "c \<in> set (pretty_hex bs)" for c
  proof -
    have "c \<in> insert (CHR 0x0A) (set ?j)"
      using that set_trim [of "break_hex ?j"] set_break_hex [of ?j] by (auto simp: pretty_hex_def)
    then show ?thesis using set_join [of "CHR '' ''" "map hex_byte bs"] hex_byte_chars by fastforce
  qed
  then have nox: "CHR ''x'' \<notin> set (pretty_hex bs)" "CHR ''X'' \<notin> set (pretty_hex bs)"
    using hex_char_props by fastforce+
  have noise: "hex_noise c" if "is_space c" for c using that by (simp add: hex_noise_def)
  have "filter (\<lambda>c. \<not> hex_noise c) (pretty_hex bs) = filter (\<lambda>c. \<not> hex_noise c) ?j"
    unfolding pretty_hex_def using noise
    by (subst filter_trim) (auto intro!: filter_break_hex simp: hex_noise_def is_space_def)
  also have "\<dots> = concat (map (filter (\<lambda>c. \<not> hex_noise c)) (map hex_byte bs))"
    by (rule filter_join) (simp add: hex_noise_def is_space_def)
  also have "\<dots> = concat (map hex_byte bs)"
  proof -
    have "filter (\<lambda>c. \<not> hex_noise c) (hex_byte b) = hex_byte b" for b
      using hex_byte_chars hex_char_props(1) by (fastforce intro: filter_True)
    then show ?thesis by (simp add: o_def)
  qed
  finally have "hex_clean (pretty_hex bs) = trim (concat (map hex_byte bs))"
    unfolding hex_clean_def remove_0x_none [OF nox] by simp
  also have "\<dots> = concat (map hex_byte bs)"
  proof (rule trim_no_space_ends)
    let ?c = "concat (map hex_byte bs)"
    have "\<not> is_space c" if "c \<in> set ?c" for c
      using that hex_byte_chars hex_char_props(4) by fastforce
    then show "?c = [] \<or> (\<not> is_space (hd ?c) \<and> \<not> is_space (last ?c))"
      using hd_in_set last_in_set by blast
  qed
  finally show ?thesis .
qed

lemma parse_hex_clean: "parse_hex text = hex_pairs (hex_clean text)"
proof -
  have none: "hex_pairs s = None" if "\<not> list_all (\<lambda>c. hex_val c \<noteq> None) s \<or> length s mod 2 \<noteq> 0" for s
    using that by (induction s rule: hex_pairs.induct) (auto split: option.splits)
  then show ?thesis by (auto simp: parse_hex_def Let_def)
qed

lemma parse_pretty_hex: "parse_hex (pretty_hex bs) = Some bs"
  by (simp add: parse_hex_clean hex_clean_pretty hex_pairs_concat)

lemma concat_chunks: "0 < n \<Longrightarrow> concat (chunks n xs) = xs"
proof (induction n xs rule: chunks.induct)
  case (1 n xs)
  then show ?case by (cases "xs = []") (simp_all add: chunks.simps [of n])
qed

lemma span_append:
  "\<forall>c \<in> set xs. P c \<Longrightarrow> ys = [] \<or> \<not> P (hd ys) \<Longrightarrow> takeWhile P (xs @ ys) = xs \<and> dropWhile P (xs @ ys) = ys"
  by (induction xs; cases ys) auto

lemma fields_by_none: "\<forall>c \<in> set s. \<not> P c \<Longrightarrow> fields_by P acc s = (if acc = [] \<and> s = [] then [] else [rev acc @ s])"
  by (induction s arbitrary: acc) auto

lemma btoa_no_space: "c \<in> set (btoa bs) \<Longrightarrow> \<not> is_space c"
  using filter_space_btoa [of bs] by (metis filter_eq_Cons_iff filter_id_conv)

lemma line_break_space: "line_break c \<Longrightarrow> is_space c"
  by (auto simp: line_break_def is_space_def)

lemma filter_space_lines: "filter (\<lambda>c. \<not> is_space c) (in_lines (btoa bs)) = btoa bs"
proof -
  have "\<forall>c \<in> set (btoa bs). \<not> line_break c" using btoa_no_space line_break_space by blast
  then have f: "fields_by line_break [] (btoa bs) = (if btoa bs = [] then [] else [btoa bs])"
    using fields_by_none [of "btoa bs" line_break "[]"] by simp
  have "filter (\<lambda>c. \<not> is_space c) (in_lines (btoa bs)) =
      concat (map (filter (\<lambda>c. \<not> is_space c)) (concat (map (chunks 76) (fields_by line_break [] (btoa bs)))))"
    unfolding in_lines_def by (rule filter_join) (simp add: is_space_def)
  also have "\<dots> = filter (\<lambda>c. \<not> is_space c) (btoa bs)"
    unfolding f filter_concat [symmetric] by (simp add: concat_chunks)
  finally show ?thesis by (simp add: filter_space_btoa)
qed

lemma filter_space_wrap: "filter (\<lambda>c. \<not> is_space c) (wrap_base64 (btoa bs)) = btoa bs"
  by (simp add: wrap_base64_def filter_space_lines filter_space_btoa)

lemma base64_shape_btoa: "bs \<noteq> [] \<Longrightarrow> base64_shape (btoa bs)"
proof -
  assume bs: "bs \<noteq> []"
  let ?d = "map b64_char (b64_digits bs)"
  have in_alpha: "\<forall>c \<in> set ?d. c \<in> set b64_alphabet" using b64_digits_lt b64_char_in by auto
  have ne: "?d \<noteq> []" using bs by (cases bs rule: b64_digits.cases) simp_all
  have pad: "b64_padding bs = [] \<or> b64_padding bs = ''='' \<or> b64_padding bs = ''==''"
    by (induction bs rule: b64_padding.induct) simp_all
  then have "takeWhile (\<lambda>c. c \<in> set b64_alphabet) (?d @ b64_padding bs) = ?d"
    "dropWhile (\<lambda>c. c \<in> set b64_alphabet) (?d @ b64_padding bs) = b64_padding bs"
    using span_append [OF in_alpha, of "b64_padding bs"] pad_not_alphabet by auto
  then show ?thesis using ne pad by (simp add: base64_shape_def btoa_digits Let_def)
qed

lemma parse_base64_spaces: "filter (\<lambda>c. \<not> is_space c) s = btoa bs \<Longrightarrow> parse_base64 s = Some bs"
proof -
  assume s: "filter (\<lambda>c. \<not> is_space c) s = btoa bs"
  have "btoa bs = [] \<longleftrightarrow> bs = []" by (cases bs rule: btoa.cases) simp_all
  then show ?thesis
    using s base64_shape_btoa [of bs] atob_btoa [of bs] by (simp add: parse_base64_def Let_def)
qed

text \<open>C23: The tidied and the wrapped forms of bytes are read back as the same bytes: hex as pairs of
  digits in lines, base64 as it stands or in lines.\<close>

theorem bytes_roundtrip:
  "parse_hex (pretty_hex bs) = Some bs \<and> parse_base64 (to_base64 bs) = Some bs \<and>
   parse_base64 (in_lines (to_base64 bs)) = Some bs \<and> parse_base64 (wrap_base64 (to_base64 bs)) = Some bs"
  unfolding to_base64_def
  using parse_pretty_hex parse_base64_spaces filter_space_btoa filter_space_lines filter_space_wrap by blast

text \<open>Tidying a payload of bytes does not change what is sent, and the length shown is the number
  of bytes the wire carries.\<close>

theorem tidy_keeps_wire:
  assumes "format = FmtHex \<or> format = FmtBase64" "pretty_payload pj xe format text = Some tidy"
  shows "to_wire p xe enc format tidy subject rules = to_wire p xe enc format text subject rules \<and>
     (\<exists>bs w. to_wire p xe enc format text subject rules = Inr w \<and> wp_binary w \<and>
        atob (wp_payload w) = Some bs \<and> wire_length format text = Some (length bs))"
  using assms(1)
proof
  assume f: "format = FmtHex"
  then obtain bs where "parse_hex text = Some bs" "tidy = pretty_hex bs"
    using assms(2) by (auto simp: pretty_payload_def)
  with f show ?thesis
    by (simp add: to_wire_def bytes_wire_def parse_pretty_hex to_base64_def atob_btoa wire_length_def)
next
  assume f: "format = FmtBase64"
  then obtain bs where "parse_base64 text = Some bs" "tidy = in_lines (to_base64 bs)"
    using assms(2) by (auto simp: pretty_payload_def)
  with f show ?thesis
    by (simp add: to_wire_def bytes_wire_def parse_base64_spaces filter_space_lines to_base64_def
        atob_btoa wire_length_def)
qed

lemma tidy_keeps_wire_witness:
  "to_wire (\<lambda>_. None) (\<lambda>_. None) (\<lambda>_ _. Inr []) FmtHex (pretty_hex [byte 222, byte 173]) ''s'' [] =
     to_wire (\<lambda>_. None) (\<lambda>_. None) (\<lambda>_ _. Inr []) FmtHex ''0xDE AD'' ''s'' [] \<and>
   (\<exists>bs w. to_wire (\<lambda>_. None) (\<lambda>_. None) (\<lambda>_ _. Inr []) FmtHex ''0xDE AD'' ''s'' [] = Inr w \<and> wp_binary w \<and>
     atob (wp_payload w) = Some bs \<and> wire_length FmtHex ''0xDE AD'' = Some (length bs))"
proof (rule tidy_keeps_wire)
  have "hex_clean ''0xDE AD'' = ''DEAD''"
    by (simp add: hex_clean_def hex_noise_def is_space_def trim_def)
  then have "parse_hex ''0xDE AD'' = Some [byte 222, byte 173]"
    by (simp add: parse_hex_clean hex_val_def is_digit_def)
  then show "pretty_payload (\<lambda>_. None) (\<lambda>_. None) FmtHex ''0xDE AD'' = Some (pretty_hex [byte 222, byte 173])"
    by (simp add: pretty_payload_def)
qed simp


end
