(* ===== verification/SavedRequests.thy ===== *)
theory SavedRequests
  imports PayloadFormat ItemStore
begin

text \<open>
  Publish and request templates (\<open>client/src/lib/savedRequests.ts\<close> and
  \<open>client/src/store/savedRequests.ts\<close>): reading and writing a collection, the draft a form edits,
  and the store.

  A collection is handled as the JSON document between the parser and the printer of the
  platform. \<open>uuid i\<close> is the id drawn for the item at position \<open>i\<close>, \<open>now\<close> the clock, \<open>num\<close> the text
  of a number.
\<close>

datatype saved_mode = ModePublish | ModeRequest

record header_pair =
  hp_key :: string
  hp_value :: string

record expectation =
  ex_expr :: "string option"
  ex_max_latency :: "rat option"

record saved_request =
  sr_id :: string
  sr_name :: string
  sr_mode :: saved_mode
  sr_subject :: string
  sr_payload :: string
  sr_format :: "payload_format option"
  sr_headers :: "header_pair list"
  sr_timeout :: "rat option"
  sr_count :: "rat option"
  sr_concurrency :: "rat option"
  sr_interval :: "rat option"
  sr_expect :: "expectation option"
  sr_updated_at :: rat

subsection \<open>Expectations\<close>

definition clean_expectation :: "json option \<Rightarrow> expectation option" where
  "clean_expectation raw = (case raw of None \<Rightarrow> None | Some v \<Rightarrow>
     if \<not> is_object v then None
     else (let expr = (case json_text (json_field v ''expr'') of None \<Rightarrow> None
                       | Some s \<Rightarrow> or_undefined (trim s));
               latency = (case json_number (json_field v ''maxLatencyMs'') of None \<Rightarrow> None
                       | Some n \<Rightarrow> if n > 0 then Some n else None)
           in if expr \<noteq> None \<or> latency \<noteq> None
              then Some \<lparr>ex_expr = expr, ex_max_latency = latency\<rparr> else None))"

subsection \<open>Collections\<close>

fun format_id :: "payload_format \<Rightarrow> string" where
  "format_id FmtJson = ''json''" | "format_id FmtText = ''text''" | "format_id FmtXml = ''xml''"
| "format_id FmtHtml = ''html''" | "format_id FmtHex = ''hex''" | "format_id FmtBase64 = ''base64''"
| "format_id FmtProtobuf = ''protobuf''"

definition format_of :: "json option \<Rightarrow> payload_format option" where
  "format_of v = (case json_text v of None \<Rightarrow> None
     | Some s \<Rightarrow> List.find (\<lambda>f. format_id f = s) (map fst payload_formats))"

definition parse_headers :: "(rat \<Rightarrow> string) \<Rightarrow> json option \<Rightarrow> header_pair list" where
  "parse_headers num v = (case json_items v of None \<Rightarrow> []
     | Some hs \<Rightarrow> filter (\<lambda>h. hp_key h \<noteq> [])
         (map (\<lambda>h. \<lparr>hp_key = string_or_empty num (json_field h ''key''),
                    hp_value = string_or_empty num (json_field h ''value'')\<rparr>)
           (filter is_object hs)))"

definition parse_num :: "json option \<Rightarrow> rat option" where
  "parse_num v = (case json_number v of None \<Rightarrow> None | Some n \<Rightarrow> if n \<ge> 0 then Some n else None)"

definition parse_item :: "(rat \<Rightarrow> string) \<Rightarrow> string \<Rightarrow> rat \<Rightarrow> json \<Rightarrow> saved_request list" where
  "parse_item num uuid now r = (if \<not> is_object r then []
     else (case json_text (json_field r ''subject'') of None \<Rightarrow> []
       | Some subject \<Rightarrow>
         [\<lparr>sr_id = (case json_text (json_field r ''id'') of None \<Rightarrow> uuid
                    | Some i \<Rightarrow> if i \<noteq> [] then i else uuid),
           sr_name = nullish (json_text (json_field r ''name'')) [],
           sr_mode = (if json_field r ''mode'' = Some (JStr ''request'') then ModeRequest else ModePublish),
           sr_subject = subject,
           sr_payload = nullish (json_text (json_field r ''payload'')) [],
           sr_format = format_of (json_field r ''format''),
           sr_headers = parse_headers num (json_field r ''headers''),
           sr_timeout = parse_num (json_field r ''timeout''),
           sr_count = parse_num (json_field r ''count''),
           sr_concurrency = parse_num (json_field r ''concurrency''),
           sr_interval = parse_num (json_field r ''intervalMs''),
           sr_expect = clean_expectation (json_field r ''expect''),
           sr_updated_at = nullish (parse_num (json_field r ''updatedAt'')) now\<rparr>]))"

definition parse_collection :: "(rat \<Rightarrow> string) \<Rightarrow> (nat \<Rightarrow> string) \<Rightarrow> rat \<Rightarrow> json \<Rightarrow> saved_request list" where
  "parse_collection num uuid now parsed =
     (let list = (case parsed of JArr xs \<Rightarrow> xs | _ \<Rightarrow> nullish (json_items (json_field parsed ''items'')) [])
      in concat (map (\<lambda>(i, raw). parse_item num (uuid i) now raw) (enumerate 0 list)))"

text \<open>What \<open>JSON.stringify\<close> prints: a field that is undefined is left out.\<close>

definition opt_field :: "string \<Rightarrow> ('a \<Rightarrow> json) \<Rightarrow> 'a option \<Rightarrow> (string \<times> json) list" where
  "opt_field k f v = (case v of None \<Rightarrow> [] | Some x \<Rightarrow> [(k, f x)])"

definition expectation_doc :: "expectation \<Rightarrow> json" where
  "expectation_doc e = JObj (opt_field ''expr'' JStr (ex_expr e) @ opt_field ''maxLatencyMs'' JNum (ex_max_latency e))"

definition item_doc :: "saved_request \<Rightarrow> json" where
  "item_doc t = JObj (
     [(''id'', JStr (sr_id t)), (''name'', JStr (sr_name t)),
      (''mode'', JStr (if sr_mode t = ModeRequest then ''request'' else ''publish'')),
      (''subject'', JStr (sr_subject t)), (''payload'', JStr (sr_payload t)),
      (''headers'', JArr (map (\<lambda>h. JObj [(''key'', JStr (hp_key h)), (''value'', JStr (hp_value h))]) (sr_headers t))),
      (''updatedAt'', JNum (sr_updated_at t))] @
     opt_field ''format'' (\<lambda>f. JStr (format_id f)) (sr_format t) @
     opt_field ''timeout'' JNum (sr_timeout t) @ opt_field ''count'' JNum (sr_count t) @
     opt_field ''concurrency'' JNum (sr_concurrency t) @ opt_field ''intervalMs'' JNum (sr_interval t) @
     opt_field ''expect'' expectation_doc (sr_expect t))"

definition serialize_collection :: "string \<Rightarrow> saved_request list \<Rightarrow> json" where
  "serialize_collection exported_at items = JObj [(''format'', JStr ''nats-explorer-requests''),
     (''version'', JNum 1), (''exportedAt'', JStr exported_at), (''items'', JArr (map item_doc items))]"

definition new_saved_request :: "string \<Rightarrow> rat \<Rightarrow> saved_request" where
  "new_saved_request uuid now = \<lparr>sr_id = uuid, sr_name = [], sr_mode = ModePublish, sr_subject = [],
     sr_payload = [], sr_format = None, sr_headers = [], sr_timeout = None, sr_count = None,
     sr_concurrency = None, sr_interval = None, sr_expect = None, sr_updated_at = now\<rparr>"

subsection \<open>Drafts\<close>

record request_draft =
  rd_mode :: saved_mode
  rd_subject :: string
  rd_payload :: string
  rd_format :: payload_format
  rd_headers :: "header_pair list"
  rd_timeout :: rat
  rd_count :: rat
  rd_concurrency :: rat
  rd_interval :: rat
  rd_expect_expr :: string
  rd_expect_max_latency :: rat

definition empty_draft :: "string \<Rightarrow> request_draft" where
  "empty_draft subject = \<lparr>rd_mode = ModePublish, rd_subject = subject, rd_payload = [], rd_format = FmtJson,
     rd_headers = [], rd_timeout = 5000, rd_count = 1, rd_concurrency = 1, rd_interval = 0,
     rd_expect_expr = [], rd_expect_max_latency = 0\<rparr>"

definition expectation_of :: "request_draft \<Rightarrow> expectation option" where
  "expectation_of d = clean_expectation
     (Some (JObj [(''expr'', JStr (rd_expect_expr d)), (''maxLatencyMs'', JNum (rd_expect_max_latency d))]))"

definition draft_from_saved :: "saved_request \<Rightarrow> request_draft" where
  "draft_from_saved t = \<lparr>rd_mode = sr_mode t, rd_subject = sr_subject t, rd_payload = sr_payload t,
     rd_format = nullish (sr_format t) FmtJson, rd_headers = sr_headers t,
     rd_timeout = nullish (sr_timeout t) 5000, rd_count = nullish (sr_count t) 1,
     rd_concurrency = nullish (sr_concurrency t) 1, rd_interval = nullish (sr_interval t) 0,
     rd_expect_expr = nullish (case sr_expect t of None \<Rightarrow> None | Some e \<Rightarrow> ex_expr e) [],
     rd_expect_max_latency = nullish (case sr_expect t of None \<Rightarrow> None | Some e \<Rightarrow> ex_max_latency e) 0\<rparr>"

definition keyed :: "header_pair list \<Rightarrow> header_pair list" where
  "keyed hs = filter (\<lambda>h. trim (hp_key h) \<noteq> []) hs"

definition saved_from_draft :: "rat \<Rightarrow> request_draft \<Rightarrow> string \<Rightarrow> string \<Rightarrow> saved_request" where
  "saved_from_draft now d i name = (let repeated = (rd_count d > 1) in
     \<lparr>sr_id = i, sr_name = name, sr_mode = rd_mode d, sr_subject = trim (rd_subject d),
      sr_payload = rd_payload d, sr_format = (if rd_format d = FmtJson then None else Some (rd_format d)),
      sr_headers = keyed (rd_headers d),
      sr_timeout = (if rd_mode d = ModeRequest then Some (rd_timeout d) else None),
      sr_count = (if repeated then Some (rd_count d) else None),
      sr_concurrency = (if repeated then Some (rd_concurrency d) else None),
      sr_interval = (if repeated \<and> rd_interval d > 0 then Some (rd_interval d) else None),
      sr_expect = expectation_of d, sr_updated_at = now\<rparr>)"

text \<open>The list \<open>norm\<close> prints; a printed list is equal exactly when its elements are.\<close>

definition norm_request :: "saved_request \<Rightarrow> _" where
  "norm_request x = (sr_mode x, sr_subject x, sr_payload x, sr_format x, sr_headers x, sr_timeout x,
     sr_count x, sr_concurrency x, sr_interval x)"

definition draft_differs :: "request_draft \<Rightarrow> saved_request \<Rightarrow> bool" where
  "draft_differs d t =
     (norm_request (saved_from_draft 0 d (sr_id t) (sr_name t)) \<noteq> norm_request (t\<lparr>sr_headers := keyed (sr_headers t)\<rparr>))"

subsection \<open>The store\<close>

definition upsert_request :: "saved_request \<Rightarrow> saved_request list \<Rightarrow> saved_request list" where
  "upsert_request item items = (if list_ex (\<lambda>i. sr_id i = sr_id item) items
     then map (\<lambda>i. if sr_id i = sr_id item then item else i) items else items @ [item])"

definition remove_request :: "string \<Rightarrow> saved_request list \<Rightarrow> saved_request list" where
  "remove_request k items = filter (\<lambda>i. sr_id i \<noteq> k) items"

definition import_requests :: "saved_request list \<Rightarrow> saved_request list \<Rightarrow> saved_request list" where
  "import_requests incoming items = jm_values (fold (\<lambda>it. jm_set (sr_id it) it) incoming
     (fold (\<lambda>it. jm_set (sr_id it) it) items []))"

interpretation requests: item_store sr_id upsert_request remove_request
  by (rule item_store_standard) (simp_all add: upsert_request_def remove_request_def)

subsection \<open>Properties\<close>

text \<open>What an import can produce: an id, header keys, no negative number, and an expectation
  only when it says something.\<close>

definition expectation_ok :: "expectation \<Rightarrow> bool" where
  "expectation_ok e = ((\<forall>x. ex_expr e = Some x \<longrightarrow> x \<noteq> [] \<and> trim x = x) \<and>
     (\<forall>n. ex_max_latency e = Some n \<longrightarrow> 0 < n) \<and> (ex_expr e \<noteq> None \<or> ex_max_latency e \<noteq> None))"

definition nonneg :: "rat option \<Rightarrow> bool" where
  "nonneg n = (case n of None \<Rightarrow> True | Some v \<Rightarrow> 0 \<le> v)"

definition request_ok :: "saved_request \<Rightarrow> bool" where
  "request_ok t = (sr_id t \<noteq> [] \<and> (\<forall>h \<in> set (sr_headers t). hp_key h \<noteq> []) \<and>
     nonneg (sr_timeout t) \<and> nonneg (sr_count t) \<and> nonneg (sr_concurrency t) \<and> nonneg (sr_interval t) \<and>
     0 \<le> sr_updated_at t \<and> (case sr_expect t of None \<Rightarrow> True | Some e \<Rightarrow> expectation_ok e))"

lemma nonneg_parse_num [simp]: "nonneg (parse_num v)"
  by (simp add: nonneg_def parse_num_def split: option.split)

lemma clean_expectation_ok: "clean_expectation raw = Some e \<Longrightarrow> expectation_ok e"
  by (auto simp: clean_expectation_def expectation_ok_def or_undefined_def Let_def split: option.splits if_splits)

lemma parse_headers_keyed: "h \<in> set (parse_headers num v) \<Longrightarrow> hp_key h \<noteq> []"
  by (auto simp: parse_headers_def split: option.splits)

lemma parse_item_fields:
  assumes "t \<in> set (parse_item num uuid now r)"
  shows "sr_id t = (case json_text (json_field r ''id'') of None \<Rightarrow> uuid | Some i \<Rightarrow> if i \<noteq> [] then i else uuid)"
    "sr_headers t = parse_headers num (json_field r ''headers'')"
    "sr_timeout t = parse_num (json_field r ''timeout'')" "sr_count t = parse_num (json_field r ''count'')"
    "sr_concurrency t = parse_num (json_field r ''concurrency'')"
    "sr_interval t = parse_num (json_field r ''intervalMs'')"
    "sr_expect t = clean_expectation (json_field r ''expect'')"
    "sr_updated_at t = nullish (parse_num (json_field r ''updatedAt'')) now"
proof -
  obtain subject where r: "is_object r" "json_text (json_field r ''subject'') = Some subject"
    using assms by (cases "is_object r"; cases "json_text (json_field r ''subject'')") (simp_all add: parse_item_def)
  show "sr_id t = (case json_text (json_field r ''id'') of None \<Rightarrow> uuid | Some i \<Rightarrow> if i \<noteq> [] then i else uuid)"
    "sr_headers t = parse_headers num (json_field r ''headers'')"
    "sr_timeout t = parse_num (json_field r ''timeout'')" "sr_count t = parse_num (json_field r ''count'')"
    "sr_concurrency t = parse_num (json_field r ''concurrency'')"
    "sr_interval t = parse_num (json_field r ''intervalMs'')"
    "sr_expect t = clean_expectation (json_field r ''expect'')"
    "sr_updated_at t = nullish (parse_num (json_field r ''updatedAt'')) now"
    using assms r by (simp_all add: parse_item_def)
qed

lemma parse_item_ok: "uuid \<noteq> [] \<Longrightarrow> 0 \<le> now \<Longrightarrow> t \<in> set (parse_item num uuid now r) \<Longrightarrow> request_ok t"
  using clean_expectation_ok [of "json_field r ''expect''"] nonneg_parse_num [of "json_field r ''updatedAt''"]
  unfolding request_ok_def nonneg_def
  by (simp add: parse_item_fields parse_headers_keyed parse_num_def split: option.split)

text \<open>C22: Whatever document is imported, every request read from it is well formed: it has an id, its headers
  have names, its numbers are not negative and its expectation is one the form can hold.\<close>

theorem import_well_formed:
  assumes "\<forall>i. uuid i \<noteq> []" "0 \<le> now" "t \<in> set (parse_collection num uuid now doc)"
  shows "request_ok t"
  using assms by (auto simp: parse_collection_def Let_def dest: parse_item_ok)

lemma import_well_formed_witness:
  "request_ok (hd (parse_collection (\<lambda>_. []) (\<lambda>_. ''u'') 7
     (JArr [JObj [(''subject'', JStr ''a.b''), (''timeout'', JNum (-1))], JNull])))"
proof (rule import_well_formed [where uuid = "\<lambda>_. ''u''" and now = 7 and num = "\<lambda>_. []"])
  show "hd (parse_collection (\<lambda>_. []) (\<lambda>_. ''u'') 7 (JArr [JObj [(''subject'', JStr ''a.b''), (''timeout'', JNum (-1))], JNull]))
      \<in> set (parse_collection (\<lambda>_. []) (\<lambda>_. ''u'') 7 (JArr [JObj [(''subject'', JStr ''a.b''), (''timeout'', JNum (-1))], JNull]))"
    by (rule hd_in_set) (simp add: parse_collection_def parse_item_def)
qed simp_all

text \<open>Reading back what was exported gives the same templates, whatever ids and clock the reader
  draws.\<close>

lemma get_opt_field [simp]: "jm_get (opt_field k f v) k' = (if k' = k then map_option f v else None)"
  by (auto simp: opt_field_def split: option.split)

lemma case_Some_id [simp]: "(case x of None \<Rightarrow> None | Some y \<Rightarrow> Some y) = x"
  by (cases x) simp_all

lemma format_of_id [simp]: "format_of (Some (JStr (format_id f))) = Some f"
  by (cases f) (simp_all add: format_of_def payload_formats_def)

lemma parse_headers_doc:
  "\<forall>h \<in> set hs. hp_key h \<noteq> [] \<Longrightarrow> parse_headers num
     (Some (JArr (map (\<lambda>h. JObj [(''key'', JStr (hp_key h)), (''value'', JStr (hp_value h))]) hs))) = hs"
  by (induction hs) (auto simp: parse_headers_def string_or_empty_def)

lemma parse_num_doc: "nonneg n \<Longrightarrow> parse_num (map_option JNum n) = n"
  by (cases n) (simp_all add: parse_num_def nonneg_def)

lemma clean_expectation_doc: "expectation_ok e \<Longrightarrow> clean_expectation (Some (expectation_doc e)) = Some e"
  by (cases e; cases "ex_expr e"; cases "ex_max_latency e")
    (auto simp: clean_expectation_def expectation_doc_def expectation_ok_def or_undefined_def Let_def map_add_def)

lemma item_doc_fields:
  "is_object (item_doc t)"
  "json_field (item_doc t) ''id'' = Some (JStr (sr_id t))" "json_field (item_doc t) ''name'' = Some (JStr (sr_name t))"
  "json_field (item_doc t) ''mode'' = Some (JStr (if sr_mode t = ModeRequest then ''request'' else ''publish''))"
  "json_field (item_doc t) ''subject'' = Some (JStr (sr_subject t))"
  "json_field (item_doc t) ''payload'' = Some (JStr (sr_payload t))"
  "json_field (item_doc t) ''headers'' = Some (JArr (map (\<lambda>h. JObj [(''key'', JStr (hp_key h)), (''value'', JStr (hp_value h))]) (sr_headers t)))"
  "json_field (item_doc t) ''updatedAt'' = Some (JNum (sr_updated_at t))"
  "json_field (item_doc t) ''format'' = map_option (\<lambda>f. JStr (format_id f)) (sr_format t)"
  "json_field (item_doc t) ''timeout'' = map_option JNum (sr_timeout t)"
  "json_field (item_doc t) ''count'' = map_option JNum (sr_count t)"
  "json_field (item_doc t) ''concurrency'' = map_option JNum (sr_concurrency t)"
  "json_field (item_doc t) ''intervalMs'' = map_option JNum (sr_interval t)"
  "json_field (item_doc t) ''expect'' = map_option expectation_doc (sr_expect t)"
  by (simp_all add: item_doc_def map_add_def split: option.split)

lemma parse_item_doc:
  assumes "request_ok t"
  shows "parse_item num uuid now (item_doc t) = [t]"
proof -
  have "clean_expectation (map_option expectation_doc (sr_expect t)) = sr_expect t"
    using assms by (cases "sr_expect t")
      (simp_all add: request_ok_def clean_expectation_doc, simp add: clean_expectation_def)
  moreover have "format_of (map_option (\<lambda>f. JStr (format_id f)) (sr_format t)) = sr_format t"
    by (cases "sr_format t") (simp_all, simp add: format_of_def)
  moreover have "parse_num (Some (JNum (sr_updated_at t))) = Some (sr_updated_at t)"
    using assms by (simp add: request_ok_def parse_num_def)
  moreover have "parse_headers num (Some (JArr (map (\<lambda>h. JObj [(''key'', JStr (hp_key h)), (''value'', JStr (hp_value h))]) (sr_headers t)))) = sr_headers t"
    using assms by (intro parse_headers_doc) (simp add: request_ok_def)
  ultimately show ?thesis
    using assms by (cases "sr_mode t") (simp_all add: parse_item_def item_doc_fields parse_num_doc request_ok_def)
qed

lemma parse_items_doc:
  "\<forall>t \<in> set items. request_ok t \<Longrightarrow>
   concat (map (\<lambda>(i, raw). parse_item num (uuid i) now raw) (enumerate n (map item_doc items))) = items"
  by (induction items arbitrary: n) (simp_all add: parse_item_doc)


definition sample_request :: saved_request where
  "sample_request = (new_saved_request ''u1'' 5)\<lparr>sr_subject := ''orders.new'', sr_mode := ModeRequest,
     sr_timeout := Some 2000, sr_format := Some FmtHex,
     sr_headers := [\<lparr>hp_key = ''a'', hp_value = ''b''\<rparr>],
     sr_expect := Some \<lparr>ex_expr = None, ex_max_latency = Some 10\<rparr>\<rparr>"


text \<open>A template saved from a draft and opened again gives a draft that saves to the same template:
  opening and saving settle after one round, and a draft just opened is not reported as changed.\<close>

lemma keyed_keyed [simp]: "keyed (keyed hs) = keyed hs"
  by (simp add: keyed_def)

lemma expectation_again:
  "expectation_of d = Some e \<Longrightarrow>
   clean_expectation (Some (JObj [(''expr'', JStr (nullish (ex_expr e) [])), (''maxLatencyMs'', JNum (nullish (ex_max_latency e) 0))])) = Some e"
proof -
  assume "expectation_of d = Some e"
  then have "expectation_ok e" unfolding expectation_of_def by (rule clean_expectation_ok)
  then show ?thesis
    by (cases e; cases "ex_expr e"; cases "ex_max_latency e")
      (auto simp: clean_expectation_def expectation_ok_def or_undefined_def Let_def trim_def)
qed

lemma draft_expect:
  "rd_expect_expr (draft_from_saved t) = nullish (case sr_expect t of None \<Rightarrow> None | Some e \<Rightarrow> ex_expr e) []"
  "rd_expect_max_latency (draft_from_saved t) = nullish (case sr_expect t of None \<Rightarrow> None | Some e \<Rightarrow> ex_max_latency e) 0"
  by (simp_all add: draft_from_saved_def)

lemma saved_expect: "sr_expect (saved_from_draft now d i name) = expectation_of d"
  by (simp add: saved_from_draft_def Let_def)

lemma expectation_draft_again:
  "expectation_of (draft_from_saved (saved_from_draft now d i name)) = expectation_of d"
proof (cases "expectation_of d")
  case None
  have "clean_expectation (Some (JObj [(''expr'', JStr []), (''maxLatencyMs'', JNum 0)])) = None"
    by (simp add: clean_expectation_def or_undefined_def trim_def)
  with None show ?thesis
    unfolding expectation_of_def [of "draft_from_saved (saved_from_draft now d i name)"] draft_expect saved_expect
    by simp
next
  case (Some e)
  then show ?thesis
    unfolding expectation_of_def [of "draft_from_saved (saved_from_draft now d i name)"] draft_expect saved_expect
    by (simp add: expectation_again)
qed

lemma saved_again:
  "saved_from_draft now' (draft_from_saved (saved_from_draft now d i name)) i name =
     (saved_from_draft now d i name)\<lparr>sr_updated_at := now'\<rparr>"
  using expectation_draft_again [of now d i name]
  by (cases "rd_mode d")
    (simp_all add: saved_from_draft_def [of now'] saved_from_draft_def [of now] draft_from_saved_def Let_def)

theorem draft_roundtrip:
  "saved_from_draft now' (draft_from_saved (saved_from_draft now d i name)) i name =
     (saved_from_draft now d i name)\<lparr>sr_updated_at := now'\<rparr> \<and>
   \<not> draft_differs (draft_from_saved (saved_from_draft now d i name)) (saved_from_draft now d i name)"
proof -
  have "sr_id (saved_from_draft now d i name) = i" "sr_name (saved_from_draft now d i name) = name"
    "keyed (sr_headers (saved_from_draft now d i name)) = sr_headers (saved_from_draft now d i name)"
    by (simp_all add: saved_from_draft_def Let_def)
  then show ?thesis using saved_again [of _ now d i name] by (simp add: draft_differs_def norm_request_def)
qed

text \<open>A change of the expectation alone is not reported as a change of the draft.\<close>

theorem expectation_change_unnoticed:
  "draft_differs (d\<lparr>rd_expect_expr := expr, rd_expect_max_latency := latency\<rparr>) t = draft_differs d t"
  by (simp add: draft_differs_def norm_request_def saved_from_draft_def Let_def)

text \<open>An imported publish template that carries a timeout is reported as changed when it is only
  opened.\<close>

lemma untouched_draft_differs:
  "draft_differs (draft_from_saved ((new_saved_request ''u'' 0)\<lparr>sr_timeout := Some 1000\<rparr>))
     ((new_saved_request ''u'' 0)\<lparr>sr_timeout := Some 1000\<rparr>)"
  by (simp add: draft_differs_def norm_request_def saved_from_draft_def draft_from_saved_def
      new_saved_request_def Let_def)

text \<open>Importing templates into a list with different ids is saving them one after the other.\<close>

lemma jm_set_values:
  assumes "\<forall>(k, v) \<in> set m. k = sr_id v" "jm_wf m"
  shows "jm_values (jm_set (sr_id it) it m) = upsert_request it (jm_values m)"
    and "\<forall>(k, v) \<in> set (jm_set (sr_id it) it m). k = sr_id v"
proof -
  show "\<forall>(k, v) \<in> set (jm_set (sr_id it) it m). k = sr_id v"
    using assms(1) set_update_subset [of "sr_id it" it m] by fastforce
  show "jm_values (jm_set (sr_id it) it m) = upsert_request it (jm_values m)"
    using assms
  proof (induction m)
    case (Cons p m)
    obtain k v where p: "p = (k, v)" by (cases p)
    show ?case
    proof (cases "k = sr_id it")
      case True
      have "sr_id i \<noteq> sr_id it" if i: "i \<in> set (jm_values m)" for i
      proof -
        obtain k' where k': "(k', i) \<in> set m" using i by auto
        have "sr_id i = k'" using Cons.prems(1) k' by auto
        moreover have "k' \<in> fst ` set m" using k' by (metis fst_conv image_eqI)
        moreover have "k \<notin> fst ` set m" using Cons.prems(2) p by simp
        ultimately show ?thesis using True by metis
      qed
      then have "map (\<lambda>i. if sr_id i = sr_id it then it else i) (jm_values m) = jm_values m"
        by (intro map_idI) auto
      with True p Cons.prems show ?thesis by (simp add: upsert_request_def)
    next
      case False
      have v: "sr_id v = k" using Cons.prems p by simp
      have "jm_values (jm_set (sr_id it) it m) = upsert_request it (jm_values m)"
        using Cons by simp
      with False p v show ?thesis by (simp add: upsert_request_def)
    qed
  qed (simp add: upsert_request_def)
qed

lemma fold_import:
  "\<forall>(k, v) \<in> set m. k = sr_id v \<Longrightarrow> jm_wf m \<Longrightarrow>
   jm_values (fold (\<lambda>it. jm_set (sr_id it) it) its m) = fold upsert_request its (jm_values m)"
proof (induction its arbitrary: m)
  case (Cons it its)
  show ?case
    using Cons.IH [OF jm_set_values(2) [OF Cons.prems, of it]] jm_set_values(1) [OF Cons.prems, of it] Cons.prems(2)
    by simp
qed simp

lemma fold_seed:
  "distinct (map sr_id (ys @ xs)) \<Longrightarrow> fold (\<lambda>it. jm_set (sr_id it) it) xs (map (\<lambda>t. (sr_id t, t)) ys) =
     map (\<lambda>t. (sr_id t, t)) (ys @ xs)"
proof (induction xs arbitrary: ys)
  case (Cons x xs)
  have "jm_set (sr_id x) x (map (\<lambda>t. (sr_id t, t)) ys) = map (\<lambda>t. (sr_id t, t)) (ys @ [x])"
  proof -
    have "sr_id x \<notin> fst ` set (map (\<lambda>t. (sr_id t, t)) ys)" using Cons.prems by (force simp: image_iff)
    then show ?thesis by (simp add: update_new)
  qed
  with Cons.IH [of "ys @ [x]"] Cons.prems show ?case by simp
qed simp

theorem import_is_upserts:
  assumes "distinct (map sr_id items)"
  shows "import_requests incoming items = fold upsert_request incoming items"
proof -
  let ?m = "map (\<lambda>t. (sr_id t, t)) items"
  have "fold (\<lambda>it. jm_set (sr_id it) it) items [] = ?m"
    using fold_seed [of "[]" items] assms by simp
  moreover have "\<forall>(k, v) \<in> set ?m. k = sr_id v" "jm_wf ?m" using assms by (auto simp: o_def)
  ultimately show ?thesis using fold_import [of ?m incoming] by (simp add: import_requests_def o_def)
qed

lemma import_is_upserts_witness:
  "import_requests [sample_request] [new_saved_request ''a'' 1, sample_request] =
   fold upsert_request [sample_request] [new_saved_request ''a'' 1, sample_request]"
  by (rule import_is_upserts) (simp add: sample_request_def new_saved_request_def)

end
