(* ===== verification/SavedConnections.thy ===== *)
theory SavedConnections
  imports ItemStore AppStore
begin

text \<open>
  Saved connections (\<open>client/src/lib/savedConnections.ts\<close> and \<open>client/src/store/savedConnections.ts\<close>):
  the stored form and its defaults, the migration of the old form, the configuration sent to the
  server, and the store with the connections being opened.

  \<open>uuid()\<close> is an argument. The stored text is the parsed document: \<open>None\<close> when there is none or it
  does not parse. \<open>api.connect\<close> is split at its \<open>await\<close>; the toasts are left out.
\<close>

subsection \<open>Types\<close>

datatype auth_method = AuthNone | AuthToken | AuthUserpass | AuthNkey | AuthJwt

datatype system_topic = TopicSys | TopicJs | TopicKv | TopicSrv

record saved_connection =
  sc_id :: string
  sc_name :: string
  sc_servers :: "string list"
  sc_auth :: auth_method
  sc_token :: "string option"
  sc_user :: "string option"
  sc_pass :: "string option"
  sc_nkey_seed :: "string option"
  sc_creds :: "string option"
  sc_tls :: "bool option"
  sc_tls_ca :: "string option"
  sc_tls_cert :: "string option"
  sc_tls_key :: "string option"
  sc_tls_insecure :: "bool option"
  sc_tls_first :: "bool option"
  sc_subscriptions :: "string list"
  sc_sys_topics :: "(system_topic, bool) jsmap"
  sc_auto_connect :: "bool option"
  sc_monitoring_url :: "string option"
  sc_monitoring_port :: "int option"
  sc_js_domain :: "string option"
  sc_js_api_prefix :: "string option"
  sc_sys_auth :: "auth_method option"
  sc_sys_token :: "string option"
  sc_sys_user :: "string option"
  sc_sys_pass :: "string option"
  sc_sys_nkey_seed :: "string option"
  sc_sys_creds :: "string option"
  sc_ssh_enabled :: "bool option"
  sc_ssh_host :: "string option"
  sc_ssh_port :: "int option"
  sc_ssh_user :: "string option"
  sc_ssh_password :: "string option"
  sc_ssh_key :: "string option"
  sc_ssh_passphrase :: "string option"
  sc_ssh_host_key :: "string option"

record ssh_config =
  sh_host :: string
  sh_port :: "int option"
  sh_user :: string
  sh_password :: "string option"
  sh_private_key :: "string option"
  sh_passphrase :: "string option"
  sh_host_key :: "string option"

record connection_config =
  cc_id :: "string option"
  cc_name :: string
  cc_servers :: "string list"
  cc_auth :: auth_method
  cc_token :: "string option"
  cc_user :: "string option"
  cc_pass :: "string option"
  cc_nkey_seed :: "string option"
  cc_creds :: "string option"
  cc_tls :: "bool option"
  cc_tls_ca :: "string option"
  cc_tls_cert :: "string option"
  cc_tls_key :: "string option"
  cc_tls_insecure :: "bool option"
  cc_tls_first :: "bool option"
  cc_subscriptions :: "string list option"
  cc_monitoring_url :: "string option"
  cc_monitoring_port :: "int option"
  cc_js_domain :: "string option"
  cc_js_api_prefix :: "string option"
  cc_ssh :: "ssh_config option"
  cc_sys_auth :: "auth_method option"
  cc_sys_token :: "string option"
  cc_sys_user :: "string option"
  cc_sys_pass :: "string option"
  cc_sys_nkey_seed :: "string option"
  cc_sys_creds :: "string option"

definition system_topics :: "(system_topic \<times> string) list" where
  "system_topics = [(TopicSys, ''$SYS.>''), (TopicJs, ''$JS.>''), (TopicKv, ''$KV.>''), (TopicSrv, ''$SRV.>'')]"

definition new_saved_connection :: "string \<Rightarrow> saved_connection" where
  "new_saved_connection uuid = \<lparr>sc_id = uuid, sc_name = [], sc_servers = [''nats://localhost:4222''],
     sc_auth = AuthNone, sc_token = None, sc_user = None, sc_pass = None, sc_nkey_seed = None,
     sc_creds = None, sc_tls = None, sc_tls_ca = None, sc_tls_cert = None, sc_tls_key = None,
     sc_tls_insecure = None, sc_tls_first = None, sc_subscriptions = [''>''], sc_sys_topics = [],
     sc_auto_connect = None, sc_monitoring_url = None, sc_monitoring_port = None, sc_js_domain = None,
     sc_js_api_prefix = None, sc_sys_auth = None, sc_sys_token = None, sc_sys_user = None,
     sc_sys_pass = None, sc_sys_nkey_seed = None, sc_sys_creds = None, sc_ssh_enabled = None,
     sc_ssh_host = None, sc_ssh_port = None, sc_ssh_user = None, sc_ssh_password = None,
     sc_ssh_key = None, sc_ssh_passphrase = None, sc_ssh_host_key = None\<rparr>"

subsection \<open>Loading\<close>

text \<open>\<open>s || d\<close> for an optional string.\<close>

definition or_else :: "string option \<Rightarrow> string \<Rightarrow> string" where
  "or_else s d = (if truthy s then the s else d)"

text \<open>The old form; its port is the text of a string or a number, and 0 is no port.\<close>

record legacy_saved =
  lg_name :: "string option"
  lg_host :: "string option"
  lg_port :: "string option"
  lg_auth :: "auth_method option"
  lg_subscriptions :: "string list option"
  lg_token :: "string option"
  lg_user :: "string option"
  lg_pass :: "string option"
  lg_nkey_seed :: "string option"
  lg_creds :: "string option"
  lg_tls :: "bool option"
  lg_monitoring_port :: "int option"
  lg_sys_topics :: "(system_topic, bool) jsmap option"

definition legacy_address :: "legacy_saved \<Rightarrow> string" where
  "legacy_address l = or_else (lg_host l) ''localhost'' @ '':'' @ or_else (lg_port l) ''4222''"

definition migrate_one :: "string \<Rightarrow> legacy_saved \<Rightarrow> saved_connection" where
  "migrate_one uuid l = (new_saved_connection uuid)\<lparr>
     sc_name := or_else (lg_name l) (legacy_address l),
     sc_servers := [''nats://'' @ legacy_address l],
     sc_auth := nullish (lg_auth l) AuthNone,
     sc_token := lg_token l, sc_user := lg_user l, sc_pass := lg_pass l,
     sc_nkey_seed := lg_nkey_seed l, sc_creds := lg_creds l, sc_tls := lg_tls l,
     sc_subscriptions := (case lg_subscriptions l of None \<Rightarrow> [''>''] | Some xs \<Rightarrow> if xs = [] then [''>''] else xs),
     sc_sys_topics := nullish (lg_sys_topics l) [],
     sc_monitoring_port := lg_monitoring_port l\<rparr>"

definition migrate_legacy :: "(nat \<Rightarrow> string) \<Rightarrow> legacy_saved list \<Rightarrow> saved_connection list" where
  "migrate_legacy uuid items = map (\<lambda>(i, l). migrate_one (uuid i) l) (enumerate 0 items)"

text \<open>A stored entry: the fields every connection has may be missing, the optional ones are as
  they are (\<open>st_rest\<close>).\<close>

record stored_connection =
  st_id :: "string option"
  st_name :: "string option"
  st_servers :: "string list option"
  st_auth :: "auth_method option"
  st_subscriptions :: "string list option"
  st_sys_topics :: "(system_topic, bool) jsmap option"
  st_rest :: saved_connection

definition fill_defaults :: "string \<Rightarrow> stored_connection \<Rightarrow> saved_connection" where
  "fill_defaults uuid p = (let d = new_saved_connection uuid in (st_rest p)\<lparr>
     sc_id := or_else (st_id p) uuid, sc_name := nullish (st_name p) (sc_name d),
     sc_servers := nullish (st_servers p) (sc_servers d), sc_auth := nullish (st_auth p) (sc_auth d),
     sc_subscriptions := nullish (st_subscriptions p) (sc_subscriptions d),
     sc_sys_topics := nullish (st_sys_topics p) (sc_sys_topics d)\<rparr>)"

text \<open>The items, and whether the migrated ones are written back.\<close>

definition load_saved_connections ::
    "(nat \<Rightarrow> string) \<Rightarrow> stored_connection list option \<Rightarrow> legacy_saved list option \<Rightarrow>
     saved_connection list \<times> bool" where
  "load_saved_connections uuid stored legacy = (case stored of
       Some ps \<Rightarrow> (map (\<lambda>(i, p). fill_defaults (uuid i) p) (enumerate 0 ps), False)
     | None \<Rightarrow> (case legacy of
         Some ls \<Rightarrow> (migrate_legacy uuid ls, True)
       | None \<Rightarrow> ([(new_saved_connection (uuid 0))\<lparr>sc_name := ''Local''\<rparr>], False)))"

subsection \<open>The configuration sent to the server\<close>

definition when_set :: "bool \<Rightarrow> 'a option \<Rightarrow> 'a option" where
  "when_set b v = (if b then v else None)"

text \<open>\<open>s?.trim() || undefined\<close>, \<open>s || undefined\<close>, \<open>n || undefined\<close>, \<open>b || undefined\<close>.\<close>

definition trimmed :: "string option \<Rightarrow> string option" where
  "trimmed s = (case s of None \<Rightarrow> None | Some v \<Rightarrow> or_undefined (trim v))"

definition non_empty :: "string option \<Rightarrow> string option" where
  "non_empty s = (case s of None \<Rightarrow> None | Some v \<Rightarrow> or_undefined v)"

definition non_zero :: "int option \<Rightarrow> int option" where
  "non_zero n = (if n = Some 0 then None else n)"

definition only_true :: "bool option \<Rightarrow> bool option" where
  "only_true b = (if b = Some True then Some True else None)"

definition with_system_topics :: "saved_connection \<Rightarrow> string list" where
  "with_system_topics saved = fold (\<lambda>(k, subject) subs.
     if nullish (jm_get (sc_sys_topics saved) k) False \<and> subject \<notin> set subs then subs @ [subject] else subs)
     system_topics (sc_subscriptions saved)"

definition ssh_config_of :: "saved_connection \<Rightarrow> ssh_config option" where
  "ssh_config_of saved =
     (if \<not> nullish (sc_ssh_enabled saved) False \<or> trimmed (sc_ssh_host saved) = None then None
      else Some \<lparr>sh_host = trim (the (sc_ssh_host saved)), sh_port = non_zero (sc_ssh_port saved),
        sh_user = (case sc_ssh_user saved of None \<Rightarrow> [] | Some u \<Rightarrow> trim u),
        sh_password = non_empty (sc_ssh_password saved), sh_private_key = trimmed (sc_ssh_key saved),
        sh_passphrase = non_empty (sc_ssh_passphrase saved), sh_host_key = trimmed (sc_ssh_host_key saved)\<rparr>)"

definition to_connection_config :: "saved_connection \<Rightarrow> connection_config" where
  "to_connection_config saved =
     (let tls = nullish (sc_tls saved) False;
          m = (case sc_sys_auth saved of None \<Rightarrow> None | Some AuthNone \<Rightarrow> None | Some a \<Rightarrow> Some a)
      in \<lparr>cc_id = Some (sc_id saved),
        cc_name = (if sc_name saved \<noteq> [] then sc_name saved
                   else (case sc_servers saved of [] \<Rightarrow> [] | s # _ \<Rightarrow> s)),
        cc_servers = sc_servers saved, cc_auth = sc_auth saved,
        cc_token = when_set (sc_auth saved = AuthToken) (sc_token saved),
        cc_user = when_set (sc_auth saved = AuthUserpass) (sc_user saved),
        cc_pass = when_set (sc_auth saved = AuthUserpass) (sc_pass saved),
        cc_nkey_seed = when_set (sc_auth saved = AuthNkey) (sc_nkey_seed saved),
        cc_creds = when_set (sc_auth saved = AuthJwt) (sc_creds saved),
        cc_tls = sc_tls saved,
        cc_tls_ca = when_set tls (trimmed (sc_tls_ca saved)),
        cc_tls_cert = when_set tls (trimmed (sc_tls_cert saved)),
        cc_tls_key = when_set tls (trimmed (sc_tls_key saved)),
        cc_tls_insecure = when_set tls (only_true (sc_tls_insecure saved)),
        cc_tls_first = when_set tls (only_true (sc_tls_first saved)),
        cc_subscriptions = Some (with_system_topics saved),
        cc_monitoring_url = non_empty (sc_monitoring_url saved),
        cc_monitoring_port = non_zero (sc_monitoring_port saved),
        cc_js_domain = trimmed (sc_js_domain saved),
        cc_js_api_prefix = trimmed (sc_js_api_prefix saved),
        cc_ssh = ssh_config_of saved,
        cc_sys_auth = m,
        cc_sys_token = when_set (m = Some AuthToken) (sc_sys_token saved),
        cc_sys_user = when_set (m = Some AuthUserpass) (sc_sys_user saved),
        cc_sys_pass = when_set (m = Some AuthUserpass) (sc_sys_pass saved),
        cc_sys_nkey_seed = when_set (m = Some AuthNkey) (sc_sys_nkey_seed saved),
        cc_sys_creds = when_set (m = Some AuthJwt) (sc_sys_creds saved)\<rparr>)"

definition server_label :: "saved_connection \<Rightarrow> string" where
  "server_label saved = join_str '', ''
     (map (\<lambda>s. if starts_with s ''nats://'' then drop 7 s else s) (sc_servers saved))"

subsection \<open>The store\<close>

record connections_state =
  ns_items :: "saved_connection list"
  ns_connecting :: "string list"

definition upsert_connection :: "saved_connection \<Rightarrow> saved_connection list \<Rightarrow> saved_connection list" where
  "upsert_connection item items = (if list_ex (\<lambda>i. sc_id i = sc_id item) items
     then map (\<lambda>i. if sc_id i = sc_id item then item else i) items else items @ [item])"

definition remove_connection :: "string \<Rightarrow> saved_connection list \<Rightarrow> saved_connection list" where
  "remove_connection k items = filter (\<lambda>i. sc_id i \<noteq> k) items"

interpretation connections: item_store sc_id upsert_connection remove_connection
  by (rule item_store_standard) (simp_all add: upsert_connection_def remove_connection_def)

text \<open>\<open>connect\<close>: the configuration to send, then its outcome.\<close>

definition connect_saved :: "string \<Rightarrow> connections_state \<Rightarrow> (connection_config \<times> connections_state) option" where
  "connect_saved i s = (case List.find (\<lambda>c. sc_id c = i) (ns_items s) of None \<Rightarrow> None
     | Some saved \<Rightarrow> Some (to_connection_config saved, s\<lparr>ns_connecting := js_add i (ns_connecting s)\<rparr>))"

definition connect_answered ::
    "string \<Rightarrow> string + string \<Rightarrow> connections_state \<Rightarrow> app_state \<Rightarrow> bool \<times> connections_state \<times> app_state" where
  "connect_answered i answer s app =
     (let s' = s\<lparr>ns_connecting := filter (\<lambda>x. x \<noteq> i) (ns_connecting s)\<rparr>
      in (case answer of Inr conn \<Rightarrow> (True, s', set_active_conn (Some conn) app) | Inl e \<Rightarrow> (False, s', app)))"

subsection \<open>Properties\<close>


definition sample_connection :: saved_connection where
  "sample_connection = (new_saved_connection ''c1'')\<lparr>sc_auth := AuthUserpass, sc_sys_topics := [(TopicKv, True)]\<rparr>"

text \<open>The system subjects that are switched on are subscribed in addition to the patterns of the
  connection, which come first and keep their order; nothing is subscribed twice.\<close>

theorem system_topics_merged:
  assumes "distinct (sc_subscriptions s)"
  shows "prefix (sc_subscriptions s) (with_system_topics s) \<and> distinct (with_system_topics s) \<and>
     set (with_system_topics s) = set (sc_subscriptions s) \<union>
       {subject. \<exists>k. (k, subject) \<in> set system_topics \<and> jm_get (sc_sys_topics s) k = Some True}"
proof -
  have on: "nullish b False \<longleftrightarrow> b = Some True" for b by (cases b) auto
  have "prefix subs (fold (\<lambda>(k, subject) subs. if f k \<and> subject \<notin> set subs then subs @ [subject] else subs) ts subs) \<and>
     (distinct subs \<longrightarrow> distinct (fold (\<lambda>(k, subject) subs. if f k \<and> subject \<notin> set subs then subs @ [subject] else subs) ts subs)) \<and>
     set (fold (\<lambda>(k, subject) subs. if f k \<and> subject \<notin> set subs then subs @ [subject] else subs) ts subs) =
       set subs \<union> {subject. \<exists>k. (k, subject) \<in> set ts \<and> f k}" for f subs and ts :: "(system_topic \<times> string) list"
  proof (induction ts arbitrary: subs)
    case (Cons t ts)
    obtain k subject where t: "t = (k, subject)" by (cases t)
    show ?case
    proof (cases "f k \<and> subject \<notin> set subs")
      case True
      with Cons.IH [of "subs @ [subject]"] t show ?thesis
        by (auto dest: append_prefixD)
    next
      case False
      then show ?thesis using Cons.IH [of subs] t by auto
    qed
  qed simp
  from this [of "sc_subscriptions s" "\<lambda>k. nullish (jm_get (sc_sys_topics s) k) False" system_topics] assms
  show ?thesis unfolding with_system_topics_def on by blast
qed

lemma system_topics_merged_witness:
  "prefix (sc_subscriptions sample_connection) (with_system_topics sample_connection) \<and>
     distinct (with_system_topics sample_connection) \<and>
     set (with_system_topics sample_connection) = set (sc_subscriptions sample_connection) \<union>
       {subject. \<exists>k. (k, subject) \<in> set system_topics \<and> jm_get (sc_sys_topics sample_connection) k = Some True}"
  by (rule system_topics_merged) (simp add: sample_connection_def new_saved_connection_def)


end
