(* ===== verification/Url.thy ===== *)
theory Url
  imports Bytes
begin

text \<open>
  The URL functions of the platform the client uses: \<open>encodeURIComponent\<close> and \<open>URLSearchParams\<close>
  (form encoding), with their readers, for strings whose code units are below 256. A byte sequence
  that is no such character decodes to a question mark.
\<close>

subsection \<open>Percent encoding\<close>

definition url_alnum :: "char \<Rightarrow> bool" where
  "url_alnum c = (is_digit c \<or> is_upper c \<or> is_lower c)"

definition component_safe :: "char \<Rightarrow> bool" where
  "component_safe c = (url_alnum c \<or> c \<in> set ''-_.!~*()'' \<or> c = CHR 0x27)"

definition form_safe :: "char \<Rightarrow> bool" where
  "form_safe c = (url_alnum c \<or> c \<in> set ''*-._'')"

definition hex_upper :: "nat \<Rightarrow> char" where
  "hex_upper d = (if d < 10 then digit_char d else char_of (55 + d))"

definition percent_byte :: "8 word \<Rightarrow> string" where
  "percent_byte b = [CHR ''%'', hex_upper (unat b div 16), hex_upper (unat b mod 16)]"

definition percent_char :: "(char \<Rightarrow> bool) \<Rightarrow> char \<Rightarrow> string" where
  "percent_char safe c = (if safe c then [c] else concat (map percent_byte (utf8_char c)))"

definition encode_component :: "string \<Rightarrow> string" where
  "encode_component s = concat (map (percent_char component_safe) s)"

definition form_char :: "char \<Rightarrow> string" where
  "form_char c = (if c = CHR '' '' then ''+'' else percent_char form_safe c)"

definition encode_form :: "string \<Rightarrow> string" where
  "encode_form s = concat (map form_char s)"

subsection \<open>Decoding\<close>

function unpercent :: "string \<Rightarrow> bytes" where
  "unpercent s = (case s of [] \<Rightarrow> []
     | c # cs \<Rightarrow> (case (c = CHR ''%'', cs) of
         (True, h # l # rest) \<Rightarrow> (case (hex_val h, hex_val l) of
             (Some x, Some y) \<Rightarrow> byte (16 * x + y) # unpercent rest
           | _ \<Rightarrow> utf8_char c @ unpercent cs)
       | _ \<Rightarrow> utf8_char c @ unpercent cs))"
  by pat_completeness auto
termination
  by (relation "measure length") auto

declare unpercent.simps [simp del]

fun utf8_decode :: "bytes \<Rightarrow> string" where
  "utf8_decode [] = []"
| "utf8_decode (b # bs) =
     (if unat b < 128 then char_of (unat b) # utf8_decode bs
      else if 194 \<le> unat b \<and> unat b \<le> 195 then
        (case bs of c # cs \<Rightarrow>
             if 128 \<le> unat c \<and> unat c < 192
             then char_of ((unat b - 192) * 64 + (unat c - 128)) # utf8_decode cs
             else CHR ''?'' # utf8_decode bs
         | [] \<Rightarrow> ''?'')
      else CHR ''?'' # utf8_decode bs)"

definition decode_component :: "string \<Rightarrow> string" where
  "decode_component s = utf8_decode (unpercent s)"

definition decode_form :: "string \<Rightarrow> string" where
  "decode_form s = utf8_decode (unpercent (map (\<lambda>c. if c = CHR ''+'' then CHR '' '' else c) s))"

lemma utf8_decode_char: "utf8_decode (utf8_char c @ bs) = c # utf8_decode bs"
proof (cases "(of_char c :: nat) < 128")
  case True
  then show ?thesis by (simp add: utf8_char_def)
next
  case False
  let ?n = "of_char c :: nat"
  have "?n div 64 < 4" by (rule less_mult_imp_div_less) simp
  moreover have "128 div 64 \<le> ?n div 64" using False by (intro div_le_mono) simp
  ultimately have q: "2 \<le> ?n div 64 \<and> ?n div 64 \<le> 3" by simp
  have b: "unat (byte (192 + ?n div 64)) = 192 + ?n div 64" using q by (intro unat_byte) linarith
  have m: "?n mod 64 < 64" by simp
  have d: "unat (byte (128 + ?n mod 64)) = 128 + ?n mod 64" using m by (intro unat_byte) linarith
  have "(192 + ?n div 64 - 192) * 64 + (128 + ?n mod 64 - 128) = ?n" by simp
  then have "char_of ((192 + ?n div 64 - 192) * 64 + (128 + ?n mod 64 - 128)) = c" by simp
  then show ?thesis using False q m b d by (simp only: utf8_char_def Let_def if_False append.simps utf8_decode.simps list.case) simp
qed

lemma utf8_decode_utf8 [simp]: "utf8_decode (utf8 s) = s"
  by (induction s) (simp_all add: utf8_def utf8_decode_char)

lemma of_char_hex_upper: "d < 16 \<Longrightarrow> (of_char (hex_upper d) :: nat) = (if d < 10 then 48 + d else 55 + d)"
  by (simp add: hex_upper_def of_char_digit_char)

lemma hex_val_hex_upper [simp]: "d < 16 \<Longrightarrow> hex_val (hex_upper d) = Some d"
  using of_char_hex_upper [of d] by (auto simp: hex_val_def is_digit_def Let_def split: if_splits)

lemma unpercent_Nil [simp]: "unpercent [] = []"
  by (simp add: unpercent.simps)

lemma unpercent_byte: "unpercent (percent_byte b @ s) = b # unpercent s"
proof -
  have "unat b div 16 < 16" using byte_unat_lt [of b] by simp
  then show ?thesis by (simp add: unpercent.simps [of "CHR ''%'' # _"] percent_byte_def)
qed

lemma unpercent_bytes: "unpercent (concat (map percent_byte bs) @ s) = bs @ unpercent s"
  by (induction bs) (simp_all add: unpercent_byte)

lemma unpercent_plain: "c \<noteq> CHR ''%'' \<Longrightarrow> unpercent (c # s) = utf8_char c @ unpercent s"
  by (simp add: unpercent.simps [of "c # s"])

lemma unpercent_char:
  "\<not> safe CHR ''%'' \<Longrightarrow> unpercent (percent_char safe c @ s) = utf8_char c @ unpercent s"
  by (auto simp: percent_char_def unpercent_bytes intro: unpercent_plain)

lemma percent_not_safe: "\<not> component_safe CHR ''%''" "\<not> form_safe CHR ''%''"
  by (simp_all add: component_safe_def form_safe_def url_alnum_def is_digit_def is_upper_def is_lower_def)

lemma unpercent_component: "unpercent (encode_component s) = utf8 s"
  by (induction s) (simp_all add: encode_component_def utf8_def unpercent_char percent_not_safe)

theorem decode_encode_component: "decode_component (encode_component s) = s"
  by (simp add: decode_component_def unpercent_component)

subsection \<open>The characters of an encoded text\<close>

lemma hex_upper_alnum: "d < 16 \<Longrightarrow> url_alnum (hex_upper d)"
  using of_char_hex_upper [of d] by (auto simp: url_alnum_def is_digit_def is_upper_def split: if_splits)

lemma percent_byte_chars: "c \<in> set (percent_byte b) \<Longrightarrow> url_alnum c \<or> c = CHR ''%''"
proof -
  have "unat b div 16 < 16" "unat b mod 16 < 16" using byte_unat_lt [of b] by simp_all
  then show "c \<in> set (percent_byte b) \<Longrightarrow> url_alnum c \<or> c = CHR ''%''"
    using hex_upper_alnum by (auto simp: percent_byte_def)
qed

lemma percent_char_chars: "c \<in> set (percent_char safe d) \<Longrightarrow> safe c \<or> url_alnum c \<or> c = CHR ''%''"
  using percent_byte_chars by (auto simp: percent_char_def split: if_splits)

lemma alnum_safe: "url_alnum c \<Longrightarrow> component_safe c" "url_alnum c \<Longrightarrow> form_safe c"
  by (simp_all add: component_safe_def form_safe_def)

lemma encode_component_chars: "c \<in> set (encode_component s) \<Longrightarrow> component_safe c \<or> c = CHR ''%''"
proof -
  assume "c \<in> set (encode_component s)"
  then obtain d where "c \<in> set (percent_char component_safe d)" by (auto simp: encode_component_def)
  then show ?thesis using percent_char_chars alnum_safe(1) by blast
qed

lemma encode_form_chars: "c \<in> set (encode_form s) \<Longrightarrow> form_safe c \<or> c = CHR ''%'' \<or> c = CHR ''+''"
proof -
  assume "c \<in> set (encode_form s)"
  then obtain d where "c \<in> set (form_char d)" by (auto simp: encode_form_def)
  then have "c = CHR ''+'' \<or> c \<in> set (percent_char form_safe d)" by (simp add: form_char_def split: if_splits)
  then show ?thesis using percent_char_chars alnum_safe(2) by blast
qed

lemma delimiters_not_safe:
  "\<not> component_safe CHR ''/''" "\<not> component_safe CHR ''?''" "\<not> component_safe CHR ''#''" "\<not> component_safe CHR ''&''"
  "\<not> form_safe CHR ''&''" "\<not> form_safe CHR ''=''" "\<not> form_safe CHR ''#''" "\<not> form_safe CHR ''+''" "\<not> form_safe CHR ''?''"
  by (simp_all add: component_safe_def form_safe_def url_alnum_def is_digit_def is_upper_def is_lower_def)

lemma encode_component_no_delimiter:
  "c \<in> {CHR ''/'', CHR ''?'', CHR ''#'', CHR ''&''} \<Longrightarrow> c \<notin> set (encode_component s)"
  using encode_component_chars [of c s] delimiters_not_safe by auto

lemma encode_form_no_delimiter:
  "c \<in> {CHR ''&'', CHR ''='', CHR ''#'', CHR ''?''} \<Longrightarrow> c \<notin> set (encode_form s)"
  using encode_form_chars [of c s] delimiters_not_safe by auto

subsection \<open>Query parameters\<close>

type_synonym params = "(string, string) jsmap"

text \<open>\<open>q.toString()\<close>, \<open>new URLSearchParams(text)\<close> and \<open>q.get(k)\<close>; \<open>q.set(k, v)\<close> is \<open>jm_set\<close>.\<close>

definition param_text :: "string \<times> string \<Rightarrow> string" where
  "param_text = (\<lambda>(k, v). encode_form k @ CHR ''='' # encode_form v)"

definition params_text :: "params \<Rightarrow> string" where
  "params_text ps = join_with CHR ''&'' (map param_text ps)"

definition parse_param :: "string \<Rightarrow> string \<times> string" where
  "parse_param s = (decode_form (takeWhile (\<lambda>c. c \<noteq> CHR ''='') s),
     decode_form (drop 1 (dropWhile (\<lambda>c. c \<noteq> CHR ''='') s)))"

definition parse_params :: "string \<Rightarrow> params" where
  "parse_params s = map parse_param (filter (\<lambda>w. w \<noteq> [])
     (split_on CHR ''&'' (if starts_with s ''?'' then drop 1 s else s)))"

lemma unpercent_form_char:
  "unpercent (map (\<lambda>c. if c = CHR ''+'' then CHR '' '' else c) (form_char c) @ s) = utf8_char c @ unpercent s"
proof (cases "c = CHR '' ''")
  case True
  then show ?thesis by (simp add: form_char_def unpercent_plain)
next
  case False
  have "d \<noteq> CHR ''+''" if "d \<in> set (percent_char form_safe c)" for d
    using percent_char_chars [OF that] delimiters_not_safe by (auto simp: form_safe_def)
  then have "map (\<lambda>c. if c = CHR ''+'' then CHR '' '' else c) (percent_char form_safe c) = percent_char form_safe c"
    by (intro map_idI) simp
  with False show ?thesis by (simp add: form_char_def unpercent_char percent_not_safe)
qed

lemma decode_encode_form [simp]: "decode_form (encode_form s) = s"
proof -
  have "unpercent (map (\<lambda>c. if c = CHR ''+'' then CHR '' '' else c) (encode_form s)) = utf8 s"
    by (induction s) (simp_all add: encode_form_def utf8_def unpercent_form_char)
  then show ?thesis by (simp add: decode_form_def)
qed

lemma parse_param_text [simp]: "parse_param (param_text p) = p"
proof (cases p)
  case (Pair k v)
  have no: "\<forall>c \<in> set (encode_form k). c \<noteq> CHR ''=''" using encode_form_no_delimiter by blast
  then have "takeWhile (\<lambda>c. c \<noteq> CHR ''='') (encode_form k @ CHR ''='' # encode_form v) = encode_form k"
    "dropWhile (\<lambda>c. c \<noteq> CHR ''='') (encode_form k @ CHR ''='' # encode_form v) = CHR ''='' # encode_form v"
    by (simp_all add: takeWhile_append2 dropWhile_append2)
  then show ?thesis using Pair by (simp add: parse_param_def param_text_def)
qed

lemma param_text_props: "param_text p \<noteq> []" "CHR ''&'' \<notin> set (param_text p)"
  using encode_form_no_delimiter by (cases p; auto simp: param_text_def)+

lemma params_text_no_delimiter: "c \<in> {CHR ''#'', CHR ''?''} \<Longrightarrow> c \<notin> set (params_text ps)"
proof (induction ps)
  case (Cons p ps)
  then show ?case
    using encode_form_no_delimiter by (cases ps; cases p) (auto simp: params_text_def param_text_def)
qed (simp add: params_text_def)

lemma parse_params_text [simp]: "parse_params (params_text ps) = ps"
proof (cases "ps = []")
  case False
  have "split_on CHR ''&'' (params_text ps) = map param_text ps"
    unfolding params_text_def using False param_text_props(2) by (intro split_join) auto
  moreover have "filter (\<lambda>w. w \<noteq> []) (map param_text ps) = map param_text ps"
    using param_text_props(1) by (auto intro: filter_True)
  moreover have "\<not> starts_with (params_text ps) ''?''"
    using params_text_no_delimiter [of "CHR ''?''" ps] by (auto simp: prefix_def)
  ultimately show ?thesis by (simp add: parse_params_def o_def)
qed (simp add: parse_params_def params_text_def)

lemma params_text_Nil: "params_text ps = [] \<longleftrightarrow> ps = []"
  by (metis parse_params_text params_text_def join_with.simps(1) list.map(1))


end
