(* ===== verification/Links.thy ===== *)
theory Links
  imports Url SavedConnections AppProps
begin

text \<open>
  Links to a view: reading and writing the hash (\<open>client/src/lib/deepLink.ts\<close>) and keeping the
  address bar and the store in step (\<open>client/src/lib/urlSync.ts\<close>).

  \<open>Number(text)\<close> is modelled for decimal spellings; a hexadecimal or exponential spelling reads as
  no number. The words of a time range (\<open>windowRange\<close>) depend on the locale and are an argument.
  The browser history is the list of addresses, the newest first.
\<close>

subsection \<open>Numbers\<close>

text \<open>\<open>Number(s)\<close>: blank is 0, otherwise an optional sign, digits and an optional fraction.\<close>

definition unsigned_number :: "string \<Rightarrow> rat option" where
  "unsigned_number s = (case split_on CHR ''.'' s of
     [w] \<Rightarrow> map_option rat_of_nat (parse_nat w)
   | [w, f] \<Rightarrow> if (w = [] \<and> f = []) \<or> \<not> list_all is_digit (w @ f) then None
       else Some (rat_of_nat (digits_val w) + rat_of_nat (digits_val f) / 10 ^ length f)
   | _ \<Rightarrow> None)"

definition js_number :: "string \<Rightarrow> rat option" where
  "js_number s = (case trim s of [] \<Rightarrow> Some 0
   | c # cs \<Rightarrow> if c = CHR ''-'' then map_option uminus (unsigned_number cs)
       else if c = CHR ''+'' then unsigned_number cs
       else unsigned_number (c # cs))"

subsection \<open>Links\<close>

record deep_link =
  dl_module :: "module_id option"
  dl_conn :: "string option"
  dl_subject :: "string option"
  dl_from :: "int option"
  dl_to :: "int option"
  dl_stream :: "string option"
  dl_bucket :: "string option"
  dl_key :: "string option"
  dl_store :: "string option"
  dl_service :: "string option"
  dl_template :: "string option"

definition empty_link :: deep_link where
  "empty_link = \<lparr>dl_module = None, dl_conn = None, dl_subject = None, dl_from = None, dl_to = None,
     dl_stream = None, dl_bucket = None, dl_key = None, dl_store = None, dl_service = None,
     dl_template = None\<rparr>"

definition modules :: "(string \<times> module_id) list" where
  "modules = [(''subjects'', ModSubjects), (''state'', ModState), (''jetstream'', ModJetstream), (''kv'', ModKv),
     (''objects'', ModObjects), (''services'', ModServices), (''requests'', ModRequests), (''events'', ModEvents),
     (''monitor'', ModMonitor), (''cluster'', ModCluster), (''alerts'', ModAlerts), (''audit'', ModAudit)]"

fun module_path :: "module_id \<Rightarrow> string" where
  "module_path ModSubjects = ''subjects''" | "module_path ModState = ''state''"
| "module_path ModJetstream = ''jetstream''" | "module_path ModKv = ''kv''"
| "module_path ModObjects = ''objects''" | "module_path ModServices = ''services''"
| "module_path ModRequests = ''requests''" | "module_path ModEvents = ''events''"
| "module_path ModMonitor = ''monitor''" | "module_path ModCluster = ''cluster''"
| "module_path ModAlerts = ''alerts''" | "module_path ModAudit = ''audit''"

text \<open>\<open>for (const k of STRING_KEYS) { const v = params.get(k); if (v) link[k] = v }\<close>.\<close>

definition get_text :: "params \<Rightarrow> string \<Rightarrow> string option" where
  "get_text ps k = (if truthy (jm_get ps k) then jm_get ps k else None)"

definition get_number :: "params \<Rightarrow> string \<Rightarrow> rat option" where
  "get_number ps k = (case jm_get ps k of None \<Rightarrow> Some 0 | Some s \<Rightarrow> js_number s)"

definition parse_link :: "string \<Rightarrow> deep_link" where
  "parse_link hash =
     (let s1 = (if starts_with hash ''#'' then drop 1 hash else hash);
          s2 = (if starts_with s1 ''/'' then drop 1 s1 else s1);
          path = takeWhile (\<lambda>c. c \<noteq> CHR ''?'') s2;
          ps = parse_params (drop 1 (dropWhile (\<lambda>c. c \<noteq> CHR ''?'') s2));
          window = (case (get_number ps ''from'', get_number ps ''to'') of
              (Some f, Some t) \<Rightarrow> if f > 0 \<and> t > f then Some (js_round f, js_round t) else None
            | _ \<Rightarrow> None)
      in \<lparr>dl_module = map_of modules path, dl_conn = get_text ps ''conn'', dl_subject = get_text ps ''subject'',
          dl_from = map_option fst window, dl_to = map_option snd window,
          dl_stream = get_text ps ''stream'', dl_bucket = get_text ps ''bucket'', dl_key = get_text ps ''key'',
          dl_store = get_text ps ''store'', dl_service = get_text ps ''service'',
          dl_template = get_text ps ''template''\<rparr>)"

definition text_param :: "string \<Rightarrow> string option \<Rightarrow> params" where
  "text_param k v = (if truthy v then [(k, the v)] else [])"

definition link_params :: "deep_link \<Rightarrow> params" where
  "link_params l = text_param ''conn'' (dl_conn l) @ text_param ''subject'' (dl_subject l) @
     text_param ''stream'' (dl_stream l) @ text_param ''bucket'' (dl_bucket l) @ text_param ''key'' (dl_key l) @
     text_param ''store'' (dl_store l) @ text_param ''service'' (dl_service l) @
     text_param ''template'' (dl_template l) @
     (case (dl_from l, dl_to l) of (Some f, Some t) \<Rightarrow> [(''from'', int_str f), (''to'', int_str t)] | _ \<Rightarrow> [])"

definition format_link :: "deep_link \<Rightarrow> string" where
  "format_link l = (case dl_module l of None \<Rightarrow> []
     | Some m \<Rightarrow> (let query = params_text (link_params l)
         in ''#/'' @ module_path m @ (if query \<noteq> [] then CHR ''?'' # query else [])))"

definition set_text :: "string option \<Rightarrow> string option" where
  "set_text v = (if truthy v then v else None)"

definition link_from_state :: "app_state \<Rightarrow> deep_link" where
  "link_from_state s =
     (let base = empty_link\<lparr>dl_module := Some (s_module s), dl_conn := set_text (s_active_conn s)\<rparr>
      in (case s_module s of
          ModSubjects \<Rightarrow> if truthy (s_subject s)
            then (let l = base\<lparr>dl_subject := s_subject s\<rparr> in
                  case s_range s of None \<Rightarrow> l
                  | Some r \<Rightarrow> l\<lparr>dl_from := Some (tr_from r), dl_to := Some (tr_to r)\<rparr>)
            else base
        | ModJetstream \<Rightarrow> base\<lparr>dl_stream := set_text (s_stream s)\<rparr>
        | ModKv \<Rightarrow> if truthy (s_bucket s)
            then base\<lparr>dl_bucket := s_bucket s, dl_key := set_text (s_kv_key s)\<rparr> else base
        | ModObjects \<Rightarrow> base\<lparr>dl_store := set_text (s_obj_store s)\<rparr>
        | ModServices \<Rightarrow> base\<lparr>dl_service := set_text (s_service s)\<rparr>
        | ModRequests \<Rightarrow> base\<lparr>dl_template := set_text (s_template s)\<rparr>
        | _ \<Rightarrow> base))"

text \<open>Two links have the same target when these fields agree; the code joins them with a
  separator that occurs in none of them.\<close>

definition link_target :: "deep_link \<Rightarrow> string" where
  "link_target l = join_with (CHR 0x00)
     (nullish (map_option module_path (dl_module l)) [] #
      map (\<lambda>v. nullish v []) [dl_conn l, dl_subject l, dl_stream l, dl_bucket l, dl_key l, dl_store l,
        dl_service l, dl_template l])"

subsection \<open>The address bar\<close>

record url_state =
  us_app :: app_state
  us_saved :: connections_state
  us_pending :: "deep_link option"
  us_opening :: "(string \<times> deep_link) list"
  us_history :: "string list"
  us_last_target :: string

definition location_hash :: "url_state \<Rightarrow> string" where
  "location_hash u = (case us_history u of [] \<Rightarrow> [] | h # _ \<Rightarrow> h)"

definition write_hash :: "string \<Rightarrow> bool \<Rightarrow> url_state \<Rightarrow> url_state" where
  "write_hash hash jump u =
     (if hash = location_hash u then u
      else if jump then u\<lparr>us_history := hash # us_history u\<rparr>
      else u\<lparr>us_history := hash # drop 1 (us_history u)\<rparr>)"

text \<open>The subscriber that follows a change of the store.\<close>

definition follow_change :: "url_state \<Rightarrow> url_state" where
  "follow_change u = (if us_pending u \<noteq> None then u
     else (let link = link_from_state (us_app u); target = link_target link
           in (write_hash (format_link link) (target \<noteq> us_last_target u) u)\<lparr>us_last_target := target\<rparr>))"

text \<open>Every \<open>set\<close> of the store calls its subscribers, also one that changes nothing.\<close>

definition change_app :: "(app_state \<Rightarrow> app_state) \<Rightarrow> url_state \<Rightarrow> url_state" where
  "change_app f u = follow_change (u\<lparr>us_app := f (us_app u)\<rparr>)"

text \<open>\<open>windowRange\<close>; the words are those of the locale.\<close>

definition window_range :: "(int \<Rightarrow> int \<Rightarrow> string) \<Rightarrow> int \<Rightarrow> int \<Rightarrow> time_range" where
  "window_range words from to' = (let start = max 0 from; end' = to'; label = words start end'
     in \<lparr>tr_from = start, tr_to = end', tr_label = label, tr_prose = label\<rparr>)"

text \<open>\<open>applySelection\<close>: the changes of the store while \<open>applying\<close> is set, which no subscriber
  follows.\<close>

definition select_linked :: "(int \<Rightarrow> int \<Rightarrow> string) \<Rightarrow> deep_link \<Rightarrow> app_state \<Rightarrow> app_state" where
  "select_linked words l s = (case dl_module l of
     Some ModSubjects \<Rightarrow> (case dl_subject l of
         Some subject \<Rightarrow> if subject \<noteq> []
           then (let s1 = reveal_subject subject s in
                 case (dl_from l, dl_to l) of
                   (Some f, Some t) \<Rightarrow> set_range (Some (window_range words f t)) s1
                 | _ \<Rightarrow> s1)
           else if truthy (s_subject s) then set_selected_subject None s else s
       | None \<Rightarrow> if truthy (s_subject s) then set_selected_subject None s else s)
   | Some ModJetstream \<Rightarrow> set_selected_stream (dl_stream l) s
   | Some ModKv \<Rightarrow> (let s1 = set_selected_bucket (dl_bucket l) s in
       if truthy (dl_bucket l) then set_selected_kv_key (dl_key l) s1 else s1)
   | Some ModObjects \<Rightarrow> set_selected_obj_store (dl_store l) s
   | Some ModServices \<Rightarrow> set_selected_service (dl_service l) s
   | Some ModRequests \<Rightarrow> set_selected_template (dl_template l) s
   | _ \<Rightarrow> s)"

definition apply_selection :: "(int \<Rightarrow> int \<Rightarrow> string) \<Rightarrow> deep_link \<Rightarrow> app_state \<Rightarrow> app_state" where
  "apply_selection words l s =
     select_linked words l (case dl_module l of None \<Rightarrow> s | Some m \<Rightarrow> set_module m s)"

definition apply_silently :: "(int \<Rightarrow> int \<Rightarrow> string) \<Rightarrow> deep_link \<Rightarrow> url_state \<Rightarrow> url_state" where
  "apply_silently words l u = u\<lparr>us_app := apply_selection words l (us_app u)\<rparr>"

definition resolve_pending :: "(int \<Rightarrow> int \<Rightarrow> string) \<Rightarrow> url_state \<Rightarrow> url_state" where
  "resolve_pending words u = (case us_pending u of None \<Rightarrow> u
     | Some l \<Rightarrow>
        if \<not> truthy (dl_conn l) then apply_silently words l (u\<lparr>us_pending := None\<rparr>)
        else if \<not> s_connections_loaded (us_app u) then u
        else (let u1 = u\<lparr>us_pending := None\<rparr>; conn = the (dl_conn l) in
          if \<exists>c \<in> set (s_connections (us_app u)). cs_id c = conn
          then apply_silently words l (change_app (set_active_conn (Some conn)) u1)
          else if \<exists>c \<in> set (ns_items (us_saved u)). sc_id c = conn
          then (let u2 = (case dl_module l of None \<Rightarrow> u1 | Some m \<Rightarrow> change_app (set_module m) u1)
                in u2\<lparr>us_opening := us_opening u2 @ [(conn, l)],
                      us_saved := (case connect_saved conn (us_saved u2) of None \<Rightarrow> us_saved u2 | Some (_, cs) \<Rightarrow> cs)\<rparr>)
          else apply_silently words l u1))"

text \<open>The answer to opening the saved connection of a link.\<close>

definition link_opened ::
    "(int \<Rightarrow> int \<Rightarrow> string) \<Rightarrow> string \<Rightarrow> deep_link \<Rightarrow> string + string \<Rightarrow> url_state \<Rightarrow> url_state" where
  "link_opened words conn l answer u =
     (case connect_answered conn answer (us_saved u) (us_app u) of (ok, cs, app) \<Rightarrow>
       (let u1 = change_app (\<lambda>_. app) (u\<lparr>us_saved := cs, us_opening := remove1 (conn, l) (us_opening u)\<rparr>)
        in if ok then apply_silently words l u1 else u1))"

definition open_link :: "(int \<Rightarrow> int \<Rightarrow> string) \<Rightarrow> deep_link \<Rightarrow> url_state \<Rightarrow> url_state" where
  "open_link words l u = resolve_pending words (u\<lparr>us_pending := Some l\<rparr>)"

text \<open>\<open>installUrlSync\<close>: the link of the address is pending when it names something.\<close>

definition install_url_sync :: "(int \<Rightarrow> int \<Rightarrow> string) \<Rightarrow> app_state \<Rightarrow> connections_state \<Rightarrow> string \<Rightarrow> url_state" where
  "install_url_sync words app saved hash =
     (let l = parse_link hash;
          pending = (if dl_module l = None \<and> dl_conn l = None then None else Some l)
      in resolve_pending words \<lparr>us_app = app, us_saved = saved, us_pending = pending, us_opening = [],
           us_history = [hash], us_last_target = link_target (link_from_state app)\<rparr>)"

text \<open>The two subscribers after a change of the store, and the back button, which drops the
  newest address.\<close>

definition store_changed :: "(int \<Rightarrow> int \<Rightarrow> string) \<Rightarrow> (app_state \<Rightarrow> app_state) \<Rightarrow> url_state \<Rightarrow> url_state" where
  "store_changed words f u = (let u1 = change_app f u in
     if us_pending u1 \<noteq> None \<and> s_connections_loaded (us_app u1) then resolve_pending words u1 else u1)"

definition go_back :: "(int \<Rightarrow> int \<Rightarrow> string) \<Rightarrow> url_state \<Rightarrow> url_state" where
  "go_back words u = (case us_history u of h # g # hs \<Rightarrow>
       (let u1 = u\<lparr>us_history := g # hs\<rparr>; l = parse_link g in
        if dl_module l = None \<and> dl_conn l = None then u1
        else resolve_pending words (u1\<lparr>us_last_target := link_target l, us_pending := Some l\<rparr>))
     | _ \<Rightarrow> u)"

subsection \<open>The round trip of a link\<close>

lemma digit_props: "is_digit c \<Longrightarrow> c \<noteq> CHR ''.'' \<and> c \<noteq> CHR ''-'' \<and> c \<noteq> CHR ''+'' \<and> \<not> is_space c"
  by (auto simp: is_digit_def is_space_def)

lemma js_number_nat: "js_number (nat_str n) = Some (rat_of_nat n)"
proof -
  obtain c cs where s: "nat_str n = c # cs" by (cases "nat_str n") simp_all
  have d: "is_digit x" if "x \<in> set (nat_str n)" for x using that by (rule nat_str_digits)
  have "trim (nat_str n) = nat_str n"
    using d digit_props by (intro trim_no_space_ends) (metis hd_in_set last_in_set)
  moreover have "split_on CHR ''.'' (nat_str n) = [nat_str n]"
    using d digit_props by (intro split_on_single) blast
  moreover have "c \<noteq> CHR ''-''" "c \<noteq> CHR ''+''" using d [of c] digit_props [of c] s by simp_all
  ultimately show ?thesis
    using s parse_nat_str [of n] by (simp add: js_number_def unsigned_number_def)
qed

lemma js_number_pos: "0 < i \<Longrightarrow> js_number (int_str i) = Some (rat_of_int i)"
  using js_number_nat [of "nat i"] by (simp add: int_str_def)

lemma modules_path [simp]: "map_of modules (module_path m) = Some m"
  by (cases m) (simp_all add: modules_def)

lemma module_path_plain: "CHR ''?'' \<notin> set (module_path m)" "module_path m \<noteq> []"
  by (cases m; simp)+

definition link_ok :: "deep_link \<Rightarrow> bool" where
  "link_ok l = (dl_module l \<noteq> None \<and>
     (\<forall>v \<in> {dl_conn l, dl_subject l, dl_stream l, dl_bucket l, dl_key l, dl_store l, dl_service l, dl_template l}.
        v \<noteq> Some []) \<and>
     (case (dl_from l, dl_to l) of (None, None) \<Rightarrow> True | (Some f, Some t) \<Rightarrow> 0 < f \<and> f < t | _ \<Rightarrow> False))"

lemma get_text_param [simp]: "jm_get (text_param k v) k' = (if k' = k then set_text v else None)"
  by (cases v) (simp_all add: text_param_def set_text_def)

lemma set_text_id: "v \<noteq> Some [] \<Longrightarrow> set_text v = v"
  by (cases v) (simp_all add: set_text_def)

lemma get_text_eq: "get_text ps k = set_text (jm_get ps k)"
  by (simp add: get_text_def set_text_def)

lemma get_link_params:
  "jm_get (link_params l) ''conn'' = set_text (dl_conn l)"
  "jm_get (link_params l) ''subject'' = set_text (dl_subject l)"
  "jm_get (link_params l) ''stream'' = set_text (dl_stream l)"
  "jm_get (link_params l) ''bucket'' = set_text (dl_bucket l)"
  "jm_get (link_params l) ''key'' = set_text (dl_key l)"
  "jm_get (link_params l) ''store'' = set_text (dl_store l)"
  "jm_get (link_params l) ''service'' = set_text (dl_service l)"
  "jm_get (link_params l) ''template'' = set_text (dl_template l)"
  "jm_get (link_params l) ''from'' = (case (dl_from l, dl_to l) of (Some f, Some t) \<Rightarrow> Some (int_str f) | _ \<Rightarrow> None)"
  "jm_get (link_params l) ''to'' = (case (dl_from l, dl_to l) of (Some f, Some t) \<Rightarrow> Some (int_str t) | _ \<Rightarrow> None)"
  by (simp_all add: link_params_def map_add_def split: option.split)

lemma parse_format_link:
  assumes "link_ok l"
  shows "parse_link (format_link l) = l"
proof -
  obtain m where m: "dl_module l = Some m" using assms by (auto simp: link_ok_def)
  let ?ps = "link_params l"
  let ?q = "if params_text ?ps \<noteq> [] then CHR ''?'' # params_text ?ps else []"
  let ?s = "module_path m @ ?q"
  have path: "takeWhile (\<lambda>c. c \<noteq> CHR ''?'') ?s = module_path m"
    and rest: "dropWhile (\<lambda>c. c \<noteq> CHR ''?'') ?s = ?q"
  proof -
    have "\<forall>c \<in> set (module_path m). c \<noteq> CHR ''?''" using module_path_plain(1) by blast
    then show "takeWhile (\<lambda>c. c \<noteq> CHR ''?'') ?s = module_path m" "dropWhile (\<lambda>c. c \<noteq> CHR ''?'') ?s = ?q"
      by (simp_all add: takeWhile_append2 dropWhile_append2)
  qed
  have ps: "parse_params (drop 1 ?q) = ?ps"
  proof (cases "params_text ?ps = []")
    case True
    then show ?thesis using params_text_Nil [of ?ps] by (simp add: parse_params_def)
  qed simp
  have strs: "get_text ?ps ''conn'' = dl_conn l" "get_text ?ps ''subject'' = dl_subject l"
    "get_text ?ps ''stream'' = dl_stream l" "get_text ?ps ''bucket'' = dl_bucket l"
    "get_text ?ps ''key'' = dl_key l" "get_text ?ps ''store'' = dl_store l"
    "get_text ?ps ''service'' = dl_service l" "get_text ?ps ''template'' = dl_template l"
    using assms by (simp_all add: get_text_eq get_link_params set_text_id link_ok_def)
  have numbers: "get_number ?ps ''from'' = (case dl_from l of Some f \<Rightarrow> Some (rat_of_int f) | None \<Rightarrow> Some 0)"
    "get_number ?ps ''to'' = (case dl_to l of Some t \<Rightarrow> Some (rat_of_int t) | None \<Rightarrow> Some 0)"
    using assms by (simp_all add: get_number_def get_link_params js_number_pos link_ok_def split: option.splits)
  have "format_link l = ''#/'' @ ?s" using m by (simp add: format_link_def)
  then show ?thesis
    using path rest ps m strs numbers assms
    by (cases "dl_from l"; cases "dl_to l")
      (simp_all add: parse_link_def Let_def link_ok_def)
qed

abbreviation range_ok :: "app_state \<Rightarrow> bool" where
  "range_ok s \<equiv> (case s_range s of None \<Rightarrow> True | Some r \<Rightarrow> 0 < tr_from r \<and> tr_from r < tr_to r)"

lemma set_text_not_empty: "set_text v \<noteq> Some []"
  by (cases v) (simp_all add: set_text_def)

lemma link_from_state_ok: "range_ok s \<Longrightarrow> link_ok (link_from_state s)"
  by (cases "s_module s"; cases "s_range s"; cases "s_subject s"; cases "s_bucket s")
    (simp_all add: link_from_state_def link_ok_def empty_link_def set_text_not_empty Let_def)


definition sample_view :: app_state where
  "sample_view = (initial_state Dark None None [] True True False)
     \<lparr>s_module := ModKv, s_active_conn := Some ''c 1'', s_bucket := Some ''a&b=c'', s_kv_key := Some ''#/?%''\<rparr>"


text \<open>Opening the address of a view in another browser on the same connection shows the same
  view: what the address of the result would be is the address opened. The exception is named: the
  same subject already open with a range, and a link without one.\<close>

lemma select_subject_view:
  assumes "subject \<noteq> []"
  shows "s_subject (reveal_subject subject s) = Some subject"
    "s_range (reveal_subject subject s) =
       (if s_subject s = Some subject \<and> length (s_selected s) \<le> 1 then s_range s else None)"
    "s_module (reveal_subject subject s) = s_module s" "s_active_conn (reveal_subject subject s) = s_active_conn s"
  using assms by (simp_all add: reveal_subject_def set_selected_subject_def)

lemma set_text_truthy: "truthy v \<Longrightarrow> set_text v = v" "\<not> truthy v \<Longrightarrow> set_text v = None"
  by (simp_all add: set_text_def)

lemma set_text_set_text [simp]: "set_text (set_text v) = set_text v"
  by (simp add: set_text_def)

lemma empty_link_fields [simp]:
  "dl_module empty_link = None" "dl_conn empty_link = None" "dl_subject empty_link = None"
  "dl_from empty_link = None" "dl_to empty_link = None" "dl_stream empty_link = None"
  "dl_bucket empty_link = None" "dl_key empty_link = None" "dl_store empty_link = None"
  "dl_service empty_link = None" "dl_template empty_link = None"
  by (simp_all add: empty_link_def)

lemma selection_setters [simp]:
  "s_module (set_module m t) = m" "s_active_conn (set_module m t) = s_active_conn t"
  "s_subject (set_module m t) = s_subject t" "s_range (set_module m t) = s_range t"
  "s_selected (set_module m t) = s_selected t"
  "s_module (set_selected_stream x t) = s_module t" "s_active_conn (set_selected_stream x t) = s_active_conn t"
  "s_stream (set_selected_stream x t) = x"
  "s_module (set_selected_obj_store x t) = s_module t" "s_active_conn (set_selected_obj_store x t) = s_active_conn t"
  "s_obj_store (set_selected_obj_store x t) = x"
  "s_module (set_selected_service x t) = s_module t" "s_active_conn (set_selected_service x t) = s_active_conn t"
  "s_service (set_selected_service x t) = x"
  "s_module (set_selected_template x t) = s_module t" "s_active_conn (set_selected_template x t) = s_active_conn t"
  "s_template (set_selected_template x t) = x"
  "s_module (set_selected_bucket x t) = s_module t" "s_active_conn (set_selected_bucket x t) = s_active_conn t"
  "s_bucket (set_selected_bucket x t) = x"
  "s_module (set_selected_kv_key x t) = s_module t" "s_active_conn (set_selected_kv_key x t) = s_active_conn t"
  "s_bucket (set_selected_kv_key x t) = s_bucket t" "s_kv_key (set_selected_kv_key x t) = x"
  "s_module (set_range x' t) = s_module t" "s_active_conn (set_range x' t) = s_active_conn t"
  "s_subject (set_range x' t) = s_subject t" "s_range (set_range x' t) = x'"
  by (simp_all add: plain_setter_defs set_selected_bucket_def)

definition base_link :: "module_id \<Rightarrow> app_state \<Rightarrow> deep_link" where
  "base_link m s = empty_link\<lparr>dl_module := Some m, dl_conn := set_text (s_active_conn s)\<rparr>"

lemma base_link_fields [simp]:
  "dl_module (base_link m s) = Some m" "dl_subject (base_link m s) = None" "dl_stream (base_link m s) = None"
  "dl_bucket (base_link m s) = None" "dl_store (base_link m s) = None" "dl_service (base_link m s) = None"
  "dl_template (base_link m s) = None" "dl_from (base_link m s) = None" "dl_to (base_link m s) = None"
  by (simp_all add: base_link_def)

lemma base_link_setters [simp]:
  "base_link m (set_module x1 t) = base_link m t" "base_link m (set_selected_stream x2 t) = base_link m t"
  "base_link m (set_selected_obj_store x2 t) = base_link m t" "base_link m (set_selected_service x2 t) = base_link m t"
  "base_link m (set_selected_template x2 t) = base_link m t" "base_link m (set_selected_bucket x2 t) = base_link m t"
  "base_link m (set_selected_kv_key x2 t) = base_link m t"
  by (simp_all add: base_link_def)

lemma link_of_module:
  "s_module s = ModJetstream \<Longrightarrow> link_from_state s = (base_link ModJetstream s)\<lparr>dl_stream := set_text (s_stream s)\<rparr>"
  "s_module s = ModObjects \<Longrightarrow> link_from_state s = (base_link ModObjects s)\<lparr>dl_store := set_text (s_obj_store s)\<rparr>"
  "s_module s = ModServices \<Longrightarrow> link_from_state s = (base_link ModServices s)\<lparr>dl_service := set_text (s_service s)\<rparr>"
  "s_module s = ModRequests \<Longrightarrow> link_from_state s = (base_link ModRequests s)\<lparr>dl_template := set_text (s_template s)\<rparr>"
  "s_module s = ModKv \<Longrightarrow> link_from_state s = (if truthy (s_bucket s)
     then (base_link ModKv s)\<lparr>dl_bucket := s_bucket s, dl_key := set_text (s_kv_key s)\<rparr> else base_link ModKv s)"
  "s_module s = ModState \<Longrightarrow> link_from_state s = base_link ModState s"
  "s_module s = ModEvents \<Longrightarrow> link_from_state s = base_link ModEvents s"
  "s_module s = ModMonitor \<Longrightarrow> link_from_state s = base_link ModMonitor s"
  "s_module s = ModCluster \<Longrightarrow> link_from_state s = base_link ModCluster s"
  "s_module s = ModAlerts \<Longrightarrow> link_from_state s = base_link ModAlerts s"
  "s_module s = ModAudit \<Longrightarrow> link_from_state s = base_link ModAudit s"
  by (simp_all add: link_from_state_def base_link_def Let_def)

lemma select_linked_module:
  "dl_module l = Some ModJetstream \<Longrightarrow> apply_selection words l t = set_selected_stream (dl_stream l) (set_module ModJetstream t)"
  "dl_module l = Some ModObjects \<Longrightarrow> apply_selection words l t = set_selected_obj_store (dl_store l) (set_module ModObjects t)"
  "dl_module l = Some ModServices \<Longrightarrow> apply_selection words l t = set_selected_service (dl_service l) (set_module ModServices t)"
  "dl_module l = Some ModRequests \<Longrightarrow> apply_selection words l t = set_selected_template (dl_template l) (set_module ModRequests t)"
  "dl_module l = Some ModKv \<Longrightarrow> apply_selection words l t = (if truthy (dl_bucket l)
     then set_selected_kv_key (dl_key l) (set_selected_bucket (dl_bucket l) (set_module ModKv t))
     else set_selected_bucket (dl_bucket l) (set_module ModKv t))"
  "dl_module l = Some ModState \<Longrightarrow> apply_selection words l t = set_module ModState t"
  "dl_module l = Some ModEvents \<Longrightarrow> apply_selection words l t = set_module ModEvents t"
  "dl_module l = Some ModMonitor \<Longrightarrow> apply_selection words l t = set_module ModMonitor t"
  "dl_module l = Some ModCluster \<Longrightarrow> apply_selection words l t = set_module ModCluster t"
  "dl_module l = Some ModAlerts \<Longrightarrow> apply_selection words l t = set_module ModAlerts t"
  "dl_module l = Some ModAudit \<Longrightarrow> apply_selection words l t = set_module ModAudit t"
  by (simp_all add: apply_selection_def select_linked_def Let_def)

lemma link_other_modules:
  assumes "s_module s \<noteq> ModSubjects" "s_active_conn t = s_active_conn s"
  shows "link_from_state (apply_selection words (link_from_state s) t) = link_from_state s"
proof -
  have base: "base_link m t = base_link m s" for m using assms(2) by (simp add: base_link_def)
  show ?thesis
  proof (cases "s_module s")
    case ModKv
    then show ?thesis
      by (cases "truthy (s_bucket s)") (simp_all add: link_of_module select_linked_module base)
  qed (use assms(1) in \<open>simp_all add: link_of_module select_linked_module base\<close>)
qed

lemma link_subjects:
  assumes m: "s_module s = ModSubjects" and conn: "s_active_conn t = s_active_conn s" and r: "range_ok s"
    and keep: "s_subject t \<noteq> s_subject s \<or> 1 < length (s_selected t) \<or> s_range t = None \<or> s_range s \<noteq> None"
  shows "link_from_state (apply_selection words (link_from_state s) t) = link_from_state s"
proof (cases "truthy (s_subject s)")
  case True
  then obtain subject where sub: "s_subject s = Some subject" "subject \<noteq> []" by (cases "s_subject s") simp_all
  note v = select_subject_view [OF sub(2), of "set_module ModSubjects t"]
  show ?thesis
  proof (cases "s_range s")
    case None
    then have "s_range (reveal_subject subject (set_module ModSubjects t)) = None"
      using v(2) keep sub by auto
    with None show ?thesis
      using m conn sub v by (simp add: link_from_state_def apply_selection_def select_linked_def Let_def)
  next
    case (Some w)
    then show ?thesis
      using m conn r sub v
      by (simp add: link_from_state_def apply_selection_def select_linked_def window_range_def Let_def)
  qed
next
  case False
  have "link_from_state s = empty_link\<lparr>dl_module := Some ModSubjects, dl_conn := set_text (s_active_conn s)\<rparr>"
    using m False by (simp add: link_from_state_def Let_def)
  then show ?thesis
    using conn by (auto simp: apply_selection_def select_linked_def set_selected_subject_def
        link_from_state_def Let_def)
qed



text \<open>The named exception: following a link without a range to the subject that is open with one
  leaves the range, so the view is not the one the link names.\<close>

theorem link_keeps_old_range:
  assumes "s_subject t = Some subject" "subject \<noteq> []" "length (s_selected t) \<le> 1"
    and "dl_module l = Some ModSubjects" "dl_subject l = Some subject" "dl_from l = None"
  shows "s_range (apply_selection words l t) = s_range t"
  using assms select_subject_view(2) [OF assms(2), of "set_module ModSubjects t"]
  by (simp add: apply_selection_def select_linked_def set_module_def Let_def)

lemma link_keeps_old_range_witness:
  "s_range (apply_selection (\<lambda>_ _. []) (empty_link\<lparr>dl_module := Some ModSubjects, dl_subject := Some ''a''\<rparr>)
     ((initial_state Light None None [] True True False)\<lparr>s_subject := Some ''a'', s_selected := [''a''],
        s_range := Some \<lparr>tr_from = 1, tr_to = 2, tr_label = [], tr_prose = []\<rparr>\<rparr>)) =
   Some \<lparr>tr_from = 1, tr_to = 2, tr_label = [], tr_prose = []\<rparr>"
  by (subst link_keeps_old_range [where subject = "''a''"]) (simp_all add: empty_link_def)

subsection \<open>The address bar\<close>


text \<open>Following a link to an open connection leaves the address of the view before it, with the
  connection switched: switching the connection is a change the address follows, and the rest of
  the link is applied while no change is followed.\<close>

theorem followed_link_detour:
  assumes "us_history u \<noteq> []" "s_connections_loaded (us_app u)"
    and "dl_conn l = Some conn" "conn \<noteq> []" "c \<in> set (s_connections (us_app u))" "cs_id c = conn"
  shows "location_hash (open_link words l u) = format_link (link_from_state (set_active_conn (Some conn) (us_app u))) \<and>
     us_app (open_link words l u) = apply_selection words l (set_active_conn (Some conn) (us_app u))"
proof -
  let ?u = "u\<lparr>us_pending := Some l\<rparr>"
  let ?v = "u\<lparr>us_pending := None\<rparr>"
  have "\<exists>c \<in> set (s_connections (us_app u)). cs_id c = conn" using assms by blast
  then have "open_link words l u = apply_silently words l (change_app (set_active_conn (Some conn)) ?v)"
    using assms(2,3,4) by (simp add: open_link_def resolve_pending_def Let_def)
  moreover have "location_hash (apply_silently words l w) = location_hash w" for w
    by (simp add: apply_silently_def location_hash_def)
  moreover have "us_app (change_app g ?v) = g (us_app u)" for g
    by (simp add: change_app_def follow_change_def write_hash_def Let_def)
  moreover have "location_hash (change_app g ?v) = format_link (link_from_state (g (us_app u)))" for g
    using assms(1) by (cases "us_history u")
      (auto simp: change_app_def follow_change_def write_hash_def location_hash_def Let_def)
  moreover have "us_app (apply_silently words l w) = apply_selection words l (us_app w)" for w
    by (simp add: apply_silently_def)
  ultimately show ?thesis by simp
qed

definition linked_state :: "connection_status list \<Rightarrow> url_state" where
  "linked_state conns = \<lparr>us_app = (initial_state Dark None None [] True True False)
       \<lparr>s_connections := conns, s_connections_loaded := True\<rparr>,
     us_saved = \<lparr>ns_items = [], ns_connecting = []\<rparr>, us_pending = None, us_opening = [],
     us_history = [''#/subjects''], us_last_target = []\<rparr>"


definition open_connection :: "string \<Rightarrow> connection_status" where
  "open_connection i = \<lparr>cs_id = i, cs_name = i, cs_connected = True, cs_reconnecting = False, cs_server = None,
     cs_color = [], cs_servers = None, cs_subscriptions = None, cs_js_domain = None, cs_js_api_prefix = None,
     cs_sys_account = None, cs_sys_error = None, cs_last_error = None, cs_reconnects = 0, cs_last_drop = None,
     cs_slow_consumer_drops = None, cs_live_reconnecting = None, cs_live_reconnects = None,
     cs_live_error = None, cs_live_pause_ms = None, cs_live_paused_until = None, cs_live_flaps = None,
     cs_links = None, cs_bundle = None, cs_connected_at = None, cs_ssh = None, cs_ssh_host_key = None\<rparr>"

lemma followed_link_detour_witness:
  "location_hash (open_link (\<lambda>_ _. [])
     (empty_link\<lparr>dl_module := Some ModJetstream, dl_conn := Some ''B'', dl_stream := Some ''ORDERS''\<rparr>)
     (linked_state [open_connection ''B''])) = ''#/subjects?conn=B''"
proof -
  let ?u = "linked_state [open_connection ''B'']"
  let ?l = "empty_link\<lparr>dl_module := Some ModJetstream, dl_conn := Some ''B'', dl_stream := Some ''ORDERS''\<rparr>"
  have "location_hash (open_link (\<lambda>_ _. []) ?l ?u) =
      format_link (link_from_state (set_active_conn (Some ''B'') (us_app ?u)))"
    using followed_link_detour [of ?u ?l "''B''" "open_connection ''B''" "\<lambda>_ _. []"]
    by (simp add: linked_state_def open_connection_def)
  moreover have "link_from_state (set_active_conn (Some ''B'') (us_app ?u)) =
      empty_link\<lparr>dl_module := Some ModSubjects, dl_conn := Some ''B''\<rparr>"
    by (simp add: linked_state_def initial_state_def set_active_conn_def clear_selections_def
        link_from_state_def set_text_def)
  moreover have "format_link (empty_link\<lparr>dl_module := Some ModSubjects, dl_conn := Some ''B''\<rparr>) = ''#/subjects?conn=B''"
    by (simp add: format_link_def link_params_def text_param_def params_text_def param_text_def
        encode_form_def form_char_def percent_char_def form_safe_def url_alnum_def is_upper_def is_lower_def
        is_digit_def)
  ultimately show ?thesis by simp
qed

end
