(* ===== verification/Api.thy ===== *)
theory Api
  imports Url Json AppStore Alerts
begin

text \<open>
  The calls of the backend (\<open>client/src/lib/api.ts\<close>, \<open>api.alerts.ts\<close>, \<open>api.audit.ts\<close>,
  \<open>api.schemas.ts\<close>, \<open>api.schema.ts\<close>, \<open>api.bundle.ts\<close>, \<open>basePath.ts\<close>): the request each call makes and
  what \<open>request\<close> makes of the answer; and who the browser is (\<open>client/src/lib/auth.ts\<close>).

  A call is the record of its method, path with query, and body. A body is the document that is
  printed; an options object is the list of its entries, numbers already printed. \<open>overrides\<close> is the
  map of JetStream domains the store holds. The document base and the JSON parser of the platform
  are arguments.
\<close>

subsection \<open>Requests\<close>

datatype request_body = NoBody | JsonBody json | RawBody bytes | FormBody

record api_request =
  rq_method :: string
  rq_path :: string
  rq_body :: request_body

abbreviation enc :: "string \<Rightarrow> string" where
  "enc \<equiv> encode_component"

definition get_request :: "string \<Rightarrow> api_request" where
  "get_request path = \<lparr>rq_method = ''GET'', rq_path = path, rq_body = NoBody\<rparr>"

definition send_request :: "string \<Rightarrow> string \<Rightarrow> api_request" where
  "send_request method path = \<lparr>rq_method = method, rq_path = path, rq_body = NoBody\<rparr>"

definition send_json :: "string \<Rightarrow> string \<Rightarrow> json \<Rightarrow> api_request" where
  "send_json method path body = \<lparr>rq_method = method, rq_path = path, rq_body = JsonBody body\<rparr>"

text \<open>\<open>for (const [k, val] of Object.entries(opts)) if (val !== undefined) q.set(k, String(val))\<close>, and
  the form that also leaves out empty strings.\<close>

definition set_defined :: "(string \<times> string option) list \<Rightarrow> params \<Rightarrow> params" where
  "set_defined opts q = fold (\<lambda>(k, v) q. case v of None \<Rightarrow> q | Some x \<Rightarrow> jm_set k x q) opts q"

definition set_filled :: "(string \<times> string option) list \<Rightarrow> params \<Rightarrow> params" where
  "set_filled opts q = fold (\<lambda>(k, v) q. if truthy v then jm_set k (the v) q else q) opts q"

definition with_conn :: "(string, string) jsmap \<Rightarrow> string \<Rightarrow> string \<Rightarrow> (string \<times> string option) list \<Rightarrow> string" where
  "with_conn overrides path conn ps =
     (let q = [(''connId'', conn)];
          domain = jm_get overrides conn;
          q1 = (if truthy domain then jm_set ''domain'' (the domain) q else q)
      in path @ CHR ''?'' # params_text (set_filled ps q1))"

subsection \<open>Connections\<close>

definition api_connect :: "json \<Rightarrow> api_request" where
  "api_connect config = send_json ''POST'' ''/connect'' config"

definition api_disconnect :: "string \<Rightarrow> api_request" where
  "api_disconnect conn = send_json ''POST'' ''/disconnect'' (JObj [(''connId'', JStr conn)])"

definition api_disconnect_all :: "api_request" where
  "api_disconnect_all = send_request ''POST'' ''/disconnect-all''"

definition api_get_connections :: "api_request" where
  "api_get_connections = get_request ''/connections''"

definition api_set_subscriptions :: "string \<Rightarrow> string list \<Rightarrow> api_request" where
  "api_set_subscriptions conn subscriptions =
     send_json ''PUT'' (''/connections/'' @ enc conn @ ''/subscriptions'') (JObj [(''subscriptions'', JArr (map JStr subscriptions))])"

definition api_connection_log :: "string \<Rightarrow> api_request" where
  "api_connection_log conn = get_request (''/connections/'' @ enc conn @ ''/log'')"

definition api_get_server_info :: "string \<Rightarrow> api_request" where
  "api_get_server_info conn = get_request (''/server/'' @ enc conn)"

definition api_cluster_overview :: "string \<Rightarrow> api_request" where
  "api_cluster_overview conn = get_request (''/cluster/'' @ enc conn @ ''/overview'')"

definition api_cluster_topology :: "string \<Rightarrow> api_request" where
  "api_cluster_topology conn = get_request (''/cluster/'' @ enc conn @ ''/topology'')"

subsection \<open>Monitoring and history\<close>

definition api_get_monitoring :: "string \<Rightarrow> string \<Rightarrow> params \<Rightarrow> api_request" where
  "api_get_monitoring conn endpoint ps =
     (let qs = params_text (fold (\<lambda>(k, v). jm_set k v) ps []) in
     get_request (''/monitoring/'' @ enc conn @ ''/'' @ endpoint @ (if qs \<noteq> [] then CHR ''?'' # qs else [])))"

definition api_get_history :: "string \<Rightarrow> (string \<times> string option) list \<Rightarrow> api_request" where
  "api_get_history subject opts =
     get_request (''/history?'' @ params_text (set_defined opts [(''subject'', subject)]))"

definition api_get_history_range :: "string \<Rightarrow> string \<Rightarrow> (string \<times> string option) list \<Rightarrow> api_request" where
  "api_get_history_range subject from opts =
     get_request (''/history/range?'' @ params_text (set_filled opts [(''subject'', subject), (''from'', from)]))"

definition api_search_history :: "string \<Rightarrow> string \<Rightarrow> (string \<times> string option) list \<Rightarrow> api_request" where
  "api_search_history subject q opts =
     get_request (''/history/search?'' @ params_text (set_defined opts [(''subject'', subject), (''q'', q)]))"

definition api_get_series :: "string \<Rightarrow> string \<Rightarrow> (string \<times> string option) list \<Rightarrow> api_request" where
  "api_get_series subject field opts =
     get_request (''/history/series?'' @ params_text (set_defined opts [(''subject'', subject), (''field'', field)]))"

definition api_get_history_fields :: "string \<Rightarrow> string option \<Rightarrow> api_request" where
  "api_get_history_fields subject conn = get_request (''/history/fields?subject='' @ enc subject @
     (if truthy conn then ''&connId='' @ enc (the conn) else []))"

definition api_clear_history :: "string option \<Rightarrow> api_request" where
  "api_clear_history conn =
     send_request ''DELETE'' (''/history'' @ (if truthy conn then ''?connId='' @ enc (the conn) else []))"

definition api_clear_subject_history :: "string \<Rightarrow> bool \<Rightarrow> string option \<Rightarrow> api_request" where
  "api_clear_subject_history subject branch conn =
     send_request ''DELETE'' (''/history?'' @ params_text
     (set_filled [(''branch'', if branch then Some ''1'' else None), (''connId'', conn)] [(''subject'', subject)]))"

definition api_get_history_persistence :: "api_request" where
  "api_get_history_persistence = get_request ''/history/persistence''"

definition api_set_history_persistence :: "json \<Rightarrow> api_request" where
  "api_set_history_persistence input = send_json ''PUT'' ''/history/persistence'' input"

subsection \<open>Publishing, updates and tokens\<close>

definition api_publish :: "string \<Rightarrow> (string \<times> json) list \<Rightarrow> api_request" where
  "api_publish conn data = send_json ''POST'' ''/publish'' (JObj (jm_set ''connId'' (JStr conn) data))"

definition api_request_reply :: "string \<Rightarrow> (string \<times> json) list \<Rightarrow> api_request" where
  "api_request_reply conn data =
     send_json ''POST'' ''/request'' (JObj (jm_set ''connId'' (JStr conn) data))"

definition api_run :: "string \<Rightarrow> (string \<times> json) list \<Rightarrow> api_request" where
  "api_run conn data = send_json ''POST'' ''/run'' (JObj (jm_set ''connId'' (JStr conn) data))"

definition api_list_contexts :: "api_request" where
  "api_list_contexts = get_request ''/contexts''"

definition api_get_update :: "api_request" where
  "api_get_update = get_request ''/update''"

definition api_start_update :: "api_request" where
  "api_start_update = send_request ''POST'' ''/update''"

definition api_install_update_files :: "api_request" where
  "api_install_update_files =
     \<lparr>rq_method = ''POST'', rq_path = ''/update/file'', rq_body = FormBody\<rparr>"

definition api_rollback_update :: "api_request" where
  "api_rollback_update = send_request ''POST'' ''/update/rollback''"

definition api_restart_for_update :: "api_request" where
  "api_restart_for_update = send_request ''POST'' ''/update/restart''"

definition api_list_tokens :: "api_request" where
  "api_list_tokens = get_request ''/tokens''"

definition api_create_token :: "string \<Rightarrow> bool \<Rightarrow> api_request" where
  "api_create_token name admin =
     send_json ''POST'' ''/tokens'' (JObj [(''name'', JStr name), (''role'', JStr (if admin then ''admin'' else ''viewer''))])"

definition api_delete_token :: "string \<Rightarrow> api_request" where
  "api_delete_token i = send_request ''DELETE'' (''/tokens/'' @ enc i)"

subsection \<open>Streams\<close>

definition api_list_streams :: "(string, string) jsmap \<Rightarrow> string \<Rightarrow> api_request" where
  "api_list_streams overrides conn = get_request (with_conn overrides ''/streams'' conn [])"

definition api_get_stream :: "(string, string) jsmap \<Rightarrow> string \<Rightarrow> string \<Rightarrow> api_request" where
  "api_get_stream overrides conn name =
     get_request (with_conn overrides (''/streams/'' @ enc name) conn [])"

definition api_match_subject :: "(string, string) jsmap \<Rightarrow> string \<Rightarrow> string \<Rightarrow> api_request" where
  "api_match_subject overrides conn subject =
     get_request (with_conn overrides ''/match'' conn [(''subject'', Some subject)])"

definition api_create_stream :: "(string, string) jsmap \<Rightarrow> string \<Rightarrow> json \<Rightarrow> api_request" where
  "api_create_stream overrides conn config =
     send_json ''POST'' (with_conn overrides ''/streams'' conn []) config"

definition api_update_stream :: "(string, string) jsmap \<Rightarrow> string \<Rightarrow> string \<Rightarrow> json \<Rightarrow> api_request" where
  "api_update_stream overrides conn name config =
     send_json ''PUT'' (with_conn overrides (''/streams/'' @ enc name) conn []) config"

definition api_delete_stream :: "(string, string) jsmap \<Rightarrow> string \<Rightarrow> string \<Rightarrow> api_request" where
  "api_delete_stream overrides conn name =
     send_request ''DELETE'' (with_conn overrides (''/streams/'' @ enc name) conn [])"

definition api_purge_stream :: "(string, string) jsmap \<Rightarrow> string \<Rightarrow> string \<Rightarrow> string option \<Rightarrow> api_request" where
  "api_purge_stream overrides conn name subject =
     send_request ''POST'' (with_conn overrides (''/streams/'' @ enc name @ ''/purge'') conn [(''subject'', subject)])"

definition api_get_stream_messages :: "(string, string) jsmap \<Rightarrow> string \<Rightarrow> string \<Rightarrow> (string \<times> string option) list \<Rightarrow> api_request" where
  "api_get_stream_messages overrides conn name opts =
     get_request (with_conn overrides (''/streams/'' @ enc name @ ''/messages'') conn opts)"

definition api_get_last_stream_message :: "(string, string) jsmap \<Rightarrow> string \<Rightarrow> string \<Rightarrow> string \<Rightarrow> api_request" where
  "api_get_last_stream_message overrides conn name subject =
     get_request (with_conn overrides (''/streams/'' @ enc name @ ''/last'') conn [(''subject'', Some subject)])"

definition api_get_stream_config :: "(string, string) jsmap \<Rightarrow> string \<Rightarrow> string \<Rightarrow> api_request" where
  "api_get_stream_config overrides conn name =
     get_request (with_conn overrides (''/streams/'' @ enc name @ ''/config'') conn [])"

definition api_step_down_stream :: "(string, string) jsmap \<Rightarrow> string \<Rightarrow> string \<Rightarrow> api_request" where
  "api_step_down_stream overrides conn name =
     send_request ''POST'' (with_conn overrides (''/streams/'' @ enc name @ ''/stepdown'') conn [])"

definition api_remove_stream_peer :: "(string, string) jsmap \<Rightarrow> string \<Rightarrow> string \<Rightarrow> string \<Rightarrow> api_request" where
  "api_remove_stream_peer overrides conn name peer =
     send_json ''POST'' (with_conn overrides (''/streams/'' @ enc name @ ''/peer-remove'') conn []) (JObj [(''peer'', JStr peer)])"

definition api_step_down_consumer :: "(string, string) jsmap \<Rightarrow> string \<Rightarrow> string \<Rightarrow> string \<Rightarrow> api_request" where
  "api_step_down_consumer overrides conn stream consumer =
     send_request ''POST'' (with_conn overrides (''/streams/'' @ enc stream @ ''/consumers/'' @ enc consumer @ ''/stepdown'') conn [])"

definition api_reload_server :: "string \<Rightarrow> string \<Rightarrow> api_request" where
  "api_reload_server conn server =
     send_json ''POST'' (''/cluster/'' @ enc conn @ ''/reload'') (JObj [(''serverId'', JStr server)])"

definition api_meta_step_down :: "string \<Rightarrow> api_request" where
  "api_meta_step_down conn = send_request ''POST'' (''/cluster/'' @ enc conn @ ''/meta-stepdown'')"

definition api_seal_stream :: "(string, string) jsmap \<Rightarrow> string \<Rightarrow> string \<Rightarrow> api_request" where
  "api_seal_stream overrides conn name =
     send_request ''POST'' (with_conn overrides (''/streams/'' @ enc name @ ''/seal'') conn [])"

definition api_get_stream_backup_url :: "string \<Rightarrow> (string, string) jsmap \<Rightarrow> string \<Rightarrow> string \<Rightarrow> bool \<Rightarrow> string" where
  "api_get_stream_backup_url base_url overrides conn name consumers =
     base_url @ with_conn overrides (''/streams/'' @ enc name @ ''/backup'') conn
     (if consumers then [(''consumers'', Some ''1'')] else [])"

definition api_restore_stream :: "(string, string) jsmap \<Rightarrow> string \<Rightarrow> bytes \<Rightarrow> api_request" where
  "api_restore_stream overrides conn file =
     \<lparr>rq_method = ''POST'', rq_path = with_conn overrides ''/streams-restore'' conn [], rq_body = RawBody file\<rparr>"

definition api_get_stream_gaps :: "(string, string) jsmap \<Rightarrow> string \<Rightarrow> string \<Rightarrow> api_request" where
  "api_get_stream_gaps overrides conn name =
     get_request (with_conn overrides (''/streams/'' @ enc name @ ''/gaps'') conn [])"

definition api_get_stream_seq_at :: "(string, string) jsmap \<Rightarrow> string \<Rightarrow> string \<Rightarrow> int \<Rightarrow> api_request" where
  "api_get_stream_seq_at overrides conn name time =
     get_request (with_conn overrides (''/streams/'' @ enc name @ ''/seq'') conn [(''time'', Some (int_str time))])"

definition api_get_stream_series :: "(string, string) jsmap \<Rightarrow> string \<Rightarrow> string \<Rightarrow> (string \<times> string option) list \<Rightarrow> api_request" where
  "api_get_stream_series overrides conn name opts =
     get_request (with_conn overrides (''/streams/'' @ enc name @ ''/series'') conn opts)"

definition api_delete_stream_message :: "(string, string) jsmap \<Rightarrow> string \<Rightarrow> string \<Rightarrow> int \<Rightarrow> api_request" where
  "api_delete_stream_message overrides conn stream seq =
     send_request ''DELETE'' (with_conn overrides (''/streams/'' @ enc stream @ ''/messages/'' @ int_str seq) conn [])"

subsection \<open>Consumers\<close>

definition api_list_consumers :: "(string, string) jsmap \<Rightarrow> string \<Rightarrow> string \<Rightarrow> api_request" where
  "api_list_consumers overrides conn stream =
     get_request (with_conn overrides (''/streams/'' @ enc stream @ ''/consumers'') conn [])"

definition api_get_consumer :: "(string, string) jsmap \<Rightarrow> string \<Rightarrow> string \<Rightarrow> string \<Rightarrow> api_request" where
  "api_get_consumer overrides conn stream consumer =
     get_request (with_conn overrides (''/streams/'' @ enc stream @ ''/consumers/'' @ enc consumer) conn [])"

definition api_create_consumer :: "(string, string) jsmap \<Rightarrow> string \<Rightarrow> string \<Rightarrow> json \<Rightarrow> api_request" where
  "api_create_consumer overrides conn stream config =
     send_json ''POST'' (with_conn overrides (''/streams/'' @ enc stream @ ''/consumers'') conn []) config"

definition api_next_messages :: "(string, string) jsmap \<Rightarrow> string \<Rightarrow> string \<Rightarrow> string \<Rightarrow> rat \<Rightarrow> rat \<Rightarrow> api_request" where
  "api_next_messages overrides conn stream consumer batch wait_ms =
     send_json ''POST'' (with_conn overrides (''/streams/'' @ enc stream @ ''/consumers/'' @ enc consumer @ ''/next'') conn []) (JObj [(''batch'', JNum batch), (''waitMs'', JNum wait_ms)])"

definition api_ack_message :: "(string, string) jsmap \<Rightarrow> string \<Rightarrow> string \<Rightarrow> string \<Rightarrow> string \<Rightarrow> string \<Rightarrow> rat option \<Rightarrow> api_request" where
  "api_ack_message overrides conn stream consumer reply action delay_ms =
     send_json ''POST'' (with_conn overrides (''/streams/'' @ enc stream @ ''/consumers/'' @ enc consumer @ ''/ack'') conn [])
     (JObj ([(''reply'', JStr reply), (''action'', JStr action)] @
       (case delay_ms of None \<Rightarrow> [] | Some d \<Rightarrow> [(''delayMs'', JNum d)])))"

definition api_pause_consumer :: "(string, string) jsmap \<Rightarrow> string \<Rightarrow> string \<Rightarrow> string \<Rightarrow> rat \<Rightarrow> api_request" where
  "api_pause_consumer overrides conn stream consumer seconds =
     send_json ''POST'' (with_conn overrides (''/streams/'' @ enc stream @ ''/consumers/'' @ enc consumer @ ''/pause'') conn []) (JObj [(''seconds'', JNum seconds)])"

definition api_resume_consumer :: "(string, string) jsmap \<Rightarrow> string \<Rightarrow> string \<Rightarrow> string \<Rightarrow> api_request" where
  "api_resume_consumer overrides conn stream consumer =
     send_request ''POST'' (with_conn overrides (''/streams/'' @ enc stream @ ''/consumers/'' @ enc consumer @ ''/resume'') conn [])"

definition api_update_consumer :: "(string, string) jsmap \<Rightarrow> string \<Rightarrow> string \<Rightarrow> string \<Rightarrow> json \<Rightarrow> api_request" where
  "api_update_consumer overrides conn stream consumer config =
     send_json ''PUT'' (with_conn overrides (''/streams/'' @ enc stream @ ''/consumers/'' @ enc consumer) conn []) config"

definition api_delete_consumer :: "(string, string) jsmap \<Rightarrow> string \<Rightarrow> string \<Rightarrow> string \<Rightarrow> api_request" where
  "api_delete_consumer overrides conn stream consumer =
     send_request ''DELETE'' (with_conn overrides (''/streams/'' @ enc stream @ ''/consumers/'' @ enc consumer) conn [])"

subsection \<open>KV buckets\<close>

definition api_list_kv_buckets :: "(string, string) jsmap \<Rightarrow> string \<Rightarrow> api_request" where
  "api_list_kv_buckets overrides conn =
     get_request (with_conn overrides ''/kv'' conn [])"

definition api_create_kv_bucket :: "(string, string) jsmap \<Rightarrow> string \<Rightarrow> json \<Rightarrow> api_request" where
  "api_create_kv_bucket overrides conn config =
     send_json ''POST'' (with_conn overrides ''/kv'' conn []) config"

definition api_update_kv_bucket :: "(string, string) jsmap \<Rightarrow> string \<Rightarrow> string \<Rightarrow> json \<Rightarrow> api_request" where
  "api_update_kv_bucket overrides conn bucket config =
     send_json ''PUT'' (with_conn overrides (''/kv/'' @ enc bucket) conn []) config"

definition api_delete_kv_keys :: "(string, string) jsmap \<Rightarrow> string \<Rightarrow> string \<Rightarrow> string list \<Rightarrow> bool \<Rightarrow> api_request" where
  "api_delete_kv_keys overrides conn bucket keys purge =
     send_json ''POST'' (with_conn overrides (''/kv-bulk-delete/'' @ enc bucket) conn []) (JObj [(''keys'', JArr (map JStr keys)), (''purge'', JBool purge)])"

definition api_delete_kv_bucket :: "(string, string) jsmap \<Rightarrow> string \<Rightarrow> string \<Rightarrow> api_request" where
  "api_delete_kv_bucket overrides conn bucket =
     send_request ''DELETE'' (with_conn overrides (''/kv/'' @ enc bucket) conn [])"

definition api_list_kv_keys :: "(string, string) jsmap \<Rightarrow> string \<Rightarrow> string \<Rightarrow> api_request" where
  "api_list_kv_keys overrides conn bucket =
     get_request (with_conn overrides (''/kv/'' @ enc bucket) conn [])"

definition api_get_kv_entry :: "(string, string) jsmap \<Rightarrow> string \<Rightarrow> string \<Rightarrow> string \<Rightarrow> api_request" where
  "api_get_kv_entry overrides conn bucket key =
     get_request (with_conn overrides (''/kv/'' @ enc bucket @ ''/'' @ enc key) conn [])"

definition api_put_kv_entry :: "(string, string) jsmap \<Rightarrow> string \<Rightarrow> string \<Rightarrow> string \<Rightarrow> string \<Rightarrow> rat option \<Rightarrow> api_request" where
  "api_put_kv_entry overrides conn bucket key value revision =
     send_json ''PUT'' (with_conn overrides (''/kv/'' @ enc bucket @ ''/'' @ enc key) conn [])
     (JObj ((''value'', JStr value) # (case revision of None \<Rightarrow> [] | Some r \<Rightarrow> [(''revision'', JNum r)])))"

definition api_delete_kv_entry :: "(string, string) jsmap \<Rightarrow> string \<Rightarrow> string \<Rightarrow> string \<Rightarrow> api_request" where
  "api_delete_kv_entry overrides conn bucket key =
     send_request ''DELETE'' (with_conn overrides (''/kv/'' @ enc bucket @ ''/'' @ enc key) conn [])"

definition api_purge_kv_key :: "(string, string) jsmap \<Rightarrow> string \<Rightarrow> string \<Rightarrow> string \<Rightarrow> api_request" where
  "api_purge_kv_key overrides conn bucket key =
     send_request ''POST'' (with_conn overrides (''/kv/'' @ enc bucket @ ''/'' @ enc key @ ''/purge'') conn [])"

subsection \<open>Object stores\<close>

definition api_list_object_stores :: "(string, string) jsmap \<Rightarrow> string \<Rightarrow> api_request" where
  "api_list_object_stores overrides conn =
     get_request (with_conn overrides ''/objectstore'' conn [])"

definition api_create_object_store :: "(string, string) jsmap \<Rightarrow> string \<Rightarrow> json \<Rightarrow> api_request" where
  "api_create_object_store overrides conn config =
     send_json ''POST'' (with_conn overrides ''/objectstore'' conn []) config"

definition api_delete_object_store :: "(string, string) jsmap \<Rightarrow> string \<Rightarrow> string \<Rightarrow> api_request" where
  "api_delete_object_store overrides conn store =
     send_request ''DELETE'' (with_conn overrides (''/objectstore/'' @ enc store) conn [])"

definition api_list_objects :: "(string, string) jsmap \<Rightarrow> string \<Rightarrow> string \<Rightarrow> api_request" where
  "api_list_objects overrides conn store =
     get_request (with_conn overrides (''/objectstore/'' @ enc store) conn [])"

definition api_seal_object_store :: "(string, string) jsmap \<Rightarrow> string \<Rightarrow> string \<Rightarrow> api_request" where
  "api_seal_object_store overrides conn store =
     send_request ''POST'' (with_conn overrides (''/objectstore-seal/'' @ enc store) conn [])"

definition api_delete_objects :: "(string, string) jsmap \<Rightarrow> string \<Rightarrow> string \<Rightarrow> string list \<Rightarrow> api_request" where
  "api_delete_objects overrides conn store names =
     send_json ''POST'' (with_conn overrides (''/objectstore-bulk-delete/'' @ enc store) conn []) (JObj [(''names'', JArr (map JStr names))])"

definition api_delete_object :: "(string, string) jsmap \<Rightarrow> string \<Rightarrow> string \<Rightarrow> string \<Rightarrow> api_request" where
  "api_delete_object overrides conn store name =
     send_request ''DELETE'' (with_conn overrides (''/objectstore/'' @ enc store @ ''/'' @ enc name) conn [])"

definition api_get_object_url :: "string \<Rightarrow> (string, string) jsmap \<Rightarrow> string \<Rightarrow> string \<Rightarrow> string \<Rightarrow> string" where
  "api_get_object_url base_url overrides conn store name =
     base_url @ with_conn overrides (''/objectstore/'' @ enc store @ ''/'' @ enc name) conn []"

definition api_auth_info :: "api_request" where
  "api_auth_info = get_request ''/auth''"

subsection \<open>Search and services\<close>

definition api_search :: "(string, string) jsmap \<Rightarrow> string \<Rightarrow> string \<Rightarrow> api_request" where
  "api_search overrides conn q =
     get_request (with_conn overrides ''/search'' conn [(''q'', Some q)])"

definition api_discover_services :: "(string, string) jsmap \<Rightarrow> string \<Rightarrow> api_request" where
  "api_discover_services overrides conn =
     get_request (with_conn overrides ''/services'' conn [])"

definition api_get_service_stats :: "(string, string) jsmap \<Rightarrow> string \<Rightarrow> api_request" where
  "api_get_service_stats overrides conn =
     get_request (with_conn overrides ''/services/stats'' conn [])"

definition api_ping_services :: "(string, string) jsmap \<Rightarrow> string \<Rightarrow> api_request" where
  "api_ping_services overrides conn = get_request (with_conn overrides ''/services/ping'' conn [])"

subsection \<open>The other clients: alerts, audit, schemas, bundles\<close>

definition alerts_list :: "api_request" where
  "alerts_list = get_request ''/alerts''"

definition alerts_rules :: "api_request" where
  "alerts_rules = get_request ''/alerts/rules''"

definition alerts_events :: "nat \<Rightarrow> api_request" where
  "alerts_events limit = get_request (''/alerts/events?limit='' @ nat_str limit)"

definition alerts_save_all :: "json \<Rightarrow> api_request" where
  "alerts_save_all rules = send_json ''PUT'' ''/alerts/rules'' rules"

definition alerts_save :: "string \<Rightarrow> json \<Rightarrow> api_request" where
  "alerts_save i rule = send_json ''PUT'' (''/alerts/rules/'' @ enc i) rule"

definition alerts_remove :: "string \<Rightarrow> api_request" where
  "alerts_remove i = send_request ''DELETE'' (''/alerts/rules/'' @ enc i)"

definition alerts_test :: "string \<Rightarrow> json \<Rightarrow> api_request" where
  "alerts_test i rule = send_json ''POST'' (''/alerts/rules/'' @ enc i @ ''/test'') rule"

definition alerts_ack :: "string \<Rightarrow> bool \<Rightarrow> api_request" where
  "alerts_ack key acked =
     send_json ''POST'' ''/alerts/ack'' (JObj [(''key'', JStr key), (''acked'', JBool acked)])"

definition alerts_maintenance :: "api_request" where
  "alerts_maintenance = get_request ''/alerts/maintenance''"

definition alerts_save_maintenance :: "json \<Rightarrow> api_request" where
  "alerts_save_maintenance windows = send_json ''PUT'' ''/alerts/maintenance'' windows"

definition get_audit :: "(string \<times> string option) list \<Rightarrow> api_request" where
  "get_audit q = (let p = set_filled q [] in
     get_request (''/audit'' @ (if p \<noteq> [] then CHR ''?'' # params_text p else [])))"

definition object_of :: "string \<Rightarrow> string" where
  "object_of path = (let first = hd (split_on CHR ''/''
       (if starts_with path ''/api/'' then drop 5 path else path))
     in if first \<noteq> [] then first else path)"

datatype audit_tone = AuditOk | AuditWarn | AuditDanger

definition status_tone :: "nat \<Rightarrow> audit_tone" where
  "status_tone status =
     (if status \<ge> 500 then AuditDanger else if status \<ge> 400 then AuditWarn else AuditOk)"

record schema_field =
  sf_path :: string
  sf_types :: "(string \<times> nat) list"
  sf_presence :: rat

record pinned_field =
  pf_path :: string
  pf_types :: "string list"
  pf_required :: bool

definition pinnable_fields :: "schema_field list \<Rightarrow> pinned_field list" where
  "pinnable_fields fs = map (\<lambda>f. \<lparr>pf_path = sf_path f,
     pf_types = js_sort by_code_units (js_uniq (map fst (sf_types f))),
     pf_required = (sf_presence f \<ge> 1)\<rparr>) fs"

definition schemas_list :: "api_request" where
  "schemas_list = get_request ''/schemas''"

definition schemas_pin :: "json \<Rightarrow> api_request" where
  "schemas_pin input = send_json ''PUT'' ''/schemas'' input"

definition schemas_unpin :: "string \<Rightarrow> api_request" where
  "schemas_unpin pattern = send_request ''DELETE'' (''/schemas?pattern='' @ enc pattern)"

definition schemas_check :: "string \<Rightarrow> string \<Rightarrow> string \<Rightarrow> api_request" where
  "schemas_check subject payload kind = send_json ''POST'' ''/schemas/check''
     (JObj [(''subject'', JStr subject), (''payload'', JStr payload), (''kind'', JStr kind)])"

definition get_schema :: "string \<Rightarrow> (string \<times> string option) list \<Rightarrow> api_request" where
  "get_schema subject opts =
     get_request (''/schema?'' @ params_text (set_filled opts [(''subject'', subject)]))"

subsection \<open>Where the backend lives\<close>

text \<open>\<open>base\<close> is \<open>new URL('.', document.baseURI).pathname\<close>, \<open>None\<close> when there is no document.\<close>

definition base_path :: "string option \<Rightarrow> string" where
  "base_path base = (case base of Some p \<Rightarrow> p | None \<Rightarrow> ''/'')"

definition drop_last_slash :: "string \<Rightarrow> string" where
  "drop_last_slash s = (if s \<noteq> [] \<and> last s = CHR ''/'' then butlast s else s)"

definition server_url :: "string option \<Rightarrow> string \<Rightarrow> string" where
  "server_url base path = drop_last_slash (base_path base) @
     (if starts_with path ''/'' then path else CHR ''/'' # path)"

definition socket_url :: "string option \<Rightarrow> string \<Rightarrow> string \<Rightarrow> string" where
  "socket_url base protocol host =
     (if protocol = ''https:'' then ''wss:'' else ''ws:'') @ ''//'' @ host @ server_url base ''/ws''"

text \<open>A range has \<open>from\<close>, \<open>to\<close> and \<open>limit\<close> as the printed numbers; \<open>None\<close> is undefined or 0.\<close>

definition bundle_url ::
    "string option \<Rightarrow> string \<Rightarrow> string option \<Rightarrow> string option \<Rightarrow> string option \<Rightarrow> string option \<Rightarrow> string" where
  "bundle_url base conn from until subject limit =
     (let add = (\<lambda>k v p. case v of None \<Rightarrow> p | Some x \<Rightarrow> jm_set k x p);
          name = (case subject of None \<Rightarrow> None | Some s \<Rightarrow> or_undefined (trim s));
          p = add ''limit'' limit (add ''subject'' name (add ''to'' until (add ''from'' from [(''connId'', conn)])))
      in server_url base (''/api/bundle?'' @ params_text p))"

definition bundle_get :: "string \<Rightarrow> api_request" where
  "bundle_get i = get_request (''/bundle/'' @ enc i)"

definition bundle_close :: "string \<Rightarrow> api_request" where
  "bundle_close i = send_request ''DELETE'' (''/bundle/'' @ enc i)"

subsection \<open>Answers\<close>

text \<open>What \<open>fetch\<close> gives: the message of the network error or an answer; what a call gives: an
  \<open>ApiError\<close> with its message and status, or the parsed body. \<open>parse\<close> is \<open>JSON.parse\<close>.\<close>

record answer =
  an_status :: nat
  an_status_text :: string
  an_text :: string

type_synonym api_error = "string \<times> nat"

definition answer_ok :: "answer \<Rightarrow> bool" where
  "answer_ok a = (200 \<le> an_status a \<and> an_status a \<le> 299)"

definition status_line :: "answer \<Rightarrow> string" where
  "status_line a = nat_str (an_status a) @ CHR '' '' # an_status_text a"

fun json_truthy :: "json option \<Rightarrow> bool" where
  "json_truthy None = False"
| "json_truthy (Some JNull) = False"
| "json_truthy (Some (JBool b)) = b"
| "json_truthy (Some (JNum n)) = (n \<noteq> 0)"
| "json_truthy (Some (JStr s)) = (s \<noteq> [])"
| "json_truthy (Some (JArr _)) = True"
| "json_truthy (Some (JObj _)) = True"

definition error_text :: "(rat \<Rightarrow> string) \<Rightarrow> json \<Rightarrow> answer \<Rightarrow> string" where
  "error_text num data a = (let e = json_field data ''error'' in
     if json_truthy e then js_string num (the e) else status_line a)"

definition body_json :: "(string \<Rightarrow> json option) \<Rightarrow> string \<Rightarrow> json option" where
  "body_json parse s = (if s \<noteq> [] then parse s else Some JNull)"

definition auth_required :: "api_error" where
  "auth_required = (''Authentication required'', 401)"

definition read_only :: "api_error" where
  "read_only = (''Read-only account: this needs the admin role'', 403)"

definition json_header :: "api_request \<Rightarrow> string option" where
  "json_header rq = (case rq_body rq of JsonBody _ \<Rightarrow> Some ''application/json'' | _ \<Rightarrow> None)"

definition request ::
    "(rat \<Rightarrow> string) \<Rightarrow> (string \<Rightarrow> json option) \<Rightarrow> string + answer \<Rightarrow> api_error + json" where
  "request num parse res = (case res of
       Inl e \<Rightarrow> Inl (''Backend unreachable: '' @ e, 0)
     | Inr a \<Rightarrow>
         if an_status a = 401 then Inl auth_required
         else if an_status a = 403 then Inl read_only
         else (case body_json parse (an_text a) of
             None \<Rightarrow> Inl (if \<not> answer_ok a then status_line a else ''Unexpected non-JSON response'', an_status a)
           | Some data \<Rightarrow>
               if \<not> answer_ok a then Inl (error_text num data a, an_status a) else Inr data))"

text \<open>An upload (\<open>putObject\<close>): its request, and the event that settles its promise. An upload whose
  signal has already fired is never sent.\<close>

definition api_put_object :: "(string, string) jsmap \<Rightarrow> string \<Rightarrow> string \<Rightarrow> string \<Rightarrow> bytes \<Rightarrow> string option \<Rightarrow> api_request" where
  "api_put_object overrides conn store name file description =
     \<lparr>rq_method = ''PUT'',
      rq_path = with_conn overrides (''/objectstore/'' @ enc store @ ''/'' @ enc name) conn [(''description'', description)],
      rq_body = RawBody file\<rparr>"

datatype upload_event = UploadProgress nat nat bool | UploadError | UploadAbort | UploadLoad answer

definition upload_load ::
    "(rat \<Rightarrow> string) \<Rightarrow> (string \<Rightarrow> json option) \<Rightarrow> answer \<Rightarrow> api_error + json" where
  "upload_load num parse a =
     (if an_status a = 401 then Inl auth_required
      else if an_status a = 403 then Inl read_only
      else (case body_json parse (an_text a) of
          None \<Rightarrow> Inl (if an_status a \<ge> 400 then status_line a else ''Unexpected non-JSON response'', an_status a)
        | Some data \<Rightarrow>
            if an_status a \<ge> 400 then Inl (error_text num data a, an_status a) else Inr data))"

definition upload_progress :: "nat \<Rightarrow> nat \<Rightarrow> nat \<Rightarrow> bool \<Rightarrow> nat \<times> nat" where
  "upload_progress file_size loaded whole computable = (loaded, if computable then whole else file_size)"

fun upload_outcome ::
    "(rat \<Rightarrow> string) \<Rightarrow> (string \<Rightarrow> json option) \<Rightarrow> bool \<Rightarrow> upload_event list \<Rightarrow> (api_error + json) option" where
  "upload_outcome num parse True es = Some (Inl (''Upload cancelled'', 0))"
| "upload_outcome num parse False [] = None"
| "upload_outcome num parse False (UploadProgress _ _ _ # es) = upload_outcome num parse False es"
| "upload_outcome num parse False (UploadError # es) = Some (Inl (''Backend unreachable: the upload was cut off'', 0))"
| "upload_outcome num parse False (UploadAbort # es) = Some (Inl (''Upload cancelled'', 0))"
| "upload_outcome num parse False (UploadLoad a # es) = Some (upload_load num parse a)"

definition describe_js_error :: "string \<Rightarrow> string option \<Rightarrow> string" where
  "describe_js_error e domain =
     (if sublist ''deadline exceeded'' (to_lower e) \<or> sublist ''timeout'' (to_lower e) then
        (if truthy domain then
           ''No answer from JetStream domain '' @ CHR 0x22 # the domain @ CHR 0x22 #
           ''. Check the domain name and whether that JetStream is reachable through this server.''
         else ''No answer from JetStream within the time limit. Is JetStream enabled on this server or account?'')
      else e)"

subsection \<open>Who the browser is\<close>

datatype auth_mode = LoginNone | LoginToken | LoginUsers | LoginOidc

datatype role = Admin | Viewer | NoRole

record auth_state =
  au_mode :: auth_mode
  authenticated :: bool
  user :: string
  role :: role
  oidc :: bool
  au_connections :: "string list option"
  required :: bool
  ready :: bool

text \<open>The answer of \<open>/api/auth\<close>; an optional field that is absent keeps its value in the store.\<close>

record auth_info =
  in_mode :: auth_mode
  in_authenticated :: bool
  in_user :: string
  in_role :: role
  in_oidc :: "bool option"
  in_connections :: "string list option option"

definition initial_auth :: auth_state where
  "initial_auth = \<lparr>au_mode = LoginNone, authenticated = True, user = [], role = Admin,
     oidc = False, au_connections = None, required = False, ready = False\<rparr>"

definition auth_refreshed :: "auth_info option \<Rightarrow> auth_state \<Rightarrow> auth_state" where
  "auth_refreshed info s = (case info of
       None \<Rightarrow> s\<lparr>ready := True\<rparr>
     | Some i \<Rightarrow> s\<lparr>au_mode := in_mode i, authenticated := in_authenticated i, user := in_user i,
         role := in_role i, oidc := nullish (in_oidc i) (oidc s),
         au_connections := nullish (in_connections i) (au_connections s),
         ready := True, required := \<not> in_authenticated i\<rparr>)"

definition auth_logged_in :: "string \<times> role \<Rightarrow> auth_state \<Rightarrow> auth_state" where
  "auth_logged_in i s =
     s\<lparr>authenticated := True, required := False, user := fst i, role := snd i\<rparr>"

definition auth_logged_out :: "auth_state \<Rightarrow> auth_state" where
  "auth_logged_out s =
     s\<lparr>authenticated := False, required := (au_mode s \<noteq> LoginNone), user := [], role := NoRole\<rparr>"

definition set_required :: "bool \<Rightarrow> auth_state \<Rightarrow> auth_state" where
  "set_required b s = (let s' = s\<lparr>required := b\<rparr> in if b then s'\<lparr>authenticated := False\<rparr> else s')"

definition can_write :: "auth_state \<Rightarrow> bool" where
  "can_write s = (au_mode s = LoginNone \<or> role s = Admin)"

text \<open>What \<open>request\<close> and \<open>putObject\<close> do to the store when an answer arrives.\<close>

definition answer_auth :: "string + answer \<Rightarrow> auth_state \<Rightarrow> auth_state" where
  "answer_auth res s = (case res of Inl _ \<Rightarrow> s | Inr a \<Rightarrow> if an_status a = 401 then set_required True s else s)"

datatype auth_event = Refreshed "auth_info option" | LoggedIn "string \<times> role" | LoginRefused
  | LoggedOut | Answered "string + answer" | Require bool

fun auth_step :: "auth_event \<Rightarrow> auth_state \<Rightarrow> auth_state" where
  "auth_step (Refreshed info) s = auth_refreshed info s"
| "auth_step (LoggedIn i) s = auth_logged_in i s"
| "auth_step LoginRefused s = s"
| "auth_step LoggedOut s = auth_logged_out s"
| "auth_step (Answered res) s = answer_auth res s"
| "auth_step (Require b) s = set_required b s"

subsection \<open>How a request is routed\<close>

text \<open>What the URL standard and the server make of a request: the path up to the question mark, split
  at slashes, \<open>.\<close> and \<open>..\<close> resolved, each word decoded; and the parameters after it.\<close>

fun resolve_dots :: "string list \<Rightarrow> string list \<Rightarrow> string list" where
  "resolve_dots done_words [] = rev done_words"
| "resolve_dots done_words (w # ws) =
     (if w = ''..'' then resolve_dots ((if ws = [] then [[]] else []) @ tl done_words) ws
      else if w = ''.'' then resolve_dots ((if ws = [] then [[]] else []) @ done_words) ws
      else resolve_dots (w # done_words) ws)"

definition url_path :: "string \<Rightarrow> string" where
  "url_path = takeWhile (\<lambda>c. c \<noteq> CHR ''?'')"

definition url_query :: "string \<Rightarrow> string" where
  "url_query s = drop 1 (dropWhile (\<lambda>c. c \<noteq> CHR ''?'') s)"

definition route_words :: "string \<Rightarrow> string list" where
  "route_words s = map decode_component (resolve_dots [] (tl (split_on CHR ''/'' (url_path s))))"

definition route :: "string \<Rightarrow> api_request \<Rightarrow> string \<times> string list \<times> params" where
  "route base_url rq = (let s = base_url @ rq_path rq in
     (rq_method rq, route_words s, parse_params (url_query s)))"

definition plain_base :: "string \<Rightarrow> bool" where
  "plain_base b = (starts_with b ''/'' \<and> CHR ''?'' \<notin> set b \<and>
     (\<forall>w \<in> set (split_on CHR ''/'' b). w \<noteq> ''.'' \<and> w \<noteq> ''..''))"

definition plain_name :: "string \<Rightarrow> bool" where
  "plain_name s = (s \<noteq> ''.'' \<and> s \<noteq> ''..'')"

definition conn_params :: "(string, string) jsmap \<Rightarrow> string \<Rightarrow> params" where
  "conn_params overrides conn = (let d = jm_get overrides conn in
     (''connId'', conn) # (if truthy d then [(''domain'', the d)] else []))"

lemma resolve_plain: "\<forall>w \<in> set ws. w \<noteq> ''.'' \<and> w \<noteq> ''..'' \<Longrightarrow> resolve_dots st ws = rev st @ ws"
  by (induction ws arbitrary: st) simp_all

lemma resolve_append:
  "\<forall>w \<in> set ws. w \<noteq> ''.'' \<and> w \<noteq> ''..'' \<Longrightarrow> resolve_dots st (ws @ vs) = resolve_dots (rev ws @ st) vs"
  by (induction ws arbitrary: st) simp_all

lemma split_on_two: "split_on d (s @ d # t) = split_on d s @ split_on d t"
  by (induction s) (auto split: list.split)

lemma enc_eq_dots: "enc s = ''.'' \<longleftrightarrow> s = ''.''" "enc s = ''..'' \<longleftrightarrow> s = ''..''"
proof -
  have fixed: "enc ''.'' = ''.''" "enc ''..'' = ''..''"
    by (simp_all add: encode_component_def percent_char_def component_safe_def)
  then show "enc s = ''.'' \<longleftrightarrow> s = ''.''" "enc s = ''..'' \<longleftrightarrow> s = ''..''"
    by (metis decode_encode_component)+
qed

lemma enc_no [simp]: "CHR ''/'' \<notin> set (enc s)" "CHR ''?'' \<notin> set (enc s)"
  using encode_component_no_delimiter by blast+

lemma take_enc [simp]:
  "takeWhile (\<lambda>c. c \<noteq> CHR ''?'') (enc s @ t) = enc s @ takeWhile (\<lambda>c. c \<noteq> CHR ''?'') t"
  "dropWhile (\<lambda>c. c \<noteq> CHR ''?'') (enc s @ t) = dropWhile (\<lambda>c. c \<noteq> CHR ''?'') t"
  using enc_no(2) [of s] by (subst takeWhile_append2 dropWhile_append2; force)+

lemma decode_word: "(\<And>c. c \<in> set s \<Longrightarrow> component_safe c) \<Longrightarrow> decode_component s = s"
proof -
  assume a: "\<And>c. c \<in> set s \<Longrightarrow> component_safe c"
  then have "enc s = s"
    by (induction s) (simp_all add: encode_component_def percent_char_def)
  then show ?thesis by (metis decode_encode_component)
qed

definition base_words :: "string \<Rightarrow> string list" where
  "base_words b = map decode_component (tl (split_on CHR ''/'' b))"

lemma route_resolved:
  assumes base: "plain_base b"
    and path: "rq_path rq = CHR ''/'' # p @ q" "CHR ''?'' \<notin> set p" "q = [] \<or> hd q = CHR ''?''"
  shows "route b rq = (rq_method rq, map decode_component
     (resolve_dots (rev (tl (split_on CHR ''/'' b))) (split_on CHR ''/'' p)), parse_params (drop 1 q))"
proof -
  have b: "\<forall>c \<in> set (b @ CHR ''/'' # p). c \<noteq> CHR ''?''"
    using base path(2) by (auto simp: plain_base_def)
  have whole: "b @ rq_path rq = (b @ CHR ''/'' # p) @ q" using path(1) by simp
  have query: "takeWhile (\<lambda>c. c \<noteq> CHR ''?'') q = []" "dropWhile (\<lambda>c. c \<noteq> CHR ''?'') q = q"
    using path(3) by (cases q; auto)+
  have parts: "url_path (b @ rq_path rq) = b @ CHR ''/'' # p" "url_query (b @ rq_path rq) = drop 1 q"
    unfolding whole url_path_def url_query_def
    using query takeWhile_append2 [of "b @ CHR ''/'' # p" "\<lambda>c. c \<noteq> CHR ''?''" q]
      dropWhile_append2 [of "b @ CHR ''/'' # p" "\<lambda>c. c \<noteq> CHR ''?''" q] b
    by (simp_all only: append_Nil2 simp_thms ball_simps Ball_def)
  have "tl (split_on CHR ''/'' (b @ CHR ''/'' # p)) = tl (split_on CHR ''/'' b) @ split_on CHR ''/'' p"
    by (simp only: split_on_two tl_append2 [OF split_on_not_Nil])
  moreover have "\<forall>w \<in> set (tl (split_on CHR ''/'' b)). w \<noteq> ''.'' \<and> w \<noteq> ''..''"
    using base list.set_sel(2) [OF split_on_not_Nil [of "CHR ''/''" b]]
    unfolding plain_base_def by auto
  ultimately show ?thesis
    by (simp only: route_def route_words_def parts Let_def resolve_append append_Nil2)
qed

lemma route_call:
  assumes "plain_base b" "rq_path rq = CHR ''/'' # p @ q" "CHR ''?'' \<notin> set p" "q = [] \<or> hd q = CHR ''?''"
    and words: "\<forall>w \<in> set (split_on CHR ''/'' p). w \<noteq> ''.'' \<and> w \<noteq> ''..''"
  shows "route b rq =
    (rq_method rq, base_words b @ map decode_component (split_on CHR ''/'' p), parse_params (drop 1 q))"
  using route_resolved [OF assms(1-4)] words by (simp add: resolve_plain base_words_def)

lemma split_enc [simp]:
  "split_on CHR ''/'' (enc s) = [enc s]"
  "split_on CHR ''/'' (enc s @ CHR ''/'' # t) = enc s # split_on CHR ''/'' t"
  by (simp_all add: split_on_single split_on_append)

lemma set_filled_params: "set_filled [] q = q"
  by (simp add: set_filled_def)

lemma with_conn_params:
  "with_conn overrides path conn ps = path @ CHR ''?'' # params_text (set_filled ps (conn_params overrides conn))"
  by (simp add: with_conn_def conn_params_def Let_def)

lemma route_with_conn:
  assumes "plain_base b" "CHR ''?'' \<notin> set p" "\<forall>w \<in> set (split_on CHR ''/'' p). w \<noteq> ''.'' \<and> w \<noteq> ''..''"
  shows "route b \<lparr>rq_method = m, rq_path = with_conn overrides (CHR ''/'' # p) conn ps, rq_body = bd\<rparr> =
    (m, base_words b @ map decode_component (split_on CHR ''/'' p), set_filled ps (conn_params overrides conn))"
  using route_call [OF assms(1) _ assms(2) _ assms(3), of _ "CHR ''?'' # params_text (set_filled ps (conn_params overrides conn))"]
  by (simp add: with_conn_params)

lemma route_plain:
  assumes "plain_base b" "CHR ''?'' \<notin> set p" "\<forall>w \<in> set (split_on CHR ''/'' p). w \<noteq> ''.'' \<and> w \<noteq> ''..''"
  shows "route b \<lparr>rq_method = m, rq_path = CHR ''/'' # p, rq_body = bd\<rparr> =
    (m, base_words b @ map decode_component (split_on CHR ''/'' p), [])"
  using route_call [OF assms(1) _ assms(2) _ assms(3), of _ "[]"] by (simp add: parse_params_def)

lemma decode_literal [simp]: "list_all component_safe s \<Longrightarrow> decode_component s = s"
  by (auto simp: list_all_iff intro: decode_word)

lemmas request_simps = get_request_def send_request_def send_json_def

lemmas routing = route_with_conn route_plain request_simps enc_eq_dots decode_encode_component plain_name_def
  set_filled_params component_safe_def url_alnum_def is_digit_def is_upper_def is_lower_def

definition conn_route ::
    "string \<Rightarrow> (string, string) jsmap \<Rightarrow> string \<Rightarrow> string \<Rightarrow> string list \<Rightarrow> string \<times> string list \<times> params" where
  "conn_route b overrides conn m ws = (m, base_words b @ ws, conn_params overrides conn)"

lemma int_str_word [simp]:
  "CHR ''?'' \<notin> set (int_str i)" "CHR ''/'' \<notin> set (int_str i)" "int_str i \<noteq> ''.''" "int_str i \<noteq> ''..''"
  "decode_component (int_str i) = int_str i" "split_on CHR ''/'' (int_str i) = [int_str i]"
proof -
  show no: "CHR ''?'' \<notin> set (int_str i)" "CHR ''/'' \<notin> set (int_str i)"
    using int_str_chars by (force simp: is_digit_def)+
  show "int_str i \<noteq> ''.''" "int_str i \<noteq> ''..''"
    using int_str_chars [of "CHR ''.''" i] by (auto simp: is_digit_def)
  show "decode_component (int_str i) = int_str i"
    using int_str_chars by (intro decode_word) (auto simp: component_safe_def url_alnum_def)
  show "split_on CHR ''/'' (int_str i) = [int_str i]" using no(2) by (rule split_on_single)
qed

lemmas stream_calls =
  api_get_stream_def api_update_stream_def api_delete_stream_def api_get_stream_config_def
  api_step_down_stream_def api_remove_stream_peer_def api_seal_stream_def api_get_stream_gaps_def
  api_delete_stream_message_def api_list_consumers_def api_create_consumer_def api_get_consumer_def
  api_update_consumer_def api_delete_consumer_def api_step_down_consumer_def api_next_messages_def
  api_ack_message_def api_pause_consumer_def api_resume_consumer_def

lemmas bucket_calls =
  api_update_kv_bucket_def api_delete_kv_bucket_def api_delete_kv_keys_def api_list_kv_keys_def
  api_get_kv_entry_def api_put_kv_entry_def api_delete_kv_entry_def api_purge_kv_key_def
  api_list_objects_def api_delete_object_store_def api_seal_object_store_def api_delete_objects_def
  api_delete_object_def


lemma example_base: "plain_base (server_url (Some ''/nats/'') ''/api'')"
  "base_words (server_url (Some ''/nats/'') ''/api'') = [''nats'', ''api'']"
  by (simp_all add: plain_base_def base_words_def server_url_def base_path_def drop_last_slash_def
      component_safe_def url_alnum_def is_digit_def is_upper_def is_lower_def)


text \<open>The same for key-value buckets, object stores and what they hold.\<close>

theorem bucket_calls_keep_route:
  assumes b: "plain_base b" and s: "plain_name s" and k: "plain_name k"
  shows "route b (api_update_kv_bucket ov conn s cfg) = conn_route b ov conn ''PUT'' [''kv'', s]
    \<and> route b (api_delete_kv_bucket ov conn s) = conn_route b ov conn ''DELETE'' [''kv'', s]
    \<and> route b (api_delete_kv_keys ov conn s keys purge) = conn_route b ov conn ''POST'' [''kv-bulk-delete'', s]
    \<and> route b (api_list_kv_keys ov conn s) = conn_route b ov conn ''GET'' [''kv'', s]
    \<and> route b (api_get_kv_entry ov conn s k) = conn_route b ov conn ''GET'' [''kv'', s, k]
    \<and> route b (api_put_kv_entry ov conn s k v revision) = conn_route b ov conn ''PUT'' [''kv'', s, k]
    \<and> route b (api_delete_kv_entry ov conn s k) = conn_route b ov conn ''DELETE'' [''kv'', s, k]
    \<and> route b (api_purge_kv_key ov conn s k) = conn_route b ov conn ''POST'' [''kv'', s, k, ''purge'']
    \<and> route b (api_list_objects ov conn s) = conn_route b ov conn ''GET'' [''objectstore'', s]
    \<and> route b (api_delete_object_store ov conn s) = conn_route b ov conn ''DELETE'' [''objectstore'', s]
    \<and> route b (api_seal_object_store ov conn s) = conn_route b ov conn ''POST'' [''objectstore-seal'', s]
    \<and> route b (api_delete_objects ov conn s names) = conn_route b ov conn ''POST'' [''objectstore-bulk-delete'', s]
    \<and> route b (api_delete_object ov conn s k) = conn_route b ov conn ''DELETE'' [''objectstore'', s, k]"
  using b s k by (simp add: bucket_calls routing conn_route_def)

lemma bucket_calls_keep_route_witness:
  "route (server_url (Some ''/nats/'') ''/api'') (api_purge_kv_key [] ''c1'' ''CONFIG'' ''a/purge'')
     = (''POST'', [''nats'', ''api'', ''kv'', ''CONFIG'', ''a/purge'', ''purge''], [(''connId'', ''c1'')])"
  using bucket_calls_keep_route [OF example_base(1), of "''CONFIG''" "''a/purge''" "[]" "''c1''"]
  by (simp add: plain_name_def conn_route_def conn_params_def example_base(2))

text \<open>An object may be called \<open>..\<close>, and such a name is not encoded: the call to delete it loses the
  name of the store and reaches the route of no object.\<close>

theorem dot_object_loses_route:
  assumes b: "plain_base b" and s: "plain_name s"
  shows "route b (api_delete_object ov conn s ''..'') = conn_route b ov conn ''DELETE'' [''objectstore'', []]
    \<and> route b (api_delete_object ov conn s ''.'') = conn_route b ov conn ''DELETE'' [''objectstore'', s, []]"
proof -
  have dots: "enc ''.'' = ''.''" "enc ''..'' = ''..''" by (simp_all add: enc_eq_dots)
  have path: "rq_path (api_delete_object ov conn s d) =
      CHR ''/'' # (''objectstore/'' @ enc s @ CHR ''/'' # enc d) @ CHR ''?'' # params_text (conn_params ov conn)" for d
    by (simp add: api_delete_object_def request_simps with_conn_params set_filled_params)
  have base: "map decode_component (tl (split_on CHR ''/'' b)) = base_words b" by (simp add: base_words_def)
  show ?thesis
    using s base
    by (simp add: route_resolved [OF b path] dots conn_route_def plain_name_def enc_eq_dots decode_encode_component)
       (simp add: api_delete_object_def request_simps component_safe_def url_alnum_def is_digit_def is_upper_def is_lower_def)
qed

lemma dot_object_loses_route_witness:
  "route (server_url (Some ''/nats/'') ''/api'') (api_delete_object [] ''c1'' ''FILES'' ''..'')
     = (''DELETE'', [''nats'', ''api'', ''objectstore'', []], [(''connId'', ''c1'')])"
  using dot_object_loses_route [OF example_base(1), of "''FILES''" "[]" "''c1''"]
  by (simp add: plain_name_def conn_route_def conn_params_def example_base(2))

text \<open>An upload treats the answer of the server the way every other call does: the same data or the
  same error, for every answer but an informational one or a redirect.\<close>

theorem upload_like_request:
  assumes "200 \<le> an_status a" "\<not> (300 \<le> an_status a \<and> an_status a < 400)"
  shows "upload_outcome num parse False (map (\<lambda>(x, y, z). UploadProgress x y z) ps @ UploadLoad a # es)
    = Some (request num parse (Inr a))"
proof -
  have ok: "answer_ok a \<longleftrightarrow> \<not> an_status a \<ge> 400" using assms by (auto simp: answer_ok_def)
  have "upload_load num parse a = request num parse (Inr a)"
    by (simp add: upload_load_def request_def ok split: option.split)
  then show ?thesis by (induction ps) auto
qed

lemma upload_like_request_witness:
  "upload_outcome (\<lambda>_. []) (\<lambda>_. Some (JObj [(''error'', JStr ''sealed'')])) False
     [UploadProgress 10 40 True, UploadLoad \<lparr>an_status = 409, an_status_text = ''Conflict'', an_text = ''e''\<rparr>]
   = Some (Inl (''sealed'', 409))"
  using upload_like_request [of "\<lparr>an_status = 409, an_status_text = ''Conflict'', an_text = ''e''\<rparr>" "\<lambda>_. []"
      "\<lambda>_. Some (JObj [(''error'', JStr ''sealed'')])" "[(10, 40, True)]" "[]"]
  by (simp add: request_def body_json_def answer_ok_def error_text_def Let_def)

text \<open>The errors of a call: its status is that of the answer, and 0 means that there was none.\<close>

theorem request_errors:
  assumes "request num parse res = Inl (msg, st)"
  shows "(case res of Inl _ \<Rightarrow> st = 0 | Inr a \<Rightarrow> st = an_status a)"
  using assms
  by (auto simp: request_def auth_required_def read_only_def split: sum.splits if_splits option.splits)

lemma request_errors_witness:
  "(case Inr \<lparr>an_status = 401, an_status_text = ''Unauthorized'', an_text = []\<rparr> :: string + answer of
      Inl _ \<Rightarrow> (401 :: nat) = 0 | Inr a \<Rightarrow> 401 = an_status a)"
proof (rule request_errors [where num = "\<lambda>_. []" and parse = "\<lambda>_. None" and msg = "''Authentication required''"])
  show "request (\<lambda>_. []) (\<lambda>_. None) (Inr \<lparr>an_status = 401, an_status_text = ''Unauthorized'', an_text = []\<rparr>)
      = Inl (''Authentication required'', 401)"
    by (simp add: request_def auth_required_def)
qed

text \<open>C20: In every order of the events a session that is asked to log in is not authenticated, and who may
  write either needs no login or is an administrator.\<close>

theorem auth_invariant:
  "let s = fold auth_step es initial_auth in \<not> (required s \<and> authenticated s)"
proof -
  have "\<not> (required (auth_step e s) \<and> authenticated (auth_step e s))"
    if "\<not> (required s \<and> authenticated s)" for e s
    using that
    by (cases e) (auto simp: auth_refreshed_def auth_logged_in_def auth_logged_out_def set_required_def
        answer_auth_def Let_def split: option.splits sum.splits)
  then have "\<not> (required (fold auth_step es s) \<and> authenticated (fold auth_step es s))"
    if "\<not> (required s \<and> authenticated s)" for s
    using that by (induction es arbitrary: s) auto
  then show ?thesis by (simp add: Let_def initial_auth_def)
qed

end
