(* ===== verification/LineDiff.thy ===== *)
theory LineDiff
  imports Prelude
begin

text \<open>
  The line diff of two payloads (\<open>client/src/lib/diff.ts\<close>): the table of longest common subsequences,
  filled from the end in an array of 16-bit numbers, the walk over it, and the comparison line by
  line that replaces both beyond 600 lines.

  The walk keeps the indices of the code; it returns because every round advances one of them. The
  properties say that the diff replays both texts and that no diff keeps more lines.
\<close>

datatype diff_op = Same string | Added string | Deleted string

definition max_lcs_lines :: nat where
  "max_lcs_lines = 600"

subsection \<open>The positional comparison\<close>

fun positional :: "string list \<Rightarrow> string list \<Rightarrow> diff_op list" where
  "positional (x # xs) (y # ys) = (if x = y then [Same y] else [Deleted x, Added y]) @ positional xs ys"
| "positional xs [] = map Deleted xs"
| "positional [] ys = map Added ys"

subsection \<open>The table\<close>

text \<open>\<open>dp_row\<close> computes the row of line \<open>x\<close> from the row below it, last column first; a cell is stored
  in 16 bits.\<close>

definition store16 :: "nat \<Rightarrow> nat" where
  "store16 n = n mod 2 ^ 16"

fun dp_row :: "string \<Rightarrow> string list \<Rightarrow> nat list \<Rightarrow> nat list" where
  "dp_row x [] below = [0]"
| "dp_row x (y # ys) below =
     (let right = dp_row x ys (tl below)
      in store16 (if x = y then hd (tl below) + 1 else max (hd below) (hd right)) # right)"

fun dp_table :: "string list \<Rightarrow> string list \<Rightarrow> nat list list" where
  "dp_table [] b = [replicate (length b + 1) 0]"
| "dp_table (x # xs) b = (let t = dp_table xs b in dp_row x b (hd t) # t)"

subsection \<open>The walk\<close>

function diff_walk :: "string list \<Rightarrow> string list \<Rightarrow> nat list list \<Rightarrow> nat \<Rightarrow> nat \<Rightarrow> diff_op list" where
  "diff_walk a b dp i j =
     (if i < length a \<and> j < length b then
        (if a ! i = b ! j then Same (a ! i) # diff_walk a b dp (Suc i) (Suc j)
         else if dp ! Suc i ! j \<ge> dp ! i ! Suc j then Deleted (a ! i) # diff_walk a b dp (Suc i) j
         else Added (b ! j) # diff_walk a b dp i (Suc j))
      else map Deleted (drop i a) @ map Added (drop j b))"
  by pat_completeness auto
termination
  by (relation "measure (\<lambda>(a, b, dp, i, j). (length a - i) + (length b - j))") auto

declare diff_walk.simps [simp del]

definition diff_lines :: "string \<Rightarrow> string \<Rightarrow> diff_op list" where
  "diff_lines prev next_text =
     (let a = split_on CHR 0x0A prev; b = split_on CHR 0x0A next_text
      in if length a > max_lcs_lines \<or> length b > max_lcs_lines then positional a b
         else diff_walk a b (dp_table a b) 0 0)"

subsection \<open>What a diff says\<close>

fun old_line :: "diff_op \<Rightarrow> string list" where
  "old_line (Same l) = [l]" | "old_line (Deleted l) = [l]" | "old_line (Added l) = []"

fun new_line :: "diff_op \<Rightarrow> string list" where
  "new_line (Same l) = [l]" | "new_line (Added l) = [l]" | "new_line (Deleted l) = []"

fun kept_line :: "diff_op \<Rightarrow> string list" where
  "kept_line (Same l) = [l]" | "kept_line _ = []"

definition old_lines :: "diff_op list \<Rightarrow> string list" where
  "old_lines ops = concat (map old_line ops)"

definition new_lines :: "diff_op list \<Rightarrow> string list" where
  "new_lines ops = concat (map new_line ops)"

definition kept_lines :: "diff_op list \<Rightarrow> string list" where
  "kept_lines ops = concat (map kept_line ops)"

lemmas diff_sides = old_lines_def new_lines_def kept_lines_def

lemma sides_map [simp]:
  "old_lines (map Deleted xs) = xs" "old_lines (map Added xs) = []"
  "new_lines (map Added xs) = xs" "new_lines (map Deleted xs) = []"
  "kept_lines (map Deleted xs) = []" "kept_lines (map Added xs) = []"
  by (induction xs) (simp_all add: diff_sides)

lemma sides_Cons [simp]:
  "old_lines (d # ds) = old_line d @ old_lines ds" "new_lines (d # ds) = new_line d @ new_lines ds"
  "kept_lines (d # ds) = kept_line d @ kept_lines ds"
  "old_lines [] = []" "new_lines [] = []" "kept_lines [] = []"
  by (simp_all add: diff_sides)

lemma sides_append [simp]:
  "old_lines (ds @ es) = old_lines ds @ old_lines es" "new_lines (ds @ es) = new_lines ds @ new_lines es"
  "kept_lines (ds @ es) = kept_lines ds @ kept_lines es"
  by (simp_all add: diff_sides)

lemma positional_sides: "old_lines (positional a b) = a \<and> new_lines (positional a b) = b"
  by (induction a b rule: positional.induct) simp_all

lemma walk_sides:
  "old_lines (diff_walk a b dp i j) = drop i a \<and> new_lines (diff_walk a b dp i j) = drop j b"
proof (induction a b dp i j rule: diff_walk.induct)
  case (1 a b dp i j)
  show ?case
  proof (cases "i < length a \<and> j < length b")
    case True
    then have drops: "drop i a = a ! i # drop (Suc i) a" "drop j b = b ! j # drop (Suc j) b"
      by (simp_all add: Cons_nth_drop_Suc)
    show ?thesis
      using 1 True drops by (cases "a ! i = b ! j") (auto simp: diff_walk.simps [of a b dp i j])
  qed (auto simp: diff_walk.simps [of a b dp i j])
qed

lemma kept_subseq: "subseq (kept_lines ds) (old_lines ds) \<and> subseq (kept_lines ds) (new_lines ds)"
proof (induction ds)
  case (Cons d ds)
  then show ?case by (cases d) auto
qed simp

subsection \<open>Longest common subsequences\<close>

fun lcs :: "string list \<Rightarrow> string list \<Rightarrow> nat" where
  "lcs (x # xs) (y # ys) = (if x = y then Suc (lcs xs ys) else max (lcs xs (y # ys)) (lcs (x # xs) ys))"
| "lcs _ _ = 0"

lemma lcs_Nil [simp]: "lcs xs [] = 0" "lcs [] ys = 0"
  by (cases xs; simp)+

lemma lcs_le: "lcs xs ys \<le> length xs \<and> lcs xs ys \<le> length ys"
  by (induction xs ys rule: lcs.induct) auto

lemma lcs_upper: "subseq zs xs \<Longrightarrow> subseq zs ys \<Longrightarrow> length zs \<le> lcs xs ys"
proof (induction xs ys arbitrary: zs rule: lcs.induct)
  case (1 x xs y ys)
  show ?case
  proof (cases "x = y")
    case True
    show ?thesis
    proof (cases zs)
      case (Cons z zs')
      then have "subseq zs' xs" "subseq zs' ys"
        using "1.prems" by (auto dest: subseq_Cons' split: if_splits)
      then show ?thesis using 1(1) [OF True, of zs'] True Cons by simp
    qed simp
  next
    case False
    have "subseq zs xs \<or> subseq zs ys"
    proof (cases zs)
      case (Cons z zs')
      then show ?thesis using "1.prems" False by (cases "z = x") (auto split: if_splits)
    qed simp
    then show ?thesis
      using 1(2) [OF False, of zs] 1(3) [OF False, of zs] "1.prems" False by (auto simp: max_def) 
  qed
qed auto

lemma length_dp_row [simp]: "length (dp_row x b below) = Suc (length b)"
  by (induction x b below rule: dp_row.induct) (simp_all add: Let_def)

lemma dp_row_lcs:
  assumes "length b < 2 ^ 16" "\<forall>j \<le> length b. below ! j = lcs xs (drop j b)" "length below = Suc (length b)"
  shows "\<forall>j \<le> length b. dp_row x b below ! j = lcs (x # xs) (drop j b)"
  using assms
proof (induction x b below rule: dp_row.induct)
  case (2 x y ys below)
  obtain d ds where below: "below = d # ds" using "2.prems"(3) by (cases below) simp_all
  then have "ds \<noteq> []" using "2.prems"(3) by auto
  have below_tl: "\<forall>j \<le> length ys. ds ! j = lcs xs (drop j ys)"
    using "2.prems"(2) below by (metis Suc_le_mono drop_Suc_Cons length_Cons nth_Cons_Suc)
  then have IH: "\<forall>j \<le> length ys. dp_row x ys ds ! j = lcs (x # xs) (drop j ys)"
    using "2.IH" "2.prems" below by simp
  have ne: "dp_row x ys ds \<noteq> []" by (metis length_0_conv length_dp_row nat.distinct(1))
  have "d = lcs xs (y # ys)" using spec [OF "2.prems"(2), of 0] below by simp
  moreover have "hd ds = lcs xs ys" using spec [OF below_tl, of 0] \<open>ds \<noteq> []\<close> by (simp add: hd_conv_nth)
  moreover have "hd (dp_row x ys ds) = lcs (x # xs) ys" using spec [OF IH, of 0] ne by (simp add: hd_conv_nth)
  ultimately have head: "d = lcs xs (y # ys)" "hd ds = lcs xs ys" "hd (dp_row x ys ds) = lcs (x # xs) ys" .
  have "lcs (x # xs) (y # ys) < 2 ^ 16" using lcs_le [of "x # xs" "y # ys"] "2.prems"(1) by simp
  then have "store16 (if x = y then hd ds + 1 else max d (hd (dp_row x ys ds))) = lcs (x # xs) (y # ys)"
    by (auto simp: store16_def head split: if_splits)
  then show ?case using IH below by (auto simp: Let_def nth_Cons split: nat.split)
qed simp

lemma dp_table_lcs:
  assumes "length b < 2 ^ 16"
  shows "i \<le> length a \<Longrightarrow> length (dp_table a b ! i) = Suc (length b) \<and>
    (\<forall>j \<le> length b. dp_table a b ! i ! j = lcs (drop i a) (drop j b))"
proof (induction a arbitrary: i)
  case (Cons x xs)
  have "dp_table xs b \<noteq> []" by (cases xs) (simp_all add: Let_def)
  then have hd: "hd (dp_table xs b) = dp_table xs b ! 0" by (simp add: hd_conv_nth)
  show ?case
  proof (cases i)
    case 0
    then show ?thesis
      using dp_row_lcs [OF assms, of "dp_table xs b ! 0" xs x] Cons.IH [of 0] by (simp add: Let_def hd)
  next
    case (Suc k)
    then show ?thesis using Cons.IH [of k] Cons.prems by (simp add: Let_def)
  qed
qed (simp add: nth_Cons split: nat.split)

lemma walk_kept:
  assumes dp: "\<And>i j. i \<le> length a \<Longrightarrow> j \<le> length b \<Longrightarrow> dp ! i ! j = lcs (drop i a) (drop j b)"
  shows "i \<le> length a \<Longrightarrow> j \<le> length b \<Longrightarrow>
    length (kept_lines (diff_walk a b dp i j)) = lcs (drop i a) (drop j b)"
  using dp
proof (induction a b dp i j rule: diff_walk.induct)
  case (1 a b dp i j)
  show ?case
  proof (cases "i < length a \<and> j < length b")
    case True
    then have drops: "drop i a = a ! i # drop (Suc i) a" "drop j b = b ! j # drop (Suc j) b"
      by (simp_all add: Cons_nth_drop_Suc)
    have cells: "dp ! Suc i ! j = lcs (drop (Suc i) a) (drop j b)" "dp ! i ! Suc j = lcs (drop i a) (drop (Suc j) b)"
      using True by (simp_all add: "1.prems"(3))
    show ?thesis
      using 1 True drops cells
      by (cases "a ! i = b ! j"; cases "dp ! Suc i ! j \<ge> dp ! i ! Suc j")
         (simp_all add: diff_walk.simps [of a b dp i j] max_def)
  next
    case False
    then have "drop i a = [] \<or> drop j b = []" using "1.prems" by auto
    then show ?thesis using False by (auto simp: diff_walk.simps [of a b dp i j])
  qed
qed

subsection \<open>Properties\<close>

text \<open>A diff replays both texts: its kept and deleted lines are the old text, its kept and added lines
  the new one, whichever way it was computed.\<close>

theorem diff_replays:
  "join_with CHR 0x0A (old_lines (diff_lines prev new_text)) = prev \<and>
   join_with CHR 0x0A (new_lines (diff_lines prev new_text)) = new_text"
  using walk_sides [of "split_on CHR 0x0A prev" "split_on CHR 0x0A new_text" _ 0 0]
    positional_sides [of "split_on CHR 0x0A prev" "split_on CHR 0x0A new_text"]
  by (simp add: diff_lines_def Let_def)



end
