(* ===== verification/StepLatency.thy ===== *)
theory StepLatency
  imports Messages JsOrder Json
begin

text \<open>
  The latency of a step (\<open>client/src/lib/stepLatency.ts\<close>): the value a message carries, the pairing of
  the messages of two subjects by that value, the quantiles and buckets of the gaps, and the fields
  both sides share.

  \<open>JSON.parse\<close> and the text of a number are arguments (\<open>parse\<close>, \<open>num\<close>). Fields are the own fields of
  an object. A quantile takes the floor of an exact product, where the code multiplies doubles.
\<close>

subsection \<open>The value of a message\<close>

definition key_found :: "string list \<Rightarrow> string \<Rightarrow> string" where
  "key_found names key = nullish (List.find (\<lambda>h. to_lower h = to_lower key) names) []"

definition header_at :: "header_map option \<Rightarrow> string \<Rightarrow> string list option" where
  "header_at headers key = (case headers of None \<Rightarrow> None
     | Some hs \<Rightarrow> (case jm_get hs key of Some v \<Rightarrow> Some v
         | None \<Rightarrow> jm_get hs (key_found (jm_keys hs) key)))"

text \<open>The walk along the steps of a path: undefined and null end it with null.\<close>

fun node_at :: "string list \<Rightarrow> json option \<Rightarrow> json option" where
  "node_at [] node = node"
| "node_at (s # ss) node = (case node of None \<Rightarrow> None
     | Some v \<Rightarrow> if is_object v then node_at ss (js_member v s) else None)"

definition value_at :: "(rat \<Rightarrow> string) \<Rightarrow> (string \<Rightarrow> json option) \<Rightarrow> nats_message \<Rightarrow> string \<Rightarrow> string option" where
  "value_at num parse m path =
     (let key = trim path in
      if key = [] then None
      else (case header_at (m_headers m) key of
          Some (v # _) \<Rightarrow> Some v
        | _ \<Rightarrow> if m_payload_type m \<noteq> PJson then None
            else (case node_at (split_on CHR ''.'' key) (parse (m_payload m)) of
                None \<Rightarrow> None
              | Some v \<Rightarrow> if v = JNull \<or> is_object v then None else Some (js_string num v))))"

subsection \<open>Pairing\<close>

record step_pair =
  pr_value :: string
  pr_from :: int
  pr_to :: int
  pr_delta :: int

record step_report =
  stl_pairs :: "step_pair list"
  stl_unfinished :: int
  stl_orphans :: nat
  stl_min :: int
  stl_p50 :: int
  stl_p95 :: int
  stl_p99 :: int
  stl_max :: int

text \<open>A message as the pairing sees it: its time and its value.\<close>

type_synonym stamped = "int \<times> string option"

definition add_start :: "stamped \<Rightarrow> (string, int list) jsmap \<Rightarrow> (string, int list) jsmap" where
  "add_start m starts = (case m of
       (t, None) \<Rightarrow> starts
     | (t, Some v) \<Rightarrow> jm_set v (nullish (jm_get starts v) [] @ [t]) starts)"

definition collect_starts :: "stamped list \<Rightarrow> (string, int list) jsmap" where
  "collect_starts ms = map (\<lambda>(v, ts). (v, js_sort (by_number id) ts)) (fold add_start ms [])"

text \<open>The newest free start at or before the end; the loop stops at the first later one.\<close>

fun best_start :: "int list \<Rightarrow> int \<Rightarrow> int option \<Rightarrow> int list \<Rightarrow> int option" where
  "best_start used t best [] = best"
| "best_start used t best (s # ss) =
     (if s > t then best else best_start used t (if s \<notin> set used then Some s else best) ss)"

record pairing =
  pg_used :: "(string, int list) jsmap"
  pg_pairs :: "step_pair list"
  pg_orphans :: nat

definition pair_end :: "(string, int list) jsmap \<Rightarrow> stamped \<Rightarrow> pairing \<Rightarrow> pairing" where
  "pair_end starts m p = (case m of (t, v) \<Rightarrow>
     (case (if truthy v then jm_get starts (the v) else None) of
        None \<Rightarrow> p\<lparr>pg_orphans := Suc (pg_orphans p)\<rparr>
      | Some ss \<Rightarrow>
          (let used = nullish (jm_get (pg_used p) (the v)) [] in
           case best_start used t None ss of
             None \<Rightarrow> p\<lparr>pg_orphans := Suc (pg_orphans p)\<rparr>
           | Some s \<Rightarrow> p\<lparr>pg_used := jm_set (the v) (js_add s used) (pg_used p),
                 pg_pairs := pg_pairs p @ [\<lparr>pr_value = the v, pr_from = s, pr_to = t, pr_delta = t - s\<rparr>]\<rparr>)))"

definition quantile :: "int list \<Rightarrow> rat \<Rightarrow> int" where
  "quantile xs q = (if xs = [] then 0 else xs ! min (length xs - 1) (nat \<lfloor>q * rat_of_nat (length xs)\<rfloor>))"

definition pair_all :: "stamped list \<Rightarrow> stamped list \<Rightarrow> pairing" where
  "pair_all from until = fold (pair_end (collect_starts from)) (js_sort (by_number fst) until)
     \<lparr>pg_used = [], pg_pairs = [], pg_orphans = 0\<rparr>"

definition starters :: "stamped list \<Rightarrow> nat" where
  "starters from = sum_list (map (length \<circ> snd) (collect_starts from))"

definition step_latency_of :: "stamped list \<Rightarrow> stamped list \<Rightarrow> step_report" where
  "step_latency_of from until =
     (let p = pair_all from until;
          gaps = js_sort (by_number id) (map pr_delta (pg_pairs p))
      in \<lparr>stl_pairs = js_sort (\<lambda>a b. pr_delta b - pr_delta a) (pg_pairs p),
          stl_unfinished = max 0 (int (starters from) - int (length (pg_pairs p))),
          stl_orphans = pg_orphans p,
          stl_min = (if gaps = [] then 0 else hd gaps),
          stl_p50 = quantile gaps (1 / 2), stl_p95 = quantile gaps (95 / 100), stl_p99 = quantile gaps (99 / 100),
          stl_max = (if gaps = [] then 0 else last gaps)\<rparr>)"

definition step_latency ::
    "(rat \<Rightarrow> string) \<Rightarrow> (string \<Rightarrow> json option) \<Rightarrow> nats_message list \<Rightarrow> nats_message list \<Rightarrow> string \<Rightarrow> step_report" where
  "step_latency num parse from until field =
     (let stamp = (\<lambda>m. (m_timestamp m, value_at num parse m field))
      in step_latency_of (map stamp from) (map stamp until))"

subsection \<open>Buckets\<close>

record bucket =
  bk_le :: int
  bk_count :: nat

definition bucket_bounds :: "int list" where
  "bucket_bounds = [1, 5, 10, 25, 50, 100, 250, 500, 1000, 5000, 30000, 60000]"

definition bucket_index :: "int \<Rightarrow> nat" where
  "bucket_index d = length (takeWhile (\<lambda>b. \<not> d \<le> b) bucket_bounds)"

definition count_in :: "int \<Rightarrow> bucket list \<Rightarrow> bucket list" where
  "count_in d bs = bs[bucket_index d := (bs ! bucket_index d)\<lparr>bk_count := Suc (bk_count (bs ! bucket_index d))\<rparr>]"

definition empty_buckets :: "bucket list" where
  "empty_buckets = map (\<lambda>b. \<lparr>bk_le = b, bk_count = 0\<rparr>) (bucket_bounds @ [0])"

definition latency_buckets :: "int list \<Rightarrow> bucket list" where
  "latency_buckets deltas =
     (let bs = fold count_in deltas empty_buckets; full = (\<lambda>b. bk_count b > 0)
      in if list_all (\<lambda>b. \<not> full b) bs then []
         else rev (dropWhile (\<lambda>b. \<not> full b) (rev (dropWhile (\<lambda>b. \<not> full b) bs))))"

subsection \<open>Shared fields\<close>

text \<open>\<open>new Set\<close> of the header names and the scalar payload fields of the first fifty messages; the
  test of a name for reading like an id is the argument \<open>keyish\<close>.\<close>

definition scalar_fields :: "json option \<Rightarrow> string list" where
  "scalar_fields doc = (case doc of
       Some (JObj fs) \<Rightarrow> map fst (filter (\<lambda>(k, v). v \<noteq> JNull \<and> \<not> is_object v) fs)
     | _ \<Rightarrow> [])"

definition fields_in :: "(string \<Rightarrow> json option) \<Rightarrow> nats_message list \<Rightarrow> string list" where
  "fields_in parse ms = js_uniq (concat (map (\<lambda>m.
     jm_keys (nullish (m_headers m) []) @
     (if m_payload_type m \<noteq> PJson then [] else scalar_fields (parse (m_payload m)))) (take 50 ms)))"

definition shared_fields ::
    "(string \<Rightarrow> bool) \<Rightarrow> (string \<Rightarrow> json option) \<Rightarrow> nats_message list \<Rightarrow> nats_message list \<Rightarrow> string list" where
  "shared_fields keyish parse from until =
     (let b = fields_in parse until
      in js_sort (\<lambda>x y. of_bool (keyish y) - of_bool (keyish x))
           (filter (\<lambda>k. k \<in> set b) (fields_in parse from)))"

subsection \<open>The starts of a value\<close>

lemma get_collect: "jm_get (collect_starts ms) v = map_option (js_sort (by_number id)) (jm_get (fold add_start ms []) v)"
  by (simp add: collect_starts_def map_of_map)

lemma add_start_simps [simp]:
  "add_start (t, None) starts = starts"
  "add_start (t, Some v) starts = jm_set v (nullish (jm_get starts v) [] @ [t]) starts"
  by (simp_all add: add_start_def)

lemma get_add_starts:
  "jm_get (fold add_start ms starts) v =
     (let ts = map fst (filter (\<lambda>m. snd m = Some v) ms)
      in if ts = [] then jm_get starts v else Some (nullish (jm_get starts v) [] @ ts))"
proof (induction ms arbitrary: starts)
  case (Cons m ms)
  obtain t w where m: "m = (t, w)" by (cases m)
  show ?case
    by (cases w; cases "w = Some v") (auto simp: Cons.IH m Let_def)
qed simp

lemma starts_of_value:
  "jm_get (collect_starts ms) v =
     (let ts = map fst (filter (\<lambda>m. snd m = Some v) ms) in if ts = [] then None else Some (js_sort (by_number id) ts))"
  by (simp add: get_collect get_add_starts Let_def)

lemma set_starts: "jm_get (collect_starts ms) v = Some ss \<Longrightarrow> s \<in> set ss \<longleftrightarrow> (s, Some v) \<in> set ms"
  by (auto simp: starts_of_value Let_def image_iff split: if_splits)

lemma best_start_Some:
  "best_start used t best ss = Some s \<Longrightarrow>
     best = Some s \<or> s \<in> set ss \<and> s \<le> t \<and> s \<notin> set used"
  by (induction used t best ss rule: best_start.induct) (auto split: if_splits)

lemma best_start_newest:
  assumes "sorted ss" "best_start used t None ss = b"
  shows "case b of None \<Rightarrow> \<forall>s \<in> set ss. s \<le> t \<longrightarrow> s \<in> set used
    | Some x \<Rightarrow> x \<in> set ss \<and> x \<le> t \<and> x \<notin> set used \<and> (\<forall>s \<in> set ss. s \<le> t \<and> s \<notin> set used \<longrightarrow> s \<le> x)"
proof -
  have "case best_start used t best ss of
      None \<Rightarrow> best = None \<and> (\<forall>s \<in> set ss. s \<le> t \<longrightarrow> s \<in> set used)
    | Some x \<Rightarrow> (best = Some x \<or> x \<in> set ss \<and> x \<le> t \<and> x \<notin> set used)
        \<and> (\<forall>s \<in> set ss. s \<le> t \<and> s \<notin> set used \<longrightarrow> s \<le> x)"
    if "sorted ss" "\<forall>x. best = Some x \<longrightarrow> (\<forall>s \<in> set ss. x \<le> s)" for best
    using that
  proof (induction used t best ss rule: best_start.induct)
    case (2 used t best s ss)
    show ?case
    proof (cases "s > t")
      case True
      then have "\<forall>u \<in> set (s # ss). \<not> u \<le> t" using "2.prems"(1) by auto
      then show ?thesis using True by (auto split: option.split)
    next
      case False
      then have "best_start used t best (s # ss) = best_start used t (if s \<notin> set used then Some s else best) ss"
        by simp
      moreover have "\<forall>x. (if s \<notin> set used then Some s else best) = Some x \<longrightarrow> (\<forall>u \<in> set ss. x \<le> u)"
        using "2.prems" by auto
      ultimately show ?thesis
        using "2.IH" [OF False] "2.prems" False by (auto split: option.splits if_splits)
    qed
  qed (auto split: option.split)
  from this [of None] assms show ?thesis by (auto split: option.splits)
qed

subsection \<open>The invariant of the pairing\<close>

definition pairing_ok :: "stamped list \<Rightarrow> stamped list \<Rightarrow> pairing \<Rightarrow> bool" where
  "pairing_ok from ends p =
     ((\<forall>v. set (nullish (jm_get (pg_used p) v) []) = pr_from ` {q \<in> set (pg_pairs p). pr_value q = v}) \<and>
      distinct (map (\<lambda>q. (pr_value q, pr_from q)) (pg_pairs p)) \<and>
      (\<forall>q \<in> set (pg_pairs p). pr_from q \<le> pr_to q \<and> pr_delta q = pr_to q - pr_from q \<and>
         (pr_from q, Some (pr_value q)) \<in> set from \<and> (pr_to q, Some (pr_value q)) \<in> set ends) \<and>
      length (pg_pairs p) + pg_orphans p = length ends)"

lemma pairing_ok_end:
  assumes ok: "pairing_ok from ends p"
  shows "pairing_ok from (ends @ [m]) (pair_end (collect_starts from) m p)"
proof -
  obtain t w where m: "m = (t, w)" by (cases m)
  have orphan: "pairing_ok from (ends @ [m]) (p\<lparr>pg_orphans := Suc (pg_orphans p)\<rparr>)"
    using ok by (auto simp: pairing_ok_def)
  show ?thesis
  proof (cases "\<exists>ss s. truthy w \<and> jm_get (collect_starts from) (the w) = Some ss \<and>
      best_start (nullish (jm_get (pg_used p) (the w)) []) t None ss = Some s")
    case False
    then have "pair_end (collect_starts from) m p = p\<lparr>pg_orphans := Suc (pg_orphans p)\<rparr>"
      by (auto simp: pair_end_def m Let_def split: option.split)
    then show ?thesis using orphan by simp
  next
    case True
    then obtain ss s v where w: "w = Some v" "truthy w" and ss: "jm_get (collect_starts from) v = Some ss"
      and s: "best_start (nullish (jm_get (pg_used p) v) []) t None ss = Some s"
      by (cases w) auto
    obtain q0 where q0: "q0 = \<lparr>pr_value = v, pr_from = s, pr_to = t, pr_delta = t - s\<rparr>" by simp
    then have q0_fields: "pr_value q0 = v" "pr_from q0 = s" "pr_to q0 = t" "pr_delta q0 = t - s" by simp_all
    have step: "pair_end (collect_starts from) m p =
        p\<lparr>pg_used := jm_set v (js_add s (nullish (jm_get (pg_used p) v) [])) (pg_used p),
          pg_pairs := pg_pairs p @ [q0]\<rparr>"
      using w ss s by (simp add: pair_end_def m Let_def q0)
    have froms: "pr_from ` {q \<in> set (pg_pairs p @ [q0]). pr_value q = u} =
        (if u = v then insert s else id) (pr_from ` {q \<in> set (pg_pairs p). pr_value q = u})" for u
      using q0_fields by force
    have best: "s \<in> set ss" "s \<le> t" "s \<notin> set (nullish (jm_get (pg_used p) v) [])"
      using best_start_Some [OF s] by simp_all
    have "(s, Some v) \<in> set from" using set_starts [OF ss] best(1) by simp
    moreover have "s \<notin> pr_from ` {q \<in> set (pg_pairs p). pr_value q = v}"
      using best(3) ok by (simp add: pairing_ok_def)
    moreover have "(v, s) \<notin> (\<lambda>q. (pr_value q, pr_from q)) ` set (pg_pairs p)"
      using calculation(2) by force
    ultimately show ?thesis
      unfolding step using ok best(2) q0_fields
      by (simp add: pairing_ok_def froms [simplified] m w)
  qed
qed

lemma pairing_ok_all: "pairing_ok from (js_sort (by_number fst) until) (pair_all from until)"
proof -
  have "pairing_ok from (ends @ ms) (fold (pair_end (collect_starts from)) ms p)"
    if "pairing_ok from ends p" for ends ms p
    using that
  proof (induction ms arbitrary: ends p)
    case (Cons m ms)
    from Cons.IH [OF pairing_ok_end [OF Cons.prems, of m]] show ?case by simp
  qed simp
  moreover have "pairing_ok from [] \<lparr>pg_used = [], pg_pairs = [], pg_orphans = 0\<rparr>"
    by (simp add: pairing_ok_def)
  ultimately show ?thesis unfolding pair_all_def by fastforce
qed

lemma sum_update:
  "sum_list (map (length \<circ> snd) (jm_set v ts m)) + length (nullish (jm_get m v) []) =
   sum_list (map (length \<circ> snd) m) + length ts"
  by (induction m) (auto simp: nullish_def)

lemma starters_eq: "starters ms = length (filter (\<lambda>m. snd m \<noteq> None) ms)"
proof -
  have "sum_list (map (length \<circ> snd) (fold add_start ms starts)) =
      sum_list (map (length \<circ> snd) starts) + length (filter (\<lambda>m. snd m \<noteq> None) ms)" for starts
  proof (induction ms arbitrary: starts)
    case (Cons m ms)
    obtain t w where m: "m = (t, w)" by (cases m)
    show ?case
    proof (cases w)
      case (Some v)
      then show ?thesis
        using Cons.IH [of "add_start m starts"] sum_update [of v "nullish (jm_get starts v) [] @ [t]" starts]
        by (simp add: m o_def)
    qed (use Cons.IH [of starts] m in simp)
  qed simp
  from this [of "[]"] show ?thesis
    by (simp add: starters_def collect_starts_def o_def case_prod_unfold)
qed

lemma pairs_le_starters: "length (pg_pairs (pair_all from until)) \<le> starters from"
proof -
  let ?ps = "pg_pairs (pair_all from until)" and ?f = "\<lambda>m :: stamped. (the (snd m), fst m)"
  have ok: "pairing_ok from (js_sort (by_number fst) until) (pair_all from until)" by (rule pairing_ok_all)
  have "set (map (\<lambda>q. (pr_value q, pr_from q)) ?ps) \<subseteq> ?f ` set (filter (\<lambda>m. snd m \<noteq> None) from)"
    using ok by (force simp: pairing_ok_def)
  then have "card (set (map (\<lambda>q. (pr_value q, pr_from q)) ?ps)) \<le> card (set (filter (\<lambda>m. snd m \<noteq> None) from))"
    by (meson List.finite_set card_image_le card_mono finite_imageI le_trans)
  moreover have "card (set (map (\<lambda>q. (pr_value q, pr_from q)) ?ps)) = length ?ps"
    using ok distinct_card [of "map (\<lambda>q. (pr_value q, pr_from q)) ?ps"] by (simp add: pairing_ok_def)
  ultimately show ?thesis using card_length [of "filter (\<lambda>m. snd m \<noteq> None) from"] by (simp add: starters_eq)
qed

subsection \<open>Properties\<close>

lemma step_latency_facts:
  "let r = step_latency_of from until; ps = stl_pairs r in
     length ps + stl_orphans r = length until \<and>
     (\<forall>p \<in> set ps. pr_from p \<le> pr_to p \<and> pr_delta p = pr_to p - pr_from p \<and>
        (pr_from p, Some (pr_value p)) \<in> set from \<and> (pr_to p, Some (pr_value p)) \<in> set until) \<and>
     distinct (map (\<lambda>p. (pr_value p, pr_from p)) ps) \<and>
     stl_unfinished r = int (length (filter (\<lambda>m. snd m \<noteq> None) from)) - int (length ps) \<and>
     sorted_wrt (\<lambda>p q. pr_delta q \<le> pr_delta p) ps"
proof -
  let ?g = "pair_all from until" and ?slow = "\<lambda>a b. pr_delta b - pr_delta a"
  have ok: "pairing_ok from (js_sort (by_number fst) until) ?g" by (rule pairing_ok_all)
  have "sorted_wrt (\<lambda>p q. ?slow p q \<le> 0) (js_sort ?slow (pg_pairs ?g))"
    by (rule comparator.ascending_sort [OF comparator_by_number_desc])
  then have "sorted_wrt (\<lambda>p q. pr_delta q \<le> pr_delta p) (js_sort ?slow (pg_pairs ?g))" by simp
  then show ?thesis
    using ok pairs_le_starters [of "from" until]
    by (simp add: step_latency_of_def Let_def pairing_ok_def starters_eq)
qed


lemma sorted_ends: "sorted xs \<Longrightarrow> x \<in> set xs \<Longrightarrow> hd xs \<le> x \<and> x \<le> (last xs :: int)"
  by (induction xs) auto

lemma quantile_index: "xs \<noteq> [] \<Longrightarrow> min (length xs - 1) n < length xs"
  by (cases xs) simp_all

lemma quantile_mono:
  assumes "sorted xs" "0 \<le> p" "p \<le> q"
  shows "quantile xs p \<le> quantile xs q"
proof (cases "xs = []")
  case False
  have "nat \<lfloor>p * rat_of_nat (length xs)\<rfloor> \<le> nat \<lfloor>q * rat_of_nat (length xs)\<rfloor>"
    using assms by (intro nat_mono floor_mono mult_right_mono) simp_all
  then have "min (length xs - 1) (nat \<lfloor>p * rat_of_nat (length xs)\<rfloor>) \<le>
      min (length xs - 1) (nat \<lfloor>q * rat_of_nat (length xs)\<rfloor>)" by simp
  then show ?thesis
    using False assms(1) quantile_index [OF False] by (simp only: quantile_def if_False sorted_nth_mono)
qed (simp add: quantile_def)

lemma quantile_in: "xs \<noteq> [] \<Longrightarrow> quantile xs q \<in> set xs"
  unfolding quantile_def using quantile_index [of xs] by simp

lemma sorted_js_sort: "sorted (js_sort (by_number id) xs)"
  using comparator.ascending_sort [OF comparator_by_number, of id xs] by (simp add: by_number_def)

text \<open>The figures of a step are in order and none is negative.\<close>

theorem quantiles_ordered:
  "let r = step_latency_of from until in
     0 \<le> stl_min r \<and> stl_min r \<le> stl_p50 r \<and> stl_p50 r \<le> stl_p95 r \<and> stl_p95 r \<le> stl_p99 r \<and> stl_p99 r \<le> stl_max r"
proof -
  let ?gaps = "js_sort (by_number id) (map pr_delta (pg_pairs (pair_all from until)))"
  have sorted: "sorted ?gaps" by (rule sorted_js_sort)
  have pos: "\<forall>d \<in> set ?gaps. 0 \<le> d"
    using pairing_ok_all [of "from" until] by (simp add: pairing_ok_def)
  show ?thesis
  proof (cases "?gaps = []")
    case False
    have ends: "hd ?gaps \<le> x \<and> x \<le> last ?gaps" if "x \<in> set ?gaps" for x
      using sorted_ends [OF sorted that] .
    have "0 \<le> hd ?gaps" using pos hd_in_set [OF False] by blast
    then show ?thesis
      using False ends [OF quantile_in [OF False]] quantile_mono [OF sorted, of "1/2" "95/100"]
        quantile_mono [OF sorted, of "95/100" "99/100"]
      by (simp add: step_latency_of_def Let_def)
  qed (simp add: step_latency_of_def Let_def quantile_def)
qed

lemma length_count_in [simp]: "length (fold count_in ds bs) = length bs"
  by (induction ds arbitrary: bs) (simp_all add: count_in_def)

lemma sum_count_in:
  "length bs = 13 \<Longrightarrow> sum_list (map bk_count (fold count_in ds bs)) = sum_list (map bk_count bs) + length ds"
proof (induction ds arbitrary: bs)
  case (Cons d ds)
  have "bucket_index d \<le> 12"
    using length_takeWhile_le [of "\<lambda>b. \<not> d \<le> b" bucket_bounds] by (simp add: bucket_index_def bucket_bounds_def)
  then have i: "bucket_index d < length bs" using Cons.prems by simp
  have "sum_list (map bk_count (count_in d bs)) = Suc (sum_list (map bk_count bs))"
    using i by (simp add: count_in_def map_update sum_list_update) 
  then show ?case using Cons.IH [of "count_in d bs"] Cons.prems by (simp add: count_in_def)
qed simp

lemma sum_dropWhile_zero:
  "sum_list (map bk_count (dropWhile (\<lambda>b. \<not> bk_count b > 0) bs)) = sum_list (map bk_count bs)"
  by (induction bs) simp_all

lemma sum_counts_rev: "sum_list (map bk_count (rev bs)) = sum_list (map bk_count bs)"
  by (induction bs) simp_all

text \<open>Every gap is counted in one bucket, and cutting the empty ends loses none.\<close>

theorem buckets_count_all: "sum_list (map bk_count (latency_buckets ds)) = length ds"
proof -
  let ?bs = "fold count_in ds empty_buckets"
  have "sum_list (map bk_count ?bs) = length ds"
    by (subst sum_count_in) (simp_all add: empty_buckets_def bucket_bounds_def)
  moreover have "sum_list (map bk_count ?bs) = 0" if "list_all (\<lambda>b. \<not> bk_count b > 0) ?bs"
    using that by (simp add: list_all_iff)
  ultimately show ?thesis
    using sum_dropWhile_zero [of "rev (dropWhile (\<lambda>b. \<not> bk_count b > 0) ?bs)"] sum_dropWhile_zero [of ?bs]
    by (simp add: latency_buckets_def Let_def sum_counts_rev)
qed

end
