(* ===== verification/Export.thy ===== *)
theory Export
  imports Messages Wire Json
begin

text \<open>
  Exports (\<open>client/src/lib/exportMessages.ts\<close>): the rows of an export, CSV with one column per payload
  or one per field, JSON and NDJSON, the replay script for the nats CLI, and the name of the file.

  \<open>JSON.parse\<close>, the compact and the indented \<open>JSON.stringify\<close>, the text of a number, \<open>toISOString\<close> and
  \<open>localeCompare\<close> are arguments (\<open>parse\<close>, \<open>print\<close>, \<open>pretty\<close>, \<open>num\<close>, \<open>iso_date\<close>, \<open>lc\<close>). What reads an export is
  modelled beside it: a CSV reader, the words of a POSIX shell and the templates of \<open>nats pub\<close>, as far
  as an export uses them.
\<close>

subsection \<open>Rows\<close>

record export_row =
  xr_timestamp :: int
  xr_subject :: string
  xr_payload :: string
  xr_payload_type :: payload_type
  xr_size :: int
  xr_headers :: "header_map option"
  xr_sequence :: "int option"

definition row_of_message :: "nats_message \<Rightarrow> export_row" where
  "row_of_message m = \<lparr>xr_timestamp = m_timestamp m, xr_subject = m_subject m, xr_payload = m_payload m,
     xr_payload_type = m_payload_type m, xr_size = m_size m, xr_headers = m_headers m,
     xr_sequence = m_sequence m\<rparr>"

definition row_of_stream_message :: "stream_message \<Rightarrow> export_row" where
  "row_of_stream_message m = \<lparr>xr_timestamp = sm_timestamp m, xr_subject = sm_subject m,
     xr_payload = sm_payload m, xr_payload_type = sm_payload_type m, xr_size = sm_size m,
     xr_headers = sm_headers m, xr_sequence = Some (sm_seq m)\<rparr>"

fun type_name :: "payload_type \<Rightarrow> string" where
  "type_name PString = ''string''"
| "type_name PJson = ''json''"
| "type_name PBinary = ''binary''"

definition parsed_payload :: "(string \<Rightarrow> json option) \<Rightarrow> export_row \<Rightarrow> json option" where
  "parsed_payload parse r = (if xr_payload_type r \<noteq> PJson then None
     else (case parse (xr_payload r) of Some d \<Rightarrow> if d = JNull then None else Some d | None \<Rightarrow> None))"

subsection \<open>CSV\<close>

definition csv_special :: "char \<Rightarrow> bool" where
  "csv_special c = (c = CHR 0x22 \<or> c = CHR '','' \<or> c = CHR 0x0A \<or> c = CHR 0x0D)"

definition double_quotes :: "string \<Rightarrow> string" where
  "double_quotes s = concat (map (\<lambda>c. if c = CHR 0x22 then [c, c] else [c]) s)"

definition csv_cell :: "string \<Rightarrow> string" where
  "csv_cell s = (if list_ex csv_special s then CHR 0x22 # double_quotes s @ [CHR 0x22] else s)"

definition csv_line :: "string list \<Rightarrow> string" where
  "csv_line cells = join_with CHR '','' (map csv_cell cells)"

definition header_doc :: "header_map \<Rightarrow> json" where
  "header_doc hs = JObj (map (\<lambda>(k, vs). (k, JArr (map JStr vs))) hs)"

definition csv_cells :: "(json \<Rightarrow> string) \<Rightarrow> (int \<Rightarrow> string) \<Rightarrow> export_row \<Rightarrow> string list" where
  "csv_cells print iso_date r =
     [int_str (xr_timestamp r), iso_date (xr_timestamp r),
      (case xr_sequence r of None \<Rightarrow> [] | Some s \<Rightarrow> int_str s),
      xr_subject r, type_name (xr_payload_type r), int_str (xr_size r),
      (case xr_headers r of None \<Rightarrow> [] | Some hs \<Rightarrow> if hs = [] then [] else print (header_doc hs)),
      xr_payload r]"

definition csv_columns :: "string list" where
  "csv_columns = [''timestamp'', ''time'', ''sequence'', ''subject'', ''payloadType'', ''size'', ''headers'', ''payload'']"

definition unlines :: "string list \<Rightarrow> string" where
  "unlines ls = join_with CHR 0x0A ls @ [CHR 0x0A]"

definition csv_text :: "(json \<Rightarrow> string) \<Rightarrow> (int \<Rightarrow> string) \<Rightarrow> export_row list \<Rightarrow> string" where
  "csv_text print iso_date rows = unlines (join_with CHR '','' csv_columns # map (csv_line \<circ> csv_cells print iso_date) rows)"

subsection \<open>One column per field\<close>

type_synonym cells = "(string, string) jsmap"

definition max_flat_columns :: nat where
  "max_flat_columns = 250"

definition max_flat_depth :: nat where
  "max_flat_depth = 8"

definition below_prefix :: "string \<Rightarrow> string \<Rightarrow> string" where
  "below_prefix pre k = (if pre \<noteq> [] then pre @ CHR ''.'' # k else k)"

function (sequential) flatten :: "(rat \<Rightarrow> string) \<Rightarrow> (json \<Rightarrow> string) \<Rightarrow> nat \<Rightarrow> string \<Rightarrow> json \<Rightarrow> cells \<Rightarrow> cells"
  and flatten_fields :: "(rat \<Rightarrow> string) \<Rightarrow> (json \<Rightarrow> string) \<Rightarrow> nat \<Rightarrow> string \<Rightarrow> (string \<times> json) list \<Rightarrow> cells \<Rightarrow> cells"
  and flatten_items :: "(rat \<Rightarrow> string) \<Rightarrow> (json \<Rightarrow> string) \<Rightarrow> nat \<Rightarrow> string \<Rightarrow> nat \<Rightarrow> json list \<Rightarrow> cells \<Rightarrow> cells"
where
  "flatten num print depth pre v out =
     (if \<not> is_object v then jm_set pre (if v = JNull then [] else js_string num v) out
      else if depth \<ge> max_flat_depth then jm_set pre (print v) out
      else (case v of
          JArr xs \<Rightarrow> if xs = [] then jm_set pre ''[]'' out else flatten_items num print (Suc depth) pre 0 xs out
        | JObj fs \<Rightarrow> if fs = [] then jm_set pre ''{}'' out else flatten_fields num print (Suc depth) pre fs out
        | _ \<Rightarrow> out))"
| "flatten_fields num print depth pre [] out = out"
| "flatten_fields num print depth pre ((k, v) # fs) out =
     flatten_fields num print depth pre fs (flatten num print depth (below_prefix pre k) v out)"
| "flatten_items num print depth pre i [] out = out"
| "flatten_items num print depth pre i (v # vs) out =
     flatten_items num print depth pre (Suc i) vs
       (flatten num print depth (below_prefix pre (nat_str i)) v out)"
  by pat_completeness auto
termination
  by (relation "measure (\<lambda>x. case x of
        Inl (num, print, depth, pre, v, out) \<Rightarrow> size v
      | Inr (Inl (num, print, depth, pre, fs, out)) \<Rightarrow> size_list (size_prod (\<lambda>_. 0) size) fs
      | Inr (Inr (num, print, depth, pre, i, xs, out)) \<Rightarrow> size_list size xs)") auto

definition by_use :: "(string \<Rightarrow> string \<Rightarrow> int) \<Rightarrow> string \<times> nat \<Rightarrow> string \<times> nat \<Rightarrow> int" where
  "by_use lc a b = (let d = int (snd b) - int (snd a) in if d \<noteq> 0 then d else lc (fst a) (fst b))"

definition flat_columns :: "(string \<Rightarrow> string \<Rightarrow> int) \<Rightarrow> cells list \<Rightarrow> string list" where
  "flat_columns lc cs =
     (let seen = tally (concat (map jm_keys cs))
      in js_sort by_code_units (map fst (if length seen \<le> max_flat_columns then seen
           else take max_flat_columns (js_sort (by_use lc) seen))))"

definition header_cells :: "export_row \<Rightarrow> cells" where
  "header_cells r = fold (\<lambda>(k, vs) out. if vs = [] then out
     else jm_set (''header.'' @ k) (join_str '', '' vs) out) (nullish (xr_headers r) []) []"

definition fixed_columns :: "string list" where
  "fixed_columns = [''time'', ''timestamp'', ''sequence'', ''subject'', ''payloadType'', ''size'']"

definition fixed_cells :: "(int \<Rightarrow> string) \<Rightarrow> export_row \<Rightarrow> cells" where
  "fixed_cells iso_date r = [(''time'', iso_date (xr_timestamp r)), (''timestamp'', int_str (xr_timestamp r)),
     (''sequence'', case xr_sequence r of None \<Rightarrow> [] | Some s \<Rightarrow> int_str s), (''subject'', xr_subject r),
     (''payloadType'', type_name (xr_payload_type r)), (''size'', int_str (xr_size r))]"

definition flat_cells ::
    "(rat \<Rightarrow> string) \<Rightarrow> (json \<Rightarrow> string) \<Rightarrow> (string \<Rightarrow> json option) \<Rightarrow> (int \<Rightarrow> string) \<Rightarrow> export_row \<Rightarrow> cells" where
  "flat_cells num print parse iso_date r =
     (let out = fold (\<lambda>(k, v). jm_set k v) (header_cells r) (fixed_cells iso_date r)
      in (case parsed_payload parse r of
          None \<Rightarrow> jm_set ''payload'' (xr_payload r) out
        | Some doc \<Rightarrow> flatten num print 0 ''payload'' doc out))"

definition flat_csv_text ::
    "(rat \<Rightarrow> string) \<Rightarrow> (json \<Rightarrow> string) \<Rightarrow> (string \<Rightarrow> json option) \<Rightarrow> (int \<Rightarrow> string) \<Rightarrow>
     (string \<Rightarrow> string \<Rightarrow> int) \<Rightarrow> export_row list \<Rightarrow> string" where
  "flat_csv_text num print parse iso_date lc rows =
     (let cs = map (flat_cells num print parse iso_date) rows;
          dynamic = filter (\<lambda>c. c \<notin> set fixed_columns) (flat_columns lc cs);
          columns = fixed_columns @ dynamic
      in unlines (join_with CHR '','' columns #
           map (\<lambda>c. csv_line (map (\<lambda>col. nullish (jm_get c col) []) columns)) cs))"

subsection \<open>The replay script\<close>

definition sh_quote :: "string \<Rightarrow> string" where
  "sh_quote s = CHR 0x27 # concat (map (\<lambda>c. if c = CHR 0x27 then [CHR 0x27, CHR 0x5C, CHR 0x27, CHR 0x27] else [c]) s)
     @ [CHR 0x27]"

text \<open>The template that prints two opening braces.\<close>

definition brace_template :: string where
  "brace_template = ''{{'' @ [CHR 0x22] @ ''{{'' @ [CHR 0x22] @ ''}}''"

fun escape_template :: "string \<Rightarrow> string" where
  "escape_template (c # d # cs) =
     (if c = CHR ''{'' \<and> d = CHR ''{'' then brace_template @ escape_template cs
      else c # escape_template (d # cs))"
| "escape_template cs = cs"

definition plural_s :: "nat \<Rightarrow> string" where
  "plural_s n = (if n = 1 then [] else ''s'')"

definition script_head :: "nat \<Rightarrow> nat \<Rightarrow> string \<Rightarrow> string \<Rightarrow> string list" where
  "script_head messages binary name now_text =
     [''#!/bin/sh'',
      ''# '' @ nat_str messages @ '' message'' @ plural_s messages @ '' from '' @ name @ '', recorded '' @ now_text @ ''.'',
      ''#'',
      ''# Needs the nats CLI and a context pointing at the target server:'',
      ''#   nats context select <name>'',
      ''#   sh this-script.sh'',
      ''#'',
      ''# `nats pub` expands Go templates in the body, so every {{ is written as'',
      ''# '' @ brace_template @ '' to publish it literally.''] @
     (if binary > 0 then [''# '' @ nat_str binary @ '' binary payload'' @ (if binary = 1 then '' goes'' else ''s go'') @
        '' through base64 and stdin; templates apply there too.''] else []) @
     [[], ''# Seconds between messages; the recording is replayed as fast as it goes by default.'',
      ''DELAY=${DELAY:-0}'', [], ''set -e'', []]"

definition script_flags :: "export_row \<Rightarrow> string" where
  "script_flags r = join_str '' '' (concat (map (\<lambda>(k, vs).
     map (\<lambda>v. ''-H '' @ sh_quote (k @ CHR '':'' # v)) vs) (nullish (xr_headers r) [])))"

definition script_line :: "export_row \<Rightarrow> string" where
  "script_line r =
     (let flags = script_flags r; tail = (if flags \<noteq> [] then CHR '' '' # flags else []);
          subject = sh_quote (xr_subject r)
      in if xr_payload_type r = PBinary
         then ''printf %s '' @ sh_quote (xr_payload r) @ '' | base64 -d | nats pub '' @ subject @ '' --force-stdin'' @ tail
         else ''nats pub '' @ subject @ CHR '' '' # sh_quote (escape_template (xr_payload r)) @ tail)"

definition pause_line :: string where
  "pause_line = ''[ '' @ [CHR 0x22] @ ''$DELAY'' @ [CHR 0x22] @ '' = 0 ] || sleep '' @ [CHR 0x22] @ ''$DELAY'' @ [CHR 0x22]"

fun script_body :: "export_row list \<Rightarrow> string list" where
  "script_body [] = []"
| "script_body [r] = [script_line r]"
| "script_body (r # rs) = script_line r # pause_line # script_body rs"

definition replay_script :: "export_row list \<Rightarrow> string \<Rightarrow> string \<Rightarrow> string" where
  "replay_script rows name now_text = unlines (script_head (length rows)
     (length (filter (\<lambda>r. xr_payload_type r = PBinary) rows)) name now_text @ script_body rows)"

subsection \<open>All formats\<close>

datatype export_format = ExJson | ExNdjson | ExCsv | ExCsvFlat | ExPayloads | ExScript

definition row_fields :: "export_row \<Rightarrow> json \<Rightarrow> (string \<times> json) list" where
  "row_fields r payload =
     [(''timestamp'', JNum (rat_of_int (xr_timestamp r))), (''subject'', JStr (xr_subject r)), (''payload'', payload),
      (''payloadType'', JStr (type_name (xr_payload_type r))), (''size'', JNum (rat_of_int (xr_size r)))] @
     (case xr_headers r of None \<Rightarrow> [] | Some hs \<Rightarrow> [(''headers'', header_doc hs)]) @
     (case xr_sequence r of None \<Rightarrow> [] | Some s \<Rightarrow> [(''sequence'', JNum (rat_of_int s))])"

definition row_doc :: "export_row \<Rightarrow> json" where
  "row_doc r = JObj (row_fields r (JStr (xr_payload r)))"

definition ndjson_doc :: "(string \<Rightarrow> json option) \<Rightarrow> export_row \<Rightarrow> json" where
  "ndjson_doc parse r = (case parsed_payload parse r of None \<Rightarrow> row_doc r | Some d \<Rightarrow> JObj (row_fields r d))"

definition serialize_messages ::
    "(rat \<Rightarrow> string) \<Rightarrow> (json \<Rightarrow> string) \<Rightarrow> (json \<Rightarrow> string) \<Rightarrow> (string \<Rightarrow> json option) \<Rightarrow> (int \<Rightarrow> string) \<Rightarrow>
     (string \<Rightarrow> string \<Rightarrow> int) \<Rightarrow> string \<Rightarrow> export_row list \<Rightarrow> export_format \<Rightarrow> string \<Rightarrow> string" where
  "serialize_messages num print pretty parse iso_date lc now_text rows fmt name = (case fmt of
     ExJson \<Rightarrow> pretty (JArr (map row_doc rows))
   | ExNdjson \<Rightarrow> unlines (map (print \<circ> ndjson_doc parse) rows)
   | ExCsv \<Rightarrow> csv_text print iso_date rows
   | ExCsvFlat \<Rightarrow> flat_csv_text num print parse iso_date lc rows
   | ExPayloads \<Rightarrow> unlines (map xr_payload rows)
   | ExScript \<Rightarrow> replay_script rows name now_text)"

fun file_ext :: "export_format \<Rightarrow> string" where
  "file_ext ExJson = ''json''" | "file_ext ExNdjson = ''ndjson''" | "file_ext ExCsv = ''csv''"
| "file_ext ExCsvFlat = ''flat.csv''" | "file_ext ExPayloads = ''payloads.txt''" | "file_ext ExScript = ''replay.sh''"

fun file_mime :: "export_format \<Rightarrow> string" where
  "file_mime ExJson = ''application/json''" | "file_mime ExNdjson = ''application/x-ndjson''"
| "file_mime ExCsv = ''text/csv''" | "file_mime ExCsvFlat = ''text/csv''"
| "file_mime ExPayloads = ''text/plain''" | "file_mime ExScript = ''text/x-shellscript''"

definition file_char :: "char \<Rightarrow> bool" where
  "file_char c = (is_digit c \<or> is_upper c \<or> is_lower c \<or> c = CHR ''_'' \<or> c = CHR ''.'' \<or> c = CHR ''-'')"

text \<open>\<open>name.replace(/[^\w.-]+/g, '_')\<close>: a run of other characters becomes one underscore.\<close>

fun squeeze_name :: "bool \<Rightarrow> string \<Rightarrow> string" where
  "squeeze_name in_run [] = []"
| "squeeze_name in_run (c # cs) =
     (if file_char c then c # squeeze_name False cs
      else if in_run then squeeze_name True cs else CHR ''_'' # squeeze_name True cs)"

definition safe_name :: "string \<Rightarrow> string" where
  "safe_name name = (let s = take 80 (squeeze_name False name) in if s \<noteq> [] then s else ''messages'')"

definition file_stamp :: "string \<Rightarrow> string" where
  "file_stamp now_text = take 19 (map (\<lambda>c. if c = CHR '':'' \<or> c = CHR ''.'' then CHR ''-'' else c) now_text)"

text \<open>The text, the name and the type of the file \<open>exportMessages\<close> hands to the browser.\<close>

definition export_rows ::
    "(rat \<Rightarrow> string) \<Rightarrow> (json \<Rightarrow> string) \<Rightarrow> (json \<Rightarrow> string) \<Rightarrow> (string \<Rightarrow> json option) \<Rightarrow> (int \<Rightarrow> string) \<Rightarrow>
     (string \<Rightarrow> string \<Rightarrow> int) \<Rightarrow> string \<Rightarrow> export_row list \<Rightarrow> export_format \<Rightarrow> string \<Rightarrow> string \<times> string \<times> string" where
  "export_rows num print pretty parse iso_date lc now_text rows fmt name =
     (serialize_messages num print pretty parse iso_date lc now_text rows fmt name,
      safe_name name @ CHR ''-'' # file_stamp now_text @ CHR ''.'' # file_ext fmt,
      file_mime fmt)"

subsection \<open>What reads an export\<close>

text \<open>A CSV reader as RFC 4180 describes it, which also takes a carriage return for the end of a record.\<close>

datatype csv_mode = CellStart | CellPlain | CellQuoted | CellClosed

fun csv_read :: "csv_mode \<Rightarrow> string \<Rightarrow> string list \<Rightarrow> string \<Rightarrow> string list list" where
  "csv_read m acc row [] = (if m = CellStart \<and> row = [] then [] else [rev (rev acc # row)])"
| "csv_read m acc row (c # cs) =
     (if m = CellQuoted then
        (if c = CHR 0x22 then csv_read CellClosed acc row cs else csv_read CellQuoted (c # acc) row cs)
      else if m = CellClosed \<and> c = CHR 0x22 then csv_read CellQuoted (c # acc) row cs
      else if c = CHR '','' then csv_read CellStart [] (rev acc # row) cs
      else if c = CHR 0x0A \<or> c = CHR 0x0D then rev (rev acc # row) # csv_read CellStart [] [] cs
      else if m = CellStart \<and> c = CHR 0x22 then csv_read CellQuoted [] row cs
      else csv_read CellPlain (c # acc) row cs)"

definition read_csv :: "string \<Rightarrow> string list list" where
  "read_csv = csv_read CellStart [] []"

text \<open>One word of a shell command: single quotes, and a backslash outside of them.\<close>

fun sh_word :: "bool \<Rightarrow> string \<Rightarrow> string option" where
  "sh_word quoted [] = (if quoted then None else Some [])"
| "sh_word True (c # cs) = (if c = CHR 0x27 then sh_word False cs else map_option ((#) c) (sh_word True cs))"
| "sh_word False (c # cs) =
     (if c = CHR 0x27 then sh_word True cs
      else if c = CHR 0x5C then (case cs of [] \<Rightarrow> None | d # ds \<Rightarrow> map_option ((#) d) (sh_word False ds))
      else map_option ((#) c) (sh_word False cs))"

text \<open>A body as \<open>nats pub\<close> expands it: text, and the template above; any other template is \<open>None\<close>.\<close>

function go_expand :: "string \<Rightarrow> string option" where
  "go_expand s =
     (if starts_with s brace_template then map_option ((@) ''{{'') (go_expand (drop (length brace_template) s))
      else if starts_with s ''{{'' then None
      else (case s of [] \<Rightarrow> Some [] | c # cs \<Rightarrow> map_option ((#) c) (go_expand cs)))"
  by pat_completeness auto
termination
  by (relation "measure length") (auto simp: brace_template_def prefix_def)

declare go_expand.simps [simp del]

subsection \<open>Reading CSV back\<close>

lemma read_plain:
  assumes "\<not> list_ex csv_special s" "m = CellStart \<or> m = CellPlain"
  shows "csv_read m acc row (s @ CHR '','' # t) = csv_read CellStart [] ((rev acc @ s) # row) t"
    and "csv_read m acc row (s @ CHR 0x0A # t) = rev ((rev acc @ s) # row) # csv_read CellStart [] [] t"
  using assms by (induction s arbitrary: m acc) (auto simp: csv_special_def)

lemma read_quoted:
  "csv_read CellQuoted acc row (double_quotes s @ CHR 0x22 # CHR '','' # t) = csv_read CellStart [] ((rev acc @ s) # row) t"
  "csv_read CellQuoted acc row (double_quotes s @ CHR 0x22 # CHR 0x0A # t) =
     rev ((rev acc @ s) # row) # csv_read CellStart [] [] t"
  by (induction s arbitrary: acc) (simp_all add: double_quotes_def)

lemma read_cell:
  "csv_read CellStart [] row (csv_cell s @ CHR '','' # t) = csv_read CellStart [] (s # row) t"
  "csv_read CellStart [] row (csv_cell s @ CHR 0x0A # t) = rev (s # row) # csv_read CellStart [] [] t"
  by (simp_all add: csv_cell_def read_plain read_quoted)

lemma read_line:
  "cells \<noteq> [] \<Longrightarrow> csv_read CellStart [] row (csv_line cells @ CHR 0x0A # t) =
     (rev row @ cells) # csv_read CellStart [] [] t"
proof (induction cells arbitrary: row)
  case (Cons c cs)
  show ?case
  proof (cases cs)
    case Nil
    then show ?thesis by (simp add: csv_line_def read_cell)
  next
    case (Cons d ds)
    then have "csv_line (c # cs) = csv_cell c @ CHR '','' # csv_line cs" by (simp add: csv_line_def)
    then show ?thesis using Cons.IH [of "c # row"] Cons by (simp add: read_cell)
  qed
qed simp

lemma unlines_Cons: "unlines (l # ls) = l @ CHR 0x0A # (if ls = [] then [] else unlines ls)"
  by (cases ls) (simp_all add: unlines_def)

lemma read_lines:
  "\<forall>r \<in> set rows. r \<noteq> [] \<Longrightarrow> rows \<noteq> [] \<Longrightarrow> read_csv (unlines (map csv_line rows)) = rows"
proof (induction rows)
  case (Cons r rs)
  then show ?case by (cases rs) (simp_all add: unlines_Cons read_csv_def read_line)
qed simp

lemma csv_line_plain: "\<forall>c \<in> set cells. \<not> list_ex csv_special c \<Longrightarrow> csv_line cells = join_with CHR '','' cells"
proof -
  assume "\<forall>c \<in> set cells. \<not> list_ex csv_special c"
  then have "map csv_cell cells = cells" by (intro map_idI) (simp add: csv_cell_def)
  then show ?thesis by (simp add: csv_line_def)
qed

lemma csv_columns_plain: "\<forall>c \<in> set csv_columns. \<not> list_ex csv_special c"
  by (simp add: csv_columns_def csv_special_def)

text \<open>C34: A CSV export reads back as the header and the cells of every row, whatever the payloads, subjects
  and headers hold: commas, quotes and line breaks of either kind.\<close>

theorem csv_reads_back:
  "read_csv (csv_text print iso_date rows) = csv_columns # map (csv_cells print iso_date) rows"
proof -
  have "csv_text print iso_date rows = unlines (map csv_line (csv_columns # map (csv_cells print iso_date) rows))"
    by (simp add: csv_text_def csv_line_plain [OF csv_columns_plain])
  moreover have "\<forall>r \<in> set (csv_columns # map (csv_cells print iso_date) rows). r \<noteq> []"
    by (auto simp: csv_columns_def csv_cells_def)
  ultimately show ?thesis by (metis read_lines list.distinct(2))
qed

text \<open>The columns of a wide export, and the cells under them.\<close>

definition flat_header :: "(rat \<Rightarrow> string) \<Rightarrow> (json \<Rightarrow> string) \<Rightarrow> (string \<Rightarrow> json option) \<Rightarrow> (int \<Rightarrow> string) \<Rightarrow>
    (string \<Rightarrow> string \<Rightarrow> int) \<Rightarrow> export_row list \<Rightarrow> string list" where
  "flat_header num print parse iso_date lc rows = fixed_columns @ filter (\<lambda>c. c \<notin> set fixed_columns)
     (flat_columns lc (map (flat_cells num print parse iso_date) rows))"

lemma flat_csv_text_header:
  "flat_csv_text num print parse iso_date lc rows =
     unlines (join_with CHR '','' (flat_header num print parse iso_date lc rows) #
       map (\<lambda>r. csv_line (map (\<lambda>col. nullish (jm_get (flat_cells num print parse iso_date r) col) [])
         (flat_header num print parse iso_date lc rows))) rows)"
  by (simp add: flat_csv_text_def flat_header_def Let_def o_def)

text \<open>A wide export reads back as its columns and the cells under them, as long as no field or header
  name holds a comma, a quote or a line break: the header line is written without quoting.\<close>

theorem flat_csv_reads_back:
  assumes "\<forall>c \<in> set (flat_header num print parse iso_date lc rows). \<not> list_ex csv_special c"
  shows "read_csv (flat_csv_text num print parse iso_date lc rows) = flat_header num print parse iso_date lc rows #
    map (\<lambda>r. map (\<lambda>col. nullish (jm_get (flat_cells num print parse iso_date r) col) [])
      (flat_header num print parse iso_date lc rows)) rows"
proof -
  let ?h = "flat_header num print parse iso_date lc rows"
  let ?cells = "\<lambda>r. map (\<lambda>col. nullish (jm_get (flat_cells num print parse iso_date r) col) []) ?h"
  have ne: "?h \<noteq> []" by (simp add: flat_header_def fixed_columns_def)
  have "flat_csv_text num print parse iso_date lc rows = unlines (map csv_line (?h # map ?cells rows))"
    unfolding flat_csv_text_header by (simp add: csv_line_plain [OF assms] o_def)
  moreover have "\<forall>r \<in> set (?h # map ?cells rows). r \<noteq> []" using ne by auto
  ultimately show ?thesis by (metis read_lines list.distinct(2))
qed

definition sample_row :: "string \<Rightarrow> payload_type \<Rightarrow> export_row" where
  "sample_row payload t = \<lparr>xr_timestamp = 7, xr_subject = ''s'', xr_payload = payload, xr_payload_type = t,
     xr_size = 1, xr_headers = None, xr_sequence = None\<rparr>"

definition sample_fields :: "string \<Rightarrow> string \<Rightarrow> json option" where
  "sample_fields k payload = Some (JObj [(k, JBool True)])"

lemma sample_flat_cells:
  "flat_cells num print (sample_fields k) (\<lambda>_. ''T'') (sample_row p PJson) =
     jm_set (''payload.'' @ k) ''true'' (fixed_cells (\<lambda>_. ''T'') (sample_row p PJson))"
  by (simp add: flat_cells_def header_cells_def sample_row_def parsed_payload_def sample_fields_def
      max_flat_depth_def below_prefix_def)

lemma flat_columns_small:
  assumes "length (tally (concat (map jm_keys cs))) \<le> max_flat_columns"
  shows "set (flat_columns lc cs) = (\<Union>c \<in> set cs. set (jm_keys c))" "distinct (flat_columns lc cs)"
  using assms set_tally_keys [of "concat (map jm_keys cs)"] jm_wf_tally [of "concat (map jm_keys cs)"]
  by (simp_all add: flat_columns_def)

lemma distinct_single: "set xs = {x} \<Longrightarrow> distinct xs \<Longrightarrow> xs = [x]"
proof (cases xs)
  case (Cons y ys)
  assume "set xs = {x}" "distinct xs"
  then show ?thesis using Cons by (cases ys) auto
qed simp

lemma sample_flat_header:
  "flat_header num print (sample_fields k) (\<lambda>_. ''T'') lc [sample_row p PJson] = fixed_columns @ [''payload.'' @ k]"
proof -
  let ?c = "flat_cells num print (sample_fields k) (\<lambda>_. ''T'') (sample_row p PJson)"
  have keys: "jm_keys ?c = fixed_columns @ [''payload.'' @ k]"
    unfolding sample_flat_cells by (simp add: fixed_cells_def fixed_columns_def)
  have "length (tally (jm_keys ?c)) = card (set (jm_keys ?c))"
    using jm_wf_tally [of "jm_keys ?c"] set_tally_keys [of "jm_keys ?c"] distinct_card [of "jm_keys (tally (jm_keys ?c))"]
    by simp
  also have "\<dots> \<le> length (jm_keys ?c)" by (rule card_length)
  finally have "length (tally (jm_keys ?c)) \<le> max_flat_columns"
    by (simp add: keys fixed_columns_def max_flat_columns_def)
  then have cols: "set (flat_columns lc [?c]) = set fixed_columns \<union> {''payload.'' @ k}" "distinct (flat_columns lc [?c])"
    using flat_columns_small [of "[?c]" lc] keys by simp_all
  let ?d = "filter (\<lambda>c. c \<notin> set fixed_columns) (flat_columns lc [?c])"
  have "set ?d = {''payload.'' @ k}" "distinct ?d"
    using cols by (auto simp: fixed_columns_def)
  then have "?d = [''payload.'' @ k]" by (rule distinct_single)
  then show ?thesis by (simp add: flat_header_def)
qed

text \<open>A field name that holds a comma breaks the table: the header has one column more than the rows
  below it.\<close>

theorem flat_header_splits:
  "let rows = read_csv (flat_csv_text num print (sample_fields ''a,b'') (\<lambda>_. ''T'') lc [sample_row p PJson])
   in map length rows = [8, 7]"
proof -
  let ?h = "flat_header num print (sample_fields ''a,b'') (\<lambda>_. ''T'') lc [sample_row p PJson]"
  let ?r = "map (\<lambda>col. nullish (jm_get (flat_cells num print (sample_fields ''a,b'') (\<lambda>_. ''T'') (sample_row p PJson)) col) []) ?h"
  have "join_with CHR '','' ?h = csv_line (fixed_columns @ [''payload.a'', ''b''])"
    unfolding sample_flat_header by (simp add: csv_line_def csv_cell_def csv_special_def fixed_columns_def)
  then have "flat_csv_text num print (sample_fields ''a,b'') (\<lambda>_. ''T'') lc [sample_row p PJson] =
      unlines (map csv_line [fixed_columns @ [''payload.a'', ''b''], ?r])"
    by (simp add: flat_csv_text_header)
  moreover have "?r \<noteq> []" by (simp add: sample_flat_header)
  ultimately have "read_csv (flat_csv_text num print (sample_fields ''a,b'') (\<lambda>_. ''T'') lc [sample_row p PJson]) =
      [fixed_columns @ [''payload.a'', ''b''], ?r]"
    using read_lines [of "[fixed_columns @ [''payload.a'', ''b''], ?r]"] by simp
  then show ?thesis by (simp add: sample_flat_header fixed_columns_def)
qed

subsection \<open>The replay script publishes what was recorded\<close>

lemma sh_word_quote: "sh_word False (sh_quote s) = Some s"
proof -
  have "sh_word True (concat (map (\<lambda>c. if c = CHR 0x27 then [CHR 0x27, CHR 0x5C, CHR 0x27, CHR 0x27] else [c]) s) @ [CHR 0x27])
      = Some s"
    by (induction s) simp_all
  then show ?thesis by (simp add: sh_quote_def)
qed

lemma escape_start: "escape_template s = [] \<longleftrightarrow> s = []"
  by (cases s rule: escape_template.cases) (simp_all add: brace_template_def)

lemma go_expand_plain: "\<not> starts_with (c # s) ''{{'' \<Longrightarrow> go_expand (c # s) = map_option ((#) c) (go_expand s)"
proof -
  assume no: "\<not> starts_with (c # s) ''{{''"
  have "brace_template = ''{{'' @ drop 2 brace_template" by (simp add: brace_template_def)
  then have "\<not> starts_with (c # s) brace_template" using no by (metis append_prefixD)
  with no show ?thesis
    by (subst go_expand.simps) (simp only: if_False list.case)
qed

lemma go_expand_template: "go_expand (brace_template @ s) = map_option ((@) ''{{'') (go_expand s)"
  by (subst go_expand.simps) simp

lemma go_expand_escape: "go_expand (escape_template s) = Some s"
proof (induction s rule: escape_template.induct)
  case (1 c d cs)
  show ?case
  proof (cases "c = CHR ''{'' \<and> d = CHR ''{''")
    case True
    then show ?thesis using 1 by (simp add: go_expand_template)
  next
    case False
    have plain: "\<not> starts_with (c # escape_template (d # cs)) ''{{''"
    proof (cases "c = CHR ''{''")
      case True
      then have "d \<noteq> CHR ''{''" using False by simp
      then show ?thesis by (cases cs) simp_all
    qed simp
    have "escape_template (c # d # cs) = c # escape_template (d # cs)"
      by (simp only: escape_template.simps if_not_P [OF False])
    then show ?thesis by (simp only: go_expand_plain [OF plain] 1(2) [OF False] option.map)
  qed
next
  case "2_1"
  show ?case by (subst escape_template.simps; subst go_expand.simps) (simp add: brace_template_def)
next
  case "2_2"
  show ?case by (simp add: go_expand_plain) (subst go_expand.simps, simp add: brace_template_def)
qed


subsection \<open>The name of the file\<close>

lemma squeeze_chars: "c \<in> set (squeeze_name b s) \<Longrightarrow> file_char c"
  by (induction b s rule: squeeze_name.induct) (auto simp: file_char_def split: if_splits)

text \<open>The name of a file is not empty, has at most eighty characters, and holds nothing but letters,
  digits, dots, dashes and underscores, whatever the subject is called.\<close>

theorem safe_name_ok:
  "safe_name name \<noteq> [] \<and> length (safe_name name) \<le> 80 \<and> list_all file_char (safe_name name)"
proof -
  have "list_all file_char (take 80 (squeeze_name False name))"
    by (auto simp: list_all_iff dest!: in_set_takeD squeeze_chars)
  moreover have "list_all file_char ''messages''"
    by (simp add: file_char_def is_lower_def)
  ultimately show ?thesis by (simp add: safe_name_def Let_def)
qed

end
