(* ===== verification/Replay.thy ===== *)
theory Replay
  imports Messages Json
begin

text \<open>
  Publishing recorded messages again (\<open>client/src/lib/replay.ts\<close>) and paging a whole time range in for
  an export (\<open>client/src/lib/exportRange.ts\<close>).

  Both are loops around calls of the backend. What a call answers is an argument: \<open>publish i\<close> is the
  error of the \<open>i\<close>-th call, or none, and \<open>ask i\<close> gives the pages of the \<open>i\<close>-th round, or \<open>None\<close> when a
  page fails, which ends the export with the error. The abort signal is the argument \<open>aborted\<close>, read
  before each message. Pauses between publishes change nothing but time.
\<close>

subsection \<open>Replay\<close>

record replay_options =
  ro_interval :: int
  ro_rewrite :: "(string \<times> string) option"

record replay_progress =
  rp_sent :: nat
  rp_total :: nat
  rp_failed :: nat
  rp_last_error :: "string option"

definition rewrite_subject :: "string \<Rightarrow> (string \<times> string) option \<Rightarrow> string" where
  "rewrite_subject subject rw = (case rw of None \<Rightarrow> subject
     | Some (f, t) \<Rightarrow> if f \<noteq> [] \<and> starts_with subject f then t @ drop (length f) subject else subject)"

type_synonym publish_call = "string \<times> string \<times> header_map option"

definition publish_call :: "replay_options \<Rightarrow> nats_message \<Rightarrow> publish_call" where
  "publish_call opts m = (rewrite_subject (m_subject m) (ro_rewrite opts), m_payload m, m_headers m)"

definition replay_one :: "string option \<Rightarrow> nats_message \<Rightarrow> replay_progress \<Rightarrow> replay_progress" where
  "replay_one answer m p =
     (if m_payload_type m = PBinary
      then p\<lparr>rp_failed := Suc (rp_failed p), rp_last_error := Some ''binary payloads cannot be replayed''\<rparr>
      else (case answer of
          None \<Rightarrow> p\<lparr>rp_sent := Suc (rp_sent p)\<rparr>
        | Some e \<Rightarrow> p\<lparr>rp_failed := Suc (rp_failed p), rp_last_error := Some e\<rparr>))"

text \<open>The result is the progress, the calls made and the reports to the caller, in order.\<close>

fun replay_from :: "replay_options \<Rightarrow> (nat \<Rightarrow> bool) \<Rightarrow> (nat \<Rightarrow> publish_call \<Rightarrow> string option) \<Rightarrow> nat \<Rightarrow>
    nats_message list \<Rightarrow> replay_progress \<Rightarrow> replay_progress \<times> publish_call list \<times> replay_progress list" where
  "replay_from opts aborted publish i [] p = (p, [], [])"
| "replay_from opts aborted publish i (m # ms) p =
     (if aborted i then (p, [], [])
      else (let p' = replay_one (publish i (publish_call opts m)) m p;
                (q, calls, reports) = replay_from opts aborted publish (Suc i) ms p'
            in (q, (if m_payload_type m = PBinary then calls else publish_call opts m # calls), p' # reports)))"

definition replay_messages :: "replay_options \<Rightarrow> (nat \<Rightarrow> bool) \<Rightarrow> (nat \<Rightarrow> publish_call \<Rightarrow> string option) \<Rightarrow>
    nats_message list \<Rightarrow> replay_progress \<times> publish_call list \<times> replay_progress list" where
  "replay_messages opts aborted publish messages =
     replay_from opts aborted publish 0 (js_sort (by_number m_timestamp) messages)
       \<lparr>rp_sent = 0, rp_total = length messages, rp_failed = 0, rp_last_error = None\<rparr>"

lemma replay_one_fields [simp]:
  "rp_sent (replay_one a m p) + rp_failed (replay_one a m p) = Suc (rp_sent p + rp_failed p)"
  "rp_total (replay_one a m p) = rp_total p"
  by (simp_all add: replay_one_def split: option.split)

lemma replay_from_spec:
  assumes "replay_from opts aborted publish i ms p = (q, calls, reports)"
  shows "\<exists>k \<le> length ms. rp_sent q + rp_failed q = rp_sent p + rp_failed p + k \<and> rp_total q = rp_total p \<and>
    length reports = k \<and> calls = map (publish_call opts) (filter (\<lambda>m. m_payload_type m \<noteq> PBinary) (take k ms)) \<and>
    (k = length ms \<or> aborted (i + k))"
  using assms
proof (induction ms arbitrary: i p q calls reports)
  case (Cons m ms)
  show ?case
  proof (cases "aborted i")
    case True
    then show ?thesis using Cons.prems by (intro exI [of _ 0]) simp
  next
    case False
    let ?p = "replay_one (publish i (publish_call opts m)) m p"
    obtain calls' reports' where r: "replay_from opts aborted publish (Suc i) ms ?p = (q, calls', reports')"
      and c: "calls = (if m_payload_type m = PBinary then calls' else publish_call opts m # calls')" "reports = ?p # reports'"
      using Cons.prems False by (auto simp: Let_def split: prod.splits)
    from Cons.IH [OF r] obtain k where "k \<le> length ms"
      "rp_sent q + rp_failed q = rp_sent ?p + rp_failed ?p + k" "rp_total q = rp_total ?p" "length reports' = k"
      "calls' = map (publish_call opts) (filter (\<lambda>m. m_payload_type m \<noteq> PBinary) (take k ms))"
      "k = length ms \<or> aborted (Suc i + k)" by blast
    then show ?thesis using c by (intro exI [of _ "Suc k"]) auto
  qed
qed simp

text \<open>A replay takes the messages oldest first, up to the one before which it is aborted: it publishes
  each text message of these once, under its rewritten subject, reports after each, and counts every
  one as sent or failed.\<close>

theorem replay_correct:
  assumes "replay_messages opts aborted publish messages = (p, calls, reports)"
  shows "\<exists>k \<le> length messages. let taken = take k (js_sort (by_number m_timestamp) messages) in
    rp_sent p + rp_failed p = k \<and> rp_total p = length messages \<and> length reports = k \<and>
    calls = map (publish_call opts) (filter (\<lambda>m. m_payload_type m \<noteq> PBinary) taken) \<and>
    (k = length messages \<or> aborted k) \<and> sorted (map m_timestamp taken)"
proof -
  have "sorted_wrt (\<lambda>x y. by_number m_timestamp x y \<le> 0) (js_sort (by_number m_timestamp) messages)"
    by (rule comparator.ascending_sort [OF comparator_by_number])
  then have "sorted (map m_timestamp (js_sort (by_number m_timestamp) messages))"
    by (simp add: by_number_def sorted_wrt_map)
  then have "sorted (map m_timestamp (take k (js_sort (by_number m_timestamp) messages)))" for k
    by (simp add: take_map [symmetric] sorted_wrt_take)
  moreover from replay_from_spec [OF assms [unfolded replay_messages_def]]
  obtain k where "k \<le> length messages" "rp_sent p + rp_failed p = k" "rp_total p = length messages" "length reports = k"
    "calls = map (publish_call opts) (filter (\<lambda>m. m_payload_type m \<noteq> PBinary) (take k (js_sort (by_number m_timestamp) messages)))"
    "k = length messages \<or> aborted k" by auto
  ultimately show ?thesis by (intro exI [of _ k]) (auto simp: Let_def)
qed

definition sample_message :: "string \<Rightarrow> int \<Rightarrow> payload_type \<Rightarrow> nats_message" where
  "sample_message subject t ty = \<lparr>m_subject = subject, m_payload = ''1'', m_payload_type = ty, m_headers = None,
     m_timestamp = t, m_reply = None, m_size = 1, m_sequence = None, m_conn_id = None, m_schema = None\<rparr>"

lemma replay_correct_witness:
  "\<exists>k \<le> 2. let taken = take k (js_sort (by_number m_timestamp) [sample_message ''a.b'' 9 PBinary, sample_message ''a.c'' 5 PJson]) in
    (1 :: nat) + 1 = k \<and> (2 :: nat) = 2 \<and> length [(), ()] = k \<and>
    [(''x.c'', ''1'', None)] = map (publish_call \<lparr>ro_interval = 0, ro_rewrite = Some (''a'', ''x'')\<rparr>)
      (filter (\<lambda>m. m_payload_type m \<noteq> PBinary) taken)"
proof -
  let ?opts = "\<lparr>ro_interval = 0, ro_rewrite = Some (''a'', ''x'')\<rparr>"
  let ?ms = "[sample_message ''a.b'' 9 PBinary, sample_message ''a.c'' 5 PJson]"
  obtain p calls reports where r: "replay_messages ?opts (\<lambda>_. False) (\<lambda>_ _. None) ?ms = (p, calls, reports)"
    by (metis prod_cases3)
  then have "rp_sent p = 1" "rp_failed p = 1" "calls = [(''x.c'', ''1'', None)]" "length reports = 2"
    by (auto simp: replay_messages_def js_sort_def by_number_def sample_message_def replay_one_def
        publish_call_def rewrite_subject_def Let_def)
  with replay_correct [OF r] show ?thesis by (auto simp: Let_def)
qed

subsection \<open>A whole range\<close>

definition export_max_messages :: nat where
  "export_max_messages = 200000"

definition range_cursors :: "nats_message list \<Rightarrow> (string, nats_message) jsmap" where
  "range_cursors messages = fold (\<lambda>m cs. if truthy (m_conn_id m) then jm_set (the (m_conn_id m)) m cs else cs) messages []"

text \<open>The rounds left are the fuel; it starts at the guard of the code, one thousand.\<close>

fun range_rounds :: "nat \<Rightarrow> (nat \<Rightarrow> (string, nats_message) jsmap \<Rightarrow> (nats_message list \<times> bool) list option) \<Rightarrow>
    nat \<Rightarrow> nats_message list \<Rightarrow> bool \<Rightarrow> (nats_message list \<times> bool \<times> nat) option" where
  "range_rounds 0 ask i messages left = Some (messages, left, i)"
| "range_rounds (Suc n) ask i messages left =
     (if \<not> (left \<and> length messages < export_max_messages) then Some (messages, left, i)
      else (let cursors = range_cursors messages in
        if cursors = [] then Some (messages, left, i)
        else (case ask i cursors of None \<Rightarrow> None
          | Some pages \<Rightarrow> (let older = concat (map fst pages) in
              if older = [] then Some (messages, left, Suc i)
              else range_rounds n ask (Suc i) (messages @ older) (list_ex snd pages)))))"

definition fetch_whole_range :: "(nat \<Rightarrow> (string, nats_message) jsmap \<Rightarrow> (nats_message list \<times> bool) list option) \<Rightarrow>
    nats_message list \<Rightarrow> bool option \<Rightarrow> (nats_message list \<times> bool) option" where
  "fetch_whole_range ask seed left =
     (case range_rounds 1000 ask 0 seed (nullish left False) of None \<Rightarrow> None
      | Some (messages, left, _) \<Rightarrow> Some (messages, left \<and> length messages \<ge> export_max_messages))"

lemma range_rounds_spec:
  "range_rounds n ask i messages left = Some (ms, left', j) \<Longrightarrow>
     (\<exists>older. ms = messages @ older \<and> j \<le> i + n \<and> j \<le> i + length older + 1) \<and>
     (\<not> left' \<or> length ms \<ge> export_max_messages \<or> range_cursors ms = [] \<or> j = i + n \<or>
       (\<exists>pages. ask (j - 1) (range_cursors ms) = Some pages \<and> concat (map fst pages) = []))"
proof (induction n arbitrary: i messages left)
  case (Suc n)
  show ?case
  proof (cases "left \<and> length messages < export_max_messages \<and> range_cursors messages \<noteq> []")
    case True
    then obtain pages where pages: "ask i (range_cursors messages) = Some pages"
      using Suc.prems by (auto simp: Let_def split: option.splits)
    show ?thesis
    proof (cases "concat (map fst pages) = []")
      case True': True
      then have "ms = messages" "left' = left" "j = Suc i"
        using Suc.prems True pages by (auto simp: Let_def)
      then show ?thesis using pages True' by auto
    next
      case False
      have "range_rounds (Suc n) ask i messages left =
          (if concat (map fst pages) = [] then Some (messages, left, Suc i)
           else range_rounds n ask (Suc i) (messages @ concat (map fst pages)) (list_ex snd pages))"
        using True pages by (simp only: range_rounds.simps Let_def option.case if_False if_True simp_thms)
      then have r: "range_rounds n ask (Suc i) (messages @ concat (map fst pages)) (list_ex snd pages) = Some (ms, left', j)"
        using Suc.prems if_not_P [OF False] by metis
      have "length (concat (map fst pages)) \<ge> 1" using False by (simp add: Suc_leI)
      then show ?thesis using Suc.IH [OF r] by fastforce
    qed
  next
    case False
    then have "ms = messages" "left' = left" "j = i" using Suc.prems by (auto simp: Let_def split: if_splits)
    then show ?thesis using False by auto
  qed
qed auto



end
