(* ===== verification/StateTable.thy ===== *)
theory StateTable
  imports Export
begin

text \<open>
  The state table (\<open>client/src/lib/stateTable.ts\<close>): the newest message of every subject, its fields as
  columns, and the table as CSV. The JSON parser, the text of numbers and dates and the two collations
  are arguments.
\<close>

definition newest_step :: "nats_message \<Rightarrow> (string, nats_message) jsmap \<Rightarrow> (string, nats_message) jsmap" where
  "newest_step m newest = (case jm_get newest (m_subject m) of
       None \<Rightarrow> jm_set (m_subject m) m newest
     | Some seen \<Rightarrow> if m_timestamp m > m_timestamp seen then jm_set (m_subject m) m newest else newest)"

definition newest_per_subject :: "nats_message list \<Rightarrow> (string, nats_message) jsmap" where
  "newest_per_subject messages = fold newest_step messages []"

definition state_fields :: "(rat \<Rightarrow> string) \<Rightarrow> (string \<Rightarrow> json option) \<Rightarrow> nats_message \<Rightarrow> cells" where
  "state_fields num parse m =
     (if m_payload_type m \<noteq> PJson then []
      else (case parse (m_payload m) of
          Some (JObj fs) \<Rightarrow> fold (\<lambda>(k, v) out. if v = JNull then jm_set k ''null'' out
              else if \<not> is_object v then jm_set k (js_string num v) out else out) fs []
        | _ \<Rightarrow> []))"

record state_row =
  st_subject :: string
  st_at :: int
  st_fields :: cells
  st_message :: nats_message

definition state_rows ::
    "(string \<Rightarrow> string \<Rightarrow> int) \<Rightarrow> (rat \<Rightarrow> string) \<Rightarrow> (string \<Rightarrow> json option) \<Rightarrow> nats_message list \<Rightarrow> state_row list" where
  "state_rows lc num parse messages =
     js_sort (\<lambda>a b. lc (st_subject a) (st_subject b))
       (map (\<lambda>m. \<lparr>st_subject = m_subject m, st_at = m_timestamp m, st_fields = state_fields num parse m, st_message = m\<rparr>)
         (jm_values (newest_per_subject messages)))"

definition state_columns :: "(string \<Rightarrow> string \<Rightarrow> int) \<Rightarrow> nat \<Rightarrow> state_row list \<Rightarrow> string list" where
  "state_columns lc n rows =
     map fst (take n (js_sort (by_use lc) (tally (concat (map (jm_keys \<circ> st_fields) rows)))))"

text \<open>A cell is quoted for a comma, a quote or a line feed; a carriage return is not looked for.\<close>

definition state_cell :: "string \<Rightarrow> string" where
  "state_cell v = (if list_ex (\<lambda>c. c = CHR 0x22 \<or> c = CHR '','' \<or> c = CHR 0x0A) v
     then CHR 0x22 # double_quotes v @ [CHR 0x22] else v)"

definition state_line :: "string list \<Rightarrow> string" where
  "state_line cells = join_with CHR '','' (map state_cell cells)"

definition age_seconds :: "int \<Rightarrow> int \<Rightarrow> int" where
  "age_seconds now t0 = \<lfloor>(rat_of_int (now - t0)) / 1000 + 1 / 2\<rfloor>"

definition state_csv :: "(int \<Rightarrow> string) \<Rightarrow> int \<Rightarrow> state_row list \<Rightarrow> string list \<Rightarrow> string" where
  "state_csv iso_date now rows columns = join_with CHR 0x0A
     (state_line (''subject'' # columns @ [''age_seconds'', ''at'']) #
      map (\<lambda>r. state_line (st_subject r # map (\<lambda>c. nullish (jm_get (st_fields r) c) []) columns @
        [int_str (age_seconds now (st_at r)), iso_date (st_at r)])) rows)"

subsection \<open>The newest message of every subject\<close>

definition newest_of :: "nats_message list \<Rightarrow> string \<Rightarrow> nats_message option \<Rightarrow> bool" where
  "newest_of before s found \<longleftrightarrow> (case found of
      None \<Rightarrow> \<forall>m \<in> set before. m_subject m \<noteq> s
    | Some m \<Rightarrow> m \<in> set before \<and> m_subject m = s \<and> (\<forall>m' \<in> set before. m_subject m' = s \<longrightarrow> m_timestamp m' \<le> m_timestamp m))"

lemma newest_step:
  assumes "jm_wf n" "\<And>s. newest_of before s (jm_get n s)"
  shows "jm_wf (newest_step m n)" "newest_of (before @ [m]) s (jm_get (newest_step m n) s)"
proof -
  show "jm_wf (newest_step m n)" using assms(1) by (simp add: newest_step_def split: option.split)
  show "newest_of (before @ [m]) s (jm_get (newest_step m n) s)"
    using assms(2) [of s]
    by (cases "jm_get n s"; cases "s = m_subject m") (auto simp: newest_step_def newest_of_def split: option.split)
qed

lemma newest_fold:
  assumes "jm_wf n" "\<And>s. newest_of before s (jm_get n s)"
  shows "jm_wf (fold newest_step ms n)" "newest_of (before @ ms) s (jm_get (fold newest_step ms n) s)"
proof -
  have "jm_wf (fold newest_step ms n) \<and> (\<forall>s. newest_of (before @ ms) s (jm_get (fold newest_step ms n) s))"
    using assms
  proof (induction ms arbitrary: before n)
    case (Cons m ms)
    show ?case using Cons.IH [OF newest_step [OF Cons.prems], of m] by simp
  qed simp
  then show "jm_wf (fold newest_step ms n)" "newest_of (before @ ms) s (jm_get (fold newest_step ms n) s)" by blast+
qed

lemma newest_spec:
  "jm_wf (newest_per_subject messages)"
  "jm_get (newest_per_subject messages) s = Some m \<Longrightarrow> m \<in> set messages \<and> m_subject m = s \<and>
      (\<forall>m' \<in> set messages. m_subject m' = s \<longrightarrow> m_timestamp m' \<le> m_timestamp m)"
  "set (jm_keys (newest_per_subject messages)) = m_subject ` set messages"
proof -
  have start: "jm_wf []" "newest_of [] s (jm_get [] s)" for s by (simp_all add: newest_of_def)
  note all = newest_fold [OF start, of messages, folded newest_per_subject_def, unfolded append_Nil]
  show "jm_wf (newest_per_subject messages)" by (fact all(1))
  show "m \<in> set messages \<and> m_subject m = s \<and>
      (\<forall>m' \<in> set messages. m_subject m' = s \<longrightarrow> m_timestamp m' \<le> m_timestamp m)"
    if "jm_get (newest_per_subject messages) s = Some m"
    using all(2) [of s] that by (simp add: newest_of_def)
  have "s \<in> set (jm_keys (newest_per_subject messages)) \<longleftrightarrow> s \<in> m_subject ` set messages" for s
    using all(2) [of s] jm_get_None [of "newest_per_subject messages" s]
    by (cases "jm_get (newest_per_subject messages) s") (auto simp: newest_of_def)
  then show "set (jm_keys (newest_per_subject messages)) = m_subject ` set messages" by blast
qed

text \<open>The state table has exactly one row per subject, and it is the newest message of that subject.\<close>

theorem state_rows_newest:
  "distinct (map st_subject (state_rows lc num parse messages)) \<and>
   set (map st_subject (state_rows lc num parse messages)) = m_subject ` set messages \<and>
   list_all (\<lambda>r. st_message r \<in> set messages \<and> m_subject (st_message r) = st_subject r \<and>
     st_at r = Max (m_timestamp ` {m \<in> set messages. m_subject m = st_subject r}))
     (state_rows lc num parse messages)"
proof -
  let ?n = "newest_per_subject messages"
  have entry: "m \<in> set messages \<and> m_subject m = s \<and> (\<forall>m' \<in> set messages. m_subject m' = s \<longrightarrow> m_timestamp m' \<le> m_timestamp m)"
    if "(s, m) \<in> set ?n" for s m
    using newest_spec(2) jm_in_get [OF newest_spec(1) that] by blast
  have keys: "map m_subject (jm_values ?n) = jm_keys ?n"
    using entry by (auto intro!: map_cong)
  have max: "m_timestamp m = Max (m_timestamp ` {x \<in> set messages. m_subject x = m_subject m})" if m: "m \<in> set (jm_values ?n)" for m
  proof -
    obtain s where "(s, m) \<in> set ?n" using m by force
    from entry [OF this] show ?thesis by (intro Max_eqI [symmetric]) auto
  qed
  have members: "m \<in> set messages" if "m \<in> set (jm_values ?n)" for m
    using that entry by auto
  let ?row = "\<lambda>m. \<lparr>st_subject = m_subject m, st_at = m_timestamp m, st_fields = state_fields num parse m, st_message = m\<rparr>"
  have subjects: "map st_subject (map ?row (jm_values ?n)) = jm_keys ?n"
    using keys by (simp add: o_def)
  have mset: "mset (state_rows lc num parse messages) = mset (map ?row (jm_values ?n))"
    by (simp add: state_rows_def)
  have 1: "mset (map st_subject (state_rows lc num parse messages)) = mset (jm_keys ?n)"
    using arg_cong [OF mset, of "image_mset st_subject"] unfolding mset_map [symmetric] subjects .
  have rows: "set (state_rows lc num parse messages) = ?row ` set (jm_values ?n)"
    using mset_eq_setD [OF mset] by (simp add: image_image)
  show ?thesis
    using mset_eq_imp_distinct_iff [OF 1] mset_eq_setD [OF 1] newest_spec(1,3) [of messages] max members
    unfolding list_all_iff rows by auto
qed

text \<open>A value with a carriage return breaks the row of the table it stands in for a reader that takes it
  for a line end: it is written unquoted, where the other exports quote it.\<close>

theorem state_cell_return:
  "state_cell [CHR ''a'', CHR 0x0D, CHR ''b''] = [CHR ''a'', CHR 0x0D, CHR ''b''] \<and>
   read_csv (state_line [[CHR ''a'', CHR 0x0D, CHR ''b''], ''c''] @ [CHR 0x0A]) = [[''a''], [''b'', ''c'']] \<and>
   read_csv (csv_line [[CHR ''a'', CHR 0x0D, CHR ''b''], ''c''] @ [CHR 0x0A]) = [[[CHR ''a'', CHR 0x0D, CHR ''b''], ''c'']]"
  using read_lines [of "[[[CHR ''a'', CHR 0x0D, CHR ''b''], ''c'']]"]
  by (simp add: state_cell_def state_line_def read_csv_def unlines_Cons)

end
