(* ===== verification/Traces.thy ===== *)
theory Traces
  imports Messages JsOrder Json
begin

text \<open>
  Following a message: the deduplication id in its headers (\<open>client/src/lib/natsHeaders.ts\<close>), the values
  that could tie it to other messages and the steps of a trace (\<open>lib/trace.ts\<close>), and the identical
  payloads that look like a retry (\<open>lib/repeats.ts\<close>). The JSON parser and the text of a number are
  arguments. The texts \<open>describeHeader\<close> shows are not modelled.
\<close>

subsection \<open>Headers\<close>

definition msg_id :: "header_map option \<Rightarrow> string option" where
  "msg_id headers = (case headers of None \<Rightarrow> None
     | Some hs \<Rightarrow> map_option (hd \<circ> snd)
         (List.find (\<lambda>(k, v). to_lower k = ''nats-msg-id'' \<and> v \<noteq> [] \<and> hd v \<noteq> []) hs))"

text \<open>Sets keep the order in which their members were added.\<close>

definition repeated_step :: "nats_message \<Rightarrow> string list \<times> string list \<Rightarrow> string list \<times> string list" where
  "repeated_step m = (\<lambda>(seen, twice). case msg_id (m_headers m) of
       None \<Rightarrow> (seen, twice)
     | Some i \<Rightarrow> (js_add i seen, if i \<in> set seen then js_add i twice else twice))"

definition repeated_ids :: "nats_message list \<Rightarrow> string list" where
  "repeated_ids messages = snd (fold repeated_step messages ([], []))"

text \<open>The names the table of known headers has; \<open>in\<close> also finds what every object inherits.\<close>

definition known_headers :: "string list" where
  "known_headers = [''nats-msg-id'', ''nats-expected-stream'', ''nats-expected-last-sequence'',
     ''nats-expected-last-subject-sequence'', ''nats-expected-last-msg-id'', ''nats-rollup'', ''nats-stream'',
     ''nats-subject'', ''nats-sequence'', ''nats-timestamp'', ''nats-last-sequence'', ''nats-stream-source'',
     ''nats-applied-limit'', ''nats-marker-reason'', ''nats-service-error'', ''nats-service-error-code'',
     ''nats-request-info'', ''status'', ''description'']"

definition inherited_names :: "string list" where
  "inherited_names = [''constructor'', ''__proto__'']"

definition is_nats_header :: "string \<Rightarrow> bool" where
  "is_nats_header name = (to_lower name \<in> set (known_headers @ inherited_names))"

subsection \<open>Trace candidates\<close>

record trace_candidate =
  tc_label :: string
  tc_value :: string

definition is_hex_char :: "char \<Rightarrow> bool" where
  "is_hex_char c = (is_digit c \<or> (97 \<le> (of_char (lower c) :: nat) \<and> (of_char (lower c) :: nat) \<le> (102::nat)))"

definition hex_text :: "nat \<Rightarrow> string \<Rightarrow> bool" where
  "hex_text n s = (length s = n \<and> list_all is_hex_char s)"

text \<open>\<open>^[0-9a-f]{2}-([0-9a-f]{32})-[0-9a-f]{16}-[0-9a-f]{2}$\<close>, without regard to case.\<close>

definition traceparent :: "string \<Rightarrow> string option" where
  "traceparent s = (case split_on CHR ''-'' s of
       [v, t, p, f] \<Rightarrow> if hex_text 2 v \<and> hex_text 32 t \<and> hex_text 16 p \<and> hex_text 2 f then Some t else None
     | _ \<Rightarrow> None)"

definition trace_id_of :: "nats_message \<Rightarrow> string option" where
  "trace_id_of m = (case List.find (\<lambda>(k, v). to_lower k = ''traceparent'') (nullish (m_headers m) []) of
       Some (k, h # _) \<Rightarrow> if h = [] then None else traceparent (trim h)
     | _ \<Rightarrow> None)"

definition id_words :: "string list" where
  "id_words = [''id'', ''uuid'', ''guid'', ''key'', ''ref'', ''reference'', ''correlation'', ''correlationid'', ''traceid'',
     ''trace'', ''span'', ''order'', ''session'', ''request'', ''txn'', ''transaction'']"

definition is_joint :: "char \<Rightarrow> bool" where
  "is_joint c = (c \<in> {CHR ''.'', CHR ''_'', CHR ''-''})"

text \<open>The name ends in one of the words, alone or with a joint or \<open>id\<close> behind it, and what comes before
  is nothing or ends in a joint.\<close>

definition id_like :: "string \<Rightarrow> bool" where
  "id_like name = (let s = to_lower name in
     list_ex (\<lambda>tail. list_ex (\<lambda>w. let e = w @ tail; before = take (length s - length e) s in
         suffix e s \<and> (before = [] \<or> is_joint (last before))) id_words)
       [[], ''.'', ''_'', ''-'', ''id''])"

definition usable :: "json \<Rightarrow> bool" where
  "usable v = (case v of
       JNum n \<Rightarrow> \<bar>n\<bar> \<ge> 1000
     | JStr s \<Rightarrow> 4 \<le> length s \<and> length s \<le> 128 \<and> \<not> list_all is_space s
     | _ \<Rightarrow> False)"

definition header_candidates :: "nats_message \<Rightarrow> trace_candidate list" where
  "header_candidates m =
     concat (map (\<lambda>(k, vs). if to_lower k = ''nats-msg-id'' then []
         else if id_like k \<and> vs \<noteq> [] \<and> usable (JStr (hd vs)) then [\<lparr>tc_label = k, tc_value = hd vs\<rparr>] else [])
       (nullish (m_headers m) []))"

definition payload_candidates :: "(rat \<Rightarrow> string) \<Rightarrow> (string \<Rightarrow> json option) \<Rightarrow> nats_message \<Rightarrow> trace_candidate list" where
  "payload_candidates num parse m =
     (if m_payload_type m \<noteq> PJson then []
      else (case parse (m_payload m) of
          Some (JObj fs) \<Rightarrow> (let entries = filter (usable \<circ> snd) fs in
            map (\<lambda>(k, v). \<lparr>tc_label = k, tc_value = js_string num v\<rparr>) (filter (id_like \<circ> fst) entries) @
            map (\<lambda>(k, v). \<lparr>tc_label = k, tc_value = js_string num v\<rparr>)
              (filter (\<lambda>(k, v). \<not> id_like k \<and> (case v of JStr _ \<Rightarrow> True | _ \<Rightarrow> False)) entries))
        | _ \<Rightarrow> []))"

text \<open>The filter with a set of the values seen.\<close>

fun first_by_value :: "string list \<Rightarrow> trace_candidate list \<Rightarrow> trace_candidate list" where
  "first_by_value seen [] = []"
| "first_by_value seen (c # cs) =
     (if tc_value c \<in> set seen then first_by_value seen cs
      else c # first_by_value (tc_value c # seen) cs)"

definition trace_candidates :: "(rat \<Rightarrow> string) \<Rightarrow> (string \<Rightarrow> json option) \<Rightarrow> nats_message \<Rightarrow> trace_candidate list" where
  "trace_candidates num parse m = take 8 (first_by_value []
     ((case trace_id_of m of None \<Rightarrow> [] | Some t \<Rightarrow> [\<lparr>tc_label = ''traceparent (trace id)'', tc_value = t\<rparr>]) @
      (case msg_id (m_headers m) of None \<Rightarrow> [] | Some i \<Rightarrow> [\<lparr>tc_label = ''Nats-Msg-Id'', tc_value = i\<rparr>]) @
      header_candidates m @ payload_candidates num parse m))"

record trace_step =
  ts_message :: nats_message
  ts_gap :: "int option"

definition trace_steps :: "nats_message list \<Rightarrow> trace_step list" where
  "trace_steps messages = (let sorted_ms = js_sort (by_number m_timestamp) messages in
     map (\<lambda>i. \<lparr>ts_message = sorted_ms ! i,
         ts_gap = (if i = 0 then None else Some (m_timestamp (sorted_ms ! i) - m_timestamp (sorted_ms ! (i - 1))))\<rparr>)
       [0..<length sorted_ms])"

subsection \<open>Repeats\<close>

record repeat =
  rp_count :: nat
  rp_since :: int

definition repeat_window :: int where
  "repeat_window = 30000"

definition repeat_key :: "nats_message \<Rightarrow> string" where
  "repeat_key m = m_subject m @ CHR 0x00 # m_payload m"

lemma repeat_key_eq:
  assumes "CHR 0x00 \<notin> set (m_subject a)" "CHR 0x00 \<notin> set (m_subject b)"
  shows "repeat_key a = repeat_key b \<longleftrightarrow> m_subject a = m_subject b \<and> m_payload a = m_payload b"
  using split_on_append [OF assms(1)] split_on_append [OF assms(2)] split_on_inject
  by (metis list.inject repeat_key_def)

text \<open>The messages are distinct objects, so a new entry of the map of repeats goes to its end.\<close>

type_synonym repeats = "(nats_message \<times> repeat) list"

definition repeat_step ::
    "int \<Rightarrow> nats_message \<Rightarrow> (string, int \<times> nat) jsmap \<times> repeats \<Rightarrow> (string, int \<times> nat) jsmap \<times> repeats" where
  "repeat_step window m = (\<lambda>(seen, out). case jm_get seen (repeat_key m) of
       Some (t, n) \<Rightarrow> if m_timestamp m - t \<le> window
         then (jm_set (repeat_key m) (m_timestamp m, n + 1) seen,
               out @ [(m, \<lparr>rp_count = n + 1, rp_since = m_timestamp m - t\<rparr>)])
         else (jm_set (repeat_key m) (m_timestamp m, 1) seen, out)
     | None \<Rightarrow> (jm_set (repeat_key m) (m_timestamp m, 1) seen, out))"

definition drop_if_steady :: "(string, nat) jsmap \<Rightarrow> string \<times> nat \<Rightarrow> repeats \<Rightarrow> repeats" where
  "drop_if_steady totals e out = (let a = nullish (jm_get totals (fst e)) 0 in
     if a \<ge> 4 \<and> snd e \<ge> a - 1 then filter (\<lambda>r. m_subject (fst r) \<noteq> fst e) out else out)"

definition drop_steady :: "nats_message list \<Rightarrow> repeats \<Rightarrow> repeats" where
  "drop_steady sorted_ms out =
     fold (drop_if_steady (tally (map m_subject sorted_ms))) (tally (map (m_subject \<circ> fst) out)) out"

definition find_repeats :: "int \<Rightarrow> nats_message list \<Rightarrow> repeats" where
  "find_repeats window messages =
     (if length messages < 2 then []
      else let sorted_ms = js_sort (by_number m_timestamp) messages in
        drop_steady sorted_ms (snd (fold (repeat_step window) sorted_ms ([], []))))"

subsection \<open>Properties\<close>

text \<open>The ids that occur in two or more messages, exactly.\<close>

definition ids_of :: "nats_message list \<Rightarrow> string list" where
  "ids_of messages = List.map_filter (msg_id \<circ> m_headers) messages"

lemma ids_of_snoc: "ids_of (ms @ [m]) = ids_of ms @ (case msg_id (m_headers m) of None \<Rightarrow> [] | Some i \<Rightarrow> [i])"
  by (simp add: ids_of_def map_filter_def split: option.split)

lemma repeated_step: "repeated_step m (seen, twice) = (case msg_id (m_headers m) of
       None \<Rightarrow> (seen, twice)
     | Some i \<Rightarrow> (js_add i seen, if i \<in> set seen then js_add i twice else twice))"
  by (simp add: repeated_step_def)

lemma repeated_fold:
  "set (fst (fold repeated_step ms ([], []))) = set (ids_of ms) \<and>
   set (snd (fold repeated_step ms ([], []))) = {i. 2 \<le> count_list (ids_of ms) i}"
proof (induction ms rule: rev_induct)
  case (snoc m ms)
  obtain seen twice where f: "fold repeated_step ms ([], []) = (seen, twice)" by force
  show ?case
  proof (cases "msg_id (m_headers m)")
    case None
    then show ?thesis using snoc f by (simp add: repeated_step ids_of_snoc)
  next
    case (Some i)
    have "i \<in> set seen \<longleftrightarrow> count_list (ids_of ms) i \<noteq> 0" using snoc f by (simp add: count_list_0_iff)
    then show ?thesis
      using snoc f Some by (auto simp: repeated_step ids_of_snoc js_add_def)
  qed
qed (simp add: ids_of_def map_filter_def)

theorem repeated_ids_twice:
  "i \<in> set (repeated_ids messages) \<longleftrightarrow> 2 \<le> count_list (ids_of messages) i"
  using repeated_fold [of messages] by (simp add: repeated_ids_def)

text \<open>A header of the publisher's own that is called like something every object inherits is shown as one
  of the server's.\<close>

theorem inherited_header_known:
  "is_nats_header ''Constructor'' \<and> ''constructor'' \<notin> set known_headers"
  using char_of_char [where 'a = nat, of "CHR ''c''"]
  by (simp add: is_nats_header_def known_headers_def inherited_names_def to_lower_def lower_def is_upper_def)

lemma first_by_value:
  "distinct (map tc_value (first_by_value seen cs)) \<and> set (map tc_value (first_by_value seen cs)) \<inter> set seen = {} \<and>
   set (map tc_value (first_by_value seen cs)) = set (map tc_value cs) - set seen"
proof (induction cs arbitrary: seen)
  case (Cons c cs)
  show ?case using Cons.IH [of seen] Cons.IH [of "tc_value c # seen"] by auto
qed simp

text \<open>The candidates offered are at most eight different values, and the trace id is the first of them when
  the message carries one.\<close>

theorem trace_candidates_offered:
  "distinct (map tc_value (trace_candidates num parse m)) \<and> length (trace_candidates num parse m) \<le> 8 \<and>
   (case trace_id_of m of None \<Rightarrow> True
    | Some t \<Rightarrow> take 1 (map tc_value (trace_candidates num parse m)) = [t] \<and> hex_text 32 t)"
proof -
  have "hex_text 32 t" if "trace_id_of m = Some t" for t
    using that by (auto simp: trace_id_of_def traceparent_def split: option.splits prod.splits list.splits if_splits)
  then show ?thesis
    using first_by_value [of "[]"]
    by (auto simp: trace_candidates_def take_map [symmetric] intro: distinct_take split: option.split)
qed


lemma sorted_by_time: "sorted (map m_timestamp (js_sort (by_number m_timestamp) ms))"
proof -
  have "sorted_wrt (\<lambda>a b. m_timestamp a \<le> m_timestamp b) (js_sort (by_number m_timestamp) ms)"
    using comparator.ascending_sort [OF comparator_by_number, of m_timestamp ms]
    by (rule sorted_wrt_mono_rel [rotated]) (simp add: by_number_def)
  then show ?thesis by (simp add: sorted_wrt_map)
qed

lemma sorted_extremes:
  assumes "sorted xs" "xs \<noteq> []"
  shows "last xs = Max (set xs)" "hd xs = Min (set xs)"
proof -
  have "x \<le> last xs" "hd xs \<le> x" if x: "x \<in> set xs" for x
  proof -
    obtain i where i: "i < length xs" "x = xs ! i" using x by (metis in_set_conv_nth)
    show "x \<le> last xs" "hd xs \<le> x"
      using i assms sorted_nth_mono [OF assms(1), of i "length xs - 1"] sorted_nth_mono [OF assms(1), of 0 i]
      by (simp_all add: last_conv_nth hd_conv_nth)
  qed
  then show "last xs = Max (set xs)" "hd xs = Min (set xs)"
    using assms(2) by (auto intro!: Max_eqI [symmetric] Min_eqI [symmetric])
qed

lemma sum_gaps:
  "xs \<noteq> [] \<Longrightarrow> (\<Sum>i \<leftarrow> [0..<length xs]. if i = 0 then 0 else xs ! i - xs ! (i - 1)) = last xs - hd (xs :: int list)"
proof (induction xs rule: rev_induct)
  case (snoc x xs)
  have "(\<Sum>i \<leftarrow> [0..<length xs]. if i = 0 then 0 else (xs @ [x]) ! i - (xs @ [x]) ! (i - 1)) =
      (\<Sum>i \<leftarrow> [0..<length xs]. if i = 0 then 0 else xs ! i - xs ! (i - 1))"
    by (rule arg_cong [where f = sum_list], rule map_cong) (auto simp: nth_append)
  then show ?case using snoc.IH by (cases "xs = []") (auto simp: nth_append last_conv_nth)
qed simp

text \<open>The steps of a trace are its messages in time order; no gap is negative and together they make up
  the time from the first message to the last.\<close>

theorem trace_steps_span:
  "mset (map ts_message (trace_steps messages)) = mset messages \<and>
   sorted (map (m_timestamp \<circ> ts_message) (trace_steps messages)) \<and>
   list_all (\<lambda>s. 0 \<le> nullish (ts_gap s) 0) (trace_steps messages) \<and>
   (\<Sum>s \<leftarrow> trace_steps messages. nullish (ts_gap s) 0) =
     (if messages = [] then 0 else Max (m_timestamp ` set messages) - Min (m_timestamp ` set messages))"
proof -
  let ?s = "js_sort (by_number m_timestamp) messages"
  let ?t = "map m_timestamp ?s"
  have len: "length ?s = length messages" by (metis mset_js_sort size_mset)
  have 1: "map ts_message (trace_steps messages) = ?s"
    using map_nth [of ?s] len by (simp add: trace_steps_def Let_def o_def)
  have 2: "map (m_timestamp \<circ> ts_message) (trace_steps messages) = ?t"
    using 1 by (metis map_map)
  have gaps: "map (\<lambda>s. nullish (ts_gap s) 0) (trace_steps messages) =
      map (\<lambda>i. if i = 0 then 0 else ?t ! i - ?t ! (i - 1)) [0..<length ?t]"
    by (auto simp: trace_steps_def Let_def)
  have "?t ! (i - 1) \<le> ?t ! i" if "i < length ?t" for i
    using sorted_nth_mono [OF sorted_by_time _ that, of "i - 1"] by simp
  then have "list_all (\<lambda>g. 0 \<le> g) (map (\<lambda>s. nullish (ts_gap s) 0) (trace_steps messages))"
    unfolding gaps by (auto simp: list_all_iff)
  then have 3: "list_all (\<lambda>s. 0 \<le> nullish (ts_gap s) 0) (trace_steps messages)"
    by (simp add: list_all_iff)
  have set_t: "set ?t = m_timestamp ` set messages" by (metis mset_js_sort set_map set_mset_mset)
  have 4: "last ?t - hd ?t = Max (m_timestamp ` set messages) - Min (m_timestamp ` set messages)" if "?t \<noteq> []"
    using sorted_extremes [OF sorted_by_time that] unfolding set_t by simp
  have sum: "(\<Sum>s \<leftarrow> trace_steps messages. nullish (ts_gap s) 0) =
      (if messages = [] then 0 else Max (m_timestamp ` set messages) - Min (m_timestamp ` set messages))"
  proof (cases "messages = []")
    case True
    then show ?thesis by (simp add: trace_steps_def)
  next
    case False
    then have ne: "?t \<noteq> []" using len by (metis length_0_conv map_is_Nil_conv)
    show ?thesis unfolding gaps using False sum_gaps [OF ne] 4 [OF ne] by simp
  qed
  have "mset (map ts_message (trace_steps messages)) = mset messages" unfolding 1 by simp
  with 2 3 sum sorted_by_time [of messages] show ?thesis by simp
qed

text \<open>The reference: a message repeats when an earlier one with the same subject and payload lies within
  the window, and a subject is steady when it has four messages or more and all but one of them repeat.\<close>

definition repeats_at :: "int \<Rightarrow> nats_message list \<Rightarrow> nat \<Rightarrow> bool" where
  "repeats_at window s j = list_ex (\<lambda>i. repeat_key (s ! i) = repeat_key (s ! j) \<and>
     m_timestamp (s ! j) - m_timestamp (s ! i) \<le> window) [0..<j]"

definition repeat_positions :: "int \<Rightarrow> nats_message list \<Rightarrow> nat list" where
  "repeat_positions window s = filter (repeats_at window s) [0..<length s]"

definition steady :: "int \<Rightarrow> nats_message list \<Rightarrow> string \<Rightarrow> bool" where
  "steady window s subject \<longleftrightarrow>
     4 \<le> count_list (map m_subject s) subject \<and>
     count_list (map m_subject s) subject - 1 \<le> count_list (map (\<lambda>j. m_subject (s ! j)) (repeat_positions window s)) subject"

lemma repeat_positions_snoc:
  "repeat_positions window (s @ [m]) = repeat_positions window s @
     (if \<exists>x \<in> set s. repeat_key x = repeat_key m \<and> m_timestamp m - m_timestamp x \<le> window then [length s] else [])"
proof -
  have 1: "repeats_at window (s @ [m]) j = repeats_at window s j" if "j < length s" for j
    using that by (auto simp: repeats_at_def list_ex_iff nth_append)
  have 2: "repeats_at window (s @ [m]) (length s) \<longleftrightarrow>
      (\<exists>x \<in> set s. repeat_key x = repeat_key m \<and> m_timestamp m - m_timestamp x \<le> window)"
    by (auto simp: repeats_at_def list_ex_iff nth_append in_set_conv_nth Bex_def)
  show ?thesis
    using 1 2 by (auto simp: repeat_positions_def intro!: filter_cong)
qed

text \<open>What the map of the payloads seen holds: the time of the newest one of each.\<close>

definition last_seen :: "nats_message list \<Rightarrow> string \<Rightarrow> (int \<times> nat) option \<Rightarrow> bool" where
  "last_seen s k e \<longleftrightarrow> (case e of
      None \<Rightarrow> \<forall>x \<in> set s. repeat_key x \<noteq> k
    | Some (t, n) \<Rightarrow> 1 \<le> n \<and> (\<exists>x \<in> set s. repeat_key x = k \<and> m_timestamp x = t) \<and>
        (\<forall>x \<in> set s. repeat_key x = k \<longrightarrow> m_timestamp x \<le> t))"

lemma repeat_step:
  "repeat_step window m (seen, out) = (case jm_get seen (repeat_key m) of
       Some (t, n) \<Rightarrow> if m_timestamp m - t \<le> window
         then (jm_set (repeat_key m) (m_timestamp m, n + 1) seen,
               out @ [(m, \<lparr>rp_count = n + 1, rp_since = m_timestamp m - t\<rparr>)])
         else (jm_set (repeat_key m) (m_timestamp m, 1) seen, out)
     | None \<Rightarrow> (jm_set (repeat_key m) (m_timestamp m, 1) seen, out))"
  by (simp add: repeat_step_def)

lemma last_seen_window:
  assumes "last_seen s k e"
  shows "(\<exists>x \<in> set s. repeat_key x = k \<and> u - m_timestamp x \<le> window) \<longleftrightarrow>
    (case e of None \<Rightarrow> False | Some (t, n) \<Rightarrow> u - t \<le> window)"
  using assms by (force simp: last_seen_def split: option.splits)

lemma last_seen_snoc:
  assumes "last_seen s k e" "\<forall>x \<in> set s. m_timestamp x \<le> m_timestamp m" "1 \<le> n"
  shows "last_seen (s @ [m]) k (if repeat_key m = k then Some (m_timestamp m, n) else e)"
  using assms by (auto simp: last_seen_def split: option.splits)

lemma repeats_fold:
  assumes "sorted (map m_timestamp s)"
  shows "(\<forall>k. last_seen s k (jm_get (fst (fold (repeat_step window) s ([], []))) k)) \<and>
    map fst (snd (fold (repeat_step window) s ([], []))) = map ((!) s) (repeat_positions window s) \<and>
    list_all (\<lambda>(m, r). 2 \<le> rp_count r \<and> rp_since r \<le> window) (snd (fold (repeat_step window) s ([], [])))"
  using assms
proof (induction s rule: rev_induct)
  case Nil
  then show ?case by (simp add: last_seen_def repeat_positions_def)
next
  case (snoc m s)
  obtain seen out where f: "fold (repeat_step window) s ([], []) = (seen, out)" by force
  have le: "\<forall>x \<in> set s. m_timestamp x \<le> m_timestamp m" using snoc.prems by (auto simp: sorted_append)
  have IH: "\<And>k. last_seen s k (jm_get seen k)" "map fst out = map ((!) s) (repeat_positions window s)"
    "list_all (\<lambda>(m, r). 2 \<le> rp_count r \<and> rp_since r \<le> window) out"
    using snoc f by (auto simp: sorted_append)
  have old: "map ((!) (s @ [m])) (repeat_positions window s) = map ((!) s) (repeat_positions window s)"
    by (auto simp: repeat_positions_def nth_append)
  note window = last_seen_window [OF IH(1), of "repeat_key m" "m_timestamp m" window]
  have seen: "\<forall>k. last_seen (s @ [m]) k (jm_get (jm_set (repeat_key m) (m_timestamp m, n) seen) k)" if "1 \<le> n" for n
    using last_seen_snoc [OF IH(1) le that] by simp
  show ?case
  proof (cases "jm_get seen (repeat_key m)")
    case None
    then have "repeat_positions window (s @ [m]) = repeat_positions window s"
      using window by (simp add: repeat_positions_snoc)
    then show ?thesis
      using f IH(2,3) seen [of 1] old None by (simp add: repeat_step)
  next
    case (Some e)
    obtain t n where e: "e = (t, n)" by force
    have n: "1 \<le> n" using IH(1) [of "repeat_key m"] Some e by (simp add: last_seen_def)
    show ?thesis
    proof (cases "m_timestamp m - t \<le> window")
      case True
      then have "repeat_positions window (s @ [m]) = repeat_positions window s @ [length s]"
        using window Some e by (simp add: repeat_positions_snoc)
      then show ?thesis
        using f IH(2,3) seen [of "n + 1"] old Some e n True by (simp add: repeat_step)
    next
      case False
      then have "repeat_positions window (s @ [m]) = repeat_positions window s"
        using window Some e by (simp add: repeat_positions_snoc)
      then show ?thesis
        using f IH(2,3) seen [of 1] old Some e False by (simp add: repeat_step)
    qed
  qed
qed

lemma drop_fold:
  "fold (drop_if_steady totals) es out = filter (\<lambda>r. \<not> (\<exists>n. (m_subject (fst r), n) \<in> set es \<and>
     4 \<le> nullish (jm_get totals (m_subject (fst r))) 0 \<and> nullish (jm_get totals (m_subject (fst r))) 0 - 1 \<le> n)) out"
proof (induction es arbitrary: out)
  case (Cons e es)
  show ?case
    unfolding fold_Cons comp_apply Cons.IH unfolding drop_if_steady_def Let_def
    by (cases e) (auto intro!: filter_cong)
qed simp

lemma in_tally: "(x, n) \<in> set (tally ks) \<longleftrightarrow> x \<in> set ks \<and> n = count_list ks x"
  using jm_get_in [of "tally ks"] jm_in_get [OF jm_wf_tally [of ks]] get_tally [of ks]
  by (metis option.inject option.distinct(1))

lemma drop_steady:
  "drop_steady s out = filter (\<lambda>r. \<not> (4 \<le> count_list (map m_subject s) (m_subject (fst r)) \<and>
     count_list (map m_subject s) (m_subject (fst r)) - 1 \<le> count_list (map (m_subject \<circ> fst) out) (m_subject (fst r)))) out"
proof -
  have totals: "nullish (jm_get (tally (map m_subject s)) x) 0 = count_list (map m_subject s) x" for x
    by (simp add: get_tally nullish_def count_notin)
  show ?thesis
    unfolding drop_steady_def drop_fold totals in_tally by (auto intro!: filter_cong)
qed

text \<open>C31: The messages marked are exactly those the reference names: each repeats an earlier message of the
  same subject and payload within the window and its subject is not a steady one. The mark counts at
  least two messages and its distance is within the window.\<close>

theorem find_repeats_correct:
  "map fst (find_repeats window messages) =
     (let s = js_sort (by_number m_timestamp) messages in
      map ((!) s) (filter (\<lambda>j. \<not> steady window s (m_subject (s ! j))) (repeat_positions window s))) \<and>
   list_all (\<lambda>(m, r). 2 \<le> rp_count r \<and> rp_since r \<le> window) (find_repeats window messages)"
proof (cases "length messages < 2")
  case True
  have len: "length (js_sort (by_number m_timestamp) messages) = length messages" by (metis mset_js_sort size_mset)
  have "repeat_positions window (js_sort (by_number m_timestamp) messages) = []"
    using True len by (auto simp: repeat_positions_def repeats_at_def list_ex_iff filter_empty_conv)
  then show ?thesis using True by (simp add: find_repeats_def)
next
  case False
  let ?s = "js_sort (by_number m_timestamp) messages"
  let ?out = "snd (fold (repeat_step window) ?s ([], []))"
  have out: "map fst ?out = map ((!) ?s) (repeat_positions window ?s)"
    "list_all (\<lambda>(m, r). 2 \<le> rp_count r \<and> rp_since r \<le> window) ?out"
    using repeats_fold [OF sorted_by_time [of messages]] by auto
  have subjects: "map (m_subject \<circ> fst) ?out = map (\<lambda>j. m_subject (?s ! j)) (repeat_positions window ?s)"
    using arg_cong [OF out(1), of "map m_subject"] by (simp add: o_def)
  have found: "find_repeats window messages = filter (\<lambda>r. \<not> steady window ?s (m_subject (fst r))) ?out"
    using False by (simp add: find_repeats_def drop_steady subjects steady_def Let_def)
  have "map fst (find_repeats window messages) = filter (\<lambda>m. \<not> steady window ?s (m_subject m)) (map fst ?out)"
    unfolding found by (simp add: filter_map o_def)
  then show ?thesis
    using out(2) unfolding out(1) found by (auto simp: filter_map o_def list_all_iff Let_def)
qed

end
