(* ===== verification/JetStream.thy ===== *)
theory JetStream
  imports Wire
begin

text \<open>
  The JetStream types of the wire (\<open>shared/src/jetstream.ts\<close>): streams and consumers as the backend
  lists them and the configurations it takes. An optional property is an \<open>option\<close>; one that may also
  be null is an \<open>option\<close> of an \<open>option\<close>. Durations are nanoseconds and times milliseconds, as integers.
\<close>

record stream_state =
  sst_messages :: int
  sst_bytes :: int
  sst_first_seq :: int
  sst_last_seq :: int
  sst_first_ts :: string
  sst_last_ts :: string
  sst_num_subjects :: int
  sst_num_deleted :: int
  sst_consumer_count :: int

record stream_replica =
  srp_name :: string
  srp_current :: bool
  srp_offline :: bool
  srp_lag :: int

record republish_config =
  rpc_src :: "string option"
  rpc_dest :: string
  rpc_headers_only :: "bool option"

record subject_transform =
  stf_src :: "string option"
  stf_dest :: string

record placement_config =
  plc_cluster :: "string option"
  plc_tags :: "string list option"

record stream_source =
  src_name :: string
  src_opt_start_seq :: "int option"
  src_opt_start_time :: "int option"
  src_subject_transforms :: "subject_transform list option"
  src_external_api :: "string option"
  src_external_deliver :: "string option"
  src_domain :: "string option"
  src_lag :: "int option"
  src_active :: "int option"
  src_filter_subject :: "string option"

datatype source_kind = KindMirror | KindSource

record consumer_limits =
  clm_inactive_threshold :: int
  clm_max_ack_pending :: int

record stream_cluster =
  scl_name :: string
  scl_leader :: string
  scl_replicas :: "stream_replica list"

record stream_info =
  si_name :: string
  si_description :: "string option"
  si_subjects :: "string list"
  si_retention :: string
  si_max_consumers :: int
  si_max_msgs :: int
  si_max_msgs_per_subject :: int
  si_max_bytes :: int
  si_max_age :: int
  si_max_msg_size :: int
  si_storage :: string
  si_replicas :: int
  si_no_ack :: bool
  si_discard :: string
  si_duplicate_window :: int
  si_deny_delete :: bool
  si_deny_purge :: bool
  si_discard_new_per_subject :: "bool option"
  si_allow_msg_ttl :: "bool option"
  si_subject_delete_marker_ttl :: "int option"
  si_allow_rollup :: bool
  si_allow_direct :: bool
  si_sealed :: bool
  si_compression :: "string option"
  si_persist_mode :: "string option"
  si_allow_msg_counter :: "bool option"
  si_allow_atomic_publish :: "bool option"
  si_allow_msg_schedules :: "bool option"
  si_mirror_direct :: "bool option"
  si_first_seq :: "int option"
  si_republish :: "republish_config option"
  si_subject_transform :: "subject_transform option"
  si_placement :: "placement_config option"
  si_metadata :: "(string, string) jsmap option"
  si_consumer_limits :: "consumer_limits option"
  si_created :: string
  si_state :: stream_state
  si_cluster :: "stream_cluster option"
  si_mirror :: "stream_source option"
  si_sources :: "stream_source list option"
  si_sourced_by :: "(string \<times> source_kind) list option"

record stream_config_input =
  sci_name :: "string option"
  sci_description :: "string option"
  sci_subjects :: "string list option"
  sci_retention :: "string option"
  sci_max_consumers :: "int option"
  sci_max_msgs :: "int option"
  sci_max_msgs_per_subject :: "int option"
  sci_max_bytes :: "int option"
  sci_max_age :: "int option"
  sci_max_msg_size :: "int option"
  sci_storage :: "string option"
  sci_replicas :: "rat option"
  sci_no_ack :: "bool option"
  sci_discard :: "string option"
  sci_duplicate_window :: "int option"
  sci_deny_delete :: "bool option"
  sci_deny_purge :: "bool option"
  sci_discard_new_per_subject :: "bool option"
  sci_allow_msg_ttl :: "bool option"
  sci_subject_delete_marker_ttl :: "int option"
  sci_allow_rollup :: "bool option"
  sci_allow_direct :: "bool option"
  sci_mirror :: "stream_source option option"
  sci_sources :: "stream_source list option"
  sci_republish :: "republish_config option option"
  sci_subject_transform :: "subject_transform option option"
  sci_placement :: "placement_config option option"
  sci_metadata :: "(string, string) jsmap option option"
  sci_compression :: "string option"
  sci_persist_mode :: "string option"
  sci_allow_msg_counter :: "bool option"
  sci_allow_atomic_publish :: "bool option"
  sci_allow_msg_schedules :: "bool option"
  sci_mirror_direct :: "bool option"
  sci_first_seq :: "int option"
  sci_consumer_inactive_threshold :: "int option"
  sci_consumer_max_ack_pending :: "int option"

record consumer_config =
  cco_name :: "string option"
  cco_durable_name :: "string option"
  cco_description :: "string option"
  cco_deliver_policy :: string
  cco_ack_policy :: string
  cco_ack_wait :: int
  cco_max_deliver :: int
  cco_filter_subject :: "string option"
  cco_filter_subjects :: "string list option"
  cco_replay_policy :: string
  cco_max_ack_pending :: int
  cco_deliver_subject :: "string option"
  cco_deliver_group :: "string option"
  cco_opt_start_seq :: "int option"
  cco_opt_start_time :: "int option"
  cco_backoff :: "int list option"
  cco_inactive_threshold :: "int option"
  cco_max_waiting :: "int option"
  cco_headers_only :: "bool option"
  cco_max_request_batch :: "int option"
  cco_rate_limit :: "int option"
  cco_replicas :: "int option"
  cco_memory_storage :: "bool option"
  cco_metadata :: "(string, string) jsmap option"

record sequence_info =
  sq_consumer_seq :: int
  sq_stream_seq :: int

record consumer_info =
  ci_name :: string
  ci_stream_name :: string
  ci_description :: "string option"
  ci_created :: string
  ci_config :: consumer_config
  ci_delivered :: sequence_info
  ci_ack_floor :: sequence_info
  ci_num_ack_pending :: int
  ci_num_redelivered :: int
  ci_num_waiting :: int
  ci_num_pending :: int
  ci_push :: bool
  ci_paused :: "bool option"
  ci_pause_remaining :: "int option"


text \<open>A number typed into a field may be a fraction.\<close>

record consumer_update_input =
  cui_description :: "string option"
  cui_ack_wait :: "rat option"
  cui_max_deliver :: "rat option"
  cui_max_ack_pending :: "rat option"
  cui_filter_subject :: "string option"
  cui_filter_subjects :: "string list option"
  cui_backoff :: "int list option"
  cui_inactive_threshold :: "rat option"
  cui_max_waiting :: "rat option"
  cui_headers_only :: "bool option"
  cui_max_request_batch :: "rat option"
  cui_rate_limit :: "rat option"
  cui_metadata :: "(string, string) jsmap option"
  cui_deliver_subject :: "string option"
  cui_deliver_group :: "string option"

record consumer_create_input =
  cci_name :: "string option"
  cci_durable_name :: "string option"
  cci_description :: "string option"
  cci_deliver_policy :: "string option"
  cci_opt_start_seq :: "rat option"
  cci_opt_start_time :: "int option"
  cci_ack_policy :: "string option"
  cci_ack_wait :: "rat option"
  cci_max_deliver :: "rat option"
  cci_filter_subject :: "string option"
  cci_filter_subjects :: "string list option"
  cci_replay_policy :: "string option"
  cci_max_ack_pending :: "rat option"
  cci_backoff :: "int list option"
  cci_inactive_threshold :: "rat option"
  cci_max_waiting :: "rat option"
  cci_headers_only :: "bool option"
  cci_max_request_batch :: "rat option"
  cci_rate_limit :: "rat option"
  cci_replicas :: "rat option"
  cci_memory_storage :: "bool option"
  cci_metadata :: "(string, string) jsmap option"
  cci_deliver_subject :: "string option"
  cci_deliver_group :: "string option"

text \<open>A stream that sources from another one, for the concrete instances of the theorems.\<close>

definition sample_source :: stream_source where
  "sample_source = \<lparr>src_name = ''A'', src_opt_start_seq = Some 7, src_opt_start_time = None,
     src_subject_transforms = Some [\<lparr>stf_src = Some ''a.>'', stf_dest = ''b.>''\<rparr>],
     src_external_api = Some ''$JS.hub.API'', src_external_deliver = None, src_domain = None,
     src_lag = Some 3, src_active = Some 12, src_filter_subject = Some ''a.>''\<rparr>"

definition sample_stream :: stream_info where
  "sample_stream = \<lparr>si_name = ''S'', si_description = None, si_subjects = [''a.>'', ''b.*''], si_retention = ''Limits'',
     si_max_consumers = - 1, si_max_msgs = - 1, si_max_msgs_per_subject = - 1, si_max_bytes = 1024, si_max_age = 90000000000,
     si_max_msg_size = - 1, si_storage = ''File'', si_replicas = 1, si_no_ack = False, si_discard = ''Old'',
     si_duplicate_window = 120000000000, si_deny_delete = False, si_deny_purge = False, si_discard_new_per_subject = None,
     si_allow_msg_ttl = None, si_subject_delete_marker_ttl = None, si_allow_rollup = False, si_allow_direct = True,
     si_sealed = False, si_compression = None, si_persist_mode = None, si_allow_msg_counter = None,
     si_allow_atomic_publish = None, si_allow_msg_schedules = None, si_mirror_direct = None, si_first_seq = None,
     si_republish = None, si_subject_transform = None, si_placement = None,
     si_metadata = Some [(''owner'', ''team a'')], si_consumer_limits = None, si_created = [],
     si_state = \<lparr>sst_messages = 0, sst_bytes = 0, sst_first_seq = 0, sst_last_seq = 0, sst_first_ts = [], sst_last_ts = [],
       sst_num_subjects = 0, sst_num_deleted = 0, sst_consumer_count = 0\<rparr>,
     si_cluster = None, si_mirror = None, si_sources = Some [sample_source], si_sourced_by = None\<rparr>"

end
