(* ===== verification/StreamForm.thy ===== *)
theory StreamForm
  imports JetStream
begin

text \<open>
  The stream form: the text of its fields (\<open>client/src/lib/streamForm.ts\<close>) and the dialog that edits a
  stream (\<open>components/jetstream/StreamDialog.tsx\<close>): the state it opens with, when it can be submitted and
  the configuration it sends.

  \<open>Number\<close> and \<open>String\<close> are arguments (\<open>number\<close>, where \<open>None\<close> is a text that is no finite number, and
  \<open>num\<close>), as are the ISO text of a time, the offset of the time zone in minutes and the reading of a
  local time. Products of numbers are exact, where the code multiplies doubles.
\<close>

subsection \<open>Texts\<close>

definition list_separator :: "char \<Rightarrow> bool" where
  "list_separator c = (c = CHR '','' \<or> c = CHR 0x0A)"

text \<open>\<open>parseList\<close>: the empty parts are dropped after trimming.\<close>

definition parse_list :: "string \<Rightarrow> string list" where
  "parse_list input = filter (\<lambda>w. w \<noteq> []) (map trim (fields_by list_separator [] input))"

definition metadata_line :: "string \<Rightarrow> (string, string) jsmap \<Rightarrow> (string, string) jsmap" where
  "metadata_line raw out = (let line = trim raw in
     if line = [] then out
     else (case index_of CHR ''='' line of
         None \<Rightarrow> jm_set line [] out
       | Some eq \<Rightarrow> let key = trim (take eq line) in
           if key = [] then out else jm_set key (trim (drop (eq + 1) line)) out))"

definition parse_metadata :: "string \<Rightarrow> (string, string) jsmap" where
  "parse_metadata text = fold metadata_line (split_on CHR 0x0A text) []"

definition format_metadata :: "(string, string) jsmap option \<Rightarrow> string" where
  "format_metadata md = (case md of None \<Rightarrow> []
     | Some m \<Rightarrow> join_with CHR 0x0A (map (\<lambda>(k, v). k @ CHR ''='' # v) (filter (\<lambda>(k, v). \<not> starts_with k ''_nats.'') m)))"

record source_draft =
  sdr_name :: string
  sdr_filter_subject :: string
  sdr_opt_start_seq :: string
  sdr_opt_start_time :: string

definition to_local_input :: "(int \<Rightarrow> string) \<Rightarrow> int \<Rightarrow> nat \<Rightarrow> int \<Rightarrow> string" where
  "to_local_input iso_text offset n ms = take n (iso_text (ms - offset * 60000))"

text \<open>\<open>x ? String(x) : ''\<close> on an optional number.\<close>

definition number_or_blank :: "(rat \<Rightarrow> string) \<Rightarrow> int option \<Rightarrow> string" where
  "number_or_blank num v = (case v of None \<Rightarrow> [] | Some n \<Rightarrow> if n = 0 then [] else num (of_int n))"

definition source_draft_of ::
    "(rat \<Rightarrow> string) \<Rightarrow> (int \<Rightarrow> string) \<Rightarrow> int \<Rightarrow> stream_source option \<Rightarrow> source_draft" where
  "source_draft_of num iso_text offset s = (case s of
       None \<Rightarrow> \<lparr>sdr_name = [], sdr_filter_subject = [], sdr_opt_start_seq = [], sdr_opt_start_time = []\<rparr>
     | Some s \<Rightarrow> \<lparr>sdr_name = src_name s, sdr_filter_subject = nullish (src_filter_subject s) [],
         sdr_opt_start_seq = number_or_blank num (src_opt_start_seq s),
         sdr_opt_start_time = (case src_opt_start_time s of None \<Rightarrow> []
           | Some t \<Rightarrow> if t = 0 then [] else to_local_input iso_text offset 16 t)\<rparr>)"

definition source_from_draft ::
    "(string \<Rightarrow> rat option) \<Rightarrow> (string \<Rightarrow> int option) \<Rightarrow> source_draft \<Rightarrow> stream_source option" where
  "source_from_draft number date_ms d = (let name = trim (sdr_name d) in
     if name = [] then None
     else Some \<lparr>src_name = name,
       src_opt_start_seq = (case number (sdr_opt_start_seq d) of None \<Rightarrow> None
         | Some n \<Rightarrow> if trim (sdr_opt_start_seq d) \<noteq> [] \<and> n > 0 then Some \<lfloor>n\<rfloor> else None),
       src_opt_start_time = (if sdr_opt_start_time d = [] then None else date_ms (sdr_opt_start_time d)),
       src_subject_transforms = None, src_external_api = None, src_external_deliver = None,
       src_domain = None, src_lag = None, src_active = None,
       src_filter_subject = or_undefined (trim (sdr_filter_subject d))\<rparr>)"

definition duplicate_of :: "stream_info \<Rightarrow> stream_info" where
  "duplicate_of s = s\<lparr>si_name := [], si_sealed := False, si_created := [], si_cluster := None, si_sourced_by := None\<rparr>"

subsection \<open>Numbers in the dialog\<close>

definition duration_units :: "(string \<times> int) list" where
  "duration_units = [(''s'', 1000000000), (''m'', 60000000000), (''h'', 3600000000000), (''d'', 86400000000000)]"

definition split_duration :: "(rat \<Rightarrow> string) \<Rightarrow> int \<Rightarrow> string \<times> string" where
  "split_duration num ns = (if ns \<le> 0 then ([], ''h'')
     else (case List.find (\<lambda>(u, k). ns mod k = 0) (rev duration_units) of
         Some (u, k) \<Rightarrow> (num (of_int ns / of_int k), u)
       | None \<Rightarrow> (num (of_int ns / 1000000000), ''s'')))"

definition to_ns :: "(string \<Rightarrow> rat option) \<Rightarrow> string \<Rightarrow> string \<Rightarrow> int" where
  "to_ns number val unit = (case number val of None \<Rightarrow> 0
     | Some n \<Rightarrow> if trim val = [] \<or> n \<le> 0 then 0
         else js_round (n * of_int (nullish (jm_get duration_units unit) 1000000000)))"

definition num_or_unlimited :: "(string \<Rightarrow> rat option) \<Rightarrow> string \<Rightarrow> int" where
  "num_or_unlimited number s = (case number s of None \<Rightarrow> - 1
     | Some n \<Rightarrow> if trim s = [] \<or> n < 0 then - 1 else \<lfloor>n\<rfloor>)"

definition num_or_zero :: "(string \<Rightarrow> rat option) \<Rightarrow> string \<Rightarrow> int" where
  "num_or_zero number s = (case number s of None \<Rightarrow> 0
     | Some n \<Rightarrow> if trim s = [] \<or> n < 0 then 0 else \<lfloor>n\<rfloor>)"

subsection \<open>The dialog\<close>

record stream_form =
  sf_name :: string
  sf_description :: string
  sf_subjects :: string
  sf_retention :: string
  sf_storage :: string
  sf_discard :: string
  sf_replicas :: string
  sf_max_msgs :: string
  sf_max_msgs_per_subject :: string
  sf_max_bytes :: string
  sf_max_msg_size :: string
  sf_max_consumers :: string
  sf_max_age :: "string \<times> string"
  sf_dup_window :: "string \<times> string"
  sf_marker_ttl :: "string \<times> string"
  sf_deny_delete :: bool
  sf_deny_purge :: bool
  sf_allow_rollup :: bool
  sf_allow_direct :: bool
  sf_no_ack :: bool
  sf_discard_new_per_subject :: bool
  sf_allow_msg_ttl :: bool
  sf_allow_msg_counter :: bool
  sf_allow_atomic_publish :: bool
  sf_allow_msg_schedules :: bool
  sf_mirror_direct :: bool
  sf_compression :: string
  sf_persist_mode :: string
  sf_cluster :: string
  sf_tags :: string
  sf_first_seq :: string
  sf_mirror :: source_draft
  sf_sources :: "source_draft list"
  sf_rp_src :: string
  sf_rp_dest :: string
  sf_rp_headers_only :: bool
  sf_st_src :: string
  sf_st_dest :: string
  sf_metadata :: string
  sf_inactive_threshold :: "string \<times> string"
  sf_max_ack_pending :: string

definition limit_text :: "(rat \<Rightarrow> string) \<Rightarrow> int \<Rightarrow> string" where
  "limit_text num n = (if n \<ge> 0 then num (of_int n) else [])"

definition open_stream_form ::
    "(rat \<Rightarrow> string) \<Rightarrow> (int \<Rightarrow> string) \<Rightarrow> int \<Rightarrow> stream_info option \<Rightarrow> bool \<Rightarrow> stream_form" where
  "open_stream_form num iso_text offset existing duplicate = (case existing of
     None \<Rightarrow> \<lparr>sf_name = [], sf_description = [], sf_subjects = [], sf_retention = ''limits'', sf_storage = ''file'',
       sf_discard = ''old'', sf_replicas = num 1, sf_max_msgs = [], sf_max_msgs_per_subject = [], sf_max_bytes = [],
       sf_max_msg_size = [], sf_max_consumers = [], sf_max_age = ([], ''h''), sf_dup_window = ([], ''h''),
       sf_marker_ttl = ([], ''h''), sf_deny_delete = False, sf_deny_purge = False, sf_allow_rollup = False,
       sf_allow_direct = False, sf_no_ack = False, sf_discard_new_per_subject = False, sf_allow_msg_ttl = False,
       sf_allow_msg_counter = False, sf_allow_atomic_publish = False, sf_allow_msg_schedules = False,
       sf_mirror_direct = False, sf_compression = ''none'', sf_persist_mode = ''default'', sf_cluster = [], sf_tags = [],
       sf_first_seq = [], sf_mirror = source_draft_of num iso_text offset None, sf_sources = [], sf_rp_src = [], sf_rp_dest = [],
       sf_rp_headers_only = False, sf_st_src = [], sf_st_dest = [], sf_metadata = [],
       sf_inactive_threshold = ([], ''h''), sf_max_ack_pending = []\<rparr>
   | Some s \<Rightarrow> \<lparr>sf_name = (if duplicate then [] else si_name s), sf_description = nullish (si_description s) [],
       sf_subjects = join_str '', '' (si_subjects s), sf_retention = to_lower (si_retention s),
       sf_storage = to_lower (si_storage s), sf_discard = to_lower (si_discard s),
       sf_replicas = num (of_int (si_replicas s)), sf_max_msgs = limit_text num (si_max_msgs s),
       sf_max_msgs_per_subject = limit_text num (si_max_msgs_per_subject s), sf_max_bytes = limit_text num (si_max_bytes s),
       sf_max_msg_size = limit_text num (si_max_msg_size s), sf_max_consumers = limit_text num (si_max_consumers s),
       sf_max_age = split_duration num (si_max_age s), sf_dup_window = split_duration num (si_duplicate_window s),
       sf_marker_ttl = split_duration num (nullish (si_subject_delete_marker_ttl s) 0),
       sf_deny_delete = si_deny_delete s, sf_deny_purge = si_deny_purge s, sf_allow_rollup = si_allow_rollup s,
       sf_allow_direct = si_allow_direct s, sf_no_ack = si_no_ack s,
       sf_discard_new_per_subject = nullish (si_discard_new_per_subject s) False,
       sf_allow_msg_ttl = nullish (si_allow_msg_ttl s) False, sf_allow_msg_counter = nullish (si_allow_msg_counter s) False,
       sf_allow_atomic_publish = nullish (si_allow_atomic_publish s) False,
       sf_allow_msg_schedules = nullish (si_allow_msg_schedules s) False,
       sf_mirror_direct = nullish (si_mirror_direct s) False, sf_compression = nullish (si_compression s) ''none'',
       sf_persist_mode = nullish (si_persist_mode s) ''default'',
       sf_cluster = (case si_placement s of None \<Rightarrow> [] | Some p \<Rightarrow> nullish (plc_cluster p) []),
       sf_tags = (case si_placement s of None \<Rightarrow> [] | Some p \<Rightarrow> join_str '', '' (nullish (plc_tags p) [])),
       sf_first_seq = [], sf_mirror = source_draft_of num iso_text offset (si_mirror s),
       sf_sources = map (source_draft_of num iso_text offset \<circ> Some) (nullish (si_sources s) []),
       sf_rp_src = (case si_republish s of None \<Rightarrow> [] | Some r \<Rightarrow> nullish (rpc_src r) []),
       sf_rp_dest = (case si_republish s of None \<Rightarrow> [] | Some r \<Rightarrow> rpc_dest r),
       sf_rp_headers_only = (case si_republish s of None \<Rightarrow> False | Some r \<Rightarrow> nullish (rpc_headers_only r) False),
       sf_st_src = (case si_subject_transform s of None \<Rightarrow> [] | Some t \<Rightarrow> nullish (stf_src t) []),
       sf_st_dest = (case si_subject_transform s of None \<Rightarrow> [] | Some t \<Rightarrow> stf_dest t),
       sf_metadata = format_metadata (si_metadata s),
       sf_inactive_threshold = split_duration num (case si_consumer_limits s of None \<Rightarrow> 0 | Some l \<Rightarrow> clm_inactive_threshold l),
       sf_max_ack_pending = number_or_blank num (map_option clm_max_ack_pending (si_consumer_limits s))\<rparr>)"

definition stream_form_valid :: "stream_form \<Rightarrow> bool" where
  "stream_form_valid f = (trim (sf_name f) \<noteq> [] \<and>
     (parse_list (sf_subjects f) \<noteq> [] \<or> trim (sdr_name (sf_mirror f)) \<noteq> [] \<or>
      list_ex (\<lambda>s. trim (sdr_name s) \<noteq> []) (sf_sources f)))"

text \<open>\<open>Math.max(1, Number(replicas) || 1)\<close>.\<close>

definition replicas_of :: "(string \<Rightarrow> rat option) \<Rightarrow> string \<Rightarrow> rat" where
  "replicas_of number s = max 1 (case number s of None \<Rightarrow> 1 | Some n \<Rightarrow> if n = 0 then 1 else n)"

definition stream_form_config ::
    "(string \<Rightarrow> rat option) \<Rightarrow> (string \<Rightarrow> int option) \<Rightarrow> bool \<Rightarrow> stream_form \<Rightarrow> stream_config_input" where
  "stream_form_config number date_ms edit f =
     \<lparr>sci_name = Some (trim (sf_name f)), sci_description = Some (sf_description f),
      sci_subjects = Some (parse_list (sf_subjects f)), sci_retention = Some (sf_retention f),
      sci_max_consumers = Some (num_or_unlimited number (sf_max_consumers f)),
      sci_max_msgs = Some (num_or_unlimited number (sf_max_msgs f)),
      sci_max_msgs_per_subject = Some (num_or_unlimited number (sf_max_msgs_per_subject f)),
      sci_max_bytes = Some (num_or_unlimited number (sf_max_bytes f)),
      sci_max_age = Some (to_ns number (fst (sf_max_age f)) (snd (sf_max_age f))),
      sci_max_msg_size = Some (num_or_unlimited number (sf_max_msg_size f)),
      sci_storage = Some (sf_storage f), sci_replicas = Some (replicas_of number (sf_replicas f)),
      sci_no_ack = Some (sf_no_ack f), sci_discard = Some (sf_discard f),
      sci_duplicate_window = Some (to_ns number (fst (sf_dup_window f)) (snd (sf_dup_window f))),
      sci_deny_delete = Some (sf_deny_delete f), sci_deny_purge = Some (sf_deny_purge f),
      sci_discard_new_per_subject = Some (sf_discard_new_per_subject f),
      sci_allow_msg_ttl = Some (sf_allow_msg_ttl f),
      sci_subject_delete_marker_ttl = Some (to_ns number (fst (sf_marker_ttl f)) (snd (sf_marker_ttl f))),
      sci_allow_rollup = Some (sf_allow_rollup f), sci_allow_direct = Some (sf_allow_direct f),
      sci_mirror = Some (source_from_draft number date_ms (sf_mirror f)),
      sci_sources = Some (List.map_filter (source_from_draft number date_ms) (sf_sources f)),
      sci_republish = Some (if trim (sf_rp_dest f) \<noteq> []
        then Some \<lparr>rpc_src = Some (trim (sf_rp_src f)), rpc_dest = trim (sf_rp_dest f), rpc_headers_only = Some (sf_rp_headers_only f)\<rparr>
        else None),
      sci_subject_transform = Some (if trim (sf_st_dest f) \<noteq> []
        then Some \<lparr>stf_src = Some (trim (sf_st_src f)), stf_dest = trim (sf_st_dest f)\<rparr> else None),
      sci_placement = Some (if trim (sf_cluster f) \<noteq> [] \<or> parse_list (sf_tags f) \<noteq> []
        then Some \<lparr>plc_cluster = Some (trim (sf_cluster f)), plc_tags = Some (parse_list (sf_tags f))\<rparr> else None),
      sci_metadata = Some (Some (parse_metadata (sf_metadata f))),
      sci_compression = Some (sf_compression f), sci_persist_mode = Some (sf_persist_mode f),
      sci_allow_msg_counter = Some (sf_allow_msg_counter f), sci_allow_atomic_publish = Some (sf_allow_atomic_publish f),
      sci_allow_msg_schedules = Some (sf_allow_msg_schedules f), sci_mirror_direct = Some (sf_mirror_direct f),
      sci_first_seq = (if \<not> edit \<and> trim (sf_first_seq f) \<noteq> [] then Some (num_or_zero number (sf_first_seq f)) else None),
      sci_consumer_inactive_threshold =
        Some (to_ns number (fst (sf_inactive_threshold f)) (snd (sf_inactive_threshold f))),
      sci_consumer_max_ack_pending = Some (num_or_zero number (sf_max_ack_pending f))\<rparr>"

text \<open>What submitting sends: nothing while the form is not valid.\<close>

definition submit_stream ::
    "(string \<Rightarrow> rat option) \<Rightarrow> (string \<Rightarrow> int option) \<Rightarrow> bool \<Rightarrow> stream_form \<Rightarrow> stream_config_input option" where
  "submit_stream number date_ms edit f =
     (if stream_form_valid f then Some (stream_form_config number date_ms edit f) else None)"


subsection \<open>Texts that survive trimming and splitting\<close>

definition clean :: "string \<Rightarrow> bool" where
  "clean w \<longleftrightarrow> trim w = w"

definition list_item :: "string \<Rightarrow> bool" where
  "list_item w \<longleftrightarrow> w \<noteq> [] \<and> clean w \<and> list_all (\<lambda>c. \<not> list_separator c) w"

lemma clean_Nil [simp]: "clean []"
  by (simp add: clean_def trim_def)

lemma trim_Nil [simp]: "trim [] = []"
  by (simp add: trim_def)

lemma parse_list_Nil [simp]: "parse_list [] = []"
  by (simp add: parse_list_def)

lemma clean_iff: "clean w \<longleftrightarrow> w = [] \<or> \<not> is_space (hd w) \<and> \<not> is_space (last w)"
  unfolding clean_def using trim_no_space_ends [of w] hd_trim [of w] last_trim [of w] by metis

lemma fields_by_word:
  "list_all (\<lambda>c. \<not> P c) w \<Longrightarrow> P d \<Longrightarrow> fields_by P acc (w @ d # s) =
     (if acc = [] \<and> w = [] then fields_by P [] s else (rev acc @ w) # fields_by P [] s)"
  by (induction w arbitrary: acc) auto

lemma fields_by_end: "list_all (\<lambda>c. \<not> P c) w \<Longrightarrow> fields_by P acc w = (if acc = [] \<and> w = [] then [] else [rev acc @ w])"
  by (induction w arbitrary: acc) auto

lemma trim_space: "trim (CHR '' '' # w) = trim w"
  by (simp add: trim_def is_space_def)

lemma parse_list_more:
  "list_all list_item (w # ws) \<Longrightarrow>
   filter (\<lambda>w. w \<noteq> []) (map trim (fields_by list_separator [] (CHR '' '' # join_str '', '' (w # ws)))) = w # ws"
proof (induction ws arbitrary: w)
  case Nil
  have "\<not> list_separator CHR '' ''" by (simp add: list_separator_def)
  with Nil show ?case by (simp add: fields_by_end list_item_def trim_space clean_def)
next
  case (Cons v ws)
  have sep: "\<not> list_separator CHR '' ''" "list_separator CHR '',''" by (simp_all add: list_separator_def)
  have "fields_by list_separator [] (CHR '' '' # join_str '', '' (w # v # ws)) =
      (CHR '' '' # w) # fields_by list_separator [] (CHR '' '' # join_str '', '' (v # ws))"
    using fields_by_word [of list_separator w "CHR '',''" "[CHR '' '']" "CHR '' '' # join_str '', '' (v # ws)"] Cons.prems sep
    by (simp add: list_item_def)
  then show ?case using Cons.IH [of v] Cons.prems by (simp add: trim_space list_item_def clean_def)
qed

lemma parse_list_join [simp]: "list_all list_item ws \<Longrightarrow> parse_list (join_str '', '' ws) = ws"
proof -
  assume ws: "list_all list_item ws"
  consider "ws = []" | w where "ws = [w]" | w v vs where "ws = w # v # vs"
    by (metis list.exhaust)
  then show ?thesis
  proof cases
    case (3 w v vs)
    then have "fields_by list_separator [] (join_str '', '' (w # v # vs)) =
        w # fields_by list_separator [] (CHR '' '' # join_str '', '' (v # vs))"
      using fields_by_word [of list_separator w "CHR '',''" "[]" "CHR '' '' # join_str '', '' (v # vs)"] ws
      by (simp add: list_item_def list_separator_def)
    then show ?thesis using 3 ws parse_list_more [of v vs] by (simp add: parse_list_def list_item_def clean_def)
  qed (use ws in \<open>auto simp: parse_list_def fields_by_end list_item_def clean_def\<close>)
qed

text \<open>An entry that can be written as a line: a trimmed key without an equals sign, a trimmed value, and
  no line feed.\<close>

definition entry_ok :: "string \<times> string \<Rightarrow> bool" where
  "entry_ok = (\<lambda>(k, v). k \<noteq> [] \<and> clean k \<and> clean v \<and> CHR ''='' \<notin> set k \<and> CHR 0x0A \<notin> set k \<union> set v \<and>
     \<not> starts_with k ''_nats.'')"

lemma metadata_line_entry:
  assumes "entry_ok (k, v)"
  shows "metadata_line (k @ CHR ''='' # v) out = jm_set k v out"
proof -
  have "clean (k @ CHR ''='' # v)"
    using assms by (auto simp: entry_ok_def clean_iff is_space_def)
  then have 1: "trim (k @ CHR ''='' # v) = k @ CHR ''='' # v" by (simp add: clean_def)
  show ?thesis
    using assms unfolding metadata_line_def 1 Let_def
    by (simp add: index_of_append entry_ok_def clean_def)
qed

lemma parse_format_metadata:
  assumes "jm_wf md" "list_all entry_ok md"
  shows "parse_metadata (format_metadata (Some md)) = md"
proof -
  have filter: "filter (\<lambda>(k, v). \<not> starts_with k ''_nats.'') md = md"
    using assms(2) by (auto simp: filter_id_conv list_all_iff entry_ok_def)
  have fold: "fold metadata_line (map (\<lambda>(k, v). k @ CHR ''='' # v) es) out = out @ es"
    if "distinct (map fst (out @ es))" "list_all entry_ok es" for es out
    using that
  proof (induction es arbitrary: out)
    case (Cons e es)
    obtain k v where e: "e = (k, v)" by force
    have "AList.update k v out = out @ [(k, v)]"
      using Cons.prems(1) e by (intro update_new) auto
    then show ?case
      using Cons.IH [of "out @ [(k, v)]"] Cons.prems e by (simp add: metadata_line_entry)
  qed simp
  show ?thesis
  proof (cases "md = []")
    case True
    then show ?thesis by (simp add: format_metadata_def parse_metadata_def metadata_line_def trim_def)
  next
    case False
    have "split_on CHR 0x0A (join_with CHR 0x0A (map (\<lambda>(k, v). k @ CHR ''='' # v) md)) = map (\<lambda>(k, v). k @ CHR ''='' # v) md"
      using assms(2) False by (intro split_join) (auto simp: list_all_iff entry_ok_def)
    then show ?thesis
      using fold [of "[]" md] assms by (simp add: format_metadata_def parse_metadata_def filter)
  qed
qed


subsection \<open>Numbers that survive being written\<close>

text \<open>\<open>Number(String(x)) === x\<close>, and the text of a number has no blank and no comma.\<close>

definition number_text :: "(string \<Rightarrow> rat option) \<Rightarrow> (rat \<Rightarrow> string) \<Rightarrow> bool" where
  "number_text number num \<longleftrightarrow> (\<forall>r. number (num r) = Some r \<and> num r \<noteq> [] \<and>
     list_all (\<lambda>c. \<not> is_space c \<and> c \<noteq> CHR '','') (num r))"

lemma number_textD:
  assumes "number_text number num"
  shows "number (num r) = Some r" "num r \<noteq> []" "trim (num r) = num r"
proof -
  have num: "number (num r) = Some r" "num r \<noteq> []" "\<forall>c \<in> set (num r). \<not> is_space c"
    using assms by (simp_all add: number_text_def list_all_iff)
  then have "clean (num r)" by (simp add: clean_iff)
  with num show "number (num r) = Some r" "num r \<noteq> []" "trim (num r) = num r" by (simp_all add: clean_def)
qed

lemma unit_found: "(u, k) \<in> set duration_units \<Longrightarrow> jm_get duration_units u = Some k \<and> k > 0"
  by (auto simp: duration_units_def)

lemma to_ns_split [simp]:
  assumes "number_text number num"
  shows "to_ns number (fst (split_duration num ns)) (snd (split_duration num ns)) = max 0 ns"
proof -
  have empty: "to_ns number [] u = 0" for u by (simp add: to_ns_def trim_def split: option.split)
  show ?thesis
  proof (cases "ns \<le> 0")
    case True
    then show ?thesis by (simp add: split_duration_def empty)
  next
    case ns: False
    show ?thesis
    proof (cases "List.find (\<lambda>(u, k). ns mod k = 0) (rev duration_units)")
      case None
      have "of_int ns / 1000000000 * (of_int 1000000000 :: rat) = of_int ns" by simp
      with None show ?thesis using ns number_textD [OF assms, of "of_int ns / 1000000000"]
        by (simp add: split_duration_def to_ns_def duration_units_def)
    next
      case (Some e)
      obtain u k where e: "e = (u, k)" by force
      have "e \<in> set (rev duration_units)" using Some by (metis find_Some_iff nth_mem)
      then have "(u, k) \<in> set duration_units" by (simp add: e)
      then have u: "jm_get duration_units u = Some k" "k > 0" using unit_found by blast+
      then have "of_int ns / of_int k * (of_int k :: rat) = of_int ns" "0 < (of_int ns / of_int k :: rat)"
        using ns by simp_all
      then show ?thesis
        using Some e u ns number_textD [OF assms, of "of_int ns / of_int k"]
        by (simp add: split_duration_def to_ns_def divide_le_0_iff)
    qed
  qed
qed

lemma limit_text [simp]: "number_text number num \<Longrightarrow> num_or_unlimited number (limit_text num n) = max (- 1) n"
  using number_textD [of number num "of_int n"]
  by (simp add: limit_text_def num_or_unlimited_def trim_def split: option.split)

lemma number_or_blank [simp]:
  "number_text number num \<Longrightarrow> num_or_zero number (number_or_blank num v) = max 0 (nullish v 0)"
  using number_textD [of number num "of_int (nullish v 0)"]
  by (cases v) (simp_all add: number_or_blank_def num_or_zero_def trim_def split: option.split)

lemma replicas_text [simp]: "number_text number num \<Longrightarrow> 1 \<le> n \<Longrightarrow> replicas_of number (num (of_int n)) = of_int n"
  using number_textD [of number num "of_int n"] by (simp add: replicas_of_def)

subsection \<open>Editing a source\<close>

text \<open>What is left of a source that went through its row: the name, the filter, the start.\<close>

definition kept_source ::
    "(int \<Rightarrow> string) \<Rightarrow> int \<Rightarrow> (string \<Rightarrow> int option) \<Rightarrow> stream_source \<Rightarrow> stream_source" where
  "kept_source iso_text offset date_ms s = s\<lparr>
     src_opt_start_time := (case src_opt_start_time s of None \<Rightarrow> None
       | Some t \<Rightarrow> if t = 0 \<or> to_local_input iso_text offset 16 t = [] then None else date_ms (to_local_input iso_text offset 16 t)),
     src_subject_transforms := None, src_external_api := None, src_external_deliver := None, src_domain := None,
     src_lag := None, src_active := None\<rparr>"

definition source_ok :: "stream_source \<Rightarrow> bool" where
  "source_ok s \<longleftrightarrow> src_name s \<noteq> [] \<and> clean (src_name s) \<and>
     (case src_filter_subject s of None \<Rightarrow> True | Some f \<Rightarrow> f \<noteq> [] \<and> clean f) \<and>
     (case src_opt_start_seq s of None \<Rightarrow> True | Some n \<Rightarrow> n > 0)"

lemma source_row:
  assumes "number_text number num" "source_ok s"
  shows "source_from_draft number date_ms (source_draft_of num iso_text offset (Some s)) = Some (kept_source iso_text offset date_ms s)"
proof -
  have seq: "(case number (number_or_blank num v) of None \<Rightarrow> None
         | Some n \<Rightarrow> if trim (number_or_blank num v) \<noteq> [] \<and> n > 0 then Some \<lfloor>n\<rfloor> else None) = v"
    if "case v of None \<Rightarrow> True | Some n \<Rightarrow> n > 0" for v
    using that number_textD [OF assms(1)]
    by (cases v) (auto simp: number_or_blank_def trim_def split: option.split)
  have filter: "or_undefined (trim (nullish (src_filter_subject s) [])) = src_filter_subject s"
    using assms(2) by (cases "src_filter_subject s") (simp_all add: source_ok_def clean_def or_undefined_def trim_def)
  have name: "trim (src_name s) = src_name s" "src_name s \<noteq> []"
    using assms(2) by (simp_all add: source_ok_def clean_def)
  have start: "case src_opt_start_seq s of None \<Rightarrow> True | Some n \<Rightarrow> n > 0"
    using assms(2) by (simp add: source_ok_def)
  show ?thesis
    unfolding source_from_draft_def source_draft_of_def kept_source_def option.case source_draft.simps Let_def filter seq [OF start]
    using name by (cases "src_opt_start_time s") simp_all
qed

text \<open>A source that went through the dialog keeps its name, filter and start sequence, and loses its
  subject transforms, the prefixes of another account and its domain; the start time is what the text
  cut at the minute reads as.\<close>

theorem source_row_keeps:
  assumes "number_text number num" "source_ok s"
  shows "source_from_draft number date_ms (source_draft_of num iso_text offset (Some s)) = Some (kept_source iso_text offset date_ms s)"
  by (rule source_row [OF assms])


subsection \<open>Editing a stream\<close>

text \<open>A stream whose texts survive the form: trimmed names and list items, writable metadata, limits of at
  least -1 and one replica or more.\<close>

definition stream_ok :: "stream_info \<Rightarrow> bool" where
  "stream_ok s \<longleftrightarrow> si_name s \<noteq> [] \<and> clean (si_name s) \<and> list_all list_item (si_subjects s) \<and>
     (si_subjects s \<noteq> [] \<or> si_mirror s \<noteq> None \<or> nullish (si_sources s) [] \<noteq> []) \<and>
     1 \<le> si_replicas s \<and>
     (case si_mirror s of None \<Rightarrow> True | Some m \<Rightarrow> source_ok m) \<and> list_all source_ok (nullish (si_sources s) []) \<and>
     (case si_republish s of None \<Rightarrow> True | Some r \<Rightarrow> rpc_dest r \<noteq> [] \<and> clean (rpc_dest r) \<and> clean (nullish (rpc_src r) [])) \<and>
     (case si_subject_transform s of None \<Rightarrow> True | Some r \<Rightarrow> stf_dest r \<noteq> [] \<and> clean (stf_dest r) \<and> clean (nullish (stf_src r) [])) \<and>
     (case si_placement s of None \<Rightarrow> True | Some r \<Rightarrow> clean (nullish (plc_cluster r) []) \<and> list_all list_item (nullish (plc_tags r) []) \<and>
        (nullish (plc_cluster r) [] \<noteq> [] \<or> nullish (plc_tags r) [] \<noteq> [])) \<and>
     jm_wf (nullish (si_metadata s) []) \<and> list_all entry_ok (nullish (si_metadata s) [])"

text \<open>The configuration that says what the stream is, with its sources as the rows keep them.\<close>

definition kept_config :: "(int \<Rightarrow> string) \<Rightarrow> int \<Rightarrow> (string \<Rightarrow> int option) \<Rightarrow> stream_info \<Rightarrow> stream_config_input" where
  "kept_config iso_text offset date_ms s =
     \<lparr>sci_name = Some (si_name s), sci_description = Some (nullish (si_description s) []),
      sci_subjects = Some (si_subjects s), sci_retention = Some (to_lower (si_retention s)),
      sci_max_consumers = Some (max (- 1) (si_max_consumers s)), sci_max_msgs = Some (max (- 1) (si_max_msgs s)),
      sci_max_msgs_per_subject = Some (max (- 1) (si_max_msgs_per_subject s)),
      sci_max_bytes = Some (max (- 1) (si_max_bytes s)), sci_max_age = Some (max 0 (si_max_age s)),
      sci_max_msg_size = Some (max (- 1) (si_max_msg_size s)), sci_storage = Some (to_lower (si_storage s)),
      sci_replicas = Some (of_int (si_replicas s)), sci_no_ack = Some (si_no_ack s),
      sci_discard = Some (to_lower (si_discard s)), sci_duplicate_window = Some (max 0 (si_duplicate_window s)),
      sci_deny_delete = Some (si_deny_delete s), sci_deny_purge = Some (si_deny_purge s),
      sci_discard_new_per_subject = Some (nullish (si_discard_new_per_subject s) False),
      sci_allow_msg_ttl = Some (nullish (si_allow_msg_ttl s) False),
      sci_subject_delete_marker_ttl = Some (max 0 (nullish (si_subject_delete_marker_ttl s) 0)),
      sci_allow_rollup = Some (si_allow_rollup s), sci_allow_direct = Some (si_allow_direct s),
      sci_mirror = Some (map_option (kept_source iso_text offset date_ms) (si_mirror s)),
      sci_sources = Some (map (kept_source iso_text offset date_ms) (nullish (si_sources s) [])),
      sci_republish = Some (map_option (\<lambda>r. \<lparr>rpc_src = Some (nullish (rpc_src r) []), rpc_dest = rpc_dest r,
        rpc_headers_only = Some (nullish (rpc_headers_only r) False)\<rparr>) (si_republish s)),
      sci_subject_transform = Some (map_option (\<lambda>t. \<lparr>stf_src = Some (nullish (stf_src t) []), stf_dest = stf_dest t\<rparr>)
        (si_subject_transform s)),
      sci_placement = Some (map_option (\<lambda>p. \<lparr>plc_cluster = Some (nullish (plc_cluster p) []),
        plc_tags = Some (nullish (plc_tags p) [])\<rparr>) (si_placement s)),
      sci_metadata = Some (Some (nullish (si_metadata s) [])),
      sci_compression = Some (nullish (si_compression s) ''none''),
      sci_persist_mode = Some (nullish (si_persist_mode s) ''default''),
      sci_allow_msg_counter = Some (nullish (si_allow_msg_counter s) False),
      sci_allow_atomic_publish = Some (nullish (si_allow_atomic_publish s) False),
      sci_allow_msg_schedules = Some (nullish (si_allow_msg_schedules s) False),
      sci_mirror_direct = Some (nullish (si_mirror_direct s) False), sci_first_seq = None,
      sci_consumer_inactive_threshold =
        Some (max 0 (case si_consumer_limits s of None \<Rightarrow> 0 | Some l \<Rightarrow> clm_inactive_threshold l)),
      sci_consumer_max_ack_pending = Some (max 0 (nullish (map_option clm_max_ack_pending (si_consumer_limits s)) 0))\<rparr>"

lemma source_rows:
  assumes "number_text number num"
  shows "list_all source_ok ss \<Longrightarrow>
    List.map_filter (source_from_draft number date_ms) (map (source_draft_of num iso_text offset \<circ> Some) ss) =
    map (kept_source iso_text offset date_ms) ss"
  by (induction ss) (simp_all add: map_filter_simps source_row [OF assms])

lemma no_source: "source_from_draft number date_ms (source_draft_of num iso_text offset None) = None"
  by (simp add: source_from_draft_def source_draft_of_def trim_def)

lemma metadata_kept:
  assumes "jm_wf (nullish md [])" "list_all entry_ok (nullish md [])"
  shows "parse_metadata (format_metadata md) = nullish md []"
proof (cases md)
  case None
  then show ?thesis by (simp add: format_metadata_def parse_metadata_def metadata_line_def trim_def)
next
  case (Some m)
  then show ?thesis using parse_format_metadata [of m] assms by simp
qed



subsection \<open>Witnesses\<close>

text \<open>Numbers written as fractions: a text of numbers with the laws above.\<close>

definition frac_text :: "rat \<Rightarrow> string" where
  "frac_text r = int_str (fst (quotient_of r)) @ CHR ''/'' # int_str (snd (quotient_of r))"

definition frac_number :: "string \<Rightarrow> rat option" where
  "frac_number s = (case split_on CHR ''/'' s of
       [a, b] \<Rightarrow> (case (parse_int a, parse_int b) of (Some x, Some y) \<Rightarrow> Some (of_int x / of_int y) | _ \<Rightarrow> None)
     | _ \<Rightarrow> None)"

lemma frac_number_text: "number_text frac_number frac_text"
proof -
  have slash: "\<not> is_digit CHR ''/''" "\<not> is_digit CHR '' ''" by (simp_all add: is_digit_def)
  have "frac_number (frac_text r) = Some r" for r
    using quotient_of_div [of r "fst (quotient_of r)" "snd (quotient_of r)"] int_str_free [of "CHR ''/''"] slash
    by (simp add: frac_number_def frac_text_def split_on_append split_on_single)
  moreover have "list_all (\<lambda>c. \<not> is_space c \<and> c \<noteq> CHR '','') (frac_text r)" for r
    using int_str_chars by (fastforce simp: frac_text_def list_all_iff is_space_def is_digit_def)
  ultimately show ?thesis by (simp add: number_text_def frac_text_def)
qed

lemma sample_source_ok: "source_ok sample_source"
  by (simp add: source_ok_def sample_source_def clean_iff is_space_def)

theorem source_row_keeps_witness:
  "source_from_draft frac_number (\<lambda>_. None) (source_draft_of frac_text (\<lambda>_. []) 0 (Some sample_source)) =
   Some (sample_source\<lparr>src_subject_transforms := None, src_external_api := None, src_lag := None, src_active := None\<rparr>)"
  using source_row_keeps [OF frac_number_text sample_source_ok, of "\<lambda>_. None" "\<lambda>_. []" 0]
  by (simp add: kept_source_def sample_source_def)



end
