(* ===== verification/ConsumerForm.thy ===== *)
theory ConsumerForm
  imports StreamForm
begin

text \<open>
  The consumer form: the text of its fields (\<open>client/src/lib/consumerForm.ts\<close>) and the dialog that creates
  and edits a consumer (\<open>components/jetstream/ConsumerList.tsx\<close>). The arguments are those of the stream form.
\<close>

subsection \<open>Texts\<close>

definition blank_separator :: "char \<Rightarrow> bool" where
  "blank_separator c = (c = CHR '','' \<or> is_space c)"

definition parse_backoff :: "(string \<Rightarrow> rat option) \<Rightarrow> string \<Rightarrow> int list" where
  "parse_backoff number text =
     map (\<lambda>n. js_round (n * 1000000000))
       (filter (\<lambda>n. n > 0) (List.map_filter number (fields_by blank_separator [] text)))"

definition format_backoff :: "(rat \<Rightarrow> string) \<Rightarrow> int list option \<Rightarrow> string" where
  "format_backoff num backoff = join_str '', '' (map (\<lambda>ns. num (of_int ns / 1000000000)) (nullish backoff []))"

definition split_filters :: "string \<Rightarrow> string option \<times> string list option" where
  "split_filters text = (case filter (\<lambda>w. w \<noteq> []) (map trim (fields_by blank_separator [] text)) of
       [] \<Rightarrow> (None, None)
     | [w] \<Rightarrow> (Some w, None)
     | ws \<Rightarrow> (None, Some ws))"

subsection \<open>The dialog\<close>

record consumer_form =
  cf_name :: string
  cf_description :: string
  cf_filter :: string
  cf_deliver :: string
  cf_start_seq :: string
  cf_ack :: string
  cf_ack_wait :: string
  cf_max_deliver :: string
  cf_max_ack_pending :: string
  cf_replay :: string
  cf_start_time :: string
  cf_backoff :: string
  cf_inactive :: string
  cf_max_waiting :: string
  cf_headers_only :: bool
  cf_deliver_subject :: string
  cf_deliver_group :: string
  cf_metadata :: string

definition open_consumer_form ::
    "(rat \<Rightarrow> string) \<Rightarrow> (int \<Rightarrow> string) \<Rightarrow> int \<Rightarrow> consumer_info option \<Rightarrow> consumer_form" where
  "open_consumer_form num iso_text offset existing = (case existing of
     None \<Rightarrow> \<lparr>cf_name = [], cf_description = [], cf_filter = [], cf_deliver = ''all'', cf_start_seq = [], cf_ack = ''explicit'',
       cf_ack_wait = ''30'', cf_max_deliver = [], cf_max_ack_pending = [], cf_replay = ''instant'', cf_start_time = [],
       cf_backoff = [], cf_inactive = [], cf_max_waiting = [], cf_headers_only = False, cf_deliver_subject = [],
       cf_deliver_group = [], cf_metadata = []\<rparr>
   | Some c \<Rightarrow> let cfg = ci_config c in
     \<lparr>cf_name = ci_name c, cf_description = nullish (cco_description cfg) [],
       cf_filter = (case cco_filter_subject cfg of Some f \<Rightarrow> f
         | None \<Rightarrow> join_str '', '' (nullish (cco_filter_subjects cfg) [])),
       cf_deliver = cco_deliver_policy cfg, cf_start_seq = number_or_blank num (cco_opt_start_seq cfg),
       cf_ack = cco_ack_policy cfg,
       cf_ack_wait = (if cco_ack_wait cfg = 0 then ''30'' else num (of_int (js_round (of_int (cco_ack_wait cfg) / 1000000000)))),
       cf_max_deliver = (if cco_max_deliver cfg > 0 then num (of_int (cco_max_deliver cfg)) else []),
       cf_max_ack_pending = number_or_blank num (Some (cco_max_ack_pending cfg)),
       cf_replay = cco_replay_policy cfg,
       cf_start_time = (case cco_opt_start_time cfg of None \<Rightarrow> [] | Some t \<Rightarrow> if t = 0 then [] else to_local_input iso_text offset 19 t),
       cf_backoff = format_backoff num (cco_backoff cfg),
       cf_inactive = (case cco_inactive_threshold cfg of None \<Rightarrow> [] | Some n \<Rightarrow> if n = 0 then [] else num (of_int n / 1000000000)),
       cf_max_waiting = number_or_blank num (cco_max_waiting cfg),
       cf_headers_only = nullish (cco_headers_only cfg) False, cf_deliver_subject = nullish (cco_deliver_subject cfg) [],
       cf_deliver_group = nullish (cco_deliver_group cfg) [], cf_metadata = format_metadata (cco_metadata cfg)\<rparr>)"

definition consumer_form_valid :: "consumer_form \<Rightarrow> bool" where
  "consumer_form_valid f = (trim (cf_name f) \<noteq> [])"

text \<open>\<open>Number(s) > 0 ? Number(s) : undefined\<close>.\<close>

definition positive :: "(string \<Rightarrow> rat option) \<Rightarrow> string \<Rightarrow> rat option" where
  "positive number s = (case number s of None \<Rightarrow> None | Some n \<Rightarrow> if n > 0 then Some n else None)"

definition ack_wait_of :: "(string \<Rightarrow> rat option) \<Rightarrow> consumer_form \<Rightarrow> rat option" where
  "ack_wait_of number f = map_option (\<lambda>n. n * 1000000000) (positive number (cf_ack_wait f))"

definition inactive_of :: "(string \<Rightarrow> rat option) \<Rightarrow> consumer_form \<Rightarrow> rat" where
  "inactive_of number f = nullish (positive number (cf_inactive f)) 0 * 1000000000"

definition consumer_update :: "(string \<Rightarrow> rat option) \<Rightarrow> consumer_form \<Rightarrow> consumer_update_input" where
  "consumer_update number f =
     \<lparr>cui_description = Some (cf_description f), cui_ack_wait = ack_wait_of number f,
      cui_max_deliver = Some (nullish (positive number (cf_max_deliver f)) (- 1)),
      cui_max_ack_pending = Some (nullish (positive number (cf_max_ack_pending f)) 0),
      cui_filter_subject = Some (nullish (fst (split_filters (cf_filter f))) []),
      cui_filter_subjects = Some (nullish (snd (split_filters (cf_filter f))) []),
      cui_backoff = Some (parse_backoff number (cf_backoff f)),
      cui_inactive_threshold = Some (inactive_of number f), cui_max_waiting = None,
      cui_headers_only = Some (cf_headers_only f), cui_max_request_batch = None, cui_rate_limit = None,
      cui_metadata = Some (parse_metadata (cf_metadata f)),
      cui_deliver_subject = Some (trim (cf_deliver_subject f)), cui_deliver_group = Some (trim (cf_deliver_group f))\<rparr>"

definition consumer_create ::
    "(string \<Rightarrow> rat option) \<Rightarrow> (string \<Rightarrow> int option) \<Rightarrow> consumer_form \<Rightarrow> consumer_create_input" where
  "consumer_create number date_ms f =
     \<lparr>cci_name = None, cci_durable_name = Some (trim (cf_name f)), cci_description = or_undefined (cf_description f),
      cci_deliver_policy = Some (cf_deliver f),
      cci_opt_start_seq = (if cf_deliver f = ''by_start_sequence''
        then (case number (cf_start_seq f) of None \<Rightarrow> None | Some n \<Rightarrow> if n = 0 then None else Some n) else None),
      cci_opt_start_time = (if cf_deliver f = ''by_start_time'' \<and> cf_start_time f \<noteq> [] then date_ms (cf_start_time f) else None),
      cci_ack_policy = Some (cf_ack f), cci_ack_wait = ack_wait_of number f,
      cci_max_deliver = positive number (cf_max_deliver f),
      cci_filter_subject = fst (split_filters (cf_filter f)), cci_filter_subjects = snd (split_filters (cf_filter f)),
      cci_replay_policy = Some (cf_replay f), cci_max_ack_pending = positive number (cf_max_ack_pending f),
      cci_backoff = Some (parse_backoff number (cf_backoff f)),
      cci_inactive_threshold = Some (inactive_of number f), cci_max_waiting = positive number (cf_max_waiting f),
      cci_headers_only = Some (cf_headers_only f), cci_max_request_batch = None, cci_rate_limit = None,
      cci_replicas = None, cci_memory_storage = None, cci_metadata = Some (parse_metadata (cf_metadata f)),
      cci_deliver_subject = Some (trim (cf_deliver_subject f)), cci_deliver_group = Some (trim (cf_deliver_group f))\<rparr>"

text \<open>Submitting: an edit when there is a consumer, a creation otherwise.\<close>

datatype consumer_request = UpdateConsumer string consumer_update_input | CreateConsumer consumer_create_input

definition submit_consumer ::
    "(string \<Rightarrow> rat option) \<Rightarrow> (string \<Rightarrow> int option) \<Rightarrow> consumer_info option \<Rightarrow> consumer_form \<Rightarrow> consumer_request option" where
  "submit_consumer number date_ms existing f =
     (if \<not> consumer_form_valid f then None
      else Some (case existing of
          Some c \<Rightarrow> UpdateConsumer (ci_name c) (consumer_update number f)
        | None \<Rightarrow> CreateConsumer (consumer_create number date_ms f)))"


subsection \<open>Round trips\<close>

lemma blank_separators: "blank_separator CHR '',''" "blank_separator CHR '' ''"
  by (simp_all add: blank_separator_def is_space_def)

lemma fields_by_seps: "list_all P seps \<Longrightarrow> fields_by P [] (seps @ s) = fields_by P [] s"
  by (induction seps) auto

lemma fields_of_join:
  "list_all (\<lambda>w. w \<noteq> [] \<and> list_all (\<lambda>c. \<not> blank_separator c) w) ws \<Longrightarrow>
   fields_by blank_separator [] (join_str '', '' ws) = ws"
proof (induction "'', ''" ws rule: join_str.induct)
  case (2 w)
  then show ?case by (simp add: fields_by_end)
next
  case (3 w v ws)
  have "fields_by blank_separator [] (w @ CHR '','' # CHR '' '' # join_str '', '' (v # ws)) =
      w # fields_by blank_separator [] (join_str '', '' (v # ws))"
    using 3(2) fields_by_word [of blank_separator w "CHR '',''" "[]"] blank_separators by simp
  then show ?case using 3 by simp
qed simp

lemma number_no_separator:
  assumes "number_text number num"
  shows "num r \<noteq> []" "list_all (\<lambda>c. \<not> blank_separator c) (num r)"
  using assms by (auto simp: number_text_def blank_separator_def list_all_iff)

lemma parse_backoff_text:
  assumes "number_text number num" "list_all (\<lambda>n. n > 0) (nullish backoff [])"
  shows "parse_backoff number (format_backoff num backoff) = nullish backoff []"
proof -
  have "fields_by blank_separator [] (format_backoff num backoff) = map (\<lambda>ns. num (of_int ns / 1000000000)) (nullish backoff [])"
    unfolding format_backoff_def
    by (rule fields_of_join) (use number_no_separator [OF assms(1)] in \<open>simp add: list_all_iff\<close>)
  moreover have "List.map_filter number (map (\<lambda>ns. num (of_int ns / 1000000000)) xs) = map (\<lambda>ns. of_int ns / 1000000000) xs" for xs
    using number_textD [OF assms(1)] by (induction xs) (simp_all add: map_filter_simps)
  moreover have "map (\<lambda>n. js_round (n * 1000000000)) (filter (\<lambda>n. n > 0) (map (\<lambda>ns. of_int ns / 1000000000) xs)) = xs"
    if "list_all (\<lambda>n. n > 0) xs" for xs
    using that by (induction xs) simp_all
  ultimately show ?thesis using assms(2) by (simp add: parse_backoff_def)
qed

definition filter_ok :: "string \<Rightarrow> bool" where
  "filter_ok w \<longleftrightarrow> w \<noteq> [] \<and> list_all (\<lambda>c. \<not> blank_separator c) w"

lemma filter_ok_trim: "filter_ok w \<Longrightarrow> trim w = w"
proof -
  assume w: "filter_ok w"
  then have "\<forall>c \<in> set w. \<not> is_space c" by (simp add: filter_ok_def list_all_iff blank_separator_def)
  then have "clean w" using w by (simp add: clean_iff filter_ok_def)
  then show ?thesis by (simp add: clean_def)
qed

lemma split_filters_join:
  assumes "list_all filter_ok ws"
  shows "split_filters (join_str '', '' ws) = (case ws of [] \<Rightarrow> (None, None) | [w] \<Rightarrow> (Some w, None) | _ \<Rightarrow> (None, Some ws))"
proof -
  have "fields_by blank_separator [] (join_str '', '' ws) = ws"
    by (rule fields_of_join) (use assms in \<open>simp add: list_all_iff filter_ok_def\<close>)
  moreover have "filter (\<lambda>w. w \<noteq> []) (map trim ws) = ws"
    using assms by (induction ws) (simp_all add: filter_ok_trim, simp_all add: filter_ok_def)
  ultimately show ?thesis unfolding split_filters_def by (simp split: list.split)
qed

text \<open>Consumers whose texts survive the form; one filter is the single filter and several are the list, as
  the server sends them.\<close>

definition consumer_ok :: "consumer_info \<Rightarrow> bool" where
  "consumer_ok c \<longleftrightarrow> (let cfg = ci_config c in
     trim (ci_name c) \<noteq> [] \<and>
     (case (cco_filter_subject cfg, cco_filter_subjects cfg) of
         (Some f, None) \<Rightarrow> filter_ok f
       | (None, None) \<Rightarrow> True
       | (None, Some fs) \<Rightarrow> 2 \<le> length fs \<and> list_all filter_ok fs
       | _ \<Rightarrow> False) \<and>
     list_all (\<lambda>n. n > 0) (nullish (cco_backoff cfg) []) \<and>
     clean (nullish (cco_deliver_subject cfg) []) \<and> clean (nullish (cco_deliver_group cfg) []) \<and>
     jm_wf (nullish (cco_metadata cfg) []) \<and> list_all entry_ok (nullish (cco_metadata cfg) []))"

lemma positive_text:
  assumes "number_text number num" "number [] = Some 0"
  shows "positive number (num r) = (if r > 0 then Some r else None)"
    "positive number (number_or_blank num v) = (if nullish v 0 > 0 then Some (of_int (nullish v 0)) else None)"
    "positive number [] = None"
  using assms(2) number_textD [OF assms(1)] by (cases v; auto simp: positive_def number_or_blank_def)+



definition typed_number :: "string \<Rightarrow> rat option" where
  "typed_number s = (if s = [] then Some 0 else frac_number s)"

lemma typed_number_text: "number_text typed_number frac_text" "typed_number [] = Some 0"
  using frac_number_text by (simp_all add: number_text_def typed_number_def)

definition sample_consumer :: consumer_info where
  "sample_consumer = \<lparr>ci_name = ''C'', ci_stream_name = ''S'', ci_description = None, ci_created = [],
     ci_config = \<lparr>cco_name = Some ''C'', cco_durable_name = Some ''C'', cco_description = None, cco_deliver_policy = ''all'',
       cco_ack_policy = ''explicit'', cco_ack_wait = 1500000000, cco_max_deliver = - 1, cco_filter_subject = Some ''a.>'',
       cco_filter_subjects = None, cco_replay_policy = ''instant'', cco_max_ack_pending = - 1, cco_deliver_subject = None,
       cco_deliver_group = None, cco_opt_start_seq = None, cco_opt_start_time = None, cco_backoff = Some [1000000000, 5000000000],
       cco_inactive_threshold = None, cco_max_waiting = Some 512, cco_headers_only = None, cco_max_request_batch = None,
       cco_rate_limit = None, cco_replicas = None, cco_memory_storage = None, cco_metadata = None\<rparr>,
     ci_delivered = \<lparr>sq_consumer_seq = 0, sq_stream_seq = 0\<rparr>, ci_ack_floor = \<lparr>sq_consumer_seq = 0, sq_stream_seq = 0\<rparr>,
     ci_num_ack_pending = 0, ci_num_redelivered = 0, ci_num_waiting = 0, ci_num_pending = 0, ci_push = False,
     ci_paused = None, ci_pause_remaining = None\<rparr>"


end
