(* ===== verification/Samples.thy ===== *)
theory Samples
  imports JetStream
begin

text \<open>
  The polls the charts are drawn from: the samples of a server's monitoring endpoints
  (\<open>client/src/components/monitoring/history.ts\<close>, \<open>snapshot.ts\<close>) and of a consumer
  (\<open>components/jetstream/consumerHistory.ts\<close>), with the rates, the lag, the trend and the forecast read
  off them. The clock is an argument; quotients are exact, where the code divides doubles.
\<close>

subsection \<open>Samples of a server\<close>

record varz =
  vz_in_msgs :: int
  vz_out_msgs :: int
  vz_in_bytes :: int
  vz_out_bytes :: int
  vz_connections :: int
  vz_subscriptions :: int
  vz_slow_consumers :: int
  vz_cpu :: "rat option"
  vz_mem :: int

text \<open>Of the JetStream report only the counters of its API are read.\<close>

record jsz =
  jz_api :: "(int \<times> int) option"

record sample =
  sp_t :: int
  sp_in_msgs :: int
  sp_out_msgs :: int
  sp_in_bytes :: int
  sp_out_bytes :: int
  sp_connections :: int
  sp_subscriptions :: int
  sp_slow_consumers :: int
  sp_cpu :: rat
  sp_mem :: int
  sp_js_api_total :: int
  sp_js_api_errors :: int

definition max_samples :: nat where
  "max_samples = 720"

definition sample_of :: "int \<Rightarrow> varz \<Rightarrow> jsz option \<Rightarrow> sample" where
  "sample_of now v j = \<lparr>sp_t = now, sp_in_msgs = vz_in_msgs v, sp_out_msgs = vz_out_msgs v, sp_in_bytes = vz_in_bytes v,
     sp_out_bytes = vz_out_bytes v, sp_connections = vz_connections v, sp_subscriptions = vz_subscriptions v,
     sp_slow_consumers = vz_slow_consumers v, sp_cpu = nullish (vz_cpu v) 0, sp_mem = vz_mem v,
     sp_js_api_total = (case j of None \<Rightarrow> 0 | Some z \<Rightarrow> (case jz_api z of None \<Rightarrow> 0 | Some (n, e) \<Rightarrow> n)),
     sp_js_api_errors = (case j of None \<Rightarrow> 0 | Some z \<Rightarrow> (case jz_api z of None \<Rightarrow> 0 | Some (n, e) \<Rightarrow> e))\<rparr>"

definition too_soon :: "('s \<Rightarrow> int) \<Rightarrow> int \<Rightarrow> 's list \<Rightarrow> bool" where
  "too_soon time now xs = (xs \<noteq> [] \<and> now - time (last xs) < 500)"

definition record_sample ::
    "int \<Rightarrow> string \<Rightarrow> varz \<Rightarrow> jsz option \<Rightarrow> (string, sample list) jsmap \<Rightarrow> (string, sample list) jsmap" where
  "record_sample now conn v j histories = (let xs = nullish (jm_get histories conn) [] in
     if too_soon sp_t now xs then histories
     else jm_set conn (keep_last max_samples (xs @ [sample_of now v j])) histories)"

definition samples_for :: "string \<Rightarrow> (string, sample list) jsmap \<Rightarrow> sample list" where
  "samples_for conn histories = nullish (jm_get histories conn) []"

definition clear_samples :: "string \<Rightarrow> (string, sample list) jsmap \<Rightarrow> (string, sample list) jsmap" where
  "clear_samples conn histories = jm_delete conn histories"

definition rate_series :: "(sample \<Rightarrow> rat) \<Rightarrow> sample list \<Rightarrow> (int \<times> rat) list" where
  "rate_series pick xs = map (\<lambda>i. (sp_t (xs ! i),
       let dt = of_int (sp_t (xs ! i) - sp_t (xs ! (i - 1))) / 1000; d = pick (xs ! i) - pick (xs ! (i - 1))
       in if dt > 0 \<and> d \<ge> 0 then d / dt else 0)) [1..<length xs]"

definition gauge_series :: "(sample \<Rightarrow> rat) \<Rightarrow> sample list \<Rightarrow> (int \<times> rat) list" where
  "gauge_series pick xs = map (\<lambda>s. (sp_t s, pick s)) (drop 1 xs)"

subsection \<open>One round of the monitoring endpoints\<close>

text \<open>A settled request is its answer or the error it was rejected with, as text. The answers the charts
  do not read are documents of any type.\<close>

type_synonym 'a settled = "string + 'a"

definition fulfilled :: "'a settled \<Rightarrow> 'a option" where
  "fulfilled r = (case r of Inl e \<Rightarrow> None | Inr v \<Rightarrow> Some v)"

definition rejected :: "'a settled \<Rightarrow> string list" where
  "rejected r = (case r of Inl e \<Rightarrow> [e] | Inr v \<Rightarrow> [])"

record 'd snapshot =
  sn_varz :: "varz option"
  sn_jsz :: "jsz option"
  sn_connz :: "'d option"
  sn_subsz :: "'d option"
  sn_healthz :: "'d option"
  sn_routez :: "'d option"
  sn_leafz :: "'d option"
  sn_errors :: "string list"

definition load_snapshot ::
    "int \<Rightarrow> string \<Rightarrow> varz settled \<Rightarrow> jsz settled \<Rightarrow> 'd settled \<Rightarrow> 'd settled \<Rightarrow> 'd settled \<Rightarrow> 'd settled \<Rightarrow> 'd settled \<Rightarrow>
     (string, sample list) jsmap \<Rightarrow> (string + 'd snapshot) \<times> (string, sample list) jsmap" where
  "load_snapshot now conn varz jsz connz subsz healthz routez leafz histories = (case varz of
       Inl reason \<Rightarrow> (Inl reason, histories)
     | Inr v \<Rightarrow> (Inr \<lparr>sn_varz = fulfilled varz, sn_jsz = fulfilled jsz, sn_connz = fulfilled connz, sn_subsz = fulfilled subsz,
           sn_healthz = fulfilled healthz, sn_routez = fulfilled routez, sn_leafz = fulfilled leafz,
           sn_errors = rejected varz @ rejected jsz @ rejected connz @ rejected subsz @ rejected healthz @ rejected routez @ rejected leafz\<rparr>,
         record_sample now conn v (fulfilled jsz) histories))"

subsection \<open>Samples of a consumer\<close>

record consumer_sample =
  cs_t :: int
  cs_pending :: int
  cs_ack_pending :: int
  cs_redelivered :: int
  cs_delivered_stream_seq :: int
  cs_waiting :: int

definition consumer_key :: "string \<Rightarrow> string \<Rightarrow> string \<Rightarrow> string" where
  "consumer_key conn stream consumer = conn @ CHR 0x00 # stream @ CHR 0x00 # consumer"

definition consumer_sample_of :: "int \<Rightarrow> consumer_info \<Rightarrow> consumer_sample" where
  "consumer_sample_of now c = \<lparr>cs_t = now, cs_pending = ci_num_pending c, cs_ack_pending = ci_num_ack_pending c,
     cs_redelivered = ci_num_redelivered c, cs_delivered_stream_seq = sq_stream_seq (ci_delivered c),
     cs_waiting = ci_num_waiting c\<rparr>"

definition record_consumer ::
    "int \<Rightarrow> string \<Rightarrow> string \<Rightarrow> consumer_info \<Rightarrow> (string, consumer_sample list) jsmap \<Rightarrow> (string, consumer_sample list) jsmap" where
  "record_consumer now conn stream c histories =
     (let key = consumer_key conn stream (ci_name c); xs = nullish (jm_get histories key) [] in
      if too_soon cs_t now xs then histories
      else jm_set key (keep_last max_samples (xs @ [consumer_sample_of now c])) histories)"

definition consumer_samples ::
    "string \<Rightarrow> string \<Rightarrow> string \<Rightarrow> (string, consumer_sample list) jsmap \<Rightarrow> consumer_sample list" where
  "consumer_samples conn stream consumer histories = nullish (jm_get histories (consumer_key conn stream consumer)) []"

definition clear_consumer_samples ::
    "string \<Rightarrow> string \<Rightarrow> (string, consumer_sample list) jsmap \<Rightarrow> (string, consumer_sample list) jsmap" where
  "clear_consumer_samples conn stream histories =
     fold (\<lambda>key h. if starts_with key (conn @ CHR 0x00 # stream @ [CHR 0x00]) then jm_delete key h else h) (jm_keys histories) histories"

definition consumer_series :: "(consumer_sample \<Rightarrow> rat) \<Rightarrow> consumer_sample list \<Rightarrow> (int \<times> rat) list" where
  "consumer_series pick xs = map (\<lambda>s. (cs_t s, pick s)) xs"

definition lag_of :: "consumer_info \<Rightarrow> int option \<Rightarrow> int option" where
  "lag_of c stream_last_seq = map_option (\<lambda>n. max 0 (n - sq_stream_seq (ci_delivered c))) stream_last_seq"

subsection \<open>Forecast and trend\<close>

datatype trend = Up | Down | Flat

record drain_forecast =
  df_per_second :: rat
  df_eta_ms :: "rat option"
  df_direction :: trend

text \<open>\<open>xs.slice(-n)\<close>; a zero takes the whole list.\<close>

definition slice_last :: "nat \<Rightarrow> 'a list \<Rightarrow> 'a list" where
  "slice_last n xs = (if n = 0 then xs else keep_last n xs)"

definition mean :: "rat list \<Rightarrow> rat" where
  "mean xs = sum_list xs / of_nat (length xs)"

definition fit_num :: "(rat \<times> rat) list \<Rightarrow> rat" where
  "fit_num ps = (\<Sum>(x, y) \<leftarrow> ps. (x - mean (map fst ps)) * (y - mean (map snd ps)))"

definition fit_den :: "(rat \<times> rat) list \<Rightarrow> rat" where
  "fit_den ps = (\<Sum>(x, y) \<leftarrow> ps. (x - mean (map fst ps)) ^ 2)"

text \<open>The points of the fit: seconds since the first sample, and the backlog.\<close>

definition backlog_points :: "consumer_sample list \<Rightarrow> (rat \<times> rat) list" where
  "backlog_points xs = map (\<lambda>s. (of_int (cs_t s - cs_t (hd xs)) / 1000, of_int (cs_pending s))) xs"

definition forecast_of :: "rat \<Rightarrow> rat \<Rightarrow> drain_forecast" where
  "forecast_of per_second pending = (let moving = \<bar>per_second\<bar> \<ge> 1 / 60 in
     \<lparr>df_per_second = per_second,
      df_eta_ms = (if moving \<and> per_second < 0 \<and> pending > 0 then Some (pending / - per_second * 1000) else None),
      df_direction = (if \<not> moving then Flat else if per_second > 0 then Up else Down)\<rparr>)"

definition drain_forecast_of :: "nat \<Rightarrow> consumer_sample list \<Rightarrow> drain_forecast option" where
  "drain_forecast_of window xs = (let recent = slice_last window xs; ps = backlog_points recent in
     if length recent < 4 then None
     else if (of_int (cs_t (last recent) - cs_t (hd recent)) / 1000 :: rat) < 3 then None
     else if fit_den ps = 0 then None
     else Some (forecast_of (fit_num ps / fit_den ps) (snd (last ps))))"

definition average_pending :: "consumer_sample list \<Rightarrow> rat" where
  "average_pending xs = mean (map (\<lambda>s. of_int (cs_pending s)) xs)"

definition pending_trend :: "nat \<Rightarrow> consumer_sample list \<Rightarrow> trend" where
  "pending_trend window xs = (let recent = slice_last window xs in
     if length recent < 3 then Flat
     else let third = max 1 (length recent div 3);
            a = average_pending (take third recent); b = average_pending (keep_last third recent)
       in if b > a * (6 / 5) \<and> b - a \<ge> 1 then Up
          else if b < a * (4 / 5) \<and> a - b \<ge> 1 then Down else Flat)"


subsection \<open>The histories stay bounded and spaced\<close>

definition spaced :: "('s \<Rightarrow> int) \<Rightarrow> 's list \<Rightarrow> bool" where
  "spaced time xs \<longleftrightarrow> length xs \<le> max_samples \<and> sorted_wrt (\<lambda>a b. 500 \<le> time b - time a) xs"

lemma spaced_Nil [simp]: "spaced time []"
  by (simp add: spaced_def)

lemma spaced_push:
  assumes "spaced time xs" "\<not> too_soon time now xs" "time s = now"
  shows "spaced time (keep_last max_samples (xs @ [s]))"
proof -
  have "500 \<le> now - time x" if x: "x \<in> set xs" for x
  proof -
    have ne: "xs \<noteq> []" using x by auto
    then have last: "500 \<le> now - time (last xs)" using assms(2) by (simp add: too_soon_def)
    show ?thesis
    proof (cases "x = last xs")
      case False
      have "xs = butlast xs @ [last xs]" using ne by simp
      then have "x \<in> set (butlast xs)" using x False by (metis rotate1.simps(2) set_ConsD set_rotate1)
      then have "500 \<le> time (last xs) - time x"
        using assms(1) \<open>xs = butlast xs @ [last xs]\<close> unfolding spaced_def
        by (metis sorted_wrt_append list.set_intros(1))
      then show ?thesis using last by simp
    qed (use last in simp)
  qed
  then have "sorted_wrt (\<lambda>a b. 500 \<le> time b - time a) (xs @ [s])"
    using assms by (simp add: spaced_def sorted_wrt_append)
  then show ?thesis by (simp add: spaced_def sorted_wrt_keep_last)
qed

text \<open>What happens to the histories of servers and of consumers, in any order.\<close>

datatype sample_event = Polled int string varz "jsz option" | Cleared string

fun take_sample :: "sample_event \<Rightarrow> (string, sample list) jsmap \<Rightarrow> (string, sample list) jsmap" where
  "take_sample (Polled now conn v j) h = record_sample now conn v j h"
| "take_sample (Cleared conn) h = clear_samples conn h"

datatype consumer_event = ConsumerPolled int string string consumer_info | ConsumersCleared string string

fun take_consumer :: "consumer_event \<Rightarrow> (string, consumer_sample list) jsmap \<Rightarrow> (string, consumer_sample list) jsmap" where
  "take_consumer (ConsumerPolled now conn stream c) h = record_consumer now conn stream c h"
| "take_consumer (ConsumersCleared conn stream) h = clear_consumer_samples conn stream h"

lemma all_spaced_record:
  assumes "\<forall>k. spaced time (nullish (jm_get h k) [])" "\<not> too_soon time now (nullish (jm_get h key) [])" "time s = now"
  shows "\<forall>k. spaced time (nullish (jm_get (jm_set key (keep_last max_samples (nullish (jm_get h key) [] @ [s])) h) k) [])"
  using assms spaced_push [of time "nullish (jm_get h key) []" now s] by simp

lemma all_spaced_delete:
  "\<forall>k. spaced time (nullish (jm_get h k) []) \<Longrightarrow> \<forall>k. spaced time (nullish (jm_get (jm_delete key h) k) [])"
  by simp

lemma sample_event_spaced:
  "\<forall>k. spaced sp_t (nullish (jm_get h k) []) \<Longrightarrow> \<forall>k. spaced sp_t (nullish (jm_get (take_sample e h) k) [])"
proof (cases e)
  case (Polled now conn v j)
  assume "\<forall>k. spaced sp_t (nullish (jm_get h k) [])"
  then show ?thesis
    using Polled all_spaced_record [of sp_t h now conn "sample_of now v j"]
    by (simp add: record_sample_def Let_def sample_of_def)
qed (simp add: clear_samples_def)

lemma consumer_event_spaced:
  "\<forall>k. spaced cs_t (nullish (jm_get h k) []) \<Longrightarrow> \<forall>k. spaced cs_t (nullish (jm_get (take_consumer e h) k) [])"
proof (cases e)
  case (ConsumerPolled now conn stream c)
  assume "\<forall>k. spaced cs_t (nullish (jm_get h k) [])"
  then show ?thesis
    using ConsumerPolled all_spaced_record [of cs_t h now "consumer_key conn stream (ci_name c)" "consumer_sample_of now c"]
    by (simp add: record_consumer_def Let_def consumer_sample_of_def)
next
  case (ConsumersCleared conn stream)
  assume h: "\<forall>k. spaced cs_t (nullish (jm_get h k) [])"
  have "\<forall>k. spaced cs_t (nullish (jm_get (fold (\<lambda>key h. if P key then jm_delete key h else h) keys h) k) [])" for P keys
    using h by (induction keys arbitrary: h) auto
  then show ?thesis using ConsumersCleared by (simp add: clear_consumer_samples_def)
qed

text \<open>Whatever polls and clears came before, the samples of a consumer are at most 720 and lie at least half a
  second apart, so they are in time order.\<close>

theorem consumer_samples_spaced:
  "spaced cs_t (consumer_samples conn stream consumer (fold take_consumer events []))"
proof -
  have "\<forall>k. spaced cs_t (nullish (jm_get (fold take_consumer events h) k) [])"
    if "\<forall>k. spaced cs_t (nullish (jm_get h k) [])" for h
    using that by (induction events arbitrary: h) (simp_all add: consumer_event_spaced)
  then show ?thesis by (simp add: consumer_samples_def)
qed

theorem server_samples_spaced:
  "spaced sp_t (samples_for conn (fold take_sample events []))"
proof -
  have "\<forall>k. spaced sp_t (nullish (jm_get (fold take_sample events h) k) [])"
    if "\<forall>k. spaced sp_t (nullish (jm_get h k) [])" for h
    using that by (induction events arbitrary: h) (simp_all add: sample_event_spaced)
  then show ?thesis by (simp add: samples_for_def)
qed

subsection \<open>The forecast\<close>

lemma forecast_of:
  "case df_eta_ms (forecast_of p n) of
     None \<Rightarrow> df_direction (forecast_of p n) \<noteq> Down \<or> n \<le> 0
   | Some e \<Rightarrow> df_direction (forecast_of p n) = Down \<and> 0 < e \<and> n + df_per_second (forecast_of p n) * (e / 1000) = 0"
proof (cases "\<bar>p\<bar> \<ge> 1 / 60 \<and> p < 0 \<and> n > 0")
  case True
  then have "0 < n / - p * 1000" by (intro mult_pos_pos divide_pos_pos) simp_all
  with True show ?thesis by (simp add: forecast_of_def Let_def)
next
  case False
  then show ?thesis by (auto simp: forecast_of_def Let_def)
qed

text \<open>A forecast that names a time is of a shrinking backlog, and at that time the line through the last
  sample is at zero.\<close>

theorem forecast_empties:
  "case drain_forecast_of window xs of None \<Rightarrow> True
   | Some f \<Rightarrow> (case df_eta_ms f of
       None \<Rightarrow> df_direction f \<noteq> Down \<or> cs_pending (last xs) \<le> 0
     | Some e \<Rightarrow> df_direction f = Down \<and> 0 < e \<and> of_int (cs_pending (last xs)) + df_per_second f * (e / 1000) = 0)"
proof -
  have last: "last (slice_last window xs) = last xs" if "slice_last window xs \<noteq> []"
  proof -
    have "length xs - window < length xs" if "0 < window" using \<open>slice_last window xs \<noteq> []\<close> that by (cases xs) (auto simp: slice_last_def keep_last_def)
    then show ?thesis by (auto simp: slice_last_def keep_last_eq)
  qed
  have pending: "snd (last (backlog_points (slice_last window xs))) = of_int (cs_pending (last xs))" if "slice_last window xs \<noteq> []"
    using that last by (simp add: backlog_points_def last_map)
  show ?thesis
  proof (cases "drain_forecast_of window xs")
    case (Some f)
    let ?recent = "slice_last window xs"
    have f: "f = forecast_of (fit_num (backlog_points ?recent) / fit_den (backlog_points ?recent)) (snd (last (backlog_points ?recent)))"
      "length ?recent \<ge> 4"
      using Some by (auto simp: drain_forecast_of_def Let_def split: if_splits)
    then have "?recent \<noteq> []" by auto
    from forecast_of [of "fit_num (backlog_points ?recent) / fit_den (backlog_points ?recent)" "snd (last (backlog_points ?recent))"]
    show ?thesis
      unfolding Some option.case f(1) [symmetric] unfolding pending [OF \<open>?recent \<noteq> []\<close>] of_int_le_0_iff .
  qed simp
qed


lemma sum_list_mult_const: "(\<Sum>x \<leftarrow> xs. c * f x) = c * (\<Sum>x \<leftarrow> xs. f x :: rat)"
  by (induction xs) (simp_all add: algebra_simps)

lemma sum_deviations: "xs \<noteq> [] \<Longrightarrow> (\<Sum>x \<leftarrow> xs. f x - mean (map f xs)) = 0"
  by (simp add: sum_list_subtractf mean_def sum_list_triv)

text \<open>The line behind the forecast is the least-squares line: no other line through the samples is closer.\<close>

theorem forecast_least_squares:
  fixes a b :: rat
  assumes "fit_den ps \<noteq> 0"
  defines "slope \<equiv> fit_num ps / fit_den ps"
  shows "(\<Sum>(x, y) \<leftarrow> ps. (y - (mean (map snd ps) + slope * (x - mean (map fst ps)))) ^ 2) \<le>
    (\<Sum>(x, y) \<leftarrow> ps. (y - (a + b * x)) ^ 2)"
proof -
  let ?dx = "\<lambda>p. fst p - mean (map fst ps)" and ?dy = "\<lambda>p. snd p - mean (map snd ps)"
  define c where "c = a + b * mean (map fst ps) - mean (map snd ps)"
  have ne: "ps \<noteq> []" using assms(1) by (auto simp: fit_den_def)
  have num: "fit_num ps = (\<Sum>p \<leftarrow> ps. ?dx p * ?dy p)" and den: "fit_den ps = (\<Sum>p \<leftarrow> ps. ?dx p ^ 2)"
    by (simp_all add: fit_num_def fit_den_def case_prod_unfold)
  have zero: "(\<Sum>p \<leftarrow> ps. ?dx p) = 0" "(\<Sum>p \<leftarrow> ps. ?dy p) = 0" using sum_deviations [OF ne] by simp_all
  have line: "(\<Sum>p \<leftarrow> ps. (?dy p - s * ?dx p - k) ^ 2) =
      (\<Sum>p \<leftarrow> ps. ?dy p ^ 2) - 2 * s * fit_num ps + s ^ 2 * fit_den ps + of_nat (length ps) * k ^ 2" for s k
  proof -
    have "(\<Sum>p \<leftarrow> ps. (?dy p - s * ?dx p - k) ^ 2) =
        (\<Sum>p \<leftarrow> ps. ?dy p ^ 2 + (- 2 * s) * (?dx p * ?dy p) + s ^ 2 * ?dx p ^ 2 + (- 2 * k) * ?dy p + (2 * s * k) * ?dx p + k ^ 2)"
      by (rule arg_cong [where f = sum_list], rule map_cong) (simp_all add: power2_eq_square algebra_simps)
    also have "\<dots> = (\<Sum>p \<leftarrow> ps. ?dy p ^ 2) + (- 2 * s) * (\<Sum>p \<leftarrow> ps. ?dx p * ?dy p) + s ^ 2 * (\<Sum>p \<leftarrow> ps. ?dx p ^ 2) +
        (- 2 * k) * (\<Sum>p \<leftarrow> ps. ?dy p) + (2 * s * k) * (\<Sum>p \<leftarrow> ps. ?dx p) + of_nat (length ps) * k ^ 2"
      unfolding sum_list_addf sum_list_mult_const by (simp add: sum_list_triv)
    finally show ?thesis unfolding zero num den by simp
  qed
  have "s ^ 2 * fit_den ps - 2 * s * fit_num ps - (slope ^ 2 * fit_den ps - 2 * slope * fit_num ps) = fit_den ps * (s - slope) ^ 2" for s
    using assms(1) by (simp add: slope_def power2_eq_square field_simps)
  moreover have "0 \<le> fit_den ps" unfolding den by (intro sum_list_nonneg) auto
  ultimately have "slope ^ 2 * fit_den ps - 2 * slope * fit_num ps \<le> b ^ 2 * fit_den ps - 2 * b * fit_num ps"
    by (metis diff_ge_0_iff_ge mult_nonneg_nonneg zero_le_power2)
  then have "(\<Sum>p \<leftarrow> ps. (?dy p - slope * ?dx p - 0) ^ 2) \<le> (\<Sum>p \<leftarrow> ps. (?dy p - b * ?dx p - c) ^ 2)"
    unfolding line using zero_le_power2 [of c] by (simp add: add_increasing2)
  moreover have "(\<lambda>p. (?dy p - b * ?dx p - c) ^ 2) = (\<lambda>p. (snd p - (a + b * fst p)) ^ 2)"
    by (rule ext) (simp add: c_def algebra_simps)
  moreover have "(\<lambda>p. (?dy p - slope * ?dx p - 0) ^ 2) =
      (\<lambda>p. (snd p - (mean (map snd ps) + slope * (fst p - mean (map fst ps)))) ^ 2)"
    by (rule ext) (simp add: diff_diff_eq)
  ultimately show ?thesis unfolding case_prod_unfold by simp
qed

definition fit_points :: "(rat \<times> rat) list" where
  "fit_points = [(0, 10), (1, 7), (2, 5)]"

theorem forecast_least_squares_witness:
  "(\<Sum>(x, y) \<leftarrow> fit_points. (y - (mean (map snd fit_points) +
      fit_num fit_points / fit_den fit_points * (x - mean (map fst fit_points)))) ^ 2) \<le>
    (\<Sum>(x, y) \<leftarrow> fit_points. (y - (10 + (- 3) * x)) ^ 2)"
  by (rule forecast_least_squares) (simp add: fit_den_def mean_def fit_points_def)

end
