(* ===== verification/AsyncLoad.thy ===== *)
theory AsyncLoad
  imports JsText Subjects
begin

text \<open>
  State that waits for the backend: the hook every view loads its data with and its cache
  (\<open>client/src/lib/useAsync.ts\<close>), the store of services (\<open>store/services.ts\<close>), the store of the
  desktop update (\<open>store/desktopUpdate.ts\<close>) and the cache of decoded previews
  (\<open>lib/decodedPreview.ts\<close>).

  An asynchronous function is split where it waits: one step until the request leaves, one for its
  answer, and any other step may come between. A request of the hook is known by its number.
\<close>

subsection \<open>The hook\<close>

definition cache_max :: nat where
  "cache_max = 300"

type_synonym 'v cache = "(string, 'v) jsmap"

definition remember :: "string \<Rightarrow> 'v \<Rightarrow> 'v cache \<Rightarrow> 'v cache" where
  "remember key val cache =
     (let c = (if length cache \<ge> cache_max then (case cache of [] \<Rightarrow> [] | (k, v) # rest \<Rightarrow> jm_delete k cache) else cache)
      in jm_set key val (jm_delete key c))"

definition clear_async_cache :: "'v cache \<Rightarrow> 'v cache" where
  "clear_async_cache cache = []"

text \<open>The requests in flight are those whose answer is still to come.\<close>

record 'v async =
  as_key :: "string option"
  as_data :: "'v option"
  as_error :: "string option"
  as_loading :: bool
  as_initial :: bool
  as_seq :: nat
  as_flight :: "nat list"
  as_cache :: "'v cache"

definition cached :: "string option \<Rightarrow> 'v cache \<Rightarrow> 'v option" where
  "cached key cache = (case key of None \<Rightarrow> None | Some k \<Rightarrow> jm_get cache k)"

definition async_mount :: "string option \<Rightarrow> 'v cache \<Rightarrow> 'v async" where
  "async_mount key cache = \<lparr>as_key = key, as_data = cached key cache, as_error = None, as_loading = False,
     as_initial = (cached key cache = None), as_seq = 0, as_flight = [], as_cache = cache\<rparr>"

text \<open>\<open>run\<close> until it waits; the loader may have nothing to load.\<close>

definition async_run :: "bool \<Rightarrow> 'v async \<Rightarrow> 'v async" where
  "async_run skip s =
     (if skip then s\<lparr>as_seq := as_seq s + 1, as_data := None, as_error := None, as_loading := False, as_initial := True\<rparr>
      else s\<lparr>as_seq := as_seq s + 1, as_loading := True, as_flight := (as_seq s + 1) # as_flight s\<rparr>)"

definition remember_for :: "string option \<Rightarrow> 'v \<Rightarrow> 'v cache \<Rightarrow> 'v cache" where
  "remember_for key val cache = (case key of None \<Rightarrow> cache | Some k \<Rightarrow> remember k val cache)"

definition async_answer :: "nat \<Rightarrow> (string + 'v) \<Rightarrow> 'v async \<Rightarrow> 'v async" where
  "async_answer i result s =
     (if i \<notin> set (as_flight s) then s
      else let s1 = s\<lparr>as_flight := removeAll i (as_flight s)\<rparr> in
        if i \<noteq> as_seq s then s1
        else (case result of
            Inr v \<Rightarrow> s1\<lparr>as_cache := remember_for (as_key s) v (as_cache s), as_data := Some v, as_error := None,
              as_loading := False, as_initial := False\<rparr>
          | Inl e \<Rightarrow> s1\<lparr>as_error := Some e, as_loading := False, as_initial := False\<rparr>))"

text \<open>The effect of a change of the dependencies: the last result of the new key at once, and a request.\<close>

definition async_depend :: "string option \<Rightarrow> bool \<Rightarrow> 'v async \<Rightarrow> 'v async" where
  "async_depend key skip s =
     (let s1 = s\<lparr>as_key := key\<rparr> in
      async_run skip (case cached key (as_cache s) of
          Some hit \<Rightarrow> s1\<lparr>as_data := Some hit, as_initial := False\<rparr>
        | None \<Rightarrow> s1\<lparr>as_initial := True\<rparr>))"

definition async_tick :: "bool \<Rightarrow> bool \<Rightarrow> bool \<Rightarrow> 'v async \<Rightarrow> 'v async" where
  "async_tick pause_hidden hidden skip s = (if pause_hidden \<and> hidden then s else async_run skip s)"

definition async_set_data :: "('v option \<Rightarrow> 'v option) \<Rightarrow> 'v async \<Rightarrow> 'v async" where
  "async_set_data update s = (let next_data = update (as_data s) in
     s\<lparr>as_cache := (case next_data of None \<Rightarrow> as_cache s | Some v \<Rightarrow> remember_for (as_key s) v (as_cache s)),
       as_data := next_data\<rparr>)"

datatype 'v async_event =
    Depend "string option" bool
  | Tick bool bool bool
  | Reload bool
  | Answer nat "string + 'v"
  | SetData "'v option \<Rightarrow> 'v option"

fun async_step :: "'v async_event \<Rightarrow> 'v async \<Rightarrow> 'v async" where
  "async_step (Depend key skip) s = async_depend key skip s"
| "async_step (Tick pause hidden skip) s = async_tick pause hidden skip s"
| "async_step (Reload skip) s = async_run skip s"
| "async_step (Answer i r) s = async_answer i r s"
| "async_step (SetData f) s = async_set_data f s"

subsection \<open>Services\<close>

record service_info =
  svc_name :: "string option"
  svc_id :: string

record service_stats =
  svs_id :: "string option"
  svs_requests :: int

record services_state =
  sv_conn :: "string option"
  sv_services :: "service_info list"
  sv_stats :: "service_stats list"
  sv_loading :: bool
  sv_error :: "string option"
  sv_loaded_at :: "int option"

definition initial_services :: services_state where
  "initial_services = \<lparr>sv_conn = None, sv_services = [], sv_stats = [], sv_loading = False, sv_error = None, sv_loaded_at = None\<rparr>"

text \<open>\<open>refresh\<close> until it waits; the flag says whether the two requests were sent.\<close>

definition services_begin :: "string \<Rightarrow> services_state \<Rightarrow> services_state \<times> bool" where
  "services_begin conn s =
     (if sv_loading s \<and> sv_conn s = Some conn then (s, False)
      else let s1 = (if sv_conn s \<noteq> Some conn then s\<lparr>sv_services := [], sv_stats := [], sv_error := None\<rparr> else s)
        in (s1\<lparr>sv_loading := True, sv_conn := Some conn\<rparr>, True))"

definition services_answer ::
    "string \<Rightarrow> int \<Rightarrow> (string + service_info list option) \<Rightarrow> (string + service_stats list option) \<Rightarrow> services_state \<Rightarrow> services_state" where
  "services_answer conn now info stats s =
     (if sv_conn s \<noteq> Some conn then s
      else (case info of
          Inl e \<Rightarrow> s\<lparr>sv_loading := False, sv_error := Some e\<rparr>
        | Inr xs \<Rightarrow> s\<lparr>sv_loading := False, sv_error := None,
            sv_services := filter (\<lambda>x. svc_name x \<noteq> None) (nullish xs []),
            sv_stats := (case stats of Inl e \<Rightarrow> [] | Inr ys \<Rightarrow> filter (\<lambda>y. svs_id y \<noteq> None) (nullish ys [])),
            sv_loaded_at := Some now\<rparr>))"

subsection \<open>The desktop update\<close>

datatype update_phase = UpIdle | UpDownloading | UpReady | UpFailed

record update_status =
  up_supported :: bool
  up_reason :: "string option"
  up_kind :: "string option"
  up_state :: update_phase
  up_version :: "string option"
  up_done :: "int option"
  up_total :: "int option"
  up_error :: "string option"
  up_asset :: "string option"
  up_previous :: "string option"

record desktop_update =
  du_status :: "update_status option"
  du_error :: string
  du_restarting :: bool

definition update_refreshed :: "(string + update_status) \<Rightarrow> desktop_update \<Rightarrow> desktop_update" where
  "update_refreshed r s = (case r of Inl e \<Rightarrow> s | Inr st \<Rightarrow> s\<lparr>du_status := Some st\<rparr>)"

definition update_begin :: "desktop_update \<Rightarrow> desktop_update" where
  "update_begin s = s\<lparr>du_error := []\<rparr>"

text \<open>The answer of the call; a refused one keeps its message and asks again, with the answer \<open>again\<close>.\<close>

definition update_answered :: "(string + update_status) \<Rightarrow> (string + update_status) \<Rightarrow> desktop_update \<Rightarrow> desktop_update" where
  "update_answered r again s = (case r of
       Inr st \<Rightarrow> s\<lparr>du_status := Some st\<rparr>
     | Inl e \<Rightarrow> update_refreshed again (s\<lparr>du_error := e\<rparr>))"

definition update_run :: "(string + update_status) \<Rightarrow> (string + update_status) \<Rightarrow> desktop_update \<Rightarrow> desktop_update" where
  "update_run r again s = update_answered r again (update_begin s)"

definition update_restart :: "(string + unit) \<Rightarrow> desktop_update \<Rightarrow> desktop_update" where
  "update_restart r s = (let s1 = s\<lparr>du_restarting := True, du_error := []\<rparr> in
     case r of Inr _ \<Rightarrow> s1 | Inl e \<Rightarrow> s1\<lparr>du_restarting := False, du_error := e\<rparr>)"

subsection \<open>Decoded previews\<close>

definition max_entries :: nat where
  "max_entries = 500"

definition max_decode_bytes :: nat where
  "max_decode_bytes = 65536"

record preview_state =
  pv_previews :: "(string, string option) jsmap"
  pv_flight :: "string list"

definition note_preview :: "string \<Rightarrow> string option \<Rightarrow> (string, string option) jsmap \<Rightarrow> (string, string option) jsmap" where
  "note_preview payload line previews =
     (let p = (if length previews \<ge> max_entries then (case previews of [] \<Rightarrow> [] | (k, v) # rest \<Rightarrow> jm_delete k previews) else previews)
      in jm_set payload line p)"

text \<open>What a row asks: the line that is known, and whether a decode was started. The size of the bytes of a
  payload is an argument.\<close>

definition decoded_preview ::
    "(string \<Rightarrow> nat) \<Rightarrow> decoder_rule list \<Rightarrow> string \<Rightarrow> string \<Rightarrow> preview_state \<Rightarrow> (string option \<times> bool) \<times> preview_state" where
  "decoded_preview bytes_of rules subject payload s = (case jm_get (pv_previews s) payload of
       Some known \<Rightarrow> ((known, False), s)
     | None \<Rightarrow> if find_rule rules (Some subject) = None \<or> payload = [] \<or> payload \<in> set (pv_flight s) then ((None, False), s)
         else if bytes_of payload > max_decode_bytes then ((None, False), s)
         else ((None, True), s\<lparr>pv_flight := js_add payload (pv_flight s)\<rparr>))"

definition decode_done :: "string \<Rightarrow> string option \<Rightarrow> preview_state \<Rightarrow> preview_state" where
  "decode_done payload line s = s\<lparr>pv_previews := note_preview payload line (pv_previews s),
     pv_flight := removeAll payload (pv_flight s)\<rparr>"


text \<open>A decode that throws leaves no line.\<close>

definition decode_failed :: "string \<Rightarrow> preview_state \<Rightarrow> preview_state" where
  "decode_failed payload s = s\<lparr>pv_flight := removeAll payload (pv_flight s)\<rparr>"

subsection \<open>The cache of the hook\<close>

definition cache_ok :: "'v cache \<Rightarrow> bool" where
  "cache_ok c \<longleftrightarrow> jm_wf c \<and> length c \<le> cache_max"

lemma length_jm_delete_hd: "jm_wf ((k, v) # rest) \<Longrightarrow> jm_delete k ((k, v) # rest) = rest"
  by (auto simp: AList.delete_eq filter_id_conv intro!: filter_True) (metis fst_conv image_eqI)

lemma cache_ok_remember:
  assumes "cache_ok c"
  shows "cache_ok (remember key val c) \<and> jm_get (remember key val c) key = Some val"
proof -
  define c1 where "c1 = (if length c \<ge> cache_max then (case c of [] \<Rightarrow> [] | (k, v) # rest \<Rightarrow> jm_delete k c) else c)"
  have c1: "jm_wf c1" "length c1 < cache_max"
  proof -
    show "jm_wf c1" using assms by (auto simp: c1_def cache_ok_def split: list.split)
    show "length c1 < cache_max"
    proof (cases "length c \<ge> cache_max")
      case True
      then obtain k v rest where c: "c = (k, v) # rest" by (cases c) (auto simp: cache_max_def)
      have "jm_delete k c = rest" using assms length_jm_delete_hd [of k v rest] by (simp add: c cache_ok_def)
      then show ?thesis using True assms by (simp add: c1_def c cache_ok_def)
    qed (simp add: c1_def)
  qed
  have "length (jm_set key val (jm_delete key c1)) \<le> Suc (length c1)"
    using length_jm_set [of key val "jm_delete key c1"] length_jm_delete_le [of key c1] by (simp split: if_splits)
  then show ?thesis using c1 by (simp add: remember_def Let_def c1_def [symmetric] cache_ok_def)
qed

lemma cache_ok_remember_for: "cache_ok c \<Longrightarrow> cache_ok (remember_for key val c)"
  by (simp add: remember_for_def cache_ok_remember split: option.split)

text \<open>What holds between the requests in flight and what the view shows.\<close>

definition async_ok :: "'v async \<Rightarrow> bool" where
  "async_ok s \<longleftrightarrow> cache_ok (as_cache s) \<and> distinct (as_flight s) \<and> list_all (\<lambda>i. i \<le> as_seq s) (as_flight s) \<and>
     (as_loading s \<longleftrightarrow> as_seq s \<in> set (as_flight s))"

lemma async_ok_run: "async_ok s \<Longrightarrow> async_ok (async_run skip s)"
  by (auto simp: async_ok_def async_run_def list_all_iff dest: bspec)

lemma async_ok_answer: "async_ok s \<Longrightarrow> async_ok (async_answer i r s)"
  by (auto simp: async_ok_def async_answer_def Let_def list_all_iff cache_ok_remember_for distinct_removeAll split: sum.split)

lemma async_ok_step: "async_ok s \<Longrightarrow> async_ok (async_step e s)"
proof (cases e)
  case (Depend key skip)
  assume "async_ok s"
  then have "async_ok (case cached key (as_cache s) of
          Some hit \<Rightarrow> (s\<lparr>as_key := key\<rparr>)\<lparr>as_data := Some hit, as_initial := False\<rparr>
        | None \<Rightarrow> (s\<lparr>as_key := key\<rparr>)\<lparr>as_initial := True\<rparr>)"
    by (simp add: async_ok_def split: option.split)
  then show ?thesis by (simp add: Depend async_depend_def Let_def async_ok_run)
next
  case (SetData f)
  assume "async_ok s"
  then show ?thesis
    by (simp add: SetData async_set_data_def Let_def async_ok_def cache_ok_remember_for split: option.split)
qed (simp_all add: async_tick_def async_ok_run async_ok_answer)

text \<open>C29: In every interleaving of requests, answers, polls, changes of the key and local updates, a view is
  loading exactly while its newest request is in flight, and the cache is a map of at most 300 entries.\<close>

theorem async_invariant:
  "async_ok (fold async_step events (async_mount key []))"
proof -
  have "async_ok (fold async_step es s)" if "async_ok s" for es and s :: "'a async"
    using that by (induction es arbitrary: s) (simp_all add: async_ok_step)
  moreover have "async_ok (async_mount key [])" by (simp add: async_ok_def async_mount_def cache_ok_def)
  ultimately show ?thesis by blast
qed

text \<open>The answer of a request that was followed by another shows nothing and caches nothing.\<close>

theorem stale_answer_ignored:
  "as_flight (async_answer i r s) = removeAll i (as_flight s) \<and>
   (i = as_seq s \<or> (async_answer i r s)\<lparr>as_flight := as_flight s\<rparr> = s)"
  by (auto simp: async_answer_def Let_def split: sum.split)

text \<open>A full cache loses its oldest entry when an entry it already holds is refreshed.\<close>

definition full_cache :: "nat cache" where
  "full_cache = map (\<lambda>i. (nat_str i, i)) [0..<300]"

theorem refresh_evicts:
  "length full_cache = cache_max \<and> jm_get full_cache (nat_str 299) = Some 299 \<and>
   jm_get full_cache (nat_str 0) = Some 0 \<and> jm_get (remember (nat_str 299) 7 full_cache) (nat_str 0) = None"
proof -
  have wf: "jm_wf full_cache" by (auto simp: full_cache_def o_def distinct_map intro: inj_onI)
  have get: "jm_get full_cache (nat_str i) = Some i" if "i < 300" for i
    using that jm_in_get [OF wf, of "nat_str i" i] by (auto simp: full_cache_def)
  have hd: "full_cache = (nat_str 0, 0) # map (\<lambda>i. (nat_str i, i)) [1..<300]"
    by (simp add: full_cache_def upt_conv_Cons)
  have "jm_get (remember (nat_str 299) 7 full_cache) (nat_str 0) = None"
    unfolding remember_def Let_def by (subst (2) hd) (simp add: full_cache_def cache_max_def)
  then show ?thesis using get by (simp add: full_cache_def cache_max_def)
qed


subsection \<open>The stores\<close>

text \<open>Switching from a connection to another and back while the first request is in flight: its late answer
  is of the connection that is shown, so it takes the place of the newer one.\<close>

theorem older_services_return:
  assumes "a \<noteq> b" "svc_name old \<noteq> None"
  shows "sv_services (services_answer a 2 (Inr (Some [old])) stats
      (services_answer a 1 (Inr (Some newer)) stats
        (fst (services_begin a (fst (services_begin b (fst (services_begin a initial_services)))))))) = [old]"
  using assms by (simp add: services_begin_def services_answer_def initial_services_def Let_def)

text \<open>The answer of a connection that is not shown any more is dropped, and asking again for the connection
  that is loading sends nothing.\<close>

lemma services_other_connection:
  "sv_conn s \<noteq> Some conn \<Longrightarrow> services_answer conn now info stats s = s"
  "sv_loading s \<Longrightarrow> sv_conn s = Some conn \<Longrightarrow> services_begin conn s = (s, False)"
  by (simp_all add: services_answer_def services_begin_def)

text \<open>A refused action keeps its reason, and what is known of the update unless the backend says otherwise.\<close>

theorem refused_update_keeps_status:
  "du_error (update_run (Inl e) again s) = e \<and>
   du_status (update_run (Inl e) again s) = (case again of Inl _ \<Rightarrow> du_status s | Inr st \<Rightarrow> Some st) \<and>
   du_error (update_run (Inr st) again s) = [] \<and> du_status (update_run (Inr st) again s) = Some st"
  by (simp add: update_run_def update_answered_def update_refreshed_def update_begin_def split: sum.split)

datatype preview_event =
    RowAsks "decoder_rule list" string string
  | DecodeDone string "string option"
  | DecodeFailed string

text \<open>A decode ends once: an end that belongs to no decode does not happen.\<close>

fun preview_step :: "(string \<Rightarrow> nat) \<Rightarrow> preview_event \<Rightarrow> preview_state \<Rightarrow> preview_state" where
  "preview_step bytes_of (RowAsks rules subject payload) s = snd (decoded_preview bytes_of rules subject payload s)"
| "preview_step bytes_of (DecodeDone payload line) s = (if payload \<in> set (pv_flight s) then decode_done payload line s else s)"
| "preview_step bytes_of (DecodeFailed payload) s = (if payload \<in> set (pv_flight s) then decode_failed payload s else s)"

definition preview_ok :: "(string \<Rightarrow> nat) \<Rightarrow> preview_state \<Rightarrow> bool" where
  "preview_ok bytes_of s \<longleftrightarrow> jm_wf (pv_previews s) \<and> length (pv_previews s) \<le> max_entries \<and> distinct (pv_flight s) \<and>
     list_all (\<lambda>p. jm_get (pv_previews s) p = None \<and> p \<noteq> [] \<and> bytes_of p \<le> max_decode_bytes) (pv_flight s)"

lemma note_preview_ok:
  assumes "jm_wf previews" "length previews \<le> max_entries"
  shows "jm_wf (note_preview payload line previews) \<and> length (note_preview payload line previews) \<le> max_entries \<and>
    jm_get (note_preview payload line previews) payload = Some line \<and>
    (p \<noteq> payload \<longrightarrow> jm_get previews p = None \<longrightarrow> jm_get (note_preview payload line previews) p = None)"
proof (cases "length previews \<ge> max_entries")
  case True
  then obtain k v rest where p: "previews = (k, v) # rest" by (cases previews) (auto simp: max_entries_def)
  have "jm_delete k previews = rest" using assms length_jm_delete_hd [of k v rest] by (simp add: p)
  then have "note_preview payload line previews = jm_set payload line rest" using True by (simp add: note_preview_def p)
  then show ?thesis using assms length_jm_set [of payload line rest] by (simp add: p split: if_splits)
next
  case False
  then show ?thesis
    using assms length_jm_set [of payload line previews] by (simp add: note_preview_def split: if_splits)
qed

lemma preview_ok_step: "preview_ok bytes_of s \<Longrightarrow> preview_ok bytes_of (preview_step bytes_of e s)"
proof (cases e)
  case (RowAsks rules subject payload)
  assume "preview_ok bytes_of s"
  then show ?thesis
    by (auto simp: RowAsks decoded_preview_def preview_ok_def list_all_iff split: option.split)
next
  case (DecodeDone payload line)
  assume "preview_ok bytes_of s"
  then show ?thesis
    using note_preview_ok [of "pv_previews s" payload line]
    by (auto simp: DecodeDone decode_done_def preview_ok_def list_all_iff distinct_removeAll)
next
  case (DecodeFailed payload)
  assume "preview_ok bytes_of s"
  then show ?thesis
    by (auto simp: DecodeFailed decode_failed_def preview_ok_def list_all_iff distinct_removeAll)
qed

text \<open>However the rows ask and the decodes end, the cache holds at most 500 lines and no payload is decoded
  twice at a time or while its line is known.\<close>

theorem preview_invariant:
  "preview_ok bytes_of (fold (preview_step bytes_of) events \<lparr>pv_previews = [], pv_flight = []\<rparr>)"
proof -
  have "preview_ok bytes_of (fold (preview_step bytes_of) es s)" if "preview_ok bytes_of s" for es s
    using that by (induction es arbitrary: s) (simp_all add: preview_ok_step)
  then show ?thesis by (simp add: preview_ok_def)
qed

end
