(* ===== verification/Storage.thy ===== *)
theory Storage
  imports Json
begin

text \<open>
  Where the settings of the client live (\<open>client/src/lib/storage.ts\<close>, \<open>readSetting\<close> of \<open>lib/utils.ts\<close>): the
  local storage, the entries that wait to be written to the backend and the start; the daily look for
  a newer release (\<open>lib/updateCheck.ts\<close>); and the life of a watch of the server (\<open>lib/live.ts\<close>).

  \<open>JSON.parse\<close> and \<open>JSON.stringify\<close> are arguments (\<open>parse\<close>, \<open>str\<close>); so is whether the platform stores an
  entry. The local storage is a map in the order of its keys.
\<close>

subsection \<open>Entries\<close>

definition settings_prefix :: string where
  "settings_prefix = ''ne.''"

definition collect_local :: "(string \<Rightarrow> json option) \<Rightarrow> (string, string) jsmap \<Rightarrow> (string, json) jsmap" where
  "collect_local parse storage =
     fold (\<lambda>(k, raw) out. if \<not> starts_with k settings_prefix then out
         else (case parse raw of None \<Rightarrow> out | Some v \<Rightarrow> jm_set k v out)) storage []"

definition seed_local ::
    "(json \<Rightarrow> string) \<Rightarrow> (string, json) jsmap \<Rightarrow> (string, string) jsmap \<Rightarrow> (string, string) jsmap \<times> nat" where
  "seed_local str entries storage =
     fold (\<lambda>(k, v) (st, n). if \<not> starts_with k settings_prefix then (st, n) else (jm_set k (str v) st, n + 1)) entries (storage, 0)"

text \<open>\<open>typeof\<close> of a document.\<close>

datatype js_type = TObject | TBoolean | TNumber | TString

fun type_of :: "json \<Rightarrow> js_type" where
  "type_of (JBool _) = TBoolean"
| "type_of (JNum _) = TNumber"
| "type_of (JStr _) = TString"
| "type_of _ = TObject"

definition read_setting :: "(string \<Rightarrow> json option) \<Rightarrow> (string, string) jsmap \<Rightarrow> string \<Rightarrow> json \<Rightarrow> json" where
  "read_setting parse storage key fallback = (case jm_get storage key of
       None \<Rightarrow> fallback
     | Some raw \<Rightarrow> (case parse raw of None \<Rightarrow> fallback
         | Some v \<Rightarrow> if type_of v = type_of fallback then v else fallback))"

subsection \<open>Writing\<close>

text \<open>The requests that were sent, oldest first, and the errors reported. A flush sends its entries one
  after the other, each when the one before was answered: of a running flush the state keeps the
  entries that are left, the first of which is on its way.\<close>

record storage_state =
  st_local :: "(string, string) jsmap"
  st_remote :: bool
  st_pending :: "(string, json) jsmap"
  st_timer :: bool
  st_running :: "(string \<times> json) list list"
  st_puts :: "(string \<times> json) list"
  st_errors :: "string list"

definition persist :: "(json \<Rightarrow> string) \<Rightarrow> bool \<Rightarrow> string \<Rightarrow> json \<Rightarrow> storage_state \<Rightarrow> storage_state" where
  "persist str stores key v s =
     (let s1 = (if stores then s\<lparr>st_local := jm_set key (str v) (st_local s)\<rparr> else s) in
      if \<not> st_remote s then s1 else s1\<lparr>st_pending := jm_set key v (st_pending s), st_timer := True\<rparr>)"

text \<open>The timer fires: the batch is taken and its first entry sent.\<close>

definition flush_start :: "storage_state \<Rightarrow> storage_state" where
  "flush_start s = (if \<not> st_timer s then s else
     s\<lparr>st_timer := False, st_pending := [], st_puts := st_puts s @ take 1 (st_pending s),
       st_running := st_running s @ (if st_pending s = [] then [] else [st_pending s])\<rparr>)"

text \<open>The answer to the entry a running flush waits for: nothing, or why it failed.\<close>

definition put_answered :: "nat \<Rightarrow> string option \<Rightarrow> storage_state \<Rightarrow> storage_state" where
  "put_answered i answer s = (if length (st_running s) \<le> i then s else
     (case st_running s ! i of
         [] \<Rightarrow> s
       | (k, v) # rest \<Rightarrow> s\<lparr>
           st_errors := st_errors s @ (case answer of None \<Rightarrow> [] | Some e \<Rightarrow> [''Could not save '' @ k @ '': '' @ e]),
           st_puts := st_puts s @ take 1 rest,
           st_running := take i (st_running s) @ (if rest = [] then [] else [rest]) @ drop (Suc i) (st_running s)\<rparr>))"

subsection \<open>The start\<close>

text \<open>What the backend answers to the two requests of the start.\<close>

datatype app_answer = AppFailed | AppInfo bool

datatype settings_answer = SettingsFailed | SettingsUnauthorized | SettingsRefused | SettingsEntries "(string, json) jsmap"

definition persist_all :: "(json \<Rightarrow> string) \<Rightarrow> (string, json) jsmap \<Rightarrow> storage_state \<Rightarrow> storage_state" where
  "persist_all str entries s = fold (\<lambda>(k, v). persist str True k v) entries s"

definition bootstrap_storage ::
    "(json \<Rightarrow> string) \<Rightarrow> (string \<Rightarrow> json option) \<Rightarrow> app_answer \<Rightarrow> settings_answer \<Rightarrow> storage_state \<Rightarrow> bool \<times> storage_state" where
  "bootstrap_storage str parse app settings s = (case app of
       AppFailed \<Rightarrow> (True, s)
     | AppInfo file_storage \<Rightarrow> if \<not> file_storage then (True, s)
         else (case settings of
             SettingsFailed \<Rightarrow> (True, s)
           | SettingsUnauthorized \<Rightarrow> (False, s)
           | SettingsRefused \<Rightarrow> (True, s)
           | SettingsEntries entries \<Rightarrow> let s1 = s\<lparr>st_remote := True\<rparr> in
               (True, if entries = [] then persist_all str (collect_local parse (st_local s)) s1
                 else s1\<lparr>st_local := fst (seed_local str entries (st_local s))\<rparr>)))"

subsection \<open>Newer releases\<close>

text \<open>\<open>Number.parseInt(p, 10)\<close>, where what is not a number counts as 0.\<close>

definition leading_int :: "string \<Rightarrow> int" where
  "leading_int p = (case trim_start p of
       [] \<Rightarrow> 0
     | c # cs \<Rightarrow> if c = CHR ''-'' then - int (digits_val (takeWhile is_digit cs))
         else if c = CHR ''+'' then int (digits_val (takeWhile is_digit cs))
         else int (digits_val (takeWhile is_digit (c # cs))))"

definition strip_v :: "string \<Rightarrow> string" where
  "strip_v v = (case v of CHR ''v'' # rest \<Rightarrow> rest | _ \<Rightarrow> v)"

fun split_dots :: "string \<Rightarrow> string list" where
  "split_dots [] = [[]]"
| "split_dots (c # cs) = (if c = CHR ''.'' \<or> c = CHR ''-'' then [] # split_dots cs
     else (case split_dots cs of [] \<Rightarrow> [[c]] | w # ws \<Rightarrow> (c # w) # ws))"

definition version_numbers :: "string \<Rightarrow> int list" where
  "version_numbers v = map leading_int (split_dots (strip_v v))"

text \<open>The loop over both lists, a missing number being 0.\<close>

fun newer_numbers :: "int list \<Rightarrow> int list \<Rightarrow> bool" where
  "newer_numbers [] [] = False"
| "newer_numbers (x # xs) [] = (if x \<noteq> 0 then x > 0 else newer_numbers xs [])"
| "newer_numbers [] (y # ys) = (if 0 \<noteq> y then 0 > y else newer_numbers [] ys)"
| "newer_numbers (x # xs) (y # ys) = (if x \<noteq> y then x > y else newer_numbers xs ys)"

definition is_newer :: "string \<Rightarrow> string \<Rightarrow> bool" where
  "is_newer candidate current = newer_numbers (version_numbers candidate) (version_numbers current)"

record release =
  rl_version :: string
  rl_url :: string

definition releases_url :: string where
  "releases_url = ''https://github.com/blanpa/nats-explorer/releases''"

definition every_ms :: int where
  "every_ms = 24 * 3600000"

type_synonym cached_release = "int \<times> release option"

text \<open>The answer of the listing: none for a request that failed or was refused, else the tag and the page.\<close>

definition release_of :: "string option \<Rightarrow> string option \<Rightarrow> release option" where
  "release_of tag page = (case tag of None \<Rightarrow> None
     | Some t \<Rightarrow> if t = [] then None else Some \<lparr>rl_version = strip_v t, rl_url = nullish page releases_url\<rparr>)"

definition check_for_update ::
    "bool \<Rightarrow> bool \<Rightarrow> int \<Rightarrow> string \<Rightarrow> (string option \<times> string option) option \<Rightarrow> cached_release option \<Rightarrow>
     release option \<times> cached_release option \<times> bool" where
  "check_for_update enabled stores now current listing stored =
     (let shown = \<lambda>r. (case r of None \<Rightarrow> None | Some x \<Rightarrow> if is_newer (rl_version x) current then Some x else None) in
      if current = [] \<or> current = ''dev'' \<or> \<not> enabled then (None, stored, False)
      else if (case stored of None \<Rightarrow> True | Some (t, r) \<Rightarrow> now - t > every_ms) then
        (case listing of
            None \<Rightarrow> (None, stored, True)
          | Some (tag, page) \<Rightarrow> (shown (release_of tag page), if stores then Some (now, release_of tag page) else stored, True))
      else (shown (case stored of None \<Rightarrow> None | Some (t, r) \<Rightarrow> r), stored, False))"

subsection \<open>A watch\<close>

text \<open>The commands a component sent, oldest first. A subscriber to the status hears the current one at once.\<close>

datatype watch_command = StartWatch | StopWatch

record live_watch =
  lw_mounted :: bool
  lw_open :: bool
  lw_sent :: "watch_command list"

definition send_command :: "watch_command \<Rightarrow> live_watch \<Rightarrow> live_watch" where
  "send_command c w = (if lw_open w then w\<lparr>lw_sent := lw_sent w @ [c]\<rparr> else w)"

definition watch_mount :: "live_watch \<Rightarrow> live_watch" where
  "watch_mount w = (if lw_mounted w then w else send_command StartWatch (w\<lparr>lw_mounted := True\<rparr>))"

definition watch_status :: "bool \<Rightarrow> live_watch \<Rightarrow> live_watch" where
  "watch_status now_open w = (let w1 = w\<lparr>lw_open := now_open\<rparr> in
     if lw_open w = now_open then w
     else if now_open \<and> lw_mounted w then send_command StartWatch w1 else w1)"

definition watch_unmount :: "live_watch \<Rightarrow> live_watch" where
  "watch_unmount w = (if \<not> lw_mounted w then w else send_command StopWatch (w\<lparr>lw_mounted := False\<rparr>))"


subsection \<open>Every write reaches the backend\<close>

datatype storage_event = Persist bool string json | FlushStarts | PutAnswered nat "string option"

fun storage_step :: "(json \<Rightarrow> string) \<Rightarrow> storage_event \<Rightarrow> storage_state \<Rightarrow> storage_state" where
  "storage_step str (Persist stores k v) s = persist str stores k v s"
| "storage_step str FlushStarts s = flush_start s"
| "storage_step str (PutAnswered i answer) s = put_answered i answer s"

text \<open>The value written last under each key.\<close>

fun written :: "storage_event \<Rightarrow> (string \<Rightarrow> json option) \<Rightarrow> (string \<Rightarrow> json option)" where
  "written (Persist stores k v) m = m(k \<mapsto> v)"
| "written _ m = m"

definition remote_state :: "(string, string) jsmap \<Rightarrow> storage_state" where
  "remote_state local = \<lparr>st_local = local, st_remote = True, st_pending = [], st_timer = False, st_running = [],
     st_puts = [], st_errors = []\<rparr>"

text \<open>A flush that starts while another still waits for an answer overtakes it: the old value of the second
  entry is sent after the new one and stays.\<close>

theorem slow_flush_overwrites:
  "st_puts (fold (storage_step str)
     [Persist True ''ne.a'' (JNum 1), Persist True ''ne.b'' (JNum 1), FlushStarts,
      Persist True ''ne.b'' (JNum 2), FlushStarts, PutAnswered 0 None] (remote_state [])) =
   [(''ne.a'', JNum 1), (''ne.b'', JNum 2), (''ne.b'', JNum 1)]"
  by (simp add: persist_def flush_start_def put_answered_def remote_state_def Let_def)

text \<open>The same steps, with a timer that fires only after the flush before is through.\<close>

fun serial_step :: "(json \<Rightarrow> string) \<Rightarrow> storage_event \<Rightarrow> storage_state \<Rightarrow> storage_state" where
  "serial_step str FlushStarts s = (if st_running s = [] then flush_start s else s)"
| "serial_step str e s = storage_step str e s"

definition unsent :: "storage_state \<Rightarrow> (string \<times> json) list" where
  "unsent s = concat (map (drop 1) (st_running s))"

definition storage_ok :: "(string \<Rightarrow> json option) \<Rightarrow> storage_state \<Rightarrow> bool" where
  "storage_ok m s \<longleftrightarrow> st_remote s \<and> jm_wf (st_pending s) \<and> (st_timer s \<longleftrightarrow> st_pending s \<noteq> []) \<and>
     length (st_running s) \<le> 1 \<and> [] \<notin> set (st_running s) \<and>
     m = map_of (rev (st_puts s @ unsent s)) ++ jm_get (st_pending s)"

lemma map_add_jm_set: "m ++ jm_get (jm_set k v xs) = (m ++ jm_get xs)(k \<mapsto> v)"
  by (rule ext) (simp add: map_add_def)

lemma jm_set_not_Nil: "jm_set k v xs \<noteq> []"
  using jm_get_set [of k v xs k] by force

lemma storage_ok_start:
  assumes "storage_ok m s" "st_running s = []"
  shows "storage_ok m (flush_start s)"
proof (cases "st_timer s")
  case True
  then have ne: "st_pending s \<noteq> []" using assms(1) by (simp add: storage_ok_def)
  have "map_of (rev (st_pending s)) = map_of (st_pending s)"
    using assms(1) by (subst map_of_inject_set) (simp_all add: storage_ok_def flip: rev_map)
  then have all: "map_of (rev (st_puts s @ st_pending s)) = map_of (rev (st_puts s)) ++ jm_get (st_pending s)"
    by (simp add: map_add_def fun_eq_iff split: option.split)
  have "take 1 (st_pending s) @ drop 1 (st_pending s) = st_pending s" by simp
  then have "storage_ok m (flush_start s) \<longleftrightarrow> m = map_of (rev (st_puts s @ st_pending s))"
    using assms True ne by (simp add: flush_start_def storage_ok_def unsent_def)
  then show ?thesis unfolding all using assms by (simp add: storage_ok_def unsent_def)
qed (use assms in \<open>simp add: flush_start_def\<close>)

lemma storage_ok_answered:
  assumes "storage_ok m s"
  shows "storage_ok m (put_answered i answer s)"
proof (cases "st_running s")
  case (Cons r rs)
  then have r: "st_running s = [r]" "r \<noteq> []" using assms by (auto simp: storage_ok_def)
  obtain k v rest where e: "r = (k, v) # rest" using r(2) by (cases r) auto
  show ?thesis
  proof (cases i)
    case 0
    have "take 1 rest @ drop 1 rest = rest" by simp
    then show ?thesis using assms r e 0 by (cases rest) (simp_all add: put_answered_def storage_ok_def unsent_def)
  qed (use assms r in \<open>simp add: put_answered_def\<close>)
qed (use assms in \<open>simp add: put_answered_def\<close>)

lemma storage_ok_step: "storage_ok m s \<Longrightarrow> storage_ok (written e m) (serial_step str e s)"
proof (cases e)
  case (Persist stores k v)
  assume s: "storage_ok m s"
  show ?thesis
    using s jm_set_not_Nil [of k v "st_pending s"]
    by (simp add: Persist persist_def storage_ok_def unsent_def Let_def map_add_jm_set del: jm_get_set)
qed (simp_all add: storage_ok_start storage_ok_answered)

text \<open>C30: As long as no flush overtakes another, the entries that were sent, that are left of the running flush
  and that wait hold, in this order, the last value of every key, and a timer is armed exactly while
  something waits.\<close>

theorem writes_reach_backend:
  "(let s = fold (serial_step str) events (remote_state local) in
     st_timer s = (st_pending s \<noteq> []) \<and> length (st_running s) \<le> 1 \<and>
     fold written events Map.empty = map_of (rev (st_puts s @ unsent s)) ++ jm_get (st_pending s))"
proof -
  have "storage_ok (fold written es m) (fold (serial_step str) es s)" if "storage_ok m s" for es m s
    using that by (induction es arbitrary: m s) (simp_all add: storage_ok_step)
  moreover have "storage_ok Map.empty (remote_state local)" by (simp add: storage_ok_def remote_state_def unsent_def)
  ultimately have "storage_ok (fold written events Map.empty) (fold (serial_step str) events (remote_state local))" by blast
  then show ?thesis by (simp add: Let_def storage_ok_def)
qed

subsection \<open>The order of versions\<close>

definition number_at :: "int list \<Rightarrow> nat \<Rightarrow> int" where
  "number_at xs i = (if i < length xs then xs ! i else 0)"

lemma number_at_simps [simp]:
  "number_at [] i = 0" "number_at (x # xs) 0 = x" "number_at (x # xs) (Suc i) = number_at xs i"
  by (simp_all add: number_at_def)

lemma ex_0_Suc: "(\<exists>i. P i) \<longleftrightarrow> P 0 \<or> (\<exists>i. P (Suc i))"
  by (metis not0_implies_Suc)

lemma newer_step:
  "newer_numbers xs ys = (if number_at xs 0 \<noteq> number_at ys 0 then number_at xs 0 > number_at ys 0
     else if xs = [] \<and> ys = [] then False else newer_numbers (tl xs) (tl ys))"
  by (cases xs; cases ys) auto

lemma number_at_tl: "number_at (tl xs) i = number_at xs (Suc i)"
  by (cases xs) simp_all

lemma newer_lexicographic:
  "newer_numbers xs ys \<longleftrightarrow> (\<exists>i. map (number_at xs) [0..<i] = map (number_at ys) [0..<i] \<and> number_at xs i > number_at ys i)"
proof (induction xs ys rule: newer_numbers.induct)
  case 1
  then show ?case by simp
next
  case (2 x xs)
  have "(\<exists>i. map (number_at (x # xs)) [0..<i] = map (number_at []) [0..<i] \<and> number_at (x # xs) i > number_at [] i) \<longleftrightarrow>
      x > 0 \<or> x = 0 \<and> (\<exists>i. map (number_at xs) [0..<i] = map (number_at []) [0..<i] \<and> number_at xs i > number_at [] i)"
    by (subst ex_0_Suc) (simp add: map_upt_Suc del: upt_Suc)
  then show ?case using 2 by auto
next
  case (3 y ys)
  have "(\<exists>i. map (number_at []) [0..<i] = map (number_at (y # ys)) [0..<i] \<and> number_at [] i > number_at (y # ys) i) \<longleftrightarrow>
      0 > y \<or> y = 0 \<and> (\<exists>i. map (number_at []) [0..<i] = map (number_at ys) [0..<i] \<and> number_at [] i > number_at ys i)"
    by (subst ex_0_Suc) (auto simp add: map_upt_Suc simp del: upt_Suc)
  then show ?case using 3 by auto
next
  case (4 x xs y ys)
  have "(\<exists>i. map (number_at (x # xs)) [0..<i] = map (number_at (y # ys)) [0..<i] \<and> number_at (x # xs) i > number_at (y # ys) i) \<longleftrightarrow>
      x > y \<or> x = y \<and> (\<exists>i. map (number_at xs) [0..<i] = map (number_at ys) [0..<i] \<and> number_at xs i > number_at ys i)"
    by (subst ex_0_Suc) (simp add: map_upt_Suc del: upt_Suc)
  then show ?case using 4 by auto
qed

text \<open>A version is newer exactly when, at the first number in which the two differ, its number is the
  greater; a missing number is 0.\<close>

theorem is_newer_lexicographic:
  "is_newer v w \<longleftrightarrow> (\<exists>i. map (number_at (version_numbers v)) [0..<i] = map (number_at (version_numbers w)) [0..<i] \<and>
     number_at (version_numbers v) i > number_at (version_numbers w) i)"
  by (simp add: is_newer_def newer_lexicographic)

text \<open>A pre-release counts as newer than the release it leads to.\<close>

theorem prerelease_is_newer:
  "is_newer ''2.0.0-rc.1'' ''2.0.0''"
  by (simp add: is_newer_def version_numbers_def strip_v_def leading_int_def trim_start_def is_space_def is_digit_def
      digits_val_def digit_val_def)

subsection \<open>The life of a watch\<close>

datatype watch_event = Mounted | StatusIs bool | Unmounted

fun watch_step :: "watch_event \<Rightarrow> live_watch \<Rightarrow> live_watch" where
  "watch_step Mounted w = watch_mount w"
| "watch_step (StatusIs b) w = watch_status b w"
| "watch_step Unmounted w = watch_unmount w"

definition watch_ok :: "live_watch \<Rightarrow> bool" where
  "watch_ok w \<longleftrightarrow> (if lw_open w \<and> lw_mounted w then lw_sent w \<noteq> [] \<and> last (lw_sent w) = StartWatch else True)"

lemma watch_ok_step: "watch_ok w \<Longrightarrow> watch_ok (watch_step e w)"
  by (cases e)
    (auto simp: watch_ok_def watch_mount_def watch_status_def watch_unmount_def send_command_def Let_def split: if_splits)

text \<open>Whatever the socket does, a mounted watch on an open socket has told the server to start last.\<close>

theorem watch_restarted:
  "(let w = fold watch_step events \<lparr>lw_mounted = False, lw_open = opened, lw_sent = []\<rparr> in
     if lw_open w \<and> lw_mounted w then lw_sent w \<noteq> [] \<and> last (lw_sent w) = StartWatch else True)"
proof -
  have "watch_ok (fold watch_step es w)" if "watch_ok w" for es w
    using that by (induction es arbitrary: w) (simp_all add: watch_ok_step)
  then have "watch_ok (fold watch_step events \<lparr>lw_mounted = False, lw_open = opened, lw_sent = []\<rparr>)"
    by (simp add: watch_ok_def)
  then show ?thesis unfolding watch_ok_def Let_def .
qed

end
