(* ===== verification/Completion.thy ===== *)
theory Completion
  imports Messages Json "HOL-Library.Product_Lexorder"
begin

text \<open>
  Completing the subject filter (\<open>client/src/components/subjects/completeFilter.ts\<close>), the clock a payload
  carries and the delay read off it (\<open>lib/payloadTime.ts\<close>), and the message behind a point of a chart
  (\<open>components/subjects/pickMessage.ts\<close>, \<open>extractNumber\<close> of \<open>lib/utils.ts\<close>). \<open>JSON.parse\<close> and
  \<open>Date.parse\<close> are arguments.
\<close>

subsection \<open>Completion\<close>

definition next_segment_end :: "string \<Rightarrow> nat \<Rightarrow> nat" where
  "next_segment_end subject start = (case index_from CHR ''.'' subject start of
       None \<Rightarrow> length subject
     | Some dot \<Rightarrow> dot + 1)"

definition candidates_of :: "string \<Rightarrow> string \<Rightarrow> string list" where
  "candidates_of word subject =
     (if CHR ''.'' \<in> set (to_lower word) then
        (if starts_with (to_lower subject) (to_lower word) then [take (next_segment_end subject (length word)) subject] else [])
      else filter (\<lambda>segment. starts_with (to_lower segment) (to_lower word)) (split_on CHR ''.'' subject))"

definition candidates_for :: "string \<Rightarrow> string list \<Rightarrow> string list" where
  "candidates_for word subjects = (if to_lower word = [] then []
     else js_uniq (concat (map (candidates_of word) subjects)))"

text \<open>The start two texts share, compared without case, with the letters of the first.\<close>

fun shared_start :: "string \<Rightarrow> string \<Rightarrow> string" where
  "shared_start (p # ps) (v # vs) = (if lower p = lower v then p # shared_start ps vs else [])"
| "shared_start _ _ = []"

definition common_prefix :: "string list \<Rightarrow> string" where
  "common_prefix values = (case values of [] \<Rightarrow> [] | v # vs \<Rightarrow> fold (\<lambda>w pre. shared_start pre w) vs v)"

definition last_term :: "string \<Rightarrow> string" where
  "last_term query = last (split_on CHR '' '' query)"

definition completion_for :: "string \<Rightarrow> string list \<Rightarrow> string" where
  "completion_for query subjects =
     (if query = [] \<or> is_space (last query) \<or> last_term query = [] then []
      else let pre = common_prefix (candidates_for (last_term query) subjects) in
        if length pre > length (last_term query) then drop (length (last_term query)) pre else [])"

subsection \<open>Times in payloads\<close>

definition delay_prefix :: string where
  "delay_prefix = ''delay:''"

definition is_delay_field :: "string \<Rightarrow> bool" where
  "is_delay_field field = starts_with field delay_prefix"

definition delay_source :: "string \<Rightarrow> string" where
  "delay_source field = drop (length delay_prefix) field"

text \<open>\<open>^\d{4}-\d{2}-\d{2}[T ]\d{2}:\d{2}\<close>.\<close>

definition iso_shape :: "string \<Rightarrow> bool" where
  "iso_shape s = (16 \<le> length s \<and> list_all (\<lambda>i. is_digit (s ! i)) [0, 1, 2, 3, 5, 6, 8, 9, 11, 12, 14, 15] \<and>
     s ! 4 = CHR ''-'' \<and> s ! 7 = CHR ''-'' \<and> (s ! 10 = CHR ''T'' \<or> s ! 10 = CHR '' '') \<and> s ! 13 = CHR '':'')"

definition parse_time_value :: "(string \<Rightarrow> rat option) \<Rightarrow> json option \<Rightarrow> rat option" where
  "parse_time_value date_parse v = (case v of
       Some (JStr s) \<Rightarrow> if iso_shape s then date_parse s else None
     | Some (JNum n) \<Rightarrow> if 1000000000000 < n \<and> n < 10000000000000 then Some n
         else if 1000000000 < n \<and> n < 10000000000 then Some (n * 1000) else None
     | _ \<Rightarrow> None)"

definition plausible_ms :: rat where
  "plausible_ms = 365 * 24 * 3600 * 1000"

definition time_fields_of :: "(string \<Rightarrow> rat option) \<Rightarrow> (string \<Rightarrow> json option) \<Rightarrow> nats_message \<Rightarrow> string list" where
  "time_fields_of date_parse parse m = (if m_payload_type m \<noteq> PJson then []
     else (case parse (m_payload m) of
         Some (JObj fs) \<Rightarrow> map fst (filter (\<lambda>(k, v). case parse_time_value date_parse (Some v) of
             None \<Rightarrow> False | Some t \<Rightarrow> \<bar>of_int (m_timestamp m) - t\<bar> < plausible_ms) fs)
       | _ \<Rightarrow> []))"

definition delay_of :: "(string \<Rightarrow> rat option) \<Rightarrow> (string \<Rightarrow> json option) \<Rightarrow> nats_message \<Rightarrow> string \<Rightarrow> rat option" where
  "delay_of date_parse parse m field = (if m_payload_type m \<noteq> PJson then None
     else (case parse (m_payload m) of
         None \<Rightarrow> None
       | Some doc \<Rightarrow> if \<not> is_object doc then None
           else map_option (\<lambda>t. of_int (m_timestamp m) - t) (parse_time_value date_parse (js_member doc field))))"

subsection \<open>The message behind a point\<close>

fun walk_path :: "string list \<Rightarrow> json option \<Rightarrow> json option" where
  "walk_path [] cur = cur"
| "walk_path (p # ps) cur = (case cur of None \<Rightarrow> None
     | Some v \<Rightarrow> if is_object v then walk_path ps (js_member v p) else None)"

definition extract_number :: "(string \<Rightarrow> json option) \<Rightarrow> string \<Rightarrow> string \<Rightarrow> rat option" where
  "extract_number parse payload path = json_number (walk_path (split_on CHR ''.'' path) (parse payload))"

definition pick_rollup :: rat where "pick_rollup = 31000"

definition pick_series :: rat where "pick_series = 5000"

text \<open>The best message so far with its distances.\<close>

type_synonym pick = "(nats_message \<times> rat \<times> rat) option"

definition pick_step ::
    "(string \<Rightarrow> json option) \<Rightarrow> string \<Rightarrow> rat \<times> rat \<Rightarrow> rat \<Rightarrow> nats_message \<Rightarrow> pick \<Rightarrow> pick" where
  "pick_step parse path point window m best = (let dt = \<bar>of_int (m_timestamp m) - fst point\<bar> in
     if dt > window then best
     else (case extract_number parse (m_payload m) path of
         None \<Rightarrow> best
       | Some v \<Rightarrow> let dv = \<bar>v - snd point\<bar> in
           (case best of
               None \<Rightarrow> Some (m, dv, dt)
             | Some (b, bv, bt) \<Rightarrow> if dv < bv \<or> (dv = bv \<and> dt < bt) then Some (m, dv, dt) else best)))"

definition message_for_point ::
    "(string \<Rightarrow> json option) \<Rightarrow> nats_message list \<Rightarrow> string \<Rightarrow> rat \<times> rat \<Rightarrow> rat \<Rightarrow> nats_message option" where
  "message_for_point parse messages path point window =
     map_option fst (fold (pick_step parse path point window) messages None)"

definition window_for :: "string option \<Rightarrow> rat" where
  "window_for source = (if source = Some ''rollup'' then pick_rollup else pick_series)"

subsection \<open>The completion is what all candidates share\<close>

lemma to_lower_take: "to_lower (take n s) = take n (to_lower s)"
  by (simp add: to_lower_def take_map)

lemma shared_start_prefix:
  "prefix (shared_start p v) p \<and> prefix (to_lower (shared_start p v)) (to_lower v) \<and>
   (\<forall>s. prefix (to_lower s) (to_lower p) \<longrightarrow> prefix (to_lower s) (to_lower v) \<longrightarrow> length s \<le> length (shared_start p v))"
proof (induction p v rule: shared_start.induct)
  case (1 p ps v vs)
  show ?case
  proof (cases "lower p = lower v")
    case True
    have "length s \<le> Suc (length (shared_start ps vs))"
      if "prefix (to_lower s) (to_lower (p # ps))" "prefix (to_lower s) (to_lower (v # vs))" for s
      using that 1 [OF True] by (cases s) (auto simp: to_lower_def)
    then show ?thesis using True 1 by (auto simp: to_lower_def)
  next
    case False
    have "s = []" if "prefix (to_lower s) (to_lower (p # ps))" "prefix (to_lower s) (to_lower (v # vs))" for s
      using that False by (cases s) (auto simp: to_lower_def)
    then show ?thesis using False by (auto simp: to_lower_def)
  qed
qed (auto simp: to_lower_def)

lemma to_lower_prefix: "prefix p q \<Longrightarrow> prefix (to_lower p) (to_lower q)"
  by (auto simp: to_lower_def intro: map_mono_prefix)

definition lower_start :: "string \<Rightarrow> string list \<Rightarrow> bool" where
  "lower_start s xs \<longleftrightarrow> list_all (\<lambda>x. prefix (to_lower s) (to_lower x)) xs"

lemma fold_shared:
  "lower_start (fold (\<lambda>w pre. shared_start pre w) vs v) (v # vs) \<and>
   (\<forall>s. lower_start s (v # vs) \<longrightarrow> length s \<le> length (fold (\<lambda>w pre. shared_start pre w) vs v))"
proof (induction vs arbitrary: v)
  case Nil
  then show ?case by (auto simp: lower_start_def to_lower_def dest: prefix_length_le)
next
  case (Cons w ws)
  let ?r = "fold (\<lambda>w pre. shared_start pre w) ws (shared_start v w)"
  have r: "lower_start ?r (shared_start v w # ws)" "\<And>s. lower_start s (shared_start v w # ws) \<Longrightarrow> length s \<le> length ?r"
    using Cons.IH [of "shared_start v w"] by blast+
  have sh: "prefix (to_lower (shared_start v w)) (to_lower v)" "prefix (to_lower (shared_start v w)) (to_lower w)"
    using shared_start_prefix [of v w] to_lower_prefix by blast+
  have "lower_start ?r (v # w # ws)"
    using r(1) sh by (auto simp: lower_start_def dest: prefix_order.trans)
  moreover have "length s \<le> length ?r" if s: "lower_start s (v # w # ws)" for s
  proof -
    have len: "length s \<le> length (shared_start v w)" using s shared_start_prefix [of v w] by (auto simp: lower_start_def)
    have "prefix (to_lower s) (to_lower (shared_start v w))"
      using s len sh prefix_length_prefix [of "to_lower s" "to_lower v" "to_lower (shared_start v w)"]
      by (simp add: lower_start_def to_lower_def)
    then show ?thesis using r(2) s by (simp add: lower_start_def)
  qed
  ultimately show ?case by simp
qed


lemma next_segment_end_le: "length word \<le> length subject \<Longrightarrow> length word \<le> next_segment_end subject (length word)"
  by (auto simp: next_segment_end_def index_from_def split: option.splits)

lemma candidates_start: "x \<in> set (candidates_for word subjects) \<Longrightarrow> prefix (to_lower word) (to_lower x)"
proof -
  assume "x \<in> set (candidates_for word subjects)"
  then obtain subject where x: "x \<in> set (candidates_of word subject)" by (auto simp: candidates_for_def split: if_splits)
  show ?thesis
  proof (cases "CHR ''.'' \<in> set (to_lower word)")
    case True
    with x have s: "prefix (to_lower word) (to_lower subject)" and
      x': "x = take (next_segment_end subject (length word)) subject"
      by (auto simp: candidates_of_def split: if_splits)
    then have "length word \<le> length subject" by (auto simp: to_lower_def dest: prefix_length_le)
    then have "length (to_lower word) \<le> next_segment_end subject (length word)"
      using next_segment_end_le by (simp add: to_lower_def)
    then show ?thesis using s unfolding x' to_lower_take by (auto simp: prefix_def)
  qed (use x in \<open>auto simp: candidates_of_def\<close>)
qed

text \<open>The completion adds to the word exactly what all candidates share: every candidate begins with the
  completed word, whatever the case of its letters, and no longer text has that property while there
  is a candidate.\<close>

theorem completion_shared:
  "(let word = last_term query; cs = candidates_for word subjects; done = word @ completion_for query subjects in
     lower_start done cs \<and>
     (if query = [] \<or> is_space (last query) \<or> word = [] \<or> cs = [] then completion_for query subjects = []
      else \<forall>s. length s \<le> length done \<or> \<not> lower_start s cs))"
proof -
  let ?word = "last_term query"
  let ?cs = "candidates_for ?word subjects"
  have start: "lower_start ?word ?cs"
    using candidates_start by (auto simp: lower_start_def list_all_iff)
  show ?thesis
  proof (cases "query = [] \<or> is_space (last query) \<or> ?word = [] \<or> ?cs = []")
    case True
    then have "completion_for query subjects = []" by (auto simp: completion_for_def common_prefix_def)
    with True start show ?thesis by (simp add: Let_def)
  next
    case False
    then obtain v vs where cs: "?cs = v # vs" by (cases ?cs) auto
    have pre: "lower_start (common_prefix ?cs) ?cs" "\<forall>s. lower_start s ?cs \<longrightarrow> length s \<le> length (common_prefix ?cs)"
      using fold_shared [of vs v] unfolding cs by (simp_all add: common_prefix_def)
    then have long: "length ?word \<le> length (common_prefix ?cs)" using start by blast
    have "prefix (to_lower ?word) (to_lower v)" "prefix (to_lower (common_prefix ?cs)) (to_lower v)"
      using start pre(1) unfolding cs by (simp_all add: lower_start_def)
    then have "prefix (to_lower ?word) (to_lower (common_prefix ?cs))"
      using long prefix_length_prefix by (fastforce simp: to_lower_def)
    then have "to_lower ?word = take (length ?word) (to_lower (common_prefix ?cs))"
      by (auto simp: prefix_def to_lower_def)
    then have lower_done: "to_lower (?word @ drop (length ?word) (common_prefix ?cs)) = to_lower (common_prefix ?cs)"
      by (metis append_take_drop_id drop_map map_append to_lower_def)
    have compl: "completion_for query subjects = drop (length ?word) (common_prefix ?cs)"
      using False long by (simp add: completion_for_def Let_def)
    have "lower_start (?word @ completion_for query subjects) ?cs"
      using pre(1) unfolding compl lower_start_def lower_done by simp
    moreover have "length (?word @ completion_for query subjects) = length (common_prefix ?cs)"
      unfolding compl using long by simp
    ultimately show ?thesis using False pre(2) by (auto simp: Let_def not_le)
  qed
qed

theorem completion_shared_witness:
  "completion_for ''a'' [''abc.x'', ''abd''] = ''b'' \<and> candidates_for ''a'' [''abc.x'', ''abd''] = [''abc'', ''abd''] \<and>
   lower_start ''ab'' [''abc'', ''abd''] \<and> \<not> lower_start ''abc'' [''abc'', ''abd'']"
proof -
  have cs: "candidates_for ''a'' [''abc.x'', ''abd''] = [''abc'', ''abd'']"
    by (simp add: candidates_for_def candidates_of_def js_uniq_def js_add_def to_lower_def lower_def is_upper_def)
  have c: "completion_for ''a'' [''abc.x'', ''abd''] = ''b''"
    by (simp add: completion_for_def last_term_def cs common_prefix_def is_space_def lower_def is_upper_def)
  have t: "last_term ''a'' = ''a''" by (simp add: last_term_def)
  have "lower_start ''ab'' [''abc'', ''abd''] \<and> (\<forall>s. length s \<le> 2 \<or> \<not> lower_start s [''abc'', ''abd''])"
    using completion_shared [of "''a''" "[''abc.x'', ''abd'']"] unfolding Let_def t cs c by (simp add: is_space_def numeral_2_eq_2)
  then have "lower_start ''ab'' [''abc'', ''abd'']" "length ''abc'' \<le> 2 \<or> \<not> lower_start ''abc'' [''abc'', ''abd'']" by blast+
  with c cs show ?thesis by simp
qed

text \<open>A search of the nearest message looks at every message of the window that carries the field.\<close>

definition in_reach :: "(string \<Rightarrow> json option) \<Rightarrow> string \<Rightarrow> rat \<times> rat \<Rightarrow> rat \<Rightarrow> nats_message \<Rightarrow> bool" where
  "in_reach parse path point window m \<longleftrightarrow>
     \<bar>of_int (m_timestamp m) - fst point\<bar> \<le> window \<and> extract_number parse (m_payload m) path \<noteq> None"

definition distance :: "(string \<Rightarrow> json option) \<Rightarrow> string \<Rightarrow> rat \<times> rat \<Rightarrow> nats_message \<Rightarrow> rat \<times> rat" where
  "distance parse path point m = (\<bar>the (extract_number parse (m_payload m) path) - snd point\<bar>, \<bar>of_int (m_timestamp m) - fst point\<bar>)"

definition pick_of :: "(string \<Rightarrow> json option) \<Rightarrow> string \<Rightarrow> rat \<times> rat \<Rightarrow> rat \<Rightarrow> nats_message list \<Rightarrow> pick \<Rightarrow> bool" where
  "pick_of parse path point window ms best \<longleftrightarrow> (case best of
       None \<Rightarrow> \<forall>m \<in> set ms. \<not> in_reach parse path point window m
     | Some (b, dv, dt) \<Rightarrow> b \<in> set ms \<and> in_reach parse path point window b \<and> distance parse path point b = (dv, dt) \<and>
         (\<forall>m \<in> set ms. in_reach parse path point window m \<longrightarrow>
            dv < fst (distance parse path point m) \<or> dv = fst (distance parse path point m) \<and> dt \<le> snd (distance parse path point m)))"

lemma pick_step_of:
  assumes "pick_of parse path point window ms best"
  shows "pick_of parse path point window (ms @ [m]) (pick_step parse path point window m best)"
proof (cases "in_reach parse path point window m")
  case False
  then have "pick_step parse path point window m best = best"
    by (auto simp: pick_step_def in_reach_def Let_def)
  then show ?thesis using assms False by (auto simp: pick_of_def split: option.splits)
next
  case True
  then obtain v where v: "extract_number parse (m_payload m) path = Some v" by (auto simp: in_reach_def)
  have d: "distance parse path point m = (\<bar>v - snd point\<bar>, \<bar>of_int (m_timestamp m) - fst point\<bar>)"
    by (simp add: distance_def v)
  have near: "\<bar>of_int (m_timestamp m) - fst point\<bar> \<le> window" using True by (simp add: in_reach_def)
  show ?thesis
  proof (cases best)
    case None
    then have "pick_step parse path point window m best = Some (m, fst (distance parse path point m), snd (distance parse path point m))"
      using v near d by (simp add: pick_step_def Let_def)
    then show ?thesis using assms True None by (auto simp: pick_of_def)
  next
    case (Some b)
    obtain b0 bv bt where b: "b = (b0, bv, bt)" by (cases b)
    have step: "pick_step parse path point window m best =
        (if fst (distance parse path point m) < bv \<or> fst (distance parse path point m) = bv \<and> snd (distance parse path point m) < bt
         then Some (m, fst (distance parse path point m), snd (distance parse path point m)) else best)"
      using v near d Some b by (simp add: pick_step_def Let_def)
    show ?thesis unfolding step using assms True unfolding Some b by (fastforce simp: pick_of_def)
  qed
qed

text \<open>The message picked for a point is one of those in the window that carry the field, the nearest in
  value and, among equals, in time; there is none only when no message is in reach.\<close>

theorem picked_message_nearest:
  "(case message_for_point parse messages path point window of
       None \<Rightarrow> filter (in_reach parse path point window) messages = []
     | Some b \<Rightarrow> b \<in> set messages \<and> in_reach parse path point window b \<and>
         list_all (\<lambda>m. distance parse path point b \<le> distance parse path point m) (filter (in_reach parse path point window) messages))"
proof -
  have "pick_of parse path point window (before @ ms) (fold (pick_step parse path point window) ms best)"
    if "pick_of parse path point window before best" for before ms best
    using that
  proof (induction ms arbitrary: before best)
    case (Cons m ms)
    show ?case using Cons.IH [OF pick_step_of [OF Cons.prems], of m] by simp
  qed simp
  from this [of "[]" None messages]
  have "pick_of parse path point window messages (fold (pick_step parse path point window) messages None)"
    by (simp add: pick_of_def)
  then show ?thesis
    by (auto simp: message_for_point_def pick_of_def list_all_iff filter_empty_conv less_eq_prod_def split: option.splits)
qed

end
