(* ===== verification/Advisories.thy ===== *)
theory Advisories
  imports Messages Json
begin

text \<open>
  What the server says went wrong (\<open>client/src/lib/advisories.ts\<close>): the reading of one recorded message as
  an event, the list of events and their counts. \<open>JSON.parse\<close> and the text of a number are arguments
  (\<open>parse\<close>, \<open>num\<close>). Of the table of kinds only its own entries are modelled, not what every object
  inherits. A dash in a title stands as the three bytes of its UTF-8 form.
\<close>

datatype event_severity = SevError | SevWarn | SevInfo

record event =
  ev_at :: int
  ev_subject :: string
  ev_kind :: string
  ev_severity :: event_severity
  ev_title :: string
  ev_stream :: "json option"
  ev_consumer :: "json option"
  ev_message :: nats_message

subsection \<open>Fields of an advisory\<close>

text \<open>A value in a condition.\<close>

fun json_truthy :: "json \<Rightarrow> bool" where
  "json_truthy JNull = False"
| "json_truthy (JBool b) = b"
| "json_truthy (JNum n) = (n \<noteq> 0)"
| "json_truthy (JStr s) = (s \<noteq> [])"
| "json_truthy _ = True"

text \<open>\<open>a.k\<close> when it is true in a condition; \<open>a.k ?? d\<close> as text; \<open>a.o?.k\<close>.\<close>

definition truthy_field :: "json \<Rightarrow> string \<Rightarrow> json option" where
  "truthy_field a k = (case json_field a k of None \<Rightarrow> None | Some v \<Rightarrow> if json_truthy v then Some v else None)"

definition given_field :: "json \<Rightarrow> string \<Rightarrow> json option" where
  "given_field a k = (case json_field a k of None \<Rightarrow> None | Some v \<Rightarrow> if v = JNull then None else Some v)"

definition text_or :: "(rat \<Rightarrow> string) \<Rightarrow> json option \<Rightarrow> string \<Rightarrow> string" where
  "text_or num v d = (case v of None \<Rightarrow> d | Some x \<Rightarrow> js_string num x)"

definition part :: "json \<Rightarrow> string \<Rightarrow> json" where
  "part a k = nullish (given_field a k) (JObj [])"

definition first_true :: "(string \<Rightarrow> json option) \<Rightarrow> string list \<Rightarrow> json option" where
  "first_true f ks = (case List.map_filter f ks of [] \<Rightarrow> None | v # vs \<Rightarrow> Some v)"

definition adv_seq :: "(rat \<Rightarrow> string) \<Rightarrow> json \<Rightarrow> string" where
  "adv_seq num a = (case json_field a ''stream_seq'' of None \<Rightarrow> [] | Some v \<Rightarrow> '' sequence '' @ js_string num v)"

definition adv_where :: "(rat \<Rightarrow> string) \<Rightarrow> json \<Rightarrow> string" where
  "adv_where num a = join_str '' on '' (map (js_string num) (List.map_filter (truthy_field a) [''consumer'', ''stream'']))"

definition adv_server :: "(rat \<Rightarrow> string) \<Rightarrow> json \<Rightarrow> string" where
  "adv_server num a = text_or num (first_true (given_field (part a ''server'')) [''name'', ''host'']) ''the server''"

definition adv_client :: "(rat \<Rightarrow> string) \<Rightarrow> json \<Rightarrow> string" where
  "adv_client num a = text_or num (first_true (truthy_field (part a ''client'')) [''name'', ''user'', ''host'']) ''a client''"

definition or_text :: "string \<Rightarrow> string \<Rightarrow> string" where
  "or_text s d = (if s = [] then d else s)"

definition colon_reason :: "(rat \<Rightarrow> string) \<Rightarrow> json option \<Rightarrow> string" where
  "colon_reason num v = (case v of None \<Rightarrow> [] | Some r \<Rightarrow> '': '' @ js_string num r)"

text \<open>\<open>s.replace('dd', 'd')\<close>: the first one, wherever it stands.\<close>

fun replace_dd :: "string \<Rightarrow> string" where
  "replace_dd (c # d # s) = (if c = CHR ''d'' \<and> d = CHR ''d'' then d # s else c # replace_dd (d # s))"
| "replace_dd s = s"

text \<open>\<open>Math.round(delay / 1e9)\<close>; a delay that is no number reads as NaN.\<close>

definition delay_seconds :: "json \<Rightarrow> string" where
  "delay_seconds v = (case v of JNum n \<Rightarrow> int_str \<lfloor>n / 1000000000 + 1 / 2\<rfloor> | _ \<Rightarrow> ''NaN'')"

subsection \<open>The kinds\<close>

type_synonym described = "string \<times> event_severity \<times> string"

definition kind_of :: "(rat \<Rightarrow> string) \<Rightarrow> string \<Rightarrow> json \<Rightarrow> described option" where
  "kind_of num name a = (let at_place = \<lambda>d. or_text (adv_where num a) d; stream = \<lambda>d. text_or num (given_field a ''stream'') d;
       action = given_field a ''action''; deleted = (json_field a ''action'' = Some (JStr ''delete'')) in
     if name = ''max_deliver'' then Some (''max deliveries'', SevError,
       at_place ''a consumer'' @ '' gave up on'' @ adv_seq num a @ '' after '' @ text_or num (given_field a ''deliveries'') ''?'' @ '' deliveries'')
     else if name = ''terminated'' then Some (''terminated'', SevError,
       at_place ''a consumer'' @ '' terminated'' @ adv_seq num a @ colon_reason num (truthy_field a ''reason''))
     else if name = ''nak'' then Some (''nak'', SevWarn,
       at_place ''a consumer'' @ '' asked for'' @ or_text (adv_seq num a) '' a message'' @ '' again'' @
       (case truthy_field a ''delay'' of None \<Rightarrow> [] | Some v \<Rightarrow> '' in '' @ delay_seconds v @ ''s''))
     else if name = ''api_audit'' then
       (let failed = (case json_field a ''response'' of Some (JStr s) \<Rightarrow> includes_str s (CHR 0x22 # ''error'' @ [CHR 0x22]) | _ \<Rightarrow> False)
        in Some (''API call'', if failed then SevError else SevInfo,
          (if failed then ''A JetStream API call failed'' else ''JetStream API call'') @ colon_reason num (truthy_field a ''subject'')))
     else if name = ''stream_action'' then Some (''stream '' @ text_or num action ''action'', if deleted then SevWarn else SevInfo,
       replace_dd (''Stream '' @ stream ''?'' @ '' was '' @ text_or num action ''changed'' @ ''d''))
     else if name = ''consumer_action'' then Some (''consumer '' @ text_or num action ''action'', if deleted then SevWarn else SevInfo,
       replace_dd (''Consumer '' @ at_place ''?'' @ '' was '' @ text_or num action ''changed'' @ ''d''))
     else if name = ''stream_leader_elected'' then Some (''leader elected'', SevWarn,
       stream ''A stream'' @ '' elected '' @ text_or num (given_field a ''leader'') ''a new leader'')
     else if name = ''consumer_leader_elected'' then Some (''leader elected'', SevWarn,
       at_place ''A consumer'' @ '' elected '' @ text_or num (given_field a ''leader'') ''a new leader'')
     else if name = ''stream_quorum_lost'' then Some (''quorum lost'', SevError, stream ''A stream'' @ '' lost quorum and cannot be written to'')
     else if name = ''consumer_quorum_lost'' then Some (''quorum lost'', SevError, at_place ''A consumer'' @ '' lost quorum'')
     else if name = ''server_out_of_space'' then Some (''out of space'', SevError,
       adv_server num a @ '' ran out of space'' @ (case truthy_field a ''stream'' of None \<Rightarrow> [] | Some v \<Rightarrow> '' writing '' @ js_string num v))
     else if name = ''consumer_pause'' then Some (''paused'', SevWarn, at_place ''A consumer'' @ '' was paused'')
     else if name = ''snapshot_create'' then Some (''snapshot'', SevInfo, ''Snapshot of '' @ stream ''a stream'' @ '' started'')
     else if name = ''snapshot_complete'' then Some (''snapshot'', SevInfo, ''Snapshot of '' @ stream ''a stream'' @ '' finished'')
     else if name = ''restore_create'' then Some (''restore'', SevWarn, ''Restore of '' @ stream ''a stream'' @ '' started'')
     else if name = ''restore_complete'' then Some (''restore'', SevWarn, ''Restore of '' @ stream ''a stream'' @ '' finished'')
     else if name = ''client_connect'' then Some (''client connect'', SevInfo, adv_client num a @ '' connected to '' @ adv_server num a)
     else if name = ''client_disconnect'' then Some (''client disconnect'',
       (case truthy_field a ''reason'' of None \<Rightarrow> SevInfo
        | Some r \<Rightarrow> let t = to_lower (js_string num r) in
            if includes_str t ''client closed'' \<or> includes_str t ''connection closed'' then SevInfo else SevWarn),
       adv_client num a @ '' left '' @ adv_server num a @ colon_reason num (truthy_field a ''reason''))
     else None)"

definition noise_types :: "string list" where
  "noise_types = [''statsz'', ''server_stats'', ''consumer_ack'', ''service_latency'', ''account_connections'']"

text \<open>A token after the first that names a timer; the longer form with \<open>SERVER\<close> ends in such a token.\<close>

definition noisy_subject :: "string \<Rightarrow> bool" where
  "noisy_subject subject = list_ex (\<lambda>t. to_lower t \<in> {''statsz'', ''heartbeat'', ''ping''}) (tl (split_on CHR ''.'' subject))"

definition humanise :: "string \<Rightarrow> string" where
  "humanise name = map (\<lambda>c. if c = CHR ''_'' then CHR '' '' else c) name"

definition severity_of :: "string \<Rightarrow> event_severity" where
  "severity_of name = (let t = to_lower name in
     if list_ex (includes_str t) [''lost'', ''denied'', ''err'', ''error'', ''fail'', ''out_of_space'', ''max_deliver'', ''terminated'', ''expired'']
     then SevError
     else if list_ex (includes_str t) [''nak'', ''pause'', ''restore'', ''leader'', ''disconnect'', ''stall'', ''warn''] then SevWarn
     else SevInfo)"

definition spaced_dash :: string where
  "spaced_dash = [CHR '' '', CHR 0xE2, CHR 0x80, CHR 0x94, CHR '' '']"

subsection \<open>Events\<close>

definition advisory_of :: "(string \<Rightarrow> json option) \<Rightarrow> nats_message \<Rightarrow> json" where
  "advisory_of parse m = (if m_payload_type m \<noteq> PJson then JObj []
     else (case parse (m_payload m) of Some doc \<Rightarrow> if is_object doc then doc else JObj [] | None \<Rightarrow> JObj []))"

definition type_suffix :: "json \<Rightarrow> string" where
  "type_suffix a = last (split_on CHR ''.'' (nullish (json_text (json_field a ''type'')) []))"

definition event_subject :: "string \<Rightarrow> bool" where
  "event_subject s = ((starts_with s ''$JS.EVENT.'' \<or> starts_with s ''$SYS.'') \<and> \<not> noisy_subject s \<and> \<not> starts_with s ''$JS.EVENT.METRIC.'')"

definition describe_event :: "(rat \<Rightarrow> string) \<Rightarrow> (string \<Rightarrow> json option) \<Rightarrow> nats_message \<Rightarrow> event option" where
  "describe_event num parse m = (if \<not> event_subject (m_subject m) then None else
     let a = advisory_of parse m; name = type_suffix a in
     if name \<in> set noise_types then None
     else let base = (case kind_of num name a of
           Some d \<Rightarrow> d
         | None \<Rightarrow> if suffix ''auth.err'' (to_lower (m_subject m))
             then (''auth error'', SevError, adv_client num a @ '' could not authenticate'' @ colon_reason num (truthy_field a ''reason''))
             else (if name = [] then ''event'' else humanise name, severity_of (name @ '' '' @ m_subject m),
               if name = [] then m_subject m
               else humanise name @ (if adv_where num a = [] then [] else spaced_dash @ adv_where num a)))
       in Some \<lparr>ev_at = m_timestamp m, ev_subject = m_subject m, ev_kind = fst base, ev_severity = fst (snd base),
         ev_title = snd (snd base), ev_stream = json_field a ''stream'', ev_consumer = json_field a ''consumer'', ev_message = m\<rparr>)"

definition events_of :: "(rat \<Rightarrow> string) \<Rightarrow> (string \<Rightarrow> json option) \<Rightarrow> nats_message list \<Rightarrow> event list" where
  "events_of num parse messages = js_sort (\<lambda>a b. ev_at b - ev_at a) (List.map_filter (describe_event num parse) messages)"

definition severity_order :: "event_severity list" where
  "severity_order = [SevError, SevWarn, SevInfo]"

definition count_by_severity :: "event list \<Rightarrow> event_severity \<Rightarrow> nat" where
  "count_by_severity events = fold (\<lambda>e out. out(ev_severity e := out (ev_severity e) + 1)) events (\<lambda>_. 0)"

subsection \<open>Properties\<close>

text \<open>Nothing but what is published on a timer is swallowed: every message in the server's own subjects is an
  event, known or not, and keeps its time, its subject and itself; the list is newest first.\<close>

theorem events_complete:
  "map ev_message (events_of num parse messages) =
     js_sort (\<lambda>a b. m_timestamp b - m_timestamp a)
       (filter (\<lambda>m. event_subject (m_subject m) \<and> type_suffix (advisory_of parse m) \<notin> set noise_types) messages) \<and>
   sorted_wrt (\<lambda>a b. ev_at b \<le> ev_at a) (events_of num parse messages)"
proof -
  have one: "describe_event num parse m = None \<longleftrightarrow>
      \<not> (event_subject (m_subject m) \<and> type_suffix (advisory_of parse m) \<notin> set noise_types)"
    "describe_event num parse m = Some e \<Longrightarrow> ev_message e = m \<and> ev_at e = m_timestamp m" for m e
    by (auto simp: describe_event_def Let_def split: if_splits)
  have shown: "map ev_message (List.map_filter (describe_event num parse) ms) =
      filter (\<lambda>m. event_subject (m_subject m) \<and> type_suffix (advisory_of parse m) \<notin> set noise_types) ms" for ms
  proof (induction ms)
    case (Cons m ms)
    then show ?case
      using one(1) [of m] one(2) [of m] by (cases "describe_event num parse m") (auto simp: map_filter_simps)
  qed (simp add: map_filter_simps)
  have at: "ev_at e = m_timestamp (ev_message e)" if "e \<in> set (List.map_filter (describe_event num parse) messages)" for e
    using that one(2) by (auto simp: map_filter_def)
  have "map ev_message (events_of num parse messages) =
      js_sort (\<lambda>a b. m_timestamp b - m_timestamp a) (map ev_message (List.map_filter (describe_event num parse) messages))"
    unfolding events_of_def using at by (intro map_js_sort) simp
  moreover have "sorted_wrt (\<lambda>a b. ev_at b \<le> ev_at a) (events_of num parse messages)"
    using comparator.ascending_sort [OF comparator_by_number_desc, of ev_at "List.map_filter (describe_event num parse) messages"]
    unfolding events_of_def by (rule sorted_wrt_mono_rel [rotated]) simp
  ultimately show ?thesis unfolding shown by simp
qed

lemma count_fold: "fold (\<lambda>e out. out(ev_severity e := out (ev_severity e) + 1)) events out s =
    out s + length (filter (\<lambda>e. ev_severity e = s) events)" for out :: "event_severity \<Rightarrow> nat"
  by (induction events arbitrary: out) auto

text \<open>The counters above the list count every event once.\<close>

theorem counts_of_events:
  "count_by_severity events s = length (filter (\<lambda>e. ev_severity e = s) events) \<and>
   (\<Sum>s \<leftarrow> severity_order. count_by_severity events s) = length events"
proof -
  have c: "count_by_severity events s = length (filter (\<lambda>e. ev_severity e = s) events)" for s
    unfolding count_by_severity_def count_fold by simp
  have "length (filter (\<lambda>e. ev_severity e = SevError) es) + (length (filter (\<lambda>e. ev_severity e = SevWarn) es) +
      length (filter (\<lambda>e. ev_severity e = SevInfo) es)) = length es" for es
  proof (induction es)
    case (Cons e es)
    then show ?case by (cases "ev_severity e") auto
  qed simp
  then show ?thesis by (simp add: c severity_order_def)
qed

text \<open>The title of an action on a stream whose name has a double d misspells the name.\<close>

theorem title_misspells_name:
  "map_option (snd \<circ> snd) (kind_of num ''stream_action''
     (JObj [(''stream'', JStr ''address''), (''action'', JStr ''create'')])) = Some ''Stream adress was created''"
  by (simp add: kind_of_def given_field_def text_or_def Let_def)

end
