(* ===== verification/ProtoRaw.thy ===== *)
theory ProtoRaw
  imports Bytes
begin

text \<open>
  Reading a protobuf message without its schema (\<open>client/src/lib/protoRaw.ts\<close>): the reader of the
  wire format, the guess at what a value is, and the nested messages.

  The reader is the list of bytes not read yet, an exception is the left side of a sum. A text is the
  list of its code points; \<open>utf8_decode\<close> is the fatal \<open>TextDecoder\<close>, which drops a byte order mark.
  A 64-bit float is read exactly; the seven digits of a 32-bit one are kept as the decimal they are.
  \<open>String(Number(k))\<close> of a field number is the argument \<open>name\<close>: above \<open>2 ^ 53\<close> it is no longer the
  decimal of \<open>k\<close>.
\<close>

unbundle bit_operations_syntax

subsection \<open>Texts and floats of the platform\<close>

type_synonym code_points = "nat list"

definition points :: "string \<Rightarrow> code_points" where
  "points s = map of_char s"

definition continuation :: "8 word \<Rightarrow> bool" where
  "continuation b = (128 \<le> unat b \<and> unat b < 192)"

definition continued :: "nat \<Rightarrow> 8 word \<Rightarrow> nat" where
  "continued acc b = acc * 64 + (unat b - 128)"

text \<open>Shortest forms only, no surrogates, nothing above \<open>10FFFF\<close>.\<close>

fun utf8_points :: "bytes \<Rightarrow> code_points option" where
  "utf8_points [] = Some []"
| "utf8_points (a # bs) =
     (if unat a < 128 then map_option (\<lambda>ps. unat a # ps) (utf8_points bs)
      else if unat a < 194 then None
      else if unat a < 224 then (case bs of
          b # cs \<Rightarrow> if continuation b then map_option (\<lambda>ps. continued (unat a - 192) b # ps) (utf8_points cs) else None
        | _ \<Rightarrow> None)
      else if unat a < 240 then (case bs of
          b # c # ds \<Rightarrow> (let p = continued (continued (unat a - 224) b) c in
             if continuation b \<and> continuation c \<and> 2048 \<le> p \<and> \<not> (55296 \<le> p \<and> p < 57344)
             then map_option (\<lambda>ps. p # ps) (utf8_points ds) else None)
        | _ \<Rightarrow> None)
      else if unat a < 245 then (case bs of
          b # c # d # es \<Rightarrow> (let p = continued (continued (continued (unat a - 240) b) c) d in
             if continuation b \<and> continuation c \<and> continuation d \<and> 65536 \<le> p \<and> p < 1114112
             then map_option (\<lambda>ps. p # ps) (utf8_points es) else None)
        | _ \<Rightarrow> None)
      else None)"

definition utf8_decode :: "bytes \<Rightarrow> code_points option" where
  "utf8_decode bs = map_option (\<lambda>ps. case ps of p # qs \<Rightarrow> if p = 65279 then qs else ps | [] \<Rightarrow> [])
     (utf8_points bs)"

text \<open>Little-endian, as the \<open>DataView\<close> is asked for it.\<close>

definition from_little :: "bytes \<Rightarrow> nat" where
  "from_little bs = foldr (\<lambda>b n. unat b + 256 * n) bs 0"

text \<open>An IEEE number with \<open>e\<close> bits of exponent and \<open>m\<close> of fraction; \<open>None\<close> is an infinity or not a
  number.\<close>

definition ieee :: "nat \<Rightarrow> nat \<Rightarrow> nat \<Rightarrow> rat option" where
  "ieee e m bits = (let f = bits mod 2 ^ m; x = bits div 2 ^ m mod 2 ^ e; negative = odd (bits div 2 ^ (m + e));
       v = (if x = 0 then of_nat f * 2 else of_nat (2 ^ m + f) * 2 ^ x) / 2 ^ (2 ^ (e - 1) - 1 + m) in
     if x = 2 ^ e - 1 then None else Some (if negative then - v else v))"

text \<open>\<open>Number(f.toPrecision(7))\<close> for the numbers that are readable.\<close>

definition scales :: "rat list" where
  "scales = map (\<lambda>k. 10 ^ k / 1000000) [0..<17]"

definition precise7 :: "rat \<Rightarrow> rat" where
  "precise7 r = (let fitting = filter (\<lambda>s. \<bar>r\<bar> * s < 10000000) scales in
     if r = 0 \<or> fitting = [] then r
     else sgn r * (of_int (js_round (\<bar>r\<bar> * last fitting)) / last fitting))"

subsection \<open>Values and errors\<close>

datatype raw_value = RawNum rat | RawText code_points | RawMsg "(string \<times> raw_value) list" | RawList "raw_value list"

type_synonym raw_message = "(string, raw_value) jsmap"

datatype raw_error = TruncatedVarint | VarintTooLong | TruncatedField | FieldZero | WireType nat

subsection \<open>The reader\<close>

text \<open>\<open>Reader.varint\<close>: \<open>shift\<close> and \<open>result\<close> are the variables of its loop.\<close>

fun varint_from :: "nat \<Rightarrow> nat \<Rightarrow> bytes \<Rightarrow> raw_error + nat \<times> bytes" where
  "varint_from result shift [] = Inl TruncatedVarint"
| "varint_from result shift (b # bs) =
     (let result' = result OR push_bit shift (unat (b AND 0x7F)) in
      if b AND 0x80 = 0 then Inr (result', bs)
      else if shift + 7 > 70 then Inl VarintTooLong
      else varint_from result' (shift + 7) bs)"

definition varint :: "bytes \<Rightarrow> raw_error + nat \<times> bytes" where
  "varint bs = varint_from 0 0 bs"

definition take_bytes :: "nat \<Rightarrow> bytes \<Rightarrow> raw_error + bytes \<times> bytes" where
  "take_bytes n bs = (if n > length bs then Inl TruncatedField else Inr (take n bs, drop n bs))"

subsection \<open>The guesses\<close>

definition readable_float :: "rat option \<Rightarrow> bool" where
  "readable_float v = (case v of None \<Rightarrow> False
     | Some r \<Rightarrow> r = 0 \<or> (1 / 10000 \<le> \<bar>r\<bar> \<and> \<bar>r\<bar> < 10000000000000))"

definition raw_number :: "nat \<Rightarrow> raw_value" where
  "raw_number v = (if v \<le> 9007199254740991 then RawNum (of_nat v) else RawText (points (nat_str v)))"

definition printable :: "code_points \<Rightarrow> bool" where
  "printable ps = list_all (\<lambda>c. c \<noteq> 0x7F \<and> (0x20 \<le> c \<or> c \<in> {9, 10, 13})) ps"

text \<open>The text first: what the \<open>try\<close> of \<open>lengthDelimited\<close> returns.\<close>

definition text_of :: "bytes \<Rightarrow> code_points option" where
  "text_of bs = (case utf8_decode bs of
     Some text \<Rightarrow> if text \<noteq> [] \<and> printable text then Some text else None
   | None \<Rightarrow> None)"

definition hex_text :: "bytes \<Rightarrow> code_points" where
  "hex_text bs = points (join_with (CHR '' '') (map hex_byte bs))"

definition bytes_text :: "bytes \<Rightarrow> code_points" where
  "bytes_text bs = (if bs = [] then []
     else points (nat_str (length bs) @ '' bytes '') @ [0xB7, 0x20] @ hex_text (take 32 bs) @
       (if length bs > 32 then [0x20, 0x2026] else []))"

definition fixed64_value :: "bytes \<Rightarrow> raw_value" where
  "fixed64_value b = (let n = from_little b in case ieee 11 52 n of
     Some d \<Rightarrow> if readable_float (Some d) then RawNum d else raw_number n
   | None \<Rightarrow> raw_number n)"

definition fixed32_value :: "bytes \<Rightarrow> raw_value" where
  "fixed32_value b = (let n = from_little b in case ieee 8 23 n of
     Some f \<Rightarrow> if readable_float (Some f) then RawNum (precise7 f) else RawNum (of_nat n)
   | None \<Rightarrow> RawNum (of_nat n))"

text \<open>\<open>add\<close> of \<open>parse\<close>: the second value of a field makes it a list.\<close>

definition add_field :: "string \<Rightarrow> raw_value \<Rightarrow> raw_message \<Rightarrow> raw_message" where
  "add_field key v out = (case jm_get out key of
     None \<Rightarrow> jm_set key v out
   | Some (RawList vs) \<Rightarrow> jm_set key (RawList (vs @ [v])) out
   | Some seen \<Rightarrow> jm_set key (RawList [seen, v]) out)"

lemma varint_from_shrinks: "varint_from r s bs = Inr (v, rest) \<Longrightarrow> length rest < length bs"
  by (induction r s bs rule: varint_from.induct) (auto simp: Let_def split: if_splits)

lemma varint_shrinks: "varint bs = Inr (v, rest) \<Longrightarrow> length rest < length bs"
  by (simp add: varint_def varint_from_shrinks)

lemma take_bytes_length: "take_bytes n bs = Inr (b, rest) \<Longrightarrow> length b + length rest = length bs"
  by (auto simp: take_bytes_def split: if_splits)

subsection \<open>The message\<close>

text \<open>\<open>parse\<close> from the bytes left with the fields so far, \<open>lengthDelimited\<close> and \<open>tryParse\<close>.\<close>

function (sequential)
  parse_fields :: "(nat \<Rightarrow> string) \<Rightarrow> nat \<Rightarrow> bytes \<Rightarrow> raw_message \<Rightarrow> raw_error + raw_message" and
  length_delimited :: "(nat \<Rightarrow> string) \<Rightarrow> nat \<Rightarrow> bytes \<Rightarrow> raw_value" and
  try_parse :: "(nat \<Rightarrow> string) \<Rightarrow> nat \<Rightarrow> bytes \<Rightarrow> raw_message option" where
  "parse_fields name depth bs out = (if bs = [] then Inr out else
     (case varint bs of Inl e \<Rightarrow> Inl e
      | Inr (key, r1) \<Rightarrow>
        let field = key div 8; wire = key mod 8 in
        if field = 0 then Inl FieldZero
        else if wire = 0 then
          (case varint r1 of Inl e \<Rightarrow> Inl e
           | Inr (v, r2) \<Rightarrow> parse_fields name depth r2 (add_field (name field) (raw_number v) out))
        else if wire = 1 then
          (case take_bytes 8 r1 of Inl e \<Rightarrow> Inl e
           | Inr (b, r2) \<Rightarrow> parse_fields name depth r2 (add_field (name field) (fixed64_value b) out))
        else if wire = 2 then
          (case varint r1 of Inl e \<Rightarrow> Inl e
           | Inr (n, r2) \<Rightarrow> (case take_bytes n r2 of Inl e \<Rightarrow> Inl e
             | Inr (b, r3) \<Rightarrow> parse_fields name depth r3 (add_field (name field) (length_delimited name depth b) out)))
        else if wire = 5 then
          (case take_bytes 4 r1 of Inl e \<Rightarrow> Inl e
           | Inr (b, r2) \<Rightarrow> parse_fields name depth r2 (add_field (name field) (fixed32_value b) out))
        else Inl (WireType wire)))"
| "length_delimited name depth bs = (case text_of bs of
       Some text \<Rightarrow> RawText text
     | None \<Rightarrow> (case (if bs \<noteq> [] \<and> depth < 12 then try_parse name (depth + 1) bs else None) of
         Some nested \<Rightarrow> RawMsg nested
       | None \<Rightarrow> RawText (bytes_text bs)))"
| "try_parse name depth bs =
     (case parse_fields name depth bs [] of Inr (f # fs) \<Rightarrow> Some (f # fs) | _ \<Rightarrow> None)"
  by pat_completeness auto
termination
proof (relation "measure (\<lambda>x. case x of Inl (_, _, bs, _) \<Rightarrow> 3 * length bs
    | Inr (Inl (_, _, bs)) \<Rightarrow> 3 * length bs + 2 | Inr (Inr (_, _, bs)) \<Rightarrow> 3 * length bs + 1)")
qed (auto dest!: varint_shrinks take_bytes_length)

declare parse_fields.simps [simp del] length_delimited.simps [simp del] try_parse.simps [simp del]

definition decode_raw :: "(nat \<Rightarrow> string) \<Rightarrow> bytes \<Rightarrow> raw_message option" where
  "decode_raw name bs = try_parse name 0 bs"

text \<open>\<open>countFields\<close>.\<close>

fun count_value :: "raw_value \<Rightarrow> nat" and count_one :: "raw_value \<Rightarrow> nat" where
  "count_value (RawList vs) = sum_list (map count_one vs)"
| "count_value v = count_one v"
| "count_one (RawMsg m) = 1 + sum_list (map (\<lambda>(k, v). count_value v) m)"
| "count_one _ = 1"

definition count_fields :: "raw_message \<Rightarrow> nat" where
  "count_fields m = sum_list (map (\<lambda>(k, v). count_value v) m)"

subsection \<open>The wire format as it is written\<close>

text \<open>What a protobuf encoder writes: the varint of a number, and a field of each wire type.\<close>

function to_varint :: "nat \<Rightarrow> bytes" where
  "to_varint n = (if n < 128 then [byte n] else byte (128 + n mod 128) # to_varint (n div 128))"
  by pat_completeness auto
termination
  by (relation "measure id") auto

declare to_varint.simps [simp del]

datatype wire_value = WVarint nat | WFixed64 bytes | WBytes bytes | WFixed32 bytes

fun wire_ok :: "wire_value \<Rightarrow> bool" where
  "wire_ok (WVarint v) = (v < 2 ^ 77)"
| "wire_ok (WFixed64 b) = (length b = 8)"
| "wire_ok (WBytes b) = (length b < 2 ^ 77)"
| "wire_ok (WFixed32 b) = (length b = 4)"

fun wire_field :: "nat \<times> wire_value \<Rightarrow> bytes" where
  "wire_field (k, WVarint v) = to_varint (8 * k) @ to_varint v"
| "wire_field (k, WFixed64 b) = to_varint (8 * k + 1) @ b"
| "wire_field (k, WBytes b) = to_varint (8 * k + 2) @ to_varint (length b) @ b"
| "wire_field (k, WFixed32 b) = to_varint (8 * k + 5) @ b"

fun read_value :: "(nat \<Rightarrow> string) \<Rightarrow> nat \<Rightarrow> wire_value \<Rightarrow> raw_value" where
  "read_value name depth (WVarint v) = raw_number v"
| "read_value name depth (WFixed64 b) = fixed64_value b"
| "read_value name depth (WBytes b) = length_delimited name depth b"
| "read_value name depth (WFixed32 b) = fixed32_value b"

lemma low_bits: "unat ((b :: 8 word) AND 0x7F) = unat b mod 128"
proof -
  have "b AND 0x7F = take_bit 7 b" by (simp add: take_bit_eq_mask mask_eq_exp_minus_1)
  moreover have "unat (take_bit 7 b) = take_bit 7 (unat b)" by (rule unsigned_take_bit_eq)
  ultimately show ?thesis by (simp only: take_bit_eq_mod) simp
qed

lemma high_bit: "(b :: 8 word) AND 0x80 = 0 \<longleftrightarrow> unat b < 128"
proof -
  have "b AND 2 ^ 7 = 0 \<longleftrightarrow> \<not> bit b 7" by (rule and_exp_eq_0_iff_not_bit)
  moreover have "bit b 7 \<longleftrightarrow> bit (unat b) 7" by (simp add: bit_unsigned_iff)
  moreover have "unat b div 128 = (if unat b < 128 then 0 else 1)"
    using byte_unat_lt [of b] by (simp add: div_nat_eqI)
  then have "bit (unat b) 7 \<longleftrightarrow> \<not> unat b < 128" by (simp add: bit_iff_odd)
  ultimately show ?thesis by simp
qed

lemma or_shifted:
  assumes "r < 2 ^ s"
  shows "r OR push_bit s x = r + 2 ^ s * (x :: nat)"
proof -
  have r: "take_bit s r = r" using assms by (simp add: take_bit_nat_eq_self_iff)
  have "\<not> bit (r AND push_bit s x) n" for n
    using bit_take_bit_iff [of s r n] unfolding r by (auto simp: bit_and_iff bit_push_bit_iff)
  then have "r AND push_bit s x = 0" by (simp add: bit_eq_iff)
  then show ?thesis by (simp add: push_bit_eq_mult mult.commute flip: disjunctive_add_eq_or)
qed

lemma shifted_sum: "r + p * a + 128 * p * b = r + p * (a + 128 * (b :: nat))"
  by (simp add: algebra_simps)

lemma varint_from_written:
  assumes "r < 2 ^ (7 * k)" "k \<le> 10" "n < 2 ^ (77 - 7 * k)"
  shows "varint_from r (7 * k) (to_varint n @ rest) = Inr (r + 2 ^ (7 * k) * n, rest)"
  using assms
proof (induction n arbitrary: r k rule: to_varint.induct)
  case (1 n)
  show ?case
  proof (cases "n < 128")
    case True
    then have "varint_from r (7 * k) (to_varint n @ rest) = Inr (r OR push_bit (7 * k) n, rest)"
      by (simp add: to_varint.simps [of n] low_bits high_bit)
    then show ?thesis using 1(2) by (simp add: or_shifted)
  next
    case False
    have k: "k < 10"
      using 1(3,4) False by (cases "k = 10") simp_all
    let ?r = "r + 2 ^ (7 * k) * (n mod 128)"
    have "2 ^ (7 * k) * (n mod 128) \<le> 2 ^ (7 * k) * (127 :: nat)" by (rule mult_le_mono2) simp
    then have "?r < 2 ^ (7 * k) * 128" using 1(2) by linarith
    then have r: "?r < 2 ^ (7 * Suc k)" by (simp add: power_add mult.commute)
    have "77 - 7 * k = (77 - 7 * Suc k) + 7" using k by simp
    then have "n < 2 ^ (77 - 7 * Suc k) * 128" using 1(4) by (simp only: power_add) simp
    then have n: "n div 128 < 2 ^ (77 - 7 * Suc k)" by (rule less_mult_imp_div_less)
    have "varint_from r (7 * k) (to_varint n @ rest) = varint_from ?r (7 * Suc k) (to_varint (n div 128) @ rest)"
      using False k by (simp add: to_varint.simps [of n] low_bits high_bit or_shifted [OF 1(2)] add.commute
          del: of_nat_add)
    also have "\<dots> = Inr (?r + 2 ^ (7 * Suc k) * (n div 128), rest)" using k by (intro 1(1) [OF False r _ n]) simp
    also have "?r + 2 ^ (7 * Suc k) * (n div 128) = r + 2 ^ (7 * k) * (n mod 128 + 128 * (n div 128))"
      using shifted_sum [of r "2 ^ (7 * k)" "n mod 128" "n div 128"] by (simp only: mult_Suc_right power_add) simp
    finally show ?thesis by simp
  qed
qed

lemma varint_written [simp]: "n < 2 ^ 77 \<Longrightarrow> varint (to_varint n @ rest) = Inr (n, rest)"
  using varint_from_written [of 0 0 n rest] by (simp add: varint_def)

lemma take_bytes_append [simp]: "take_bytes (length b) (b @ rest) = Inr (b, rest)"
  by (simp add: take_bytes_def)

lemma to_varint_not_Nil [simp]: "to_varint n \<noteq> []"
  by (subst to_varint.simps) simp

lemma parse_key:
  assumes "0 < k" "w < 8" "8 * k + w < 2 ^ 77"
  shows "parse_fields name depth (to_varint (8 * k + w) @ r1) out =
    (if w = 0 then (case varint r1 of Inl e \<Rightarrow> Inl e
       | Inr (v, r2) \<Rightarrow> parse_fields name depth r2 (add_field (name k) (raw_number v) out))
     else if w = 1 then (case take_bytes 8 r1 of Inl e \<Rightarrow> Inl e
       | Inr (b, r2) \<Rightarrow> parse_fields name depth r2 (add_field (name k) (fixed64_value b) out))
     else if w = 2 then (case varint r1 of Inl e \<Rightarrow> Inl e
       | Inr (n, r2) \<Rightarrow> (case take_bytes n r2 of Inl e \<Rightarrow> Inl e
         | Inr (b, r3) \<Rightarrow> parse_fields name depth r3 (add_field (name k) (length_delimited name depth b) out)))
     else if w = 5 then (case take_bytes 4 r1 of Inl e \<Rightarrow> Inl e
       | Inr (b, r2) \<Rightarrow> parse_fields name depth r2 (add_field (name k) (fixed32_value b) out))
     else Inl (WireType w))"
proof -
  have "(8 * k + w) div 8 = k" "(8 * k + w) mod 8 = w" using assms(2) by simp_all
  then show ?thesis using assms(1,3)
    by (subst parse_fields.simps) (simp only: append_is_Nil_conv to_varint_not_Nil varint_written sum.case
      prod.case Let_def simp_thms if_False, simp)
qed

lemma parse_one_field:
  assumes "0 < k" "8 * k + 5 < 2 ^ 77" "wire_ok w"
  shows "parse_fields name depth (wire_field (k, w) @ rest) out =
    parse_fields name depth rest (add_field (name k) (read_value name depth w) out)"
proof (cases w)
  case (WVarint v)
  then show ?thesis using assms parse_key [of k 0] by simp
next
  case (WFixed64 b)
  then have "take_bytes 8 (b @ rest) = Inr (b, rest)" using assms take_bytes_append [of b rest] by simp
  then show ?thesis using assms WFixed64 parse_key [of k 1] by simp
next
  case (WBytes b)
  then show ?thesis using assms parse_key [of k 2] by simp
next
  case (WFixed32 b)
  then have "take_bytes 4 (b @ rest) = Inr (b, rest)" using assms take_bytes_append [of b rest] by simp
  then show ?thesis using assms WFixed32 parse_key [of k 5] by simp
qed

definition read_fields :: "(nat \<Rightarrow> string) \<Rightarrow> nat \<Rightarrow> (nat \<times> wire_value) list \<Rightarrow> raw_message" where
  "read_fields name depth fs = fold (\<lambda>(k, w). add_field (name k) (read_value name depth w)) fs []"

lemma parse_written:
  assumes "\<forall>(k, w) \<in> set fs. 0 < k \<and> 8 * k + 5 < 2 ^ 77 \<and> wire_ok w"
  shows "parse_fields name depth (concat (map wire_field fs)) out =
    Inr (fold (\<lambda>(k, w). add_field (name k) (read_value name depth w)) fs out)"
  using assms
proof (induction fs arbitrary: out)
  case (Cons f fs)
  obtain k w where f: "f = (k, w)" by (cases f)
  then show ?case using Cons by (simp add: parse_one_field)
qed (simp add: parse_fields.simps)

lemma add_field_not_Nil [simp]: "add_field k v out \<noteq> []"
  by (auto simp: add_field_def split: option.split raw_value.split)

subsection \<open>What a decoded message looks like\<close>

fun raw_shape :: "nat \<Rightarrow> raw_value \<Rightarrow> bool" and one_shape :: "nat \<Rightarrow> raw_value \<Rightarrow> bool" where
  "raw_shape d (RawList vs) = (length vs \<ge> 2 \<and> list_all (one_shape d) vs)"
| "raw_shape d v = one_shape d v"
| "one_shape d (RawList vs) = False"
| "one_shape d (RawMsg m) = (d > 0 \<and> m \<noteq> [] \<and> jm_wf m \<and> list_all (\<lambda>(k, v). raw_shape (d - 1) v) m)"
| "one_shape d _ = True"

definition message_shape :: "nat \<Rightarrow> raw_message \<Rightarrow> bool" where
  "message_shape d m = (jm_wf m \<and> list_all (\<lambda>(k, v). raw_shape d v) m)"

lemma one_raw_shape: "one_shape d v \<Longrightarrow> raw_shape d v"
  by (cases v) simp_all

lemma message_shape_get: "message_shape d m \<Longrightarrow> jm_get m k = Some v \<Longrightarrow> raw_shape d v"
  by (auto simp: message_shape_def list_all_iff dest!: map_of_SomeD)

lemma message_shape_set: "message_shape d m \<Longrightarrow> raw_shape d v \<Longrightarrow> message_shape d (jm_set k v m)"
  using set_update_subset [of k v m] by (auto simp: message_shape_def list_all_iff)

lemma message_shape_add: "message_shape d m \<Longrightarrow> one_shape d v \<Longrightarrow> message_shape d (add_field k v m)"
  by (auto simp: add_field_def one_raw_shape intro!: message_shape_set dest: message_shape_get
      split: option.split raw_value.split)

lemma number_shapes [simp]: "one_shape d (raw_number v)" "one_shape d (fixed64_value b)" "one_shape d (fixed32_value b)"
  by (simp_all add: raw_number_def fixed64_value_def fixed32_value_def Let_def split: option.split)

text \<open>One round of the loop of \<open>parse\<close>: it adds a value of the bytes it consumed and goes on.\<close>

lemma parse_round:
  assumes "parse_fields name depth bs out = Inr m" "bs \<noteq> []"
  obtains key v rest where "parse_fields name depth rest (add_field key v out) = Inr m" "length rest < length bs"
    "(\<forall>d. one_shape d v) \<or> (\<exists>b. v = length_delimited name depth b \<and> length b < length bs)"
proof -
  obtain key r1 where key: "varint bs = Inr (key, r1)" "0 < key div 8"
    using assms by (subst (asm) parse_fields.simps) (auto simp: Let_def split: if_splits sum.splits)
  note step = assms(1) [unfolded parse_fields.simps [of name depth bs]]
  note r1 = varint_shrinks [OF key(1)]
  have "key mod 8 = 0 \<or> key mod 8 = 1 \<or> key mod 8 = 2 \<or> key mod 8 = 5"
    using step assms(2) key by (auto simp: Let_def split: if_splits)
  then consider "key mod 8 = 0" | "key mod 8 = 1" | "key mod 8 = 2" | "key mod 8 = 5" by fast
  then show thesis
  proof cases
    case 1
    then show ?thesis using step assms(2) key r1
      by (auto split: sum.splits dest!: varint_shrinks intro!: that [of _ _ "raw_number _"])
  next
    case 2
    then show ?thesis using step assms(2) key r1
      by (auto split: sum.splits dest!: take_bytes_length intro!: that [of _ _ "fixed64_value _"])
  next
    case 3
    then obtain n r2 where n: "varint r1 = Inr (n, r2)"
      using step assms(2) key by (auto split: sum.splits)
    then obtain b r3 where b: "take_bytes n r2 = Inr (b, r3)"
      using step assms(2) key 3 by (auto split: sum.splits)
    show ?thesis using step assms(2) key r1 3 n b varint_shrinks [OF n] take_bytes_length [OF b]
      by (intro that [of r3 "name (key div 8)" "length_delimited name depth b"]) auto
  next
    case 4
    then show ?thesis using step assms(2) key r1
      by (auto split: sum.splits dest!: take_bytes_length intro!: that [of _ _ "fixed32_value _"])
  qed
qed

lemma delimited_shape:
  assumes "\<And>m. parse_fields name (depth + 1) bs [] = Inr m \<Longrightarrow> message_shape (12 - (depth + 1)) m"
  shows "one_shape (12 - depth) (length_delimited name depth bs)"
proof (cases "if bs \<noteq> [] \<and> depth < 12 then try_parse name (depth + 1) bs else None")
  case (Some m)
  then have "depth < 12" "bs \<noteq> []" "try_parse name (depth + 1) bs = Some m" by (simp_all split: if_splits)
  then have "parse_fields name (depth + 1) bs [] = Inr m" "m \<noteq> []"
    by (auto simp: try_parse.simps split: sum.splits list.splits)
  then show ?thesis using assms [of m] \<open>depth < 12\<close> \<open>bs \<noteq> []\<close> \<open>try_parse name (depth + 1) bs = Some m\<close>
    by (subst length_delimited.simps) (auto simp: message_shape_def split: option.split)
next
  case None
  then show ?thesis unfolding length_delimited.simps [of name depth bs] by (simp only: option.case) (simp split: option.split)
qed

lemma parsed_shape:
  "parse_fields name depth bs out = Inr m \<Longrightarrow> message_shape (12 - depth) out \<Longrightarrow> message_shape (12 - depth) m"
proof (induction "length bs" arbitrary: bs depth out m rule: less_induct)
  case less
  show ?case
  proof (cases "bs = []")
    case True
    then show ?thesis using less.prems by (simp add: parse_fields.simps)
  next
    case False
    from less.prems(1) False obtain key v rest where
      go: "parse_fields name depth rest (add_field key v out) = Inr m" "length rest < length bs" and
      v: "(\<forall>d. one_shape d v) \<or> (\<exists>b. v = length_delimited name depth b \<and> length b < length bs)"
      by (rule parse_round)
    have "one_shape (12 - depth) v"
    proof (cases "\<forall>d. one_shape d v")
      case False
      then obtain b where b: "v = length_delimited name depth b" "length b < length bs" using v by blast
      have "message_shape (12 - (depth + 1)) []" by (simp add: message_shape_def)
      then show ?thesis unfolding b(1) by (intro delimited_shape) (rule less.hyps [OF b(2)])
    qed blast
    then show ?thesis using less.hyps [OF go(2,1)] message_shape_add less.prems(2) by blast
  qed
qed

text \<open>Whatever the bytes are, what comes back is shown as a tree of bounded depth: at most thirteen
  messages inside each other, none of them empty, every field once, and a list only where a field
  was there twice, never inside a list.\<close>

theorem decoded_shape:
  "case decode_raw name bs of None \<Rightarrow> True | Some m \<Rightarrow> one_shape 13 (RawMsg m)"
proof (cases "decode_raw name bs")
  case (Some m)
  then have "parse_fields name 0 bs [] = Inr m" "m \<noteq> []"
    by (auto simp: decode_raw_def try_parse.simps split: sum.splits list.splits)
  then show ?thesis using parsed_shape [of name 0 bs "[]" m] Some by (simp add: message_shape_def)
qed simp

subsection \<open>Reading back\<close>

definition values_of :: "(nat \<Rightarrow> string) \<Rightarrow> nat \<Rightarrow> string \<Rightarrow> (nat \<times> wire_value) list \<Rightarrow> raw_value list" where
  "values_of name depth key fs = map (\<lambda>(k, w). read_value name depth w) (filter (\<lambda>(k, w). name k = key) fs)"

fun gathered :: "raw_value list \<Rightarrow> raw_value option" where
  "gathered [] = None"
| "gathered [v] = Some v"
| "gathered vs = Some (RawList vs)"

lemma gathered_snoc:
  assumes "\<forall>v \<in> set vs. one_shape d v"
  shows "gathered (vs @ [v]) = (case gathered vs of None \<Rightarrow> Some v
     | Some (RawList ws) \<Rightarrow> Some (RawList (ws @ [v])) | Some w \<Rightarrow> Some (RawList [w, v]))"
  using assms by (cases vs rule: gathered.cases) (auto split: raw_value.split)

lemma jm_get_add: "jm_get (add_field key v out) k = (if k = key
    then (case jm_get out key of None \<Rightarrow> Some v | Some (RawList ws) \<Rightarrow> Some (RawList (ws @ [v]))
      | Some w \<Rightarrow> Some (RawList [w, v])) else jm_get out k)"
  by (simp add: add_field_def split: option.split raw_value.split)

lemma message_shape_empty [simp]: "message_shape d []"
  by (simp add: message_shape_def)

lemma read_value_shape: "one_shape (12 - depth) (read_value name depth w)"
proof (cases w)
  case (WBytes b)
  have "one_shape (12 - depth) (length_delimited name depth b)"
    by (rule delimited_shape) (erule parsed_shape, simp)
  then show ?thesis using WBytes by simp
qed simp_all

lemma read_fields_snoc: "read_fields name depth (fs @ [(k, w)]) =
    add_field (name k) (read_value name depth w) (read_fields name depth fs)"
  by (simp add: read_fields_def)

lemma read_fields_get: "jm_get (read_fields name depth fs) key = gathered (values_of name depth key fs)"
proof (induction fs rule: rev_induct)
  case (snoc f fs)
  have "\<forall>v \<in> set (values_of name depth key fs). one_shape (12 - depth) v"
    by (auto simp: values_of_def read_value_shape)
  moreover obtain k w where f: "f = (k, w)" by (cases f)
  ultimately show ?case
    using snoc gathered_snoc by (auto simp: read_fields_snoc jm_get_add values_of_def)
qed (simp add: read_fields_def values_of_def)

lemma read_fields_shape: "message_shape (12 - depth) (read_fields name depth fs)"
proof (induction fs rule: rev_induct)
  case (snoc f fs)
  then show ?case by (cases f) (simp add: read_fields_snoc message_shape_add read_value_shape)
qed (simp add: read_fields_def)

lemma count_set:
  assumes "jm_wf m"
  shows "count_fields (jm_set k v m) + (case jm_get m k of None \<Rightarrow> 0 | Some w \<Rightarrow> count_value w) =
    count_fields m + count_value v"
  using assms by (induction m) (auto simp: count_fields_def map_of_eq_None_iff[symmetric] split: option.split)

lemma one_shape_count: "one_shape d v \<Longrightarrow> count_value v = count_one v"
  by (cases v) simp_all

lemma count_add:
  assumes m: "message_shape d m" and v: "one_shape d v"
  shows "count_fields (add_field k v m) = count_fields m + count_one v"
proof -
  have wf: "jm_wf m" using m by (simp add: message_shape_def)
  note cv = one_shape_count [OF v]
  show ?thesis
  proof (cases "jm_get m k")
    case None
    then show ?thesis using count_set [OF wf, of k v] cv by (simp add: add_field_def)
  next
    case (Some w)
    show ?thesis
    proof (cases "\<exists>ws. w = RawList ws")
      case True
      then obtain ws where "w = RawList ws" ..
      then show ?thesis using Some count_set [OF wf, of k "RawList (ws @ [v])"] by (simp add: add_field_def)
    next
      case False
      then have "add_field k v m = jm_set k (RawList [w, v]) m" "count_value w = count_one w"
        using Some by (cases w; simp add: add_field_def)+
      then show ?thesis using Some count_set [OF wf, of k "RawList [w, v]"] by simp
    qed
  qed
qed

lemma read_fields_count:
  "count_fields (read_fields name depth fs) = sum_list (map (\<lambda>(k, w). count_one (read_value name depth w)) fs)"
proof (induction fs rule: rev_induct)
  case (snoc f fs)
  then show ?case
    by (cases f) (simp add: read_fields_snoc count_add [OF read_fields_shape] read_value_shape)
qed (simp add: read_fields_def count_fields_def)

text \<open>C40: What an encoder writes is read back: each number has the values written under it, in their order,
  a list where there are several, and the count is every field and every field inside one.\<close>

theorem written_fields_decoded:
  assumes "fs \<noteq> []" "\<forall>(k, w) \<in> set fs. 0 < k \<and> 8 * k + 5 < 2 ^ 77 \<and> wire_ok w"
  shows "\<exists>m. decode_raw name (concat (map wire_field fs)) = Some m \<and>
    (\<forall>key. jm_get m key = gathered (values_of name 0 key fs)) \<and>
    count_fields m = sum_list (map (\<lambda>(k, w). count_one (read_value name 0 w)) fs)"
proof -
  have "read_fields name 0 fs \<noteq> []"
    using assms(1) by (cases fs rule: rev_cases) (auto simp: read_fields_def)
  then have "decode_raw name (concat (map wire_field fs)) = Some (read_fields name 0 fs)"
    using parse_written [OF assms(2), of name 0 "[]"]
    by (auto simp: decode_raw_def try_parse.simps read_fields_def split: list.split)
  then show ?thesis by (simp add: read_fields_get read_fields_count)
qed

lemma written_fields_witness:
  "\<exists>m. decode_raw nat_str (concat (map wire_field [(1, WVarint 300), (1, WVarint (2 ^ 60)), (2, WBytes [byte 104, byte 105])])) = Some m \<and>
    jm_get m ''1'' = Some (RawList [RawNum 300, RawText (points (nat_str (2 ^ 60)))]) \<and>
    jm_get m ''2'' = Some (RawText (points ''hi'')) \<and> count_fields m = 3"
proof -
  let ?fs = "[(1, WVarint 300), (1, WVarint (2 ^ 60)), (2, WBytes [byte 104, byte 105])] :: (nat \<times> wire_value) list"
  have name: "nat_str 1 = ''1''" "nat_str 2 = ''2''" 
    using char_of_char [where 'a = nat, of "CHR ''1''"] char_of_char [where 'a = nat, of "CHR ''2''"]
    by (simp_all add: nat_str.simps digit_char_def)
  have ok: "\<forall>(k, w) \<in> set ?fs. 0 < k \<and> 8 * k + 5 < 2 ^ 77 \<and> wire_ok w" by simp
  have "text_of [104, 105] = Some (points ''hi'')"
    by (simp add: text_of_def utf8_decode_def printable_def points_def)
  then have hi: "length_delimited nat_str 0 [104, 105] = RawText (points ''hi'')"
    by (simp add: length_delimited.simps)
  obtain m where "decode_raw nat_str (concat (map wire_field ?fs)) = Some m"
    and get: "\<And>key. jm_get m key = gathered (values_of nat_str 0 key ?fs)"
    and "count_fields m = sum_list (map (\<lambda>(k, w). count_one (read_value nat_str 0 w)) ?fs)"
    using written_fields_decoded [of ?fs nat_str, OF _ ok] by auto
  moreover have "jm_get m ''1'' = Some (RawList [RawNum 300, RawText (points (nat_str (2 ^ 60)))])"
    "jm_get m ''2'' = Some (RawText (points ''hi''))"
    unfolding get by (simp_all add: values_of_def name hi raw_number_def del: One_nat_def)
  ultimately show ?thesis by (intro exI [of _ m]) (simp add: hi raw_number_def)
qed

end
