(* ===== verification/RelationsLayout.thy ===== *)
theory RelationsLayout
  imports JetStream
begin

text \<open>
  The picture of the streams and what they copy from (\<open>components/jetstream/relationsLayout.ts\<close>): the
  upstreams of a stream, its column, the cards, the chips left of them and the links.

  A coordinate is a rational. \<open>localeCompare\<close> is the argument \<open>compare\<close>, \<open>toFixed(1)\<close> the argument
  \<open>fixed\<close>. The middle a stream is pulled to is infinite where nothing it copies from has a card yet,
  which is \<open>None\<close>.
\<close>

subsection \<open>Sizes\<close>

definition card_w :: rat where "card_w = 232"
definition col_gap :: rat where "col_gap = 120"
definition row_gap :: rat where "row_gap = 22"
definition chip_w :: rat where "chip_w = 180"
definition chip_h :: rat where "chip_h = 22"
definition chip_gap :: rat where "chip_gap = 6"
definition margin :: rat where "margin = 20"
definition header_h :: rat where "header_h = 50"
definition consumer_row_h :: rat where "consumer_row_h = 20"
definition max_consumer_rows :: nat where "max_consumer_rows = 5"
definition max_subject_chips :: nat where "max_subject_chips = 4"

lemmas sizes = card_w_def col_gap_def row_gap_def chip_w_def chip_h_def chip_gap_def margin_def header_h_def
  consumer_row_h_def max_consumer_rows_def max_subject_chips_def

definition card_height :: "nat \<Rightarrow> bool \<Rightarrow> rat" where
  "card_height consumers republish = (let rows = min consumers max_consumer_rows + (if consumers > max_consumer_rows then 1 else 0) in
     header_h + (if rows \<noteq> 0 then of_nat rows * consumer_row_h + 8 else 0) + (if republish then consumer_row_h else 0))"

subsection \<open>Upstreams\<close>

datatype card_kind = PlainStream | KvStream | ObjectStream

definition stream_kind :: "string \<Rightarrow> card_kind" where
  "stream_kind name = (if starts_with name ''KV_'' then KvStream else if starts_with name ''OBJ_'' then ObjectStream else PlainStream)"

record upstream =
  up_name :: string
  up_kind :: source_kind
  up_external :: "string option"
  up_lag :: "int option"

definition upstream_of :: "string list \<Rightarrow> source_kind \<Rightarrow> stream_source \<Rightarrow> upstream" where
  "upstream_of known kind src = (let foreign = (if truthy (src_domain src) then src_domain src else src_external_api src) in
     \<lparr>up_name = src_name src, up_kind = kind,
      up_external = (if truthy foreign then foreign
        else if src_name src \<notin> set known then Some ''not listed'' else None),
      up_lag = src_lag src\<rparr>)"

definition upstreams_of :: "string list \<Rightarrow> stream_info \<Rightarrow> upstream list" where
  "upstreams_of known s = (case si_mirror s of Some m \<Rightarrow> [upstream_of known KindMirror m] | None \<Rightarrow> []) @
     map (upstream_of known KindSource) (nullish (si_sources s) [])"

type_synonym upstreams = "(string, upstream list) jsmap"

definition by_name :: "stream_info list \<Rightarrow> (string, stream_info) jsmap" where
  "by_name streams = fold (\<lambda>s. jm_set (si_name s) s) streams []"

definition ups_of :: "stream_info list \<Rightarrow> upstreams" where
  "ups_of streams = fold (\<lambda>s. jm_set (si_name s) (upstreams_of (jm_keys (by_name streams)) s)) streams []"

subsection \<open>Columns\<close>

text \<open>\<open>levelOf\<close>, with the names being visited and the levels found so far; \<open>levels_above\<close> is the loop over
  the upstreams of one stream. A name that has no entry has no upstream.\<close>

function (sequential)
  level_of :: "upstreams \<Rightarrow> string list \<Rightarrow> string \<Rightarrow> (string, nat) jsmap \<Rightarrow> nat \<times> (string, nat) jsmap" and
  levels_above :: "upstreams \<Rightarrow> string list \<Rightarrow> upstream list \<Rightarrow> nat \<Rightarrow> (string, nat) jsmap \<Rightarrow> nat \<times> (string, nat) jsmap" where
  "level_of ups visiting name levels = (case jm_get levels name of
     Some l \<Rightarrow> (l, levels)
   | None \<Rightarrow> if name \<in> set visiting then (1, levels)
       else (case jm_get ups name of
         None \<Rightarrow> (1, jm_set name 1 levels)
       | Some us \<Rightarrow> (case levels_above ups (name # visiting) us 1 levels of
           (l, levels') \<Rightarrow> (l, jm_set name l levels'))))"
| "levels_above ups visiting [] l levels = (l, levels)"
| "levels_above ups visiting (u # us) l levels = (if up_external u \<noteq> None then levels_above ups visiting us l levels
     else (case level_of ups visiting (up_name u) levels of
       (lu, levels') \<Rightarrow> levels_above ups visiting us (max l (lu + 1)) levels'))"
  by pat_completeness auto
termination
proof (relation "measures [\<lambda>x. case x of
      Inl (ups, visiting, _, _) \<Rightarrow> card (fst ` set ups - set visiting)
    | Inr (ups, visiting, _, _, _) \<Rightarrow> card (fst ` set ups - set visiting),
    \<lambda>x. case x of Inl _ \<Rightarrow> 0 | Inr (_, _, us, _, _) \<Rightarrow> Suc (length us)]")
  fix ups :: upstreams and visiting name us and levels :: "(string, nat) jsmap"
  assume "name \<notin> set visiting" "jm_get ups name = Some us"
  then have "name \<in> fst ` set ups - set visiting" by (force dest: map_of_SomeD)
  then have "card (fst ` set ups - insert name (set visiting)) < card (fst ` set ups - set visiting)"
    by (subst Diff_insert) (intro card_Diff1_less; simp)
  then show "(Inr (ups, name # visiting, us, 1, levels), Inl (ups, visiting, name, levels))
    \<in> measures [\<lambda>x. case x of
      Inl (ups, visiting, _, _) \<Rightarrow> card (fst ` set ups - set visiting)
    | Inr (ups, visiting, _, _, _) \<Rightarrow> card (fst ` set ups - set visiting),
    \<lambda>x. case x of Inl _ \<Rightarrow> 0 | Inr (_, _, us, _, _) \<Rightarrow> Suc (length us)]"
    by simp
qed auto

declare level_of.simps [simp del]

definition stream_levels :: "stream_info list \<Rightarrow> (string, nat) jsmap" where
  "stream_levels streams = fold (\<lambda>s levels. snd (level_of (ups_of streams) [] (si_name s) levels)) streams []"

definition max_level :: "(string, nat) jsmap \<Rightarrow> nat" where
  "max_level levels = fold max (jm_values levels) 1"

subsection \<open>Cards\<close>

record laid_card =
  lc_name :: string
  lc_kind :: card_kind
  lc_level :: nat
  lc_x :: rat
  lc_y :: rat
  lc_h :: rat
  lc_stream :: stream_info
  lc_consumers :: "consumer_info list"

definition left_edge :: "bool \<Rightarrow> stream_info list \<Rightarrow> upstreams \<Rightarrow> rat" where
  "left_edge subjects streams ups = margin +
     (if subjects \<or> list_ex (\<lambda>s. list_ex (\<lambda>u. up_external u \<noteq> None) (nullish (jm_get ups (si_name s)) [])) streams
      then chip_w + col_gap else 0)"

definition col_x :: "rat \<Rightarrow> nat \<Rightarrow> rat" where
  "col_x left l = left + (of_nat l - 1) * (card_w + col_gap)"

definition center :: "upstreams \<Rightarrow> (string, laid_card) jsmap \<Rightarrow> string \<Rightarrow> rat option" where
  "center ups placed name = (let ys = map (\<lambda>c. lc_y c + lc_h c / 2)
       (List.map_filter (\<lambda>u. jm_get placed (up_name u)) (nullish (jm_get ups name) [])) in
     if ys = [] then None else Some (sum_list ys / of_nat (length ys)))"

definition by_center :: "(string \<Rightarrow> string \<Rightarrow> int) \<Rightarrow> (string \<Rightarrow> rat option) \<Rightarrow> string \<Rightarrow> string \<Rightarrow> int" where
  "by_center compare mid a b = (case (mid a, mid b) of
     (Some x, Some y) \<Rightarrow> if x - y \<noteq> 0 then (if x < y then - 1 else 1) else compare a b
   | _ \<Rightarrow> compare a b)"

text \<open>The variables of the loop over the columns; \<open>cs_y\<close> is the next free place of the column.\<close>

record column_state =
  cs_cards :: "laid_card list"
  cs_card_of :: "(string, laid_card) jsmap"
  cs_y :: rat
  cs_bottom :: rat

definition place_card ::
    "stream_info list \<Rightarrow> (string, consumer_info list) jsmap \<Rightarrow> upstreams \<Rightarrow> rat \<Rightarrow> nat \<Rightarrow> string \<Rightarrow> column_state \<Rightarrow> column_state" where
  "place_card streams consumers ups left l name st = (case jm_get (by_name streams) name of
     None \<Rightarrow> st
   | Some s \<Rightarrow>
     let cs = nullish (jm_get consumers name) [];
         h = card_height (length cs) (si_republish s \<noteq> None);
         y = (case center ups (cs_card_of st) name of Some want \<Rightarrow> max (cs_y st) (want - h / 2) | None \<Rightarrow> cs_y st);
         c = \<lparr>lc_name = name, lc_kind = stream_kind name, lc_level = l, lc_x = col_x left l, lc_y = y, lc_h = h,
              lc_stream = s, lc_consumers = cs\<rparr> in
     \<lparr>cs_cards = cs_cards st @ [c], cs_card_of = jm_set name c (cs_card_of st), cs_y = y + h + row_gap,
      cs_bottom = max (cs_bottom st) (y + h)\<rparr>)"

definition place_column ::
    "(string \<Rightarrow> string \<Rightarrow> int) \<Rightarrow> stream_info list \<Rightarrow> (string, consumer_info list) jsmap \<Rightarrow> upstreams \<Rightarrow>
     (string, nat) jsmap \<Rightarrow> rat \<Rightarrow> nat \<Rightarrow> column_state \<Rightarrow> column_state" where
  "place_column compare streams consumers ups levels left l st =
     (let names = map si_name (filter (\<lambda>s. jm_get levels (si_name s) = Some l) streams) in
      fold (place_card streams consumers ups left l)
        (js_sort (by_center compare (center ups (cs_card_of st))) names) (st\<lparr>cs_y := margin\<rparr>))"

definition place_columns ::
    "(string \<Rightarrow> string \<Rightarrow> int) \<Rightarrow> stream_info list \<Rightarrow> (string, consumer_info list) jsmap \<Rightarrow> rat \<Rightarrow> column_state" where
  "place_columns compare streams consumers left = (let levels = stream_levels streams in
     fold (place_column compare streams consumers (ups_of streams) levels left) [1..<Suc (max_level levels)]
       \<lparr>cs_cards = [], cs_card_of = [], cs_y = margin, cs_bottom = margin\<rparr>)"

subsection \<open>Chips\<close>

datatype chip_kind = SubjectChip | ExternalChip | MoreChip

record laid_chip =
  ch_id :: string
  ch_kind :: chip_kind
  ch_label :: string
  ch_detail :: "string option"
  ch_x :: rat
  ch_y :: rat

definition anchor_y :: "laid_card \<Rightarrow> rat" where
  "anchor_y c = lc_y c + 18"

definition by_place :: "laid_card \<Rightarrow> laid_card \<Rightarrow> int" where
  "by_place a b = (if lc_y a - lc_y b \<noteq> 0 then (if lc_y a < lc_y b then - 1 else 1)
     else if lc_x a < lc_x b then - 1 else if lc_x a = lc_x b then 0 else 1)"

definition subject_id :: "string \<Rightarrow> string" where
  "subject_id subj = ''subject:'' @ subj"

definition more_id :: "string \<Rightarrow> string" where
  "more_id name = ''more:'' @ name"

definition external_id :: "upstream \<Rightarrow> string" where
  "external_id u = ''external:'' @ up_name u @ '':'' @ nullish (up_external u) []"

definition card_chips :: "bool \<Rightarrow> upstreams \<Rightarrow> laid_card \<Rightarrow> laid_chip list" where
  "card_chips subjects ups c = (let subs = si_subjects (lc_stream c) in
     (if subjects then map (\<lambda>subj. \<lparr>ch_id = subject_id subj, ch_kind = SubjectChip, ch_label = subj,
          ch_detail = Some (lc_name c), ch_x = margin, ch_y = 0\<rparr>) (take max_subject_chips subs) @
        (if length subs > max_subject_chips then [\<lparr>ch_id = more_id (lc_name c), ch_kind = MoreChip,
            ch_label = ''+'' @ nat_str (length subs - max_subject_chips) @ '' more'', ch_detail = Some (lc_name c),
            ch_x = margin, ch_y = 0\<rparr>] else [])
      else []) @
     map (\<lambda>u. \<lparr>ch_id = external_id u, ch_kind = ExternalChip, ch_label = up_name u, ch_detail = up_external u,
        ch_x = margin, ch_y = 0\<rparr>) (filter (\<lambda>u. up_external u \<noteq> None) (nullish (jm_get ups (lc_name c)) [])))"

definition place_chip :: "laid_chip \<Rightarrow> laid_chip list \<times> rat \<Rightarrow> laid_chip list \<times> rat" where
  "place_chip item st = (case st of (chips, y) \<Rightarrow>
     if list_ex (\<lambda>c. ch_id c = ch_id item) chips then (chips, y)
     else (chips @ [item\<lparr>ch_y := y\<rparr>], y + (chip_h + chip_gap)))"

text \<open>The chips so far, the next free place and the bottom of the picture.\<close>

definition place_chips :: "bool \<Rightarrow> upstreams \<Rightarrow> laid_card \<Rightarrow> laid_chip list \<times> rat \<times> rat \<Rightarrow> laid_chip list \<times> rat \<times> rat" where
  "place_chips subjects ups c st = (case st of (chips, free, bottom) \<Rightarrow>
     let items = card_chips subjects ups c in
     if items = [] then st
     else (case fold place_chip items (chips, max free (anchor_y c - chip_h / 2)) of
       (chips', y) \<Rightarrow> (chips', y + row_gap / 2, max bottom y)))"

definition all_chips :: "bool \<Rightarrow> upstreams \<Rightarrow> laid_card list \<Rightarrow> rat \<Rightarrow> laid_chip list \<times> rat \<times> rat" where
  "all_chips subjects ups cards bottom = fold (place_chips subjects ups) (js_sort by_place cards) ([], margin, bottom)"

subsection \<open>Links\<close>

datatype link_kind = SubjectLink | CopyLink source_kind

record laid_link =
  lk_key :: string
  lk_kind :: link_kind
  lk_from :: string
  lk_to :: string
  lk_d :: string
  lk_lag :: "int option"
  lk_mx :: rat
  lk_my :: rat

definition curve :: "(rat \<Rightarrow> string) \<Rightarrow> rat \<Rightarrow> rat \<Rightarrow> rat \<Rightarrow> rat \<Rightarrow> string" where
  "curve fixed x1 y1 x2 y2 = (let dx = max 30 ((x2 - x1) / 2) in
     ''M'' @ fixed x1 @ '','' @ fixed y1 @ '' C'' @ fixed (x1 + dx) @ '','' @ fixed y1 @ '' '' @
     fixed (x2 - dx) @ '','' @ fixed y2 @ '' '' @ fixed x2 @ '','' @ fixed y2)"

definition subject_link :: "(rat \<Rightarrow> string) \<Rightarrow> (string, laid_chip) jsmap \<Rightarrow> laid_card \<Rightarrow> string \<Rightarrow> laid_link list" where
  "subject_link fixed chips c ident = (case jm_get chips ident of None \<Rightarrow> []
     | Some chip \<Rightarrow>
       let x1 = ch_x chip + chip_w; y1 = ch_y chip + chip_h / 2; x2 = lc_x c; y2 = anchor_y c in
       [\<lparr>lk_key = ident @ ''->'' @ lc_name c, lk_kind = SubjectLink, lk_from = ident, lk_to = lc_name c,
         lk_d = curve fixed x1 y1 x2 y2, lk_lag = None, lk_mx = (x1 + x2) / 2, lk_my = (y1 + y2) / 2\<rparr>])"

definition kind_name :: "source_kind \<Rightarrow> string" where
  "kind_name k = (case k of KindMirror \<Rightarrow> ''mirror'' | KindSource \<Rightarrow> ''source'')"

definition copy_link ::
    "(rat \<Rightarrow> string) \<Rightarrow> (string, laid_card) jsmap \<Rightarrow> (string, laid_chip) jsmap \<Rightarrow> laid_card \<Rightarrow> nat \<times> upstream \<Rightarrow> laid_link list" where
  "copy_link fixed placed chips c iu = (case iu of (i, u) \<Rightarrow>
     let from_card = (if up_external u \<noteq> None then None else jm_get placed (up_name u));
         chip = (if up_external u \<noteq> None then jm_get chips (external_id u) else None);
         x2 = lc_x c; y2 = anchor_y c + of_nat i * 6;
         link = (\<lambda>from x1 y1. \<lparr>lk_key = kind_name (up_kind u) @ '':'' @ up_name u @ ''->'' @ lc_name c,
            lk_kind = CopyLink (up_kind u), lk_from = from, lk_to = lc_name c, lk_d = curve fixed x1 y1 x2 y2,
            lk_lag = up_lag u, lk_mx = (x1 + x2) / 2, lk_my = (y1 + y2) / 2\<rparr>) in
     (case (from_card, chip) of
        (Some f, _) \<Rightarrow> [link (up_name u) (lc_x f + card_w) (anchor_y f)]
      | (None, Some ch) \<Rightarrow> [link (ch_id ch) (ch_x ch + chip_w) (ch_y ch + chip_h / 2)]
      | (None, None) \<Rightarrow> []))"

definition card_links ::
    "(rat \<Rightarrow> string) \<Rightarrow> bool \<Rightarrow> upstreams \<Rightarrow> (string, laid_card) jsmap \<Rightarrow> (string, laid_chip) jsmap \<Rightarrow> laid_card \<Rightarrow> laid_link list" where
  "card_links fixed subjects ups placed chips c = (let subs = si_subjects (lc_stream c);
       incoming = (if subjects then map subject_id (take max_subject_chips subs) else []) @
         (if subjects \<and> length subs > max_subject_chips then [more_id (lc_name c)] else []) in
     concat (map (subject_link fixed chips c) incoming) @
     concat (map (copy_link fixed placed chips c) (List.enumerate 0 (nullish (jm_get ups (lc_name c)) []))))"

record relations_layout =
  rl_width :: rat
  rl_height :: rat
  rl_cards :: "laid_card list"
  rl_chips :: "laid_chip list"
  rl_links :: "laid_link list"

definition chip_by_id :: "laid_chip list \<Rightarrow> (string, laid_chip) jsmap" where
  "chip_by_id chips = fold (\<lambda>c. jm_set (ch_id c) c) chips []"

definition layout_relations ::
    "(string \<Rightarrow> string \<Rightarrow> int) \<Rightarrow> (rat \<Rightarrow> string) \<Rightarrow> stream_info list \<Rightarrow> (string, consumer_info list) jsmap \<Rightarrow> bool \<Rightarrow>
     relations_layout" where
  "layout_relations compare fixed streams consumers subjects = (let
       ups = ups_of streams;
       left = left_edge subjects streams ups;
       st = place_columns compare streams consumers left;
       (chips, free, bottom) = all_chips subjects ups (cs_cards st) (cs_bottom st);
       links = concat (map (card_links fixed subjects ups (cs_card_of st) (chip_by_id chips)) (cs_cards st)) in
     \<lparr>rl_width = max (col_x left (max_level (stream_levels streams)) + card_w + margin) 360,
      rl_height = bottom + margin, rl_cards = cs_cards st, rl_chips = chips, rl_links = links\<rparr>)"

subsection \<open>Levels\<close>

definition extends :: "string list \<Rightarrow> (string, nat) jsmap \<Rightarrow> (string, nat) jsmap \<Rightarrow> bool" where
  "extends visiting levels levels' \<longleftrightarrow> (\<forall>n k. jm_get levels n = Some k \<longrightarrow> jm_get levels' n = Some k) \<and>
     (\<forall>v \<in> set visiting. jm_get levels v = None \<longrightarrow> jm_get levels' v = None)"

lemma extends_refl [simp]: "extends visiting levels levels"
  by (simp add: extends_def)

lemma extends_trans: "extends visiting a b \<Longrightarrow> extends visiting b c \<Longrightarrow> extends visiting a c"
  by (auto simp: extends_def)

lemma extends_set:
  "extends (name # visiting) levels levels' \<Longrightarrow> jm_get levels name = None \<Longrightarrow> name \<notin> set visiting \<Longrightarrow>
   extends visiting levels (jm_set name l levels')"
  by (auto simp: extends_def)

lemma level_extends:
  "extends visiting levels (snd (level_of ups visiting name levels))"
  "extends visiting levels (snd (levels_above ups visiting us l levels))"
proof (induction ups visiting name levels and ups visiting us l levels rule: level_of_levels_above.induct)
  case (1 ups visiting name levels)
  then show ?case
    by (subst level_of.simps)
      (force split: option.split prod.split intro: extends_set [OF extends_refl] intro!: extends_set)
next
  case (3 ups visiting u us l levels)
  then show ?case by (auto split: prod.split intro: extends_trans)
qed simp

lemma level_found: "jm_get levels n = Some k \<Longrightarrow> jm_get (snd (level_of ups visiting name levels)) n = Some k"
  using level_extends(1) [of visiting levels ups name] by (simp add: extends_def)

lemma level_found_above: "jm_get levels n = Some k \<Longrightarrow> jm_get (snd (levels_above ups visiting us l levels)) n = Some k"
  using level_extends(2) [of visiting levels ups us l] by (simp add: extends_def)

lemma level_set:
  "name \<notin> set visiting \<Longrightarrow> jm_get (snd (level_of ups visiting name levels)) name = Some (fst (level_of ups visiting name levels))"
  by (subst (1 2) level_of.simps) (auto split: option.split prod.split)

text \<open>Every level is at least 1.\<close>

definition positive :: "(string, nat) jsmap \<Rightarrow> bool" where
  "positive levels = list_all (\<lambda>(n, l). 1 \<le> l) levels"

lemma positive_set: "positive levels \<Longrightarrow> 1 \<le> l \<Longrightarrow> positive (jm_set n l levels)"
  using set_update_subset [of n l levels] by (auto simp: positive_def list_all_iff)

lemma positive_get: "positive levels \<Longrightarrow> jm_get levels n = Some l \<Longrightarrow> 1 \<le> l"
  by (auto simp: positive_def list_all_iff dest!: map_of_SomeD)

lemma level_positive:
  "positive levels \<Longrightarrow> positive (snd (level_of ups visiting name levels)) \<and> 1 \<le> fst (level_of ups visiting name levels)"
  "positive levels \<Longrightarrow> 1 \<le> l \<Longrightarrow>
    positive (snd (levels_above ups visiting us l levels)) \<and> 1 \<le> fst (levels_above ups visiting us l levels)"
proof (induction ups visiting name levels and ups visiting us l levels rule: level_of_levels_above.induct)
  case (1 ups visiting name levels)
  then show ?case
    by (subst (1 2) level_of.simps)
      (auto split: option.splits prod.splits simp: positive_set dest: positive_get)
next
  case (3 ups visiting u us l levels)
  then show ?case by (auto split: prod.splits)
qed simp

text \<open>Where nothing copies from itself by a chain of streams, a level is one more than the deepest
  level above it.\<close>

definition internal :: "upstream list \<Rightarrow> upstream list" where
  "internal us = filter (\<lambda>u. up_external u = None) us"

definition deepest :: "(string, nat) jsmap \<Rightarrow> upstream list \<Rightarrow> nat \<Rightarrow> nat" where
  "deepest levels us l = fold (\<lambda>u. max (the (jm_get levels (up_name u)) + 1)) (internal us) l"

definition solved :: "upstreams \<Rightarrow> (string, nat) jsmap \<Rightarrow> bool" where
  "solved ups levels \<longleftrightarrow> (\<forall>n l us. jm_get levels n = Some l \<and> jm_get ups n = Some us \<longrightarrow>
     (\<forall>u \<in> set (internal us). jm_get levels (up_name u) \<noteq> None) \<and> l = deepest levels us 1)"

definition ranked :: "upstreams \<Rightarrow> (string \<Rightarrow> nat) \<Rightarrow> bool" where
  "ranked ups rank \<longleftrightarrow> (\<forall>n us. jm_get ups n = Some us \<longrightarrow> (\<forall>u \<in> set (internal us). rank (up_name u) < rank n))"

lemma deepest_cong:
  "(\<And>u. u \<in> set (internal us) \<Longrightarrow> jm_get levels' (up_name u) = jm_get levels (up_name u)) \<Longrightarrow> deepest levels' us l = deepest levels us l"
  unfolding deepest_def by (intro fold_cong) simp_all

lemma solved_set:
  assumes "solved ups levels" "jm_get levels name = None"
    "\<And>us. jm_get ups name = Some us \<Longrightarrow>
       (\<forall>u \<in> set (internal us). jm_get levels (up_name u) \<noteq> None) \<and> l = deepest levels us 1"
  shows "solved ups (jm_set name l levels)"
proof -
  have keep: "deepest (jm_set name l levels) us' 1 = deepest levels us' 1"
    if "\<forall>u \<in> set (internal us'). jm_get levels (up_name u) \<noteq> None" for us'
    using that assms(2) by (intro deepest_cong) force
  show ?thesis unfolding solved_def
  proof (intro allI impI)
    fix n k us' assume n: "jm_get (jm_set name l levels) n = Some k \<and> jm_get ups n = Some us'"
    have "(\<forall>u \<in> set (internal us'). jm_get levels (up_name u) \<noteq> None) \<and> k = deepest levels us' 1"
      using assms n by (cases "n = name") (auto simp: solved_def)
    then show "(\<forall>u \<in> set (internal us'). jm_get (jm_set name l levels) (up_name u) \<noteq> None) \<and>
        k = deepest (jm_set name l levels) us' 1" using keep by auto
  qed
qed

lemma deepest_step [simp]:
  "deepest levels (u # us) l = (if up_external u = None
     then deepest levels us (max l (the (jm_get levels (up_name u)) + 1)) else deepest levels us l)"
  "deepest levels [] l = l"
  by (simp_all add: deepest_def internal_def max.commute)

lemma level_solved:
  "solved ups levels \<Longrightarrow> \<forall>v \<in> set visiting. rank name < rank v \<Longrightarrow> ranked ups rank \<Longrightarrow>
    solved ups (snd (level_of ups visiting name levels))"
  "solved ups levels \<Longrightarrow> \<forall>u \<in> set (internal us). \<forall>v \<in> set visiting. rank (up_name u) < rank v \<Longrightarrow> ranked ups rank \<Longrightarrow>
    solved ups (snd (levels_above ups visiting us l levels)) \<and>
    (\<forall>u \<in> set (internal us). jm_get (snd (levels_above ups visiting us l levels)) (up_name u) \<noteq> None) \<and>
    fst (levels_above ups visiting us l levels) = deepest (snd (levels_above ups visiting us l levels)) us l"
proof (induction ups visiting name levels and ups visiting us l levels rule: level_of_levels_above.induct)
  case (1 ups visiting name levels)
  show ?case
  proof (cases "jm_get levels name = None \<and> name \<notin> set visiting")
    case fresh: True
    show ?thesis
    proof (cases "jm_get ups name")
      case None
      then show ?thesis using fresh "1.prems" solved_set [of ups levels name 1] by (subst level_of.simps) simp
    next
      case (Some us)
      obtain l levels' where above: "levels_above ups (name # visiting) us 1 levels = (l, levels')"
        by (cases "levels_above ups (name # visiting) us 1 levels")
      have "\<forall>u \<in> set (internal us). rank (up_name u) < rank name"
        using "1.prems"(3) Some by (auto simp: ranked_def)
      then have "\<forall>u \<in> set (internal us). \<forall>v \<in> set (name # visiting). rank (up_name u) < rank v"
        using "1.prems"(2) by (auto intro: less_trans)
      note IH = "1.IH" [OF _ _ Some "1.prems"(1) this "1.prems"(3)]
      have "jm_get levels' name = None"
        using level_extends(2) [of "name # visiting" levels ups us 1] fresh above by (auto simp: extends_def)
      then have "solved ups (jm_set name l levels')" using IH fresh above Some by (intro solved_set) auto
      then show ?thesis using fresh Some above by (subst level_of.simps) simp
    qed
  next
    case False
    then show ?thesis using "1.prems" by (subst level_of.simps) (auto split: option.split)
  qed
next
  case (3 ups visiting u us l levels)
  show ?case
  proof (cases "up_external u = None")
    case True
    obtain lu levels' where lu: "level_of ups visiting (up_name u) levels = (lu, levels')"
      by (cases "level_of ups visiting (up_name u) levels")
    have prem: "\<forall>v \<in> set visiting. rank (up_name u) < rank v"
      "\<forall>u \<in> set (internal us). \<forall>v \<in> set visiting. rank (up_name u) < rank v"
      using "3.prems"(2) True by (simp_all add: internal_def)
    have "solved ups levels'" using "3.IH"(2) [OF _ "3.prems"(1) prem(1) "3.prems"(3)] True lu by simp
    note above = "3.IH"(3) [OF _ lu [symmetric] this prem(2) "3.prems"(3)]
    have "up_name u \<notin> set visiting" using prem(1) by blast
    then have "jm_get levels' (up_name u) = Some lu" using level_set [of "up_name u" visiting ups levels] lu by simp
    then have "jm_get (snd (levels_above ups visiting us (max l (lu + 1)) levels')) (up_name u) = Some lu"
      by (rule level_found_above)
    then show ?thesis using above True lu by (auto simp: internal_def)
  next
    case False
    then have i: "internal (u # us) = internal us" by (simp add: internal_def)
    then have "\<forall>u \<in> set (internal us). \<forall>v \<in> set visiting. rank (up_name u) < rank v" using "3.prems"(2) by simp
    note IH = "3.IH"(1) [OF False "3.prems"(1) this "3.prems"(3)]
    from False obtain e where "up_external u = Some e" by blast
    then show ?thesis using IH i by simp
  qed
qed (simp_all add: internal_def)

lemma levels_kept:
  "jm_get levels n = Some k \<Longrightarrow> jm_get (fold (\<lambda>s levels. snd (level_of ups [] (si_name s) levels)) streams levels) n = Some k"
  by (induction streams arbitrary: levels) (simp_all add: level_found)

lemma stream_has_level: "s \<in> set streams \<Longrightarrow> jm_get (stream_levels streams) (si_name s) \<noteq> None"
proof -
  have "s \<in> set xs \<Longrightarrow> jm_get (fold (\<lambda>s levels. snd (level_of ups [] (si_name s) levels)) xs levels) (si_name s) \<noteq> None"
    for xs ups levels
    using level_set [of _ "[]" ups] levels_kept by (induction xs arbitrary: levels) fastforce+
  then show "s \<in> set streams \<Longrightarrow> ?thesis" by (simp add: stream_levels_def)
qed

lemma stream_levels_positive: "positive (stream_levels streams)"
  unfolding stream_levels_def
  by (rule fold_invariant [where Q = "\<lambda>_. True"]) (simp_all add: level_positive positive_def [of "[]"])

lemma stream_levels_solved: "ranked (ups_of streams) rank \<Longrightarrow> solved (ups_of streams) (stream_levels streams)"
  unfolding stream_levels_def
  by (rule fold_invariant [where Q = "\<lambda>_. True"]) (simp_all add: level_solved solved_def [of _ "[]"])

lemma level_max:
  assumes "jm_get levels n = Some k"
  shows "k \<le> max_level levels"
proof -
  have "(n, k) \<in> set levels" using assms by (rule map_of_SomeD)
  then have "k \<in> set (jm_values levels)" by (simp add: rev_image_eqI)
  then show ?thesis unfolding max_level_def by (rule fold_max_ge)
qed

lemma deepest_mono: "l \<le> deepest levels us l"
proof (induction us arbitrary: l)
  case (Cons u us)
  from Cons [of "max l (the (jm_get levels (up_name u)) + 1)"] Cons [of l] show ?case by (auto simp del: max.bounded_iff dest: max.boundedE)
qed simp

lemma deepest_ge:
  assumes "u \<in> set us" "up_external u = None"
  shows "the (jm_get levels (up_name u)) < deepest levels us l"
  using assms(1)
proof (induction us arbitrary: l)
  case (Cons u' us)
  show ?case
  proof (cases "u' = u")
    case True
    have "max l (the (jm_get levels (up_name u)) + 1) \<le> deepest levels us (max l (the (jm_get levels (up_name u)) + 1))"
      by (rule deepest_mono)
    then show ?thesis using assms(2) True by simp
  qed (use Cons in simp)
qed simp

subsection \<open>Names\<close>

lemma fold_set_get:
  "jm_get (fold (\<lambda>s. jm_set (f s) (g s)) xs m) k = Some v \<Longrightarrow>
    (\<exists>s \<in> set xs. f s = k \<and> g s = v) \<or> (k \<notin> f ` set xs \<and> jm_get m k = Some v)"
  by (induction xs arbitrary: m) (force split: if_splits)+

lemma fold_set_keys: "fst ` set (fold (\<lambda>s. jm_set (f s) (g s)) xs m) = f ` set xs \<union> fst ` set m"
  by (induction xs arbitrary: m) auto

lemma by_name_get: "jm_get (by_name streams) n = Some s \<Longrightarrow> s \<in> set streams \<and> si_name s = n"
  using fold_set_get [of si_name "\<lambda>s. s" streams "[]" n s] by (auto simp: by_name_def)

lemma by_name_keys: "set (jm_keys (by_name streams)) = si_name ` set streams"
  using fold_set_keys [of si_name "\<lambda>s. s" streams "[]"] by (simp add: by_name_def)

lemma by_name_has: "s \<in> set streams \<Longrightarrow> jm_get (by_name streams) (si_name s) \<noteq> None"
  using by_name_keys [of streams] by (auto simp: map_of_eq_None_iff)

lemma ups_get:
  "jm_get (ups_of streams) n = Some us \<Longrightarrow>
    \<exists>s \<in> set streams. si_name s = n \<and> us = upstreams_of (jm_keys (by_name streams)) s"
  using fold_set_get [of si_name "upstreams_of (jm_keys (by_name streams))" streams "[]" n us] by (auto simp: ups_of_def)

lemma internal_known:
  "u \<in> set (upstreams_of known s) \<Longrightarrow> up_external u = None \<Longrightarrow> up_name u \<in> set known"
  by (auto simp: upstreams_of_def upstream_of_def Let_def truthy_def split: option.splits if_splits)

text \<open>No stream copies from itself, through others or not: a rank falls along every copy.\<close>

definition acyclic_copies :: "(string \<Rightarrow> nat) \<Rightarrow> stream_info list \<Rightarrow> bool" where
  "acyclic_copies rank streams = list_all (\<lambda>s. list_all (\<lambda>u. up_external u = None \<longrightarrow> rank (up_name u) < rank (si_name s))
     (upstreams_of (map si_name streams) s)) streams"

lemma upstreams_cong: "set known = set known' \<Longrightarrow> upstreams_of known s = upstreams_of known' s"
proof -
  assume "set known = set known'"
  then have "upstream_of known = upstream_of known'" by (simp add: fun_eq_iff upstream_of_def)
  then show ?thesis by (simp add: upstreams_of_def split: option.split)
qed

lemma acyclic_ranked: "acyclic_copies rank streams \<Longrightarrow> ranked (ups_of streams) rank"
  using by_name_keys [of streams] upstreams_cong [of "jm_keys (by_name streams)" "map si_name streams"]
  by (fastforce simp: acyclic_copies_def ranked_def list_all_iff internal_def dest!: ups_get)

subsection \<open>Cards stand apart\<close>

definition apart :: "laid_card \<Rightarrow> laid_card \<Rightarrow> bool" where
  "apart a b \<longleftrightarrow> lc_x a + card_w + col_gap \<le> lc_x b \<or>
     (lc_x a = lc_x b \<and> lc_y a + lc_h a + row_gap \<le> lc_y b)"

definition card_ok :: "stream_info list \<Rightarrow> (string, consumer_info list) jsmap \<Rightarrow> (string, nat) jsmap \<Rightarrow> rat \<Rightarrow> laid_card \<Rightarrow> bool" where
  "card_ok streams consumers levels left c \<longleftrightarrow>
     jm_get (by_name streams) (lc_name c) = Some (lc_stream c) \<and> lc_kind c = stream_kind (lc_name c) \<and>
     lc_consumers c = nullish (jm_get consumers (lc_name c)) [] \<and>
     lc_h c = card_height (length (lc_consumers c)) (si_republish (lc_stream c) \<noteq> None) \<and>
     jm_get levels (lc_name c) = Some (lc_level c) \<and> lc_x c = col_x left (lc_level c) \<and> margin \<le> lc_y c"

text \<open>While column \<open>l\<close> is filled: what is left of it, and what is above the next free place.\<close>

definition column_ok ::
    "stream_info list \<Rightarrow> (string, consumer_info list) jsmap \<Rightarrow> (string, nat) jsmap \<Rightarrow> rat \<Rightarrow> nat \<Rightarrow> column_state \<Rightarrow> bool" where
  "column_ok streams consumers levels left l st \<longleftrightarrow>
     sorted_wrt apart (cs_cards st) \<and> margin \<le> cs_y st \<and> margin \<le> cs_bottom st \<and>
     (\<forall>c \<in> set (cs_cards st). card_ok streams consumers levels left c \<and> lc_y c + lc_h c \<le> cs_bottom st \<and>
        (lc_level c < l \<or> (lc_level c = l \<and> lc_y c + lc_h c + row_gap \<le> cs_y st))) \<and>
     (\<forall>n c. jm_get (cs_card_of st) n = Some c \<longrightarrow> c \<in> set (cs_cards st) \<and> lc_name c = n) \<and>
     fst ` set (cs_card_of st) = lc_name ` set (cs_cards st)"

lemma card_height_positive: "0 < card_height n r"
  by (simp add: card_height_def Let_def sizes add_pos_nonneg)

lemma col_x_less: "k < l \<Longrightarrow> col_x left k + card_w + col_gap \<le> col_x left l"
proof -
  assume "k < l"
  then have "of_nat k + 1 \<le> (of_nat l :: rat)" by (metis Suc_leI of_nat_Suc of_nat_le_iff add.commute)
  then show ?thesis by (simp add: col_x_def sizes algebra_simps)
qed

lemma place_card_ok:
  assumes ok: "column_ok streams consumers levels left l st" and n: "jm_get levels name = Some l"
  shows "column_ok streams consumers levels left l (place_card streams consumers ups left l name st)"
proof (cases "jm_get (by_name streams) name")
  case None
  then show ?thesis using ok by (simp add: place_card_def)
next
  case (Some s)
  define cs where "cs = nullish (jm_get consumers name) []"
  define h where "h = card_height (length cs) (si_republish s \<noteq> None)"
  define y where "y = (case center ups (cs_card_of st) name of Some want \<Rightarrow> max (cs_y st) (want - h / 2) | None \<Rightarrow> cs_y st)"
  define c where "c = \<lparr>lc_name = name, lc_kind = stream_kind name, lc_level = l, lc_x = col_x left l, lc_y = y, lc_h = h,
              lc_stream = s, lc_consumers = cs\<rparr>"
  have st': "place_card streams consumers ups left l name st =
      \<lparr>cs_cards = cs_cards st @ [c], cs_card_of = jm_set name c (cs_card_of st), cs_y = y + h + row_gap,
       cs_bottom = max (cs_bottom st) (y + h)\<rparr>"
    by (simp only: place_card_def Some option.case Let_def c_def y_def h_def cs_def)
  have y: "cs_y st \<le> y" by (simp add: y_def split: option.split)
  have h: "0 < h" by (simp add: h_def card_height_positive)
  have c: "card_ok streams consumers levels left c"
    using ok y Some n by (simp add: card_ok_def c_def cs_def h_def column_ok_def)
  have "apart a c" if "a \<in> set (cs_cards st)" for a
  proof -
    have a: "lc_x a = col_x left (lc_level a)" "lc_level a < l \<or> (lc_level a = l \<and> lc_y a + lc_h a + row_gap \<le> cs_y st)"
      using ok that by (auto simp: column_ok_def card_ok_def)
    then show ?thesis using col_x_less [of "lc_level a" l left] y by (auto simp: apart_def c_def)
  qed
  then have sorted: "sorted_wrt apart (cs_cards st @ [c])"
    using ok by (simp add: column_ok_def sorted_wrt_append)
  have c_fields: "lc_name c = name" "lc_level c = l" "lc_y c = y" "lc_h c = h" by (simp_all add: c_def)
  have cards: "card_ok streams consumers levels left a \<and> lc_y a + lc_h a \<le> max (cs_bottom st) (y + h) \<and>
      (lc_level a < l \<or> (lc_level a = l \<and> lc_y a + lc_h a + row_gap \<le> y + h + row_gap))"
    if a: "a \<in> set (cs_cards st @ [c])" for a
  proof (cases "a \<in> set (cs_cards st)")
    case True
    then have "card_ok streams consumers levels left a" "lc_y a + lc_h a \<le> cs_bottom st"
      "lc_level a < l \<or> (lc_level a = l \<and> lc_y a + lc_h a + row_gap \<le> cs_y st)"
      using ok by (simp_all add: column_ok_def)
    then show ?thesis using y h by (auto simp: le_max_iff_disj row_gap_def)
  next
    case False
    then have "a = c" using a by simp
    then show ?thesis using c c_fields by simp
  qed
  have bounds: "margin \<le> y + h + row_gap" "margin \<le> max (cs_bottom st) (y + h)"
    using ok y h by (simp_all add: column_ok_def sizes le_max_iff_disj)
  have keys: "fst ` set (jm_set name c (cs_card_of st)) = lc_name ` set (cs_cards st @ [c])"
    using ok c_fields by (simp add: column_ok_def)
  have found: "\<forall>n d. jm_get (jm_set name c (cs_card_of st)) n = Some d \<longrightarrow> d \<in> set (cs_cards st @ [c]) \<and> lc_name d = n"
    using ok c_fields by (simp add: column_ok_def)
  show ?thesis unfolding st' column_ok_def column_state.select_convs
    using cards by (intro conjI ballI sorted bounds keys found) blast+
qed

lemma fold_place_cards:
  "column_ok streams consumers levels left l st \<Longrightarrow> \<forall>n \<in> set names. jm_get levels n = Some l \<Longrightarrow>
    column_ok streams consumers levels left l (fold (place_card streams consumers ups left l) names st)"
  by (induction names arbitrary: st) (simp_all add: place_card_ok)

lemma placed_cards:
  "\<exists>new. cs_cards (fold (place_card streams consumers ups left l) names st) = cs_cards st @ new \<and>
     map lc_name new = filter (\<lambda>n. jm_get (by_name streams) n \<noteq> None) names"
proof (induction names arbitrary: st)
  case (Cons n names)
  obtain new where "cs_cards (fold (place_card streams consumers ups left l) names (place_card streams consumers ups left l n st)) =
      cs_cards (place_card streams consumers ups left l n st) @ new"
    "map lc_name new = filter (\<lambda>n. jm_get (by_name streams) n \<noteq> None) names"
    using Cons by blast
  moreover have "\<exists>first. cs_cards (place_card streams consumers ups left l n st) = cs_cards st @ first \<and>
      map lc_name first = filter (\<lambda>n. jm_get (by_name streams) n \<noteq> None) [n]"
    by (cases "jm_get (by_name streams) n") (simp_all add: place_card_def Let_def)
  ultimately show ?case by (auto intro!: exI [of _ "_ @ new"])
qed simp

lemma place_column_ok:
  assumes ok: "column_ok streams consumers levels left l st"
  shows "column_ok streams consumers levels left (Suc l) (place_column compare streams consumers ups levels left (Suc l) st)"
proof -
  have "column_ok streams consumers levels left (Suc l) (st\<lparr>cs_y := margin\<rparr>)"
    using ok by (auto simp: column_ok_def less_Suc_eq)
  then show ?thesis by (auto simp: place_column_def Let_def intro!: fold_place_cards)
qed

lemma place_column_has:
  assumes "s \<in> set streams" "jm_get levels (si_name s) = Some l"
  shows "si_name s \<in> lc_name ` set (cs_cards (place_column compare streams consumers ups levels left l st))"
proof -
  let ?names = "js_sort (by_center compare (center ups (cs_card_of st))) (map si_name (filter (\<lambda>s. jm_get levels (si_name s) = Some l) streams))"
  obtain new where new: "cs_cards (place_column compare streams consumers ups levels left l st) = cs_cards st @ new"
    "map lc_name new = filter (\<lambda>n. jm_get (by_name streams) n \<noteq> None) ?names"
    using placed_cards [of streams consumers ups left l ?names "st\<lparr>cs_y := margin\<rparr>"] by (auto simp: place_column_def Let_def)
  have "si_name s \<in> set (map lc_name new)" unfolding new(2) using assms by_name_has [of s streams] by simp
  then show ?thesis using new(1) by auto
qed

lemma place_column_kept:
  assumes "c \<in> set (cs_cards st)"
  shows "c \<in> set (cs_cards (place_column compare streams consumers ups levels left l st))"
proof -
  have "\<exists>new. cs_cards (place_column compare streams consumers ups levels left l st) = cs_cards (st\<lparr>cs_y := margin\<rparr>) @ new"
    unfolding place_column_def Let_def using placed_cards by blast
  then show ?thesis using assms by auto
qed

lemma fold_columns:
  fixes compare streams consumers ups left
  defines "go m \<equiv> fold (place_column compare streams consumers ups (stream_levels streams) left) [1..<Suc m]
     \<lparr>cs_cards = [], cs_card_of = [], cs_y = margin, cs_bottom = margin\<rparr>"
  shows "column_ok streams consumers (stream_levels streams) left m (go m)"
    and "s \<in> set streams \<Longrightarrow> jm_get (stream_levels streams) (si_name s) = Some l \<Longrightarrow> l \<le> m \<Longrightarrow>
      si_name s \<in> lc_name ` set (cs_cards (go m))"
proof (induction m)
  case 0
  {
    case 1
    show ?case by (simp add: go_def column_ok_def)
  next
    case 2
    then show ?case using positive_get [OF stream_levels_positive] by fastforce
  }
next
  case (Suc m)
  have step: "go (Suc m) = place_column compare streams consumers ups (stream_levels streams) left (Suc m) (go m)"
    by (simp add: go_def)
  {
    case 1
    show ?case unfolding step by (rule place_column_ok) (rule Suc.IH)
  next
    case 2
    show ?case
    proof (cases "l = Suc m")
      case True
      then show ?thesis unfolding step using 2 by (auto intro: place_column_has)
    next
      case False
      then show ?thesis unfolding step using Suc.IH(2) [OF 2(1,2)] 2(3) place_column_kept by (force intro: rev_image_eqI)
    qed
  }
qed

lemma place_columns_ok:
  "column_ok streams consumers (stream_levels streams) left (max_level (stream_levels streams))
    (place_columns compare streams consumers left)"
  unfolding place_columns_def Let_def by (rule fold_columns)

lemma place_columns_has:
  assumes "s \<in> set streams"
  shows "si_name s \<in> lc_name ` set (cs_cards (place_columns compare streams consumers left))"
proof -
  obtain l where l: "jm_get (stream_levels streams) (si_name s) = Some l" using stream_has_level [OF assms] by auto
  show ?thesis unfolding place_columns_def Let_def by (rule fold_columns(2) [OF assms l level_max [OF l]])
qed

subsection \<open>Chips stand apart\<close>

definition below :: "laid_chip \<Rightarrow> laid_chip \<Rightarrow> bool" where
  "below a b \<longleftrightarrow> ch_y a + chip_h + chip_gap \<le> ch_y b"

definition chips_ok :: "laid_chip list \<Rightarrow> rat \<Rightarrow> bool" where
  "chips_ok chips y \<longleftrightarrow> sorted_wrt below chips \<and> distinct (map ch_id chips) \<and> margin \<le> y \<and>
     (\<forall>c \<in> set chips. ch_x c = margin \<and> margin \<le> ch_y c \<and> ch_y c + chip_h + chip_gap \<le> y)"

lemma chips_ok_mono: "chips_ok chips y \<Longrightarrow> y \<le> y' \<Longrightarrow> chips_ok chips y'"
  unfolding chips_ok_def by (meson order_trans)

lemma place_chip_ok:
  assumes "chips_ok chips y" "ch_x item = margin"
  shows "case place_chip item (chips, y) of (chips', y') \<Rightarrow> chips_ok chips' y' \<and> y \<le> y' \<and>
    ch_id ` set chips' = insert (ch_id item) (ch_id ` set chips)"
proof (cases "list_ex (\<lambda>c. ch_id c = ch_id item) chips")
  case True
  then obtain c where "c \<in> set chips" "ch_id c = ch_id item" by (auto simp: list_ex_iff)
  then have "ch_id item \<in> ch_id ` set chips" by (metis imageI)
  then show ?thesis using assms True by (auto simp: place_chip_def)
next
  case False
  then have "ch_id item \<notin> ch_id ` set chips" by (auto simp: list_ex_iff)
  moreover have "margin \<le> y + (chip_h + chip_gap)" "y \<le> y + (chip_h + chip_gap)"
    using assms(1) by (simp_all add: chips_ok_def sizes)
  moreover have "ch_y c + chip_h + chip_gap \<le> y + (chip_h + chip_gap)" if "c \<in> set chips" for c
    using assms(1) that by (fastforce simp: chips_ok_def sizes)
  ultimately show ?thesis using assms False
    by (simp add: place_chip_def chips_ok_def sorted_wrt_append below_def)
qed

lemma fold_place_chip_ok:
  assumes "chips_ok chips y" "\<forall>item \<in> set items. ch_x item = margin"
  shows "case fold place_chip items (chips, y) of (chips', y') \<Rightarrow> chips_ok chips' y' \<and> y \<le> y' \<and>
    ch_id ` set chips' = ch_id ` set items \<union> ch_id ` set chips"
  using assms
proof (induction items arbitrary: chips y)
  case (Cons item items)
  obtain chips1 y1 where one: "place_chip item (chips, y) = (chips1, y1)" by (cases "place_chip item (chips, y)")
  obtain chips2 y2 where two: "fold place_chip items (chips1, y1) = (chips2, y2)"
    by (cases "fold place_chip items (chips1, y1)")
  have "chips_ok chips1 y1 \<and> y \<le> y1 \<and> ch_id ` set chips1 = insert (ch_id item) (ch_id ` set chips)"
    using place_chip_ok [of chips y item] Cons.prems one by simp
  then show ?case using Cons.IH [of chips1 y1] Cons.prems(2) one two by auto
qed simp

lemma card_chips_x: "item \<in> set (card_chips subjects ups c) \<Longrightarrow> ch_x item = margin"
  by (auto simp: card_chips_def Let_def split: if_splits)

definition picture_ok :: "laid_chip list \<times> rat \<times> rat \<Rightarrow> bool" where
  "picture_ok st \<longleftrightarrow> (case st of (chips, free, bottom) \<Rightarrow> chips_ok chips free \<and>
     (\<forall>c \<in> set chips. ch_y c + chip_h + chip_gap \<le> bottom))"

lemma place_chips_ok:
  assumes "picture_ok st"
  shows "picture_ok (place_chips subjects ups c st) \<and> snd (snd st) \<le> snd (snd (place_chips subjects ups c st)) \<and>
    ch_id ` set (fst (place_chips subjects ups c st)) = ch_id ` set (card_chips subjects ups c) \<union> ch_id ` set (fst st)"
proof -
  obtain chips free bottom where st: "st = (chips, free, bottom)" by (cases st)
  let ?items = "card_chips subjects ups c"
  let ?y = "max free (anchor_y c - chip_h / 2)"
  obtain chips' y' where go: "fold place_chip ?items (chips, ?y) = (chips', y')"
    by (cases "fold place_chip ?items (chips, ?y)")
  have "chips_ok chips ?y" using assms st chips_ok_mono [of chips free ?y] by (simp add: picture_ok_def)
  then have ok: "chips_ok chips' y' \<and> ch_id ` set chips' = ch_id ` set ?items \<union> ch_id ` set chips"
    using fold_place_chip_ok [of chips ?y ?items] go card_chips_x by auto
  then have "chips_ok chips' (y' + row_gap / 2)" by (auto intro: chips_ok_mono simp: sizes)
  moreover have "ch_y a + chip_h + chip_gap \<le> max bottom y'" if "a \<in> set chips'" for a
    using ok that by (auto simp: chips_ok_def le_max_iff_disj)
  ultimately show ?thesis using assms ok by (simp add: place_chips_def st go picture_ok_def Let_def)
qed

lemma fold_place_chips_ok:
  "picture_ok st \<Longrightarrow> picture_ok (fold (place_chips subjects ups) cards st) \<and>
    snd (snd st) \<le> snd (snd (fold (place_chips subjects ups) cards st)) \<and>
    ch_id ` set (fst (fold (place_chips subjects ups) cards st)) =
      (\<Union>c \<in> set cards. ch_id ` set (card_chips subjects ups c)) \<union> ch_id ` set (fst st)"
proof (induction cards arbitrary: st)
  case (Cons c cards)
  from Cons.IH [of "place_chips subjects ups c st"] place_chips_ok [OF Cons.prems, of subjects ups c] show ?case by auto
qed simp

lemma all_chips_ok:
  assumes "all_chips subjects ups cards bottom = (chips, free, bottom')"
  shows "chips_ok chips free" "\<forall>c \<in> set chips. ch_y c + chip_h + chip_gap \<le> bottom'" "bottom \<le> bottom'"
    "ch_id ` set chips = (\<Union>c \<in> set cards. ch_id ` set (card_chips subjects ups c))"
proof -
  have "picture_ok ([], margin, bottom)" by (simp add: picture_ok_def chips_ok_def)
  note ok = fold_place_chips_ok [OF this, of subjects ups "js_sort by_place cards"]
  from ok show "chips_ok chips free" "\<forall>c \<in> set chips. ch_y c + chip_h + chip_gap \<le> bottom'" "bottom \<le> bottom'"
    "ch_id ` set chips = (\<Union>c \<in> set cards. ch_id ` set (card_chips subjects ups c))"
    using assms by (simp_all add: all_chips_def picture_ok_def)
qed

subsection \<open>The picture\<close>

lemma layout_parts:
  fixes compare fixed streams consumers subjects
  defines "L \<equiv> layout_relations compare fixed streams consumers subjects"
    and "left \<equiv> left_edge subjects streams (ups_of streams)"
    and "levels \<equiv> stream_levels streams"
  defines "st \<equiv> place_columns compare streams consumers left"
  obtains free bottom where "all_chips subjects (ups_of streams) (cs_cards st) (cs_bottom st) = (rl_chips L, free, bottom)"
    "rl_cards L = cs_cards st" "rl_height L = bottom + margin"
    "rl_width L = max (col_x left (max_level levels) + card_w + margin) 360"
    "rl_links L = concat (map (card_links fixed subjects (ups_of streams) (cs_card_of st) (chip_by_id (rl_chips L))) (rl_cards L))"
    "column_ok streams consumers levels left (max_level levels) st"
proof -
  obtain chips free bottom where c: "all_chips subjects (ups_of streams) (cs_cards st) (cs_bottom st) = (chips, free, bottom)"
    by (cases "all_chips subjects (ups_of streams) (cs_cards st) (cs_bottom st)")
  show thesis
    by (rule that [of free bottom])
      (use c place_columns_ok [of streams consumers left compare] in
        \<open>simp_all add: L_def layout_relations_def st_def left_def levels_def Let_def\<close>)
qed

lemma left_edge_chip:
  assumes c: "card_ok streams consumers levels left c" and item: "item \<in> set (card_chips subjects (ups_of streams) c)"
  shows "left_edge subjects streams (ups_of streams) = margin + (chip_w + col_gap)"
proof (cases subjects)
  case False
  then obtain u where "u \<in> set (nullish (jm_get (ups_of streams) (lc_name c)) [])" "up_external u \<noteq> None"
    using item by (auto simp: card_chips_def Let_def)
  moreover have "lc_stream c \<in> set streams" "si_name (lc_stream c) = lc_name c"
    using c by_name_get by (auto simp: card_ok_def)
  ultimately have "list_ex (\<lambda>s. list_ex (\<lambda>u. up_external u \<noteq> None) (nullish (jm_get (ups_of streams) (si_name s)) [])) streams"
    unfolding list_ex_iff by metis
  then show ?thesis by (simp add: left_edge_def)
qed (simp add: left_edge_def)

text \<open>C37: Whatever copies from what: no two cards overlap, no two chips overlap, no chip is drawn twice and
  the chips are left of every card.\<close>

theorem nothing_overlaps:
  "(let L = layout_relations compare fixed streams consumers subjects in
     sorted_wrt apart (rl_cards L) \<and> sorted_wrt below (rl_chips L) \<and> distinct (map ch_id (rl_chips L)) \<and>
     list_all (\<lambda>ch. list_all (\<lambda>c. ch_x ch + chip_w + col_gap \<le> lc_x c) (rl_cards L)) (rl_chips L))"
proof -
  let ?L = "layout_relations compare fixed streams consumers subjects"
  let ?left = "left_edge subjects streams (ups_of streams)"
  let ?st = "place_columns compare streams consumers ?left"
  obtain free bottom where
    chips: "all_chips subjects (ups_of streams) (cs_cards ?st) (cs_bottom ?st) = (rl_chips ?L, free, bottom)" and
    cards: "rl_cards ?L = cs_cards ?st" and
    ok: "column_ok streams consumers (stream_levels streams) ?left (max_level (stream_levels streams)) ?st"
    by (rule layout_parts)
  have each: "card_ok streams consumers (stream_levels streams) ?left c" if "c \<in> set (rl_cards ?L)" for c
    using ok that cards by (simp add: column_ok_def)
  have "ch_x ch + chip_w + col_gap \<le> lc_x c" if "ch \<in> set (rl_chips ?L)" "c \<in> set (rl_cards ?L)" for ch c
  proof -
    have "ch_id ch \<in> ch_id ` set (rl_chips ?L)" using that(1) by blast
    then obtain c' item where item: "c' \<in> set (rl_cards ?L)" "item \<in> set (card_chips subjects (ups_of streams) c')"
      using all_chips_ok(4) [OF chips] cards by auto
    have "1 \<le> lc_level c" using each [OF that(2)] positive_get [OF stream_levels_positive] by (auto simp: card_ok_def)
    then have "?left \<le> lc_x c" using each [OF that(2)] by (simp add: card_ok_def col_x_def sizes)
    then show ?thesis
      using left_edge_chip [OF each [OF item(1)] item(2)] all_chips_ok(1) [OF chips] that(1) by (simp add: chips_ok_def)
  qed
  then show ?thesis using ok all_chips_ok(1) [OF chips] cards by (simp add: Let_def column_ok_def chips_ok_def list_all_iff)
qed

text \<open>Every card and every chip is inside the picture, with the margin around it.\<close>

theorem all_inside:
  "(let L = layout_relations compare fixed streams consumers subjects in
     list_all (\<lambda>c. margin \<le> lc_x c \<and> lc_x c + card_w + margin \<le> rl_width L \<and> margin \<le> lc_y c \<and> lc_y c + lc_h c + margin \<le> rl_height L)
       (rl_cards L) \<and>
     list_all (\<lambda>ch. margin \<le> ch_x ch \<and> ch_x ch + chip_w + margin \<le> rl_width L \<and> margin \<le> ch_y ch \<and> ch_y ch + chip_h + margin \<le> rl_height L)
       (rl_chips L))"
proof -
  let ?L = "layout_relations compare fixed streams consumers subjects"
  let ?left = "left_edge subjects streams (ups_of streams)"
  let ?levels = "stream_levels streams"
  let ?st = "place_columns compare streams consumers ?left"
  obtain free bottom where
    chips: "all_chips subjects (ups_of streams) (cs_cards ?st) (cs_bottom ?st) = (rl_chips ?L, free, bottom)" and
    cards: "rl_cards ?L = cs_cards ?st" and height: "rl_height ?L = bottom + margin" and
    width: "rl_width ?L = max (col_x ?left (max_level ?levels) + card_w + margin) 360" and
    ok: "column_ok streams consumers ?levels ?left (max_level ?levels) ?st"
    by (rule layout_parts)
  have left: "margin \<le> ?left" by (simp add: left_edge_def sizes)
  have "margin \<le> lc_x c \<and> lc_x c + card_w + margin \<le> rl_width ?L \<and> margin \<le> lc_y c \<and> lc_y c + lc_h c + margin \<le> rl_height ?L"
    if c: "c \<in> set (rl_cards ?L)" for c
  proof -
    have each: "card_ok streams consumers ?levels ?left c" "lc_y c + lc_h c \<le> cs_bottom ?st"
      using ok c cards by (simp_all add: column_ok_def)
    then have level: "jm_get ?levels (lc_name c) = Some (lc_level c)" and x: "lc_x c = col_x ?left (lc_level c)"
      and y: "margin \<le> lc_y c" by (simp_all add: card_ok_def)
    have "col_x ?left (lc_level c) \<le> col_x ?left (max_level ?levels)" using level_max [OF level] by (simp add: col_x_def sizes)
    then have "lc_x c + card_w + margin \<le> rl_width ?L" using x width by (simp add: le_max_iff_disj)
    moreover have "1 \<le> lc_level c" using level positive_get [OF stream_levels_positive] by blast
    then have "margin \<le> lc_x c" using left x by (simp add: col_x_def sizes)
    ultimately show ?thesis using y each(2) all_chips_ok(3) [OF chips] height by simp
  qed
  moreover have "margin \<le> ch_x ch \<and> ch_x ch + chip_w + margin \<le> rl_width ?L \<and> margin \<le> ch_y ch \<and> ch_y ch + chip_h + margin \<le> rl_height ?L"
    if "ch \<in> set (rl_chips ?L)" for ch
  proof -
    have "360 \<le> rl_width ?L" using width by simp
    then show ?thesis
      using that all_chips_ok(1,2) [OF chips] height by (fastforce simp: chips_ok_def sizes)
  qed
  ultimately show ?thesis by (simp add: Let_def list_all_iff)
qed

lemma ups_by_name:
  "jm_get (ups_of streams) n = map_option (upstreams_of (jm_keys (by_name streams))) (jm_get (by_name streams) n)"
proof -
  have "jm_get (fold (\<lambda>s. jm_set (si_name s) (f s)) xs (map (\<lambda>(k, s). (k, f s)) m)) n =
      map_option f (jm_get (fold (\<lambda>s. jm_set (si_name s) s) xs m) n)" for f :: "stream_info \<Rightarrow> upstream list" and xs m
  proof (induction xs arbitrary: m)
    case Nil
    show ?case by (induction m) auto
  next
    case (Cons x xs)
    have "jm_set (si_name x) (f x) (map (\<lambda>(k, s). (k, f s)) m) = map (\<lambda>(k, s). (k, f s)) (jm_set (si_name x) x m)"
      by (induction m) auto
    then show ?case using Cons by simp
  qed
  from this [of "upstreams_of (jm_keys (by_name streams))" streams "[]"] show ?thesis
    by (simp add: ups_of_def by_name_def)
qed

definition source_id :: "upstream \<Rightarrow> string" where
  "source_id u = (if up_external u = None then up_name u else external_id u)"

definition copy_drawn :: "laid_link list \<Rightarrow> laid_card \<Rightarrow> upstream \<Rightarrow> bool" where
  "copy_drawn links c u = list_ex (\<lambda>k. lk_kind k = CopyLink (up_kind u) \<and> lk_from k = source_id u \<and> lk_to k = lc_name c \<and>
     lk_lag k = up_lag u) links"

lemma copy_link_drawn:
  assumes "up_external u = None \<Longrightarrow> jm_get placed (up_name u) \<noteq> None"
    and "up_external u \<noteq> None \<Longrightarrow> \<exists>ch. jm_get chips (external_id u) = Some ch \<and> ch_id ch = external_id u"
  shows "\<exists>k. copy_link fixed placed chips c (i, u) = [k] \<and> lk_kind k = CopyLink (up_kind u) \<and> lk_from k = source_id u \<and>
    lk_to k = lc_name c \<and> lk_lag k = up_lag u"
  using assms by (cases "up_external u") (auto simp: copy_link_def source_id_def Let_def)

lemma chip_by_id_get: "ident \<in> ch_id ` set chips \<Longrightarrow> \<exists>ch. jm_get (chip_by_id chips) ident = Some ch \<and> ch_id ch = ident"
proof -
  assume "ident \<in> ch_id ` set chips"
  then have "ident \<in> fst ` set (chip_by_id chips)" by (simp add: chip_by_id_def fold_set_keys)
  then obtain ch where "jm_get (chip_by_id chips) ident = Some ch" by (metis map_of_eq_None_iff not_None_eq)
  moreover from this have "ch_id ch = ident"
    using fold_set_get [of ch_id "\<lambda>c. c" chips "[]" ident ch] by (auto simp: chip_by_id_def)
  ultimately show ?thesis by blast
qed

lemma card_chips_external:
  assumes "u \<in> set (nullish (jm_get ups (lc_name c)) [])" "up_external u \<noteq> None"
  shows "external_id u \<in> ch_id ` set (card_chips subjects ups c)"
proof -
  have "external_id u \<in> external_id ` set (filter (\<lambda>u. up_external u \<noteq> None) (nullish (jm_get ups (lc_name c)) []))"
    using assms by (intro imageI) simp
  then show ?thesis by (simp only: card_chips_def Let_def set_append set_map image_Un image_image laid_chip.select_convs Un_iff simp_thms)
qed

text \<open>Every stream has a card, and every mirror and every source of it a link to that card: from the card
  of the stream it copies, or from the chip of one that is not in the listing.\<close>

theorem every_copy_drawn:
  "(let L = layout_relations compare fixed streams consumers subjects in
     list_all (\<lambda>s. list_ex (\<lambda>c. lc_name c = si_name s) (rl_cards L)) streams \<and>
     list_all (\<lambda>c. list_all (copy_drawn (rl_links L) c) (upstreams_of (map si_name streams) (lc_stream c))) (rl_cards L))"
proof -
  let ?L = "layout_relations compare fixed streams consumers subjects"
  let ?left = "left_edge subjects streams (ups_of streams)"
  let ?levels = "stream_levels streams"
  let ?st = "place_columns compare streams consumers ?left"
  obtain free bottom where
    chips: "all_chips subjects (ups_of streams) (cs_cards ?st) (cs_bottom ?st) = (rl_chips ?L, free, bottom)" and
    cards: "rl_cards ?L = cs_cards ?st" and
    links: "rl_links ?L = concat (map (card_links fixed subjects (ups_of streams) (cs_card_of ?st) (chip_by_id (rl_chips ?L))) (rl_cards ?L))" and
    ok: "column_ok streams consumers ?levels ?left (max_level ?levels) ?st"
    by (rule layout_parts)
  have "copy_drawn (rl_links ?L) c u" if c: "c \<in> set (rl_cards ?L)" and u: "u \<in> set (upstreams_of (map si_name streams) (lc_stream c))" for c u
  proof -
    have known: "set (jm_keys (by_name streams)) = set (map si_name streams)" using by_name_keys [of streams] by simp
    have "card_ok streams consumers ?levels ?left c" using ok c cards by (simp add: column_ok_def)
    then have us: "jm_get (ups_of streams) (lc_name c) = Some (upstreams_of (map si_name streams) (lc_stream c))"
      using upstreams_cong [OF known] by (simp add: ups_by_name card_ok_def)
    have "jm_get (cs_card_of ?st) (up_name u) \<noteq> None" if internal: "up_external u = None"
    proof -
      obtain s where "s \<in> set streams" "si_name s = up_name u" using internal_known [OF u internal] by auto
      then have "up_name u \<in> fst ` set (cs_card_of ?st)"
        using place_columns_has [of s streams compare consumers ?left] ok by (simp add: column_ok_def)
      then show ?thesis by (simp add: map_of_eq_None_iff)
    qed
    moreover have "\<exists>ch. jm_get (chip_by_id (rl_chips ?L)) (external_id u) = Some ch \<and> ch_id ch = external_id u" if "up_external u \<noteq> None"
    proof (rule chip_by_id_get)
      have "external_id u \<in> ch_id ` set (card_chips subjects (ups_of streams) c)"
        using u us that by (intro card_chips_external) simp_all
      then show "external_id u \<in> ch_id ` set (rl_chips ?L)" using all_chips_ok(4) [OF chips] c cards by auto
    qed
    ultimately have drawn: "\<exists>k. copy_link fixed (cs_card_of ?st) (chip_by_id (rl_chips ?L)) c (i, u) = [k] \<and>
        lk_kind k = CopyLink (up_kind u) \<and> lk_from k = source_id u \<and> lk_to k = lc_name c \<and> lk_lag k = up_lag u" for i
      by (rule copy_link_drawn)
    obtain i where i: "(i, u) \<in> set (List.enumerate 0 (upstreams_of (map si_name streams) (lc_stream c)))"
      using u by (auto simp: in_set_enumerate_eq in_set_conv_nth [of u])
    obtain k where k: "(i, u) \<in> set (List.enumerate 0 (upstreams_of (map si_name streams) (lc_stream c)))"
      "copy_link fixed (cs_card_of ?st) (chip_by_id (rl_chips ?L)) c (i, u) = [k]"
      "lk_kind k = CopyLink (up_kind u)" "lk_from k = source_id u" "lk_to k = lc_name c" "lk_lag k = up_lag u"
      using drawn [of i] i by blast
    have "k \<in> set (card_links fixed subjects (ups_of streams) (cs_card_of ?st) (chip_by_id (rl_chips ?L)) c)"
    proof -
      let ?copy = "copy_link fixed (cs_card_of ?st) (chip_by_id (rl_chips ?L)) c"
      have "k \<in> set (?copy (i, u))" using k(2) by simp
      then have "k \<in> set (concat (map ?copy (List.enumerate 0 (upstreams_of (map si_name streams) (lc_stream c)))))"
        unfolding set_concat set_map using k(1) by blast
      then show ?thesis unfolding card_links_def Let_def us nullish_simps set_append by (rule UnI2)
    qed
    then have "k \<in> set (rl_links ?L)" using links c by auto
    then show ?thesis using k by (auto simp: copy_drawn_def list_ex_iff)
  qed
  moreover have "list_ex (\<lambda>c. lc_name c = si_name s) (rl_cards ?L)" if "s \<in> set streams" for s
    using place_columns_has [OF that, of compare consumers ?left] cards by (auto simp: list_ex_iff)
  ultimately show ?thesis by (simp add: Let_def list_all_iff)
qed

text \<open>Where no stream copies from itself through others, a stream is drawn at least a column right of
  every stream it copies from, and exactly one right of the deepest.\<close>

theorem copies_stand_right:
  assumes "acyclic_copies rank streams"
  shows "(let L = layout_relations compare fixed streams consumers subjects in
     list_all (\<lambda>c. let us = filter (\<lambda>u. up_external u = None) (upstreams_of (map si_name streams) (lc_stream c)) in
       list_all (\<lambda>u. list_ex (\<lambda>a. lc_name a = up_name u \<and> lc_x a + card_w + col_gap \<le> lc_x c) (rl_cards L)) us \<and>
       lc_level c = fold (\<lambda>u. max (the (jm_get (stream_levels streams) (up_name u)) + 1)) us 1) (rl_cards L))"
proof -
  let ?L = "layout_relations compare fixed streams consumers subjects"
  let ?left = "left_edge subjects streams (ups_of streams)"
  let ?levels = "stream_levels streams"
  let ?st = "place_columns compare streams consumers ?left"
  obtain free bottom where cards: "rl_cards ?L = cs_cards ?st" and
    ok: "column_ok streams consumers ?levels ?left (max_level ?levels) ?st"
    by (rule layout_parts)
  have solved: "solved (ups_of streams) ?levels" by (rule stream_levels_solved [OF acyclic_ranked [OF assms]])
  have known: "set (jm_keys (by_name streams)) = set (map si_name streams)" using by_name_keys [of streams] by simp
  have each: "card_ok streams consumers ?levels ?left c" if "c \<in> set (rl_cards ?L)" for c
    using ok that cards by (simp add: column_ok_def)
  have "(\<forall>u \<in> set (internal (upstreams_of (map si_name streams) (lc_stream c))).
      \<exists>a \<in> set (rl_cards ?L). lc_name a = up_name u \<and> lc_x a + card_w + col_gap \<le> lc_x c) \<and>
    lc_level c = deepest ?levels (upstreams_of (map si_name streams) (lc_stream c)) 1" if c: "c \<in> set (rl_cards ?L)" for c
  proof -
    let ?us = "upstreams_of (map si_name streams) (lc_stream c)"
    have us: "jm_get (ups_of streams) (lc_name c) = Some ?us" and level: "jm_get ?levels (lc_name c) = Some (lc_level c)"
      using each [OF c] upstreams_cong [OF known] by (simp_all add: ups_by_name card_ok_def)
    then have l: "lc_level c = deepest ?levels ?us 1" using solved by (auto simp: solved_def)
    have "\<exists>a \<in> set (rl_cards ?L). lc_name a = up_name u \<and> lc_x a + card_w + col_gap \<le> lc_x c" if u: "u \<in> set (internal ?us)" for u
    proof -
      have u': "u \<in> set ?us" "up_external u = None" using u by (simp_all add: internal_def)
      obtain s where "s \<in> set streams" "si_name s = up_name u" using internal_known [OF u'] by auto
      then obtain a where a: "a \<in> set (rl_cards ?L)" "lc_name a = up_name u"
        using place_columns_has [of s streams compare consumers ?left] cards by auto
      have "lc_level a < lc_level c" using deepest_ge [OF u', of ?levels 1] each [OF a(1)] a(2) l by (simp add: card_ok_def)
      then show ?thesis using col_x_less [of "lc_level a" "lc_level c" ?left] each [OF a(1)] each [OF c] a
        by (auto simp: card_ok_def)
    qed
    then show ?thesis using l by blast
  qed
  then show ?thesis by (simp add: Let_def list_all_iff list_ex_iff internal_def deepest_def)
qed

definition sample_copies :: "stream_info list" where
  "sample_copies = [sample_stream\<lparr>si_name := ''B'', si_sources := None, si_mirror := Some (sample_source\<lparr>src_external_api := None\<rparr>)\<rparr>,
     sample_stream\<lparr>si_name := ''A'', si_sources := None\<rparr>]"

theorem copies_stand_right_witness:
  "(let L = layout_relations (\<lambda>_ _. 0) (\<lambda>_. []) sample_copies [] True in
     list_all (\<lambda>c. let us = filter (\<lambda>u. up_external u = None) (upstreams_of (map si_name sample_copies) (lc_stream c)) in
       list_all (\<lambda>u. list_ex (\<lambda>a. lc_name a = up_name u \<and> lc_x a + card_w + col_gap \<le> lc_x c) (rl_cards L)) us \<and>
       lc_level c = fold (\<lambda>u. max (the (jm_get (stream_levels sample_copies) (up_name u)) + 1)) us 1) (rl_cards L))"
proof (rule copies_stand_right [of "\<lambda>n. if n = ''B'' then 1 else 0"])
  show "acyclic_copies (\<lambda>n. if n = ''B'' then 1 else 0) sample_copies"
    by (simp add: acyclic_copies_def sample_copies_def upstreams_of_def upstream_of_def sample_stream_def sample_source_def
      truthy_def)
qed

end
