(* ===== verification/TopologyLayout.thy ===== *)
theory TopologyLayout
  imports JsText
begin

text \<open>
  The picture of the clusters (\<open>components/cluster/topologyLayout.ts\<close>): boxes in a row with their servers
  on a circle, leaf nodes below their hub, the lines of routes, gateways and leaf connections, and the
  round-trip time as a number.

  A coordinate is a rational. \<open>localeCompare\<close>, \<open>toFixed(1)\<close> and the circle are arguments: its length
  \<open>2 * Math.PI\<close>, and cosine and sine of the place \<open>i\<close> of \<open>n\<close>. Of a topology only what the layout reads is
  modelled.
\<close>

subsection \<open>The topology\<close>

datatype topology_kind = TopServer | TopPeer | TopLeaf

record topology_node =
  tn_id :: string
  tn_name :: string
  tn_cluster :: "string option"
  tn_kind :: topology_kind

record topology_route =
  tr_server :: string
  tr_remote :: string
  tr_pending :: int

record topology_gateway =
  tg_cluster :: string
  tg_remote :: string
  tg_connected :: bool
  tg_pending :: int

record topology_leaf =
  tl_server :: string
  tl_name :: string
  tl_account :: string

record topology =
  tp_nodes :: "topology_node list"
  tp_routes :: "topology_route list"
  tp_gateways :: "topology_gateway list"
  tp_leafs :: "topology_leaf list"

record circle =
  cir_length :: rat
  cir_cos :: "nat \<Rightarrow> nat \<Rightarrow> rat"
  cir_sin :: "nat \<Rightarrow> nat \<Rightarrow> rat"

subsection \<open>Sizes and parts\<close>

definition node_r :: rat where "node_r = 16"
definition box_pad :: rat where "box_pad = 48"
definition column_gap :: rat where "column_gap = 110"
definition leaf_gap :: rat where "leaf_gap = 96"
definition leaf_drop :: rat where "leaf_drop = 90"
definition edge_margin :: rat where "edge_margin = 24"

lemmas measures = node_r_def box_pad_def column_gap_def leaf_gap_def leaf_drop_def edge_margin_def

datatype edge_state = EdgeOk | EdgeWarn | EdgeDown | EdgeOneSided

record laid_cluster =
  lcl_name :: string
  lcl_standalone :: bool
  lcl_x :: rat
  lcl_y :: rat
  lcl_w :: rat
  lcl_h :: rat
  lcl_unseen :: bool

record laid_node =
  ln_id :: string
  ln_label :: string
  ln_kind :: topology_kind
  ln_cluster :: "string option"
  ln_x :: rat
  ln_y :: rat

datatype edge_kind = RouteEdge | GatewayEdge | LeafEdge

record laid_edge =
  le_key :: string
  le_kind :: edge_kind
  le_a :: string
  le_b :: string
  le_d :: string
  le_state :: edge_state
  le_mx :: rat
  le_my :: rat
  le_label :: "string option"

record topology_layout =
  tlo_width :: rat
  tlo_height :: rat
  tlo_clusters :: "laid_cluster list"
  tlo_nodes :: "laid_node list"
  tlo_edges :: "laid_edge list"

definition nul :: char where
  "nul = CHR 0x00"

definition cluster_key :: "string option \<Rightarrow> string \<Rightarrow> string" where
  "cluster_key cluster ident = (if truthy cluster then nullish cluster [] else nul # ident)"

subsection \<open>Members and leaf nodes\<close>

definition leaf_names :: "topology \<Rightarrow> string list" where
  "leaf_names t = js_uniq (map tl_name (tp_leafs t))"

definition hub_of :: "topology \<Rightarrow> (string, string) jsmap" where
  "hub_of t = fold (\<lambda>l m. if jm_has m (tl_name l) then m else jm_set (tl_name l) (tl_server l) m) (tp_leafs t) []"

definition node_by_id :: "topology \<Rightarrow> (string, topology_node) jsmap" where
  "node_by_id t = fold (\<lambda>n. jm_set (tn_id n) n) (tp_nodes t) []"

definition in_row :: "topology \<Rightarrow> string \<Rightarrow> bool" where
  "in_row t ident \<longleftrightarrow> ident \<in> set (leaf_names t) \<and>
     \<not> (case jm_get (node_by_id t) ident of Some n \<Rightarrow> tn_kind n = TopServer \<and> truthy (tn_cluster n) | None \<Rightarrow> False)"

definition push_to :: "string \<Rightarrow> string \<Rightarrow> (string, string list) jsmap \<Rightarrow> (string, string list) jsmap" where
  "push_to k v m = jm_set k (nullish (jm_get m k) [] @ [v]) m"

definition add_member :: "topology \<Rightarrow> topology_node \<Rightarrow> (string, string list) jsmap \<Rightarrow> (string, string list) jsmap" where
  "add_member t n m = (if in_row t (tn_id n) then m else push_to (cluster_key (tn_cluster n) (tn_id n)) (tn_id n) m)"

definition answered_members :: "topology \<Rightarrow> (string, string list) jsmap" where
  "answered_members t = fold (add_member t) (tp_nodes t) []"

definition add_unseen :: "topology_gateway \<Rightarrow> (string, string list) jsmap \<times> string list \<Rightarrow> (string, string list) jsmap \<times> string list" where
  "add_unseen g st = (case st of (members, unseen) \<Rightarrow>
     if jm_has members (tg_remote g) then st else (jm_set (tg_remote g) [] members, js_add (tg_remote g) unseen))"

definition members_unseen :: "topology \<Rightarrow> (string, string list) jsmap \<times> string list" where
  "members_unseen t = fold add_unseen (tp_gateways t) (answered_members t, [])"

definition by_size :: "(string \<Rightarrow> string \<Rightarrow> int) \<Rightarrow> (string, string list) jsmap \<Rightarrow> string \<Rightarrow> string \<Rightarrow> int" where
  "by_size compare members a b = (let d = int (length (nullish (jm_get members b) [])) - int (length (nullish (jm_get members a) [])) in
     if d \<noteq> 0 then d else compare a b)"

definition cluster_keys :: "(string \<Rightarrow> string \<Rightarrow> int) \<Rightarrow> topology \<Rightarrow> string list" where
  "cluster_keys compare t = (let members = fst (members_unseen t) in js_sort (by_size compare members) (jm_keys members))"

definition leaf_cluster :: "topology \<Rightarrow> string \<Rightarrow> string" where
  "leaf_cluster t name = (let hub = jm_get (node_by_id t) (nullish (jm_get (hub_of t) name) []) in
     cluster_key (case hub of Some h \<Rightarrow> tn_cluster h | None \<Rightarrow> None) (case hub of Some h \<Rightarrow> tn_id h | None \<Rightarrow> []))"

definition leafs_of_cluster :: "topology \<Rightarrow> (string, string list) jsmap" where
  "leafs_of_cluster t = fold (\<lambda>name. push_to (leaf_cluster t name) name)
     (js_sort by_code_units (filter (in_row t) (leaf_names t))) []"

subsection \<open>Columns\<close>

record sized =
  sz_k :: string
  sz_n :: nat
  sz_r :: rat
  sz_box :: rat
  sz_col :: rat
  sz_leafs :: "string list"

definition size_of :: "circle \<Rightarrow> topology \<Rightarrow> string \<Rightarrow> sized" where
  "size_of cir t k = (let n = length (nullish (jm_get (fst (members_unseen t)) k) []);
       r = (if n \<le> 1 then 0 else max 44 (of_nat n * (node_r * 2 + 26) / cir_length cir));
       box = max 150 (2 * r + 2 * box_pad + 20);
       leafs = nullish (jm_get (leafs_of_cluster t) k) [] in
     \<lparr>sz_k = k, sz_n = n, sz_r = r, sz_box = box, sz_col = max box (of_nat (length leafs) * leaf_gap), sz_leafs = leafs\<rparr>)"

definition place_centers :: "sized list \<Rightarrow> (string, rat) jsmap \<times> rat" where
  "place_centers ss = fold (\<lambda>s (centers, x). (jm_set (sz_k s) (x + sz_col s / 2) centers, x + (sz_col s + column_gap)))
     ss ([], edge_margin)"

subsection \<open>Gateway pairs\<close>

record gateway_pair =
  gp_a :: string
  gp_b :: string
  gp_states :: "edge_state list"
  gp_count :: nat

definition sorted_pair :: "string \<Rightarrow> string \<Rightarrow> string \<times> string" where
  "sorted_pair a b = (if by_code_units a b \<le> 0 then (a, b) else (b, a))"

definition pair_key :: "string \<times> string \<Rightarrow> string" where
  "pair_key p = fst p @ [nul] @ snd p"

definition gateway_state :: "topology_gateway \<Rightarrow> edge_state" where
  "gateway_state g = (if \<not> tg_connected g then EdgeDown else if tg_pending g > 0 then EdgeWarn else EdgeOk)"

definition add_gateway :: "topology_gateway \<Rightarrow> (string, gateway_pair) jsmap \<Rightarrow> (string, gateway_pair) jsmap" where
  "add_gateway g pairs = (if tg_cluster g = tg_remote g then pairs else
     let ab = sorted_pair (tg_cluster g) (tg_remote g); key = pair_key ab;
         p = nullish (jm_get pairs key) \<lparr>gp_a = fst ab, gp_b = snd ab, gp_states = [], gp_count = 0\<rparr> in
     jm_set key (p\<lparr>gp_count := gp_count p + 1, gp_states := gp_states p @ [gateway_state g]\<rparr>) pairs)"

definition gateway_pairs :: "topology_gateway list \<Rightarrow> (string, gateway_pair) jsmap" where
  "gateway_pairs gs = fold add_gateway gs []"

definition arc_height :: "(string, rat) jsmap \<Rightarrow> string \<Rightarrow> string \<Rightarrow> rat" where
  "arc_height centers a b = 46 + \<bar>nullish (jm_get centers a) 0 - nullish (jm_get centers b) 0\<bar> * (14 / 100)"

subsection \<open>Boxes and nodes\<close>

type_synonym positions = "(string, rat \<times> rat) jsmap"

record drawing =
  dw_clusters :: "laid_cluster list"
  dw_nodes :: "laid_node list"
  dw_pos :: positions
  dw_bottom :: rat

definition is_standalone :: "string \<Rightarrow> bool" where
  "is_standalone k = starts_with k [nul]"

definition place_server :: "circle \<Rightarrow> topology \<Rightarrow> rat \<Rightarrow> rat \<Rightarrow> rat \<Rightarrow> nat \<Rightarrow> nat \<times> string \<Rightarrow> drawing \<Rightarrow> drawing" where
  "place_server cir t cx cy r many iid dw = (case iid of (i, ident) \<Rightarrow>
     let x = cx + r * cir_cos cir i many; y = cy + r * cir_sin cir i many in
     (case jm_get (node_by_id t) ident of None \<Rightarrow> dw
      | Some n \<Rightarrow> dw\<lparr>dw_pos := jm_set ident (x, y) (dw_pos dw),
          dw_nodes := dw_nodes dw @ [\<lparr>ln_id = ident, ln_label = tn_name n, ln_kind = tn_kind n, ln_cluster = tn_cluster n,
            ln_x = x, ln_y = y\<rparr>]\<rparr>))"

definition place_leaf :: "topology \<Rightarrow> rat \<Rightarrow> rat \<Rightarrow> nat \<Rightarrow> nat \<times> string \<Rightarrow> drawing \<Rightarrow> drawing" where
  "place_leaf t cx ly many iname dw = (case iname of (i, name) \<Rightarrow>
     let x = cx + (of_nat i - (of_nat many - 1) / 2) * leaf_gap in
     dw\<lparr>dw_pos := jm_set name (x, ly) (dw_pos dw),
        dw_nodes := dw_nodes dw @ [\<lparr>ln_id = name,
          ln_label = (case jm_get (node_by_id t) name of Some n \<Rightarrow> tn_name n | None \<Rightarrow> name), ln_kind = TopLeaf, ln_cluster = None,
          ln_x = x, ln_y = ly\<rparr>],
        dw_bottom := max (dw_bottom dw) (ly + node_r + 30)\<rparr>)"

definition place_cluster ::
    "circle \<Rightarrow> topology \<Rightarrow> (string, rat) jsmap \<Rightarrow> rat \<Rightarrow> rat \<Rightarrow> sized \<Rightarrow> drawing \<Rightarrow> drawing" where
  "place_cluster cir t centers room tallest s dw = (case jm_get centers (sz_k s) of None \<Rightarrow> dw
   | Some cx \<Rightarrow>
     let y = room + (tallest - sz_box s) / 2; standalone = is_standalone (sz_k s);
         ids = js_sort by_code_units (nullish (jm_get (fst (members_unseen t)) (sz_k s)) []);
         cy = y + sz_box s / 2 + 6; ly = y + sz_box s + leaf_drop;
         dw1 = dw\<lparr>dw_clusters := dw_clusters dw @ [\<lparr>lcl_name = (if standalone then [] else sz_k s), lcl_standalone = standalone,
           lcl_x = cx - sz_box s / 2, lcl_y = y, lcl_w = sz_box s, lcl_h = sz_box s,
           lcl_unseen = (sz_k s \<in> set (snd (members_unseen t)))\<rparr>]\<rparr>;
         dw2 = fold (place_server cir t cx cy (sz_r s) (length ids)) (List.enumerate 0 ids) dw1 in
     fold (place_leaf t cx ly (length (sz_leafs s))) (List.enumerate 0 (sz_leafs s)) dw2)"

subsection \<open>Lines\<close>

record route_pair =
  rp_a :: string
  rp_b :: string
  rp_sides :: "string list"
  rp_pending :: int

definition route_key :: "topology_route \<Rightarrow> string" where
  "route_key r = pair_key (sorted_pair (tr_server r) (tr_remote r))"

definition add_route :: "topology_route \<Rightarrow> (string, route_pair) jsmap \<Rightarrow> (string, route_pair) jsmap" where
  "add_route r pairs = (let ab = sorted_pair (tr_server r) (tr_remote r);
       p = nullish (jm_get pairs (route_key r)) \<lparr>rp_a = fst ab, rp_b = snd ab, rp_sides = [], rp_pending = 0\<rparr> in
     jm_set (route_key r) (p\<lparr>rp_sides := js_add (tr_server r) (rp_sides p), rp_pending := rp_pending p + tr_pending r\<rparr>) pairs)"

definition route_pairs :: "topology_route list \<Rightarrow> (string, route_pair) jsmap" where
  "route_pairs rs = fold add_route rs []"

definition route_state :: "route_pair \<Rightarrow> edge_state" where
  "route_state p = (if rp_pending p > 0 then EdgeWarn else if length (rp_sides p) < 2 then EdgeOneSided else EdgeOk)"

definition straight :: "(rat \<Rightarrow> string) \<Rightarrow> rat \<times> rat \<Rightarrow> rat \<times> rat \<Rightarrow> string" where
  "straight fixed a b = ''M'' @ fixed (fst a) @ '','' @ fixed (snd a) @ '' L'' @ fixed (fst b) @ '','' @ fixed (snd b)"

definition route_edge :: "(rat \<Rightarrow> string) \<Rightarrow> positions \<Rightarrow> string \<times> route_pair \<Rightarrow> laid_edge list" where
  "route_edge fixed pos kp = (case kp of (key, p) \<Rightarrow> (case (jm_get pos (rp_a p), jm_get pos (rp_b p)) of
     (Some pa, Some pb) \<Rightarrow> [\<lparr>le_key = ''route:'' @ key, le_kind = RouteEdge, le_a = rp_a p, le_b = rp_b p,
       le_d = straight fixed pa pb, le_state = route_state p, le_mx = (fst pa + fst pb) / 2, le_my = (snd pa + snd pb) / 2,
       le_label = None\<rparr>]
   | _ \<Rightarrow> []))"

definition box_of :: "laid_cluster list \<Rightarrow> (string, laid_cluster) jsmap" where
  "box_of clusters = fold (\<lambda>c. jm_set (lcl_name c) c) (filter (\<lambda>c. \<not> lcl_standalone c) clusters) []"

definition pair_state :: "gateway_pair \<Rightarrow> edge_state" where
  "pair_state p = (if EdgeDown \<in> set (gp_states p) then EdgeDown else if EdgeWarn \<in> set (gp_states p) then EdgeWarn else EdgeOk)"

definition gateway_edge ::
    "(rat \<Rightarrow> string) \<Rightarrow> (string, rat) jsmap \<Rightarrow> (string, laid_cluster) jsmap \<Rightarrow> string \<times> gateway_pair \<Rightarrow> laid_edge list" where
  "gateway_edge fixed centers boxes kp = (case kp of (key, p) \<Rightarrow> (case (jm_get boxes (gp_a p), jm_get boxes (gp_b p)) of
     (Some ca, Some cb) \<Rightarrow>
       let ax = lcl_x ca + lcl_w ca / 2; bx = lcl_x cb + lcl_w cb / 2; ay = lcl_y ca; by' = lcl_y cb;
           peak = min ay by' - arc_height centers (gp_a p) (gp_b p) * 2; mx = (ax + bx) / 2 in
       [\<lparr>le_key = ''gateway:'' @ key, le_kind = GatewayEdge, le_a = gp_a p, le_b = gp_b p,
         le_d = ''M'' @ fixed ax @ '','' @ fixed ay @ '' Q'' @ fixed mx @ '','' @ fixed peak @ '' '' @ fixed bx @ '','' @ fixed by',
         le_state = pair_state p, le_mx = mx, le_my = (ay + by') / 4 + peak / 2,
         le_label = Some (nat_str (gp_count p) @ '' conn'' @ (if gp_count p = 1 then [] else ''s''))\<rparr>]
   | _ \<Rightarrow> []))"

definition leaf_edge :: "(rat \<Rightarrow> string) \<Rightarrow> positions \<Rightarrow> topology_leaf \<Rightarrow> laid_edge list" where
  "leaf_edge fixed pos l = (case (jm_get pos (tl_server l), jm_get pos (tl_name l)) of
     (Some pa, Some pb) \<Rightarrow> [\<lparr>le_key = ''leaf:'' @ tl_server l @ [nul] @ tl_name l @ [nul] @ tl_account l, le_kind = LeafEdge,
       le_a = tl_server l, le_b = tl_name l, le_d = straight fixed pa pb, le_state = EdgeOk,
       le_mx = (fst pa + fst pb) / 2, le_my = (snd pa + snd pb) / 2, le_label = Some (tl_account l)\<rparr>]
   | _ \<Rightarrow> [])"

subsection \<open>The picture\<close>

definition sized_clusters :: "(string \<Rightarrow> string \<Rightarrow> int) \<Rightarrow> circle \<Rightarrow> topology \<Rightarrow> sized list" where
  "sized_clusters compare cir t = map (size_of cir t) (cluster_keys compare t)"

definition top_edge :: "(string, rat) jsmap \<Rightarrow> (string, gateway_pair) jsmap \<Rightarrow> rat" where
  "top_edge centers pairs = edge_margin + (if pairs \<noteq> []
     then fold max (map (\<lambda>p. arc_height centers (gp_a p) (gp_b p)) (jm_values pairs)) 0 + 12 else 0)"

definition draw_clusters :: "(string \<Rightarrow> string \<Rightarrow> int) \<Rightarrow> circle \<Rightarrow> topology \<Rightarrow> drawing" where
  "draw_clusters compare cir t = (let ss = sized_clusters compare cir t;
       (centers, x) = place_centers ss;
       room = top_edge centers (gateway_pairs (tp_gateways t));
       tallest = fold max (map sz_box ss) 0 in
     fold (place_cluster cir t centers room tallest) ss
       \<lparr>dw_clusters = [], dw_nodes = [], dw_pos = [], dw_bottom = room + tallest\<rparr>)"

definition layout_topology :: "(string \<Rightarrow> string \<Rightarrow> int) \<Rightarrow> (rat \<Rightarrow> string) \<Rightarrow> circle \<Rightarrow> topology \<Rightarrow> topology_layout" where
  "layout_topology compare fixed cir t = (let
       (centers, x) = place_centers (sized_clusters compare cir t);
       pairs = gateway_pairs (tp_gateways t);
       dw = draw_clusters compare cir t;
       edges = concat (map (route_edge fixed (dw_pos dw)) (route_pairs (tp_routes t))) @
         concat (map (gateway_edge fixed centers (box_of (dw_clusters dw))) pairs) @
         concat (map (leaf_edge fixed (dw_pos dw)) (tp_leafs t)) in
     \<lparr>tlo_width = max (x - column_gap + edge_margin) 320, tlo_height = dw_bottom dw + edge_margin,
      tlo_clusters = dw_clusters dw, tlo_nodes = dw_nodes dw, tlo_edges = edges\<rparr>)"

text \<open>\<open>rttMs\<close>: \<open>Number\<close> is the argument \<open>number\<close>. A unit is tried in the order of the pattern; the micro
  sign is the argument \<open>micro\<close>. Digits with several points are \<open>NaN\<close> there and no number here.\<close>

definition rtt_char :: "char \<Rightarrow> bool" where
  "rtt_char c = (is_digit c \<or> c = CHR ''.'')"

definition rtt_ms :: "(string \<Rightarrow> rat option) \<Rightarrow> string \<Rightarrow> string option \<Rightarrow> rat option" where
  "rtt_ms number micro rtt = (case rtt of None \<Rightarrow> None | Some s \<Rightarrow>
     if s = [] then None else
     let text = trim s; digits = takeWhile rtt_char text; u = dropWhile rtt_char text in
     if digits = [] \<or> u \<notin> set [''ns'', micro @ ''s'', ''us'', ''ms'', ''s''] then None
     else map_option (\<lambda>v. if u = ''s'' then v * 1000 else if u = ''ms'' then v else if u = ''ns'' then v / 1000000 else v / 1000)
       (number digits))"

subsection \<open>Pairs\<close>

lemma js_uniq_snoc [simp]: "js_uniq (xs @ [x]) = js_add x (js_uniq xs)"
  by (simp add: js_uniq_def)

text \<open>A route is one line, whichever side reports it and however often: its sides are the servers that
  report it, what waits on it is the sum of the reports.\<close>

theorem route_pairs_correct:
  "jm_wf (route_pairs rs) \<and> jm_get (route_pairs rs) k = (case filter (\<lambda>r. route_key r = k) rs of [] \<Rightarrow> None
     | r # same \<Rightarrow> Some \<lparr>rp_a = fst (sorted_pair (tr_server r) (tr_remote r)), rp_b = snd (sorted_pair (tr_server r) (tr_remote r)),
         rp_sides = js_uniq (map tr_server (r # same)), rp_pending = sum_list (map tr_pending (r # same))\<rparr>)"
proof (induction rs rule: rev_induct)
  case (snoc r rs)
  have step: "route_pairs (rs @ [r]) = add_route r (route_pairs rs)" by (simp add: route_pairs_def)
  show ?case
  proof (cases "route_key r = k")
    case True
    then show ?thesis using snoc js_uniq_snoc [of "map tr_server _" "tr_server r"]
      by (cases "filter (\<lambda>r. route_key r = k) rs") (simp_all add: step add_route_def Let_def js_uniq_def js_add_def)
  next
    case False
    then show ?thesis using snoc by (simp add: step add_route_def Let_def)
  qed
qed (simp add: route_pairs_def)

lemma gateway_pairs_get:
  "jm_wf (gateway_pairs gs) \<and> jm_get (gateway_pairs gs) k =
    (case filter (\<lambda>g. tg_cluster g \<noteq> tg_remote g \<and> pair_key (sorted_pair (tg_cluster g) (tg_remote g)) = k) gs of [] \<Rightarrow> None
     | g # same \<Rightarrow> Some \<lparr>gp_a = fst (sorted_pair (tg_cluster g) (tg_remote g)), gp_b = snd (sorted_pair (tg_cluster g) (tg_remote g)),
         gp_states = map gateway_state (g # same), gp_count = length (g # same)\<rparr>)"
proof (induction gs rule: rev_induct)
  case (snoc g gs)
  have step: "gateway_pairs (gs @ [g]) = add_gateway g (gateway_pairs gs)" by (simp add: gateway_pairs_def)
  let ?P = "\<lambda>g. tg_cluster g \<noteq> tg_remote g \<and> pair_key (sorted_pair (tg_cluster g) (tg_remote g)) = k"
  consider "tg_cluster g = tg_remote g" | "tg_cluster g \<noteq> tg_remote g" "pair_key (sorted_pair (tg_cluster g) (tg_remote g)) = k"
    | "tg_cluster g \<noteq> tg_remote g" "pair_key (sorted_pair (tg_cluster g) (tg_remote g)) \<noteq> k" by blast
  then show ?case
  proof cases
    case 1
    then show ?thesis using snoc by (simp add: step add_gateway_def)
  next
    case 2
    then show ?thesis using snoc by (cases "filter ?P gs") (simp_all add: step add_gateway_def Let_def)
  next
    case 3
    then show ?thesis using snoc by (simp add: step add_gateway_def Let_def)
  qed
qed (simp add: gateway_pairs_def)

subsection \<open>Boxes stand apart\<close>

lemma push_to_wf [simp]: "jm_wf m \<Longrightarrow> jm_wf (push_to k v m)"
  by (simp add: push_to_def)

lemma members_wf: "jm_wf (fst (members_unseen t))"
proof -
  have "jm_wf (answered_members t)" unfolding answered_members_def
    by (rule fold_invariant [where Q = "\<lambda>_. True"]) (simp_all add: add_member_def)
  then show ?thesis unfolding members_unseen_def
    by (intro fold_invariant [where Q = "\<lambda>_. True" and P = "\<lambda>st. jm_wf (fst st)"]) (auto simp: add_unseen_def split: prod.split)
qed

lemma distinct_sized: "distinct (map sz_k (sized_clusters compare cir t))"
proof -
  have "map sz_k (sized_clusters compare cir t) = cluster_keys compare t"
    by (simp add: sized_clusters_def size_of_def Let_def comp_def)
  then show ?thesis using members_wf [of t] by (simp add: cluster_keys_def Let_def)
qed

text \<open>The columns in their order: each around its center, a gap before the next.\<close>

definition columns_ok :: "sized list \<Rightarrow> (string, rat) jsmap \<Rightarrow> rat \<Rightarrow> bool" where
  "columns_ok ss centers x \<longleftrightarrow> (\<forall>s \<in> set ss. \<exists>c. jm_get centers (sz_k s) = Some c \<and> edge_margin \<le> c - sz_col s / 2 \<and>
       c + sz_col s / 2 + column_gap \<le> x) \<and> edge_margin \<le> x \<and>
     sorted_wrt (\<lambda>a b. the (jm_get centers (sz_k a)) + sz_col a / 2 + column_gap \<le> the (jm_get centers (sz_k b)) - sz_col b / 2) ss"

lemma place_centers_ok:
  assumes "distinct (map sz_k ss)" "\<forall>s \<in> set ss. 0 \<le> sz_col s"
  shows "case place_centers ss of (centers, x) \<Rightarrow> columns_ok ss centers x"
  using assms
proof (induction ss rule: rev_induct)
  case Nil
  show ?case by (simp add: place_centers_def columns_ok_def)
next
  case (snoc s ss)
  obtain centers x where go: "place_centers ss = (centers, x)" by (cases "place_centers ss")
  then have ok: "columns_ok ss centers x" using snoc by simp
  let ?centers = "jm_set (sz_k s) (x + sz_col s / 2) centers"
  have next_place: "place_centers (ss @ [s]) = (?centers, x + (sz_col s + column_gap))"
    using go by (simp add: place_centers_def)
  have keep: "jm_get ?centers (sz_k a) = jm_get centers (sz_k a)" if "a \<in> set ss" for a
    using snoc.prems(1) that by (auto simp: image_iff)
  have pos: "0 \<le> sz_col s" "0 \<le> column_gap" using snoc.prems(2) by (simp_all add: measures)
  have "sorted_wrt (\<lambda>a b. the (jm_get ?centers (sz_k a)) + sz_col a / 2 + column_gap \<le> the (jm_get ?centers (sz_k b)) - sz_col b / 2) (ss @ [s])"
  proof -
    have "sorted_wrt (\<lambda>a b. the (jm_get ?centers (sz_k a)) + sz_col a / 2 + column_gap \<le> the (jm_get ?centers (sz_k b)) - sz_col b / 2) ss"
      using ok unfolding columns_ok_def by (elim conjE) (rule sorted_wrt_mono_rel [rotated], assumption, simp only: keep)
    moreover have "the (jm_get ?centers (sz_k a)) + sz_col a / 2 + column_gap \<le> x" if "a \<in> set ss" for a
    proof -
      obtain c where "jm_get centers (sz_k a) = Some c" "c + sz_col a / 2 + column_gap \<le> x"
        using ok \<open>a \<in> set ss\<close> by (auto simp: columns_ok_def)
      then show ?thesis using keep [OF \<open>a \<in> set ss\<close>] by simp
    qed
    ultimately show ?thesis by (simp add: sorted_wrt_append)
  qed
  moreover have "\<exists>c. jm_get ?centers (sz_k a) = Some c \<and> edge_margin \<le> c - sz_col a / 2 \<and> c + sz_col a / 2 + column_gap \<le> x + (sz_col s + column_gap)"
    if a: "a \<in> set (ss @ [s])" for a
  proof (cases "a \<in> set ss")
    case True
    then obtain c where "jm_get centers (sz_k a) = Some c" "edge_margin \<le> c - sz_col a / 2" "c + sz_col a / 2 + column_gap \<le> x"
      using ok by (auto simp: columns_ok_def)
    then show ?thesis using keep [OF True] pos by auto
  next
    case False
    then have "a = s" using a by simp
    then show ?thesis using ok by (simp add: columns_ok_def)
  qed
  ultimately show ?case using next_place ok pos by (simp add: columns_ok_def)
qed

subsection \<open>Everything is inside the picture\<close>

definition circle_ok :: "circle \<Rightarrow> bool" where
  "circle_ok cir \<longleftrightarrow> 0 < cir_length cir \<and> (\<forall>i n. \<bar>cir_cos cir i n\<bar> \<le> 1 \<and> \<bar>cir_sin cir i n\<bar> \<le> 1)"

lemma size_of_bounds:
  "0 \<le> sz_r (size_of cir t k)" "150 \<le> sz_box (size_of cir t k)" "2 * sz_r (size_of cir t k) + 116 \<le> sz_box (size_of cir t k)"
  "sz_box (size_of cir t k) \<le> sz_col (size_of cir t k)"
  "of_nat (length (sz_leafs (size_of cir t k))) * leaf_gap \<le> sz_col (size_of cir t k)"
  by (simp_all add: size_of_def Let_def measures le_max_iff_disj)

definition box_at :: "topology \<Rightarrow> (string, rat) jsmap \<Rightarrow> rat \<Rightarrow> rat \<Rightarrow> sized \<Rightarrow> laid_cluster" where
  "box_at t centers room tallest s = \<lparr>lcl_name = (if is_standalone (sz_k s) then [] else sz_k s), lcl_standalone = is_standalone (sz_k s),
     lcl_x = the (jm_get centers (sz_k s)) - sz_box s / 2, lcl_y = room + (tallest - sz_box s) / 2, lcl_w = sz_box s, lcl_h = sz_box s,
     lcl_unseen = (sz_k s \<in> set (snd (members_unseen t)))\<rparr>"

text \<open>What a cluster adds lies around its center and below the top, and pushes the bottom down.\<close>

definition node_in :: "rat \<Rightarrow> rat \<Rightarrow> rat \<Rightarrow> rat \<Rightarrow> laid_node \<Rightarrow> bool" where
  "node_in l r room b n \<longleftrightarrow> l \<le> ln_x n - node_r \<and> ln_x n + node_r \<le> r \<and> room \<le> ln_y n - node_r \<and> ln_y n + node_r \<le> b"

lemma node_in_mono: "node_in l r room b n \<Longrightarrow> l' \<le> l \<Longrightarrow> r \<le> r' \<Longrightarrow> b \<le> b' \<Longrightarrow> node_in l' r' room b' n"
  by (auto simp: node_in_def)

lemma fold_place_server:
  assumes cir: "circle_ok cir" and r: "0 \<le> r"
    and b: "l \<le> cx - r - node_r" "cx + r + node_r \<le> e" "room \<le> cy - r - node_r" "cy + r + node_r \<le> dw_bottom dw"
  shows "dw_clusters (fold (place_server cir t cx cy r many) iids dw) = dw_clusters dw \<and>
    dw_bottom (fold (place_server cir t cx cy r many) iids dw) = dw_bottom dw \<and>
    (\<forall>n \<in> set (dw_nodes (fold (place_server cir t cx cy r many) iids dw)). n \<in> set (dw_nodes dw) \<or> node_in l e room (dw_bottom dw) n)"
  using b
proof (induction iids arbitrary: dw)
  case (Cons iid iids)
  obtain i ident where iid: "iid = (i, ident)" by (cases iid)
  let ?dw = "place_server cir t cx cy r many iid dw"
  have within: "\<bar>r * cir_cos cir i many\<bar> \<le> r" "\<bar>r * cir_sin cir i many\<bar> \<le> r"
    using cir r mult_left_mono [of "\<bar>cir_cos cir i many\<bar>" 1 r] mult_left_mono [of "\<bar>cir_sin cir i many\<bar>" 1 r]
    by (simp_all add: circle_ok_def abs_mult)
  have same: "dw_clusters ?dw = dw_clusters dw" "dw_bottom ?dw = dw_bottom dw"
    by (simp_all add: place_server_def iid Let_def split: option.split)
  have new: "n \<in> set (dw_nodes dw) \<or> node_in l e room (dw_bottom dw) n" if "n \<in> set (dw_nodes ?dw)" for n
    using that within Cons.prems
    by (auto simp: place_server_def iid Let_def node_in_def abs_le_iff split: option.splits)
  show ?case using Cons.IH [of ?dw] Cons.prems same new by auto
qed simp

lemma fold_place_leaf:
  assumes b: "l + (of_nat many * leaf_gap) / 2 \<le> cx" "cx + (of_nat many * leaf_gap) / 2 \<le> e" "room \<le> ly - node_r"
    and i: "\<forall>(i, name) \<in> set ins. i < many"
  shows "dw_clusters (fold (place_leaf t cx ly many) ins dw) = dw_clusters dw \<and>
    dw_bottom dw \<le> dw_bottom (fold (place_leaf t cx ly many) ins dw) \<and>
    (\<forall>n \<in> set (dw_nodes (fold (place_leaf t cx ly many) ins dw)). n \<in> set (dw_nodes dw) \<or>
       node_in l e room (dw_bottom (fold (place_leaf t cx ly many) ins dw)) n)"
  using i
proof (induction ins arbitrary: dw)
  case (Cons j ins)
  obtain i name where j: "j = (i, name)" by (cases j)
  let ?dw = "place_leaf t cx ly many j dw"
  let ?after = "fold (place_leaf t cx ly many) ins ?dw"
  have after': "dw_clusters ?after = dw_clusters ?dw" "dw_bottom ?dw \<le> dw_bottom ?after"
    "\<forall>n \<in> set (dw_nodes ?after). n \<in> set (dw_nodes ?dw) \<or> node_in l e room (dw_bottom ?after) n"
    using Cons.IH [of ?dw] Cons.prems by simp_all
  have "i < many" using Cons.prems j by simp
  then have i: "0 \<le> (of_nat i :: rat)" "(of_nat i :: rat) + 1 \<le> of_nat many"
    by (simp, metis Suc_leI add.commute of_nat_Suc of_nat_le_iff)
  have new: "n \<in> set (dw_nodes dw) \<or> node_in l e room (dw_bottom ?dw) n" if "n \<in> set (dw_nodes ?dw)" for n
  proof -
    have "n \<in> set (dw_nodes dw) \<or> (ln_x n = cx + (of_nat i - (of_nat many - 1) / 2) * leaf_gap \<and> ln_y n = ly)"
      using that by (auto simp: place_leaf_def j Let_def)
    then consider "n \<in> set (dw_nodes dw)" | "ln_x n = cx + (of_nat i - (of_nat many - 1) / 2) * leaf_gap" "ln_y n = ly" by fast
    then show ?thesis
    proof cases
      case 2
      have "ly + node_r \<le> dw_bottom ?dw" by (simp add: place_leaf_def j Let_def measures le_max_iff_disj)
      then show ?thesis using 2 b i by (auto simp: node_in_def measures field_simps)
    qed blast
  qed
  have "dw_clusters ?dw = dw_clusters dw" "dw_bottom dw \<le> dw_bottom ?dw"
    by (simp_all add: place_leaf_def j Let_def)
  then show ?case using after' new node_in_mono [of l e room "dw_bottom ?dw" _ l e "dw_bottom ?after"] by auto
qed simp

lemma place_cluster_ok:
  assumes cir: "circle_ok cir" and s: "s = size_of cir t k" and c: "jm_get centers (sz_k s) = Some cx"
    and tall: "sz_box s \<le> tallest" and bottom: "room + tallest \<le> dw_bottom dw"
  shows "dw_clusters (place_cluster cir t centers room tallest s dw) = dw_clusters dw @ [box_at t centers room tallest s] \<and>
    dw_bottom dw \<le> dw_bottom (place_cluster cir t centers room tallest s dw) \<and>
    (\<forall>n \<in> set (dw_nodes (place_cluster cir t centers room tallest s dw)). n \<in> set (dw_nodes dw) \<or>
      node_in (cx - sz_col s / 2) (cx + sz_col s / 2) room (dw_bottom (place_cluster cir t centers room tallest s dw)) n)"
proof -
  let ?y = "room + (tallest - sz_box s) / 2"
  let ?ids = "js_sort by_code_units (nullish (jm_get (fst (members_unseen t)) (sz_k s)) [])"
  let ?cy = "?y + sz_box s / 2 + 6"
  let ?ly = "?y + sz_box s + leaf_drop"
  let ?l = "cx - sz_col s / 2" and ?e = "cx + sz_col s / 2"
  let ?dw1 = "dw\<lparr>dw_clusters := dw_clusters dw @ [box_at t centers room tallest s]\<rparr>"
  let ?dw2 = "fold (place_server cir t cx ?cy (sz_r s) (length ?ids)) (List.enumerate 0 ?ids) ?dw1"
  let ?dw3 = "fold (place_leaf t cx ?ly (length (sz_leafs s))) (List.enumerate 0 (sz_leafs s)) ?dw2"
  have whole: "place_cluster cir t centers room tallest s dw = ?dw3"
    by (simp add: place_cluster_def c Let_def box_at_def)
  note size = size_of_bounds [of cir t k, folded s]
  have servers: "dw_clusters ?dw2 = dw_clusters ?dw1 \<and> dw_bottom ?dw2 = dw_bottom ?dw1 \<and>
      (\<forall>n \<in> set (dw_nodes ?dw2). n \<in> set (dw_nodes ?dw1) \<or> node_in ?l ?e room (dw_bottom ?dw1) n)"
    using cir size(1) by (rule fold_place_server) (use size tall bottom in \<open>simp_all add: measures field_simps\<close>)
  have leafs: "dw_clusters ?dw3 = dw_clusters ?dw2 \<and> dw_bottom ?dw2 \<le> dw_bottom ?dw3 \<and>
      (\<forall>n \<in> set (dw_nodes ?dw3). n \<in> set (dw_nodes ?dw2) \<or> node_in ?l ?e room (dw_bottom ?dw3) n)"
    by (rule fold_place_leaf) (use size tall in \<open>auto simp: measures in_set_enumerate_eq\<close>)
  have "node_in ?l ?e room (dw_bottom ?dw3) n" if "node_in ?l ?e room (dw_bottom ?dw1) n" for n
    by (rule node_in_mono [OF that]) (use servers leafs in simp_all)
  then show ?thesis unfolding whole using servers leafs by auto
qed

lemma fold_clusters_ok:
  assumes cir: "circle_ok cir" and ss: "\<forall>s \<in> set ss. (\<exists>k. s = size_of cir t k) \<and> sz_box s \<le> tallest \<and>
      (\<exists>c. jm_get centers (sz_k s) = Some c \<and> l \<le> c - sz_col s / 2 \<and> c + sz_col s / 2 \<le> e)"
    and bottom: "room + tallest \<le> dw_bottom dw" and old: "\<forall>n \<in> set (dw_nodes dw). node_in l e room (dw_bottom dw) n"
  shows "dw_clusters (fold (place_cluster cir t centers room tallest) ss dw) =
      dw_clusters dw @ map (box_at t centers room tallest) ss \<and>
    room + tallest \<le> dw_bottom (fold (place_cluster cir t centers room tallest) ss dw) \<and>
    (\<forall>n \<in> set (dw_nodes (fold (place_cluster cir t centers room tallest) ss dw)).
       node_in l e room (dw_bottom (fold (place_cluster cir t centers room tallest) ss dw)) n)"
  using ss bottom old
proof (induction ss arbitrary: dw)
  case (Cons s ss)
  let ?dw = "place_cluster cir t centers room tallest s dw"
  obtain k c where s: "s = size_of cir t k" "jm_get centers (sz_k s) = Some c" "l \<le> c - sz_col s / 2" "c + sz_col s / 2 \<le> e"
    "sz_box s \<le> tallest" using bspec [OF Cons.prems(1) list.set_intros(1)] by blast
  note one = place_cluster_ok [OF cir s(1,2,5) Cons.prems(2)]
  have "node_in l e room (dw_bottom ?dw) n" if "n \<in> set (dw_nodes ?dw)" for n
  proof -
    have "n \<in> set (dw_nodes dw) \<or> node_in (c - sz_col s / 2) (c + sz_col s / 2) room (dw_bottom ?dw) n"
      using conjunct2 [OF conjunct2 [OF one]] that by (rule bspec)
    then consider "node_in l e room (dw_bottom dw) n" | "node_in (c - sz_col s / 2) (c + sz_col s / 2) room (dw_bottom ?dw) n"
      using Cons.prems(3) by fast
    then show ?thesis
    proof cases
      case 1
      then show ?thesis by (rule node_in_mono) (use one in simp_all)
    next
      case 2
      then show ?thesis by (rule node_in_mono) (use s in simp_all)
    qed
  qed
  then have nodes: "\<forall>n \<in> set (dw_nodes ?dw). node_in l e room (dw_bottom ?dw) n" by blast
  have "room + tallest \<le> dw_bottom ?dw" using one Cons.prems(2) by linarith
  moreover have "\<forall>s \<in> set ss. (\<exists>k. s = size_of cir t k) \<and> sz_box s \<le> tallest \<and>
      (\<exists>c. jm_get centers (sz_k s) = Some c \<and> l \<le> c - sz_col s / 2 \<and> c + sz_col s / 2 \<le> e)"
    using Cons.prems(1) by (meson list.set_intros(2))
  ultimately have IH: "dw_clusters (fold (place_cluster cir t centers room tallest) ss ?dw) =
      dw_clusters ?dw @ map (box_at t centers room tallest) ss \<and>
    room + tallest \<le> dw_bottom (fold (place_cluster cir t centers room tallest) ss ?dw) \<and>
    (\<forall>n \<in> set (dw_nodes (fold (place_cluster cir t centers room tallest) ss ?dw)).
       node_in l e room (dw_bottom (fold (place_cluster cir t centers room tallest) ss ?dw)) n)"
    using nodes by (intro Cons.IH)
  have "dw_clusters ?dw = dw_clusters dw @ [box_at t centers room tallest s]" using one by blast
  then have "dw_clusters (fold (place_cluster cir t centers room tallest) ss ?dw) =
      dw_clusters dw @ map (box_at t centers room tallest) (s # ss)" using IH by simp
  then show ?case unfolding fold_simps using IH by blast
qed simp

definition boxes_apart :: "laid_cluster \<Rightarrow> laid_cluster \<Rightarrow> bool" where
  "boxes_apart a b \<longleftrightarrow> lcl_x a + lcl_w a + column_gap \<le> lcl_x b"

text \<open>Boxes stand apart in their row, and every box, server and leaf node is inside the picture.\<close>

theorem topology_inside:
  assumes "circle_ok cir"
  shows "(let L = layout_topology compare fixed cir t in sorted_wrt boxes_apart (tlo_clusters L) \<and>
     list_all (\<lambda>c. edge_margin \<le> lcl_x c \<and> lcl_x c + lcl_w c + edge_margin \<le> tlo_width L \<and>
       edge_margin \<le> lcl_y c \<and> lcl_y c + lcl_h c + edge_margin \<le> tlo_height L) (tlo_clusters L) \<and>
     list_all (node_in edge_margin (tlo_width L - edge_margin) edge_margin (tlo_height L - edge_margin)) (tlo_nodes L))"
proof -
  let ?ss = "sized_clusters compare cir t"
  obtain centers x where centers: "place_centers ?ss = (centers, x)" by (cases "place_centers ?ss")
  let ?pairs = "gateway_pairs (tp_gateways t)"
  let ?room = "top_edge centers ?pairs"
  let ?tallest = "fold max (map sz_box ?ss) 0"
  let ?dw = "draw_clusters compare cir t"
  have each: "\<exists>k. s = size_of cir t k" if "s \<in> set ?ss" for s using that by (auto simp: sized_clusters_def)
  have col: "0 \<le> sz_col s" "sz_box s \<le> sz_col s" "150 \<le> sz_box s" if s: "s \<in> set ?ss" for s
  proof -
    obtain k where "s = size_of cir t k" using each [OF s] ..
    then show "0 \<le> sz_col s" "sz_box s \<le> sz_col s" "150 \<le> sz_box s" using size_of_bounds [of cir t k] by simp_all
  qed
  then have columns: "columns_ok ?ss centers x"
    using place_centers_ok [OF distinct_sized, of compare cir t] centers by simp
  have tall: "sz_box s \<le> ?tallest" if "s \<in> set ?ss" for s using that by (intro fold_max_ge) simp
  have dw: "dw_clusters ?dw = map (box_at t centers ?room ?tallest) ?ss \<and> ?room + ?tallest \<le> dw_bottom ?dw \<and>
      (\<forall>n \<in> set (dw_nodes ?dw). node_in edge_margin (x - column_gap) ?room (dw_bottom ?dw) n)"
    using fold_clusters_ok [OF assms, of ?ss t ?tallest centers edge_margin "x - column_gap" ?room
        "\<lparr>dw_clusters = [], dw_nodes = [], dw_pos = [], dw_bottom = ?room + ?tallest\<rparr>"]
      each tall columns by (fastforce simp: draw_clusters_def centers Let_def columns_ok_def)
  have room: "edge_margin \<le> ?room"
    using fold_max_start [of "0 :: rat" 0] by (simp add: top_edge_def add_nonneg_nonneg)
  have L: "tlo_clusters (layout_topology compare fixed cir t) = dw_clusters ?dw" "tlo_nodes (layout_topology compare fixed cir t) = dw_nodes ?dw"
    "tlo_height (layout_topology compare fixed cir t) = dw_bottom ?dw + edge_margin"
    "x - column_gap + edge_margin \<le> tlo_width (layout_topology compare fixed cir t)"
    by (simp_all add: layout_topology_def centers Let_def)
  have apart: "sorted_wrt boxes_apart (dw_clusters ?dw)"
  proof -
    have "boxes_apart (box_at t centers ?room ?tallest a) (box_at t centers ?room ?tallest b)"
      if "a \<in> set ?ss" "b \<in> set ?ss" "the (jm_get centers (sz_k a)) + sz_col a / 2 + column_gap \<le> the (jm_get centers (sz_k b)) - sz_col b / 2" for a b
      using that col(2) [OF that(1)] col(2) [OF that(2)] by (simp add: boxes_apart_def box_at_def)
    then show ?thesis using columns dw by (auto simp: sorted_wrt_map columns_ok_def intro: sorted_wrt_mono_rel [rotated])
  qed
  have box: "edge_margin \<le> lcl_x c \<and> lcl_x c + lcl_w c + column_gap \<le> x \<and> edge_margin \<le> lcl_y c \<and> lcl_y c + lcl_h c \<le> dw_bottom ?dw"
    if "c \<in> set (dw_clusters ?dw)" for c
  proof -
    obtain s where s: "s \<in> set ?ss" "c = box_at t centers ?room ?tallest s" using \<open>c \<in> _\<close> dw by auto
    obtain m where "jm_get centers (sz_k s) = Some m" "edge_margin \<le> m - sz_col s / 2" "m + sz_col s / 2 + column_gap \<le> x"
      using columns s(1) by (auto simp: columns_ok_def)
    moreover have "?room + ?tallest \<le> dw_bottom ?dw" using dw by blast
    ultimately show ?thesis using s(2) col [OF s(1)] tall [OF s(1)] room by (simp add: box_at_def field_simps)
  qed
  have "node_in edge_margin (tlo_width (layout_topology compare fixed cir t) - edge_margin) edge_margin (dw_bottom ?dw) n"
    if "n \<in> set (dw_nodes ?dw)" for n
    using dw that room L(4) by (fastforce simp: node_in_def)
  then show ?thesis using apart box L by (fastforce simp: Let_def list_all_iff)
qed

text \<open>A hub \<open>S\<close>, a leaf node \<open>B\<close> of it that is in no cluster, and a leaf node \<open>D\<close> of \<open>B\<close>.\<close>

definition leaf_chain :: topology where
  "leaf_chain = \<lparr>tp_nodes = [\<lparr>tn_id = ''S'', tn_name = ''S'', tn_cluster = Some ''C'', tn_kind = TopServer\<rparr>,
       \<lparr>tn_id = ''B'', tn_name = ''B'', tn_cluster = None, tn_kind = TopServer\<rparr>,
       \<lparr>tn_id = ''D'', tn_name = ''D'', tn_cluster = None, tn_kind = TopLeaf\<rparr>],
     tp_routes = [], tp_gateways = [],
     tp_leafs = [\<lparr>tl_server = ''S'', tl_name = ''B'', tl_account = ''A''\<rparr>, \<lparr>tl_server = ''B'', tl_name = ''D'', tl_account = ''A''\<rparr>]\<rparr>"

definition sample_circle :: circle where
  "sample_circle = \<lparr>cir_length = 6, cir_cos = (\<lambda>i n. if even i then 0 else 1), cir_sin = (\<lambda>i n. if even i then 1 else 0)\<rparr>"

theorem topology_inside_witness:
  "(let L = layout_topology (\<lambda>_ _. 0) (\<lambda>_. []) sample_circle leaf_chain in sorted_wrt boxes_apart (tlo_clusters L) \<and>
     list_all (\<lambda>c. edge_margin \<le> lcl_x c \<and> lcl_x c + lcl_w c + edge_margin \<le> tlo_width L \<and>
       edge_margin \<le> lcl_y c \<and> lcl_y c + lcl_h c + edge_margin \<le> tlo_height L) (tlo_clusters L) \<and>
     list_all (node_in edge_margin (tlo_width L - edge_margin) edge_margin (tlo_height L - edge_margin)) (tlo_nodes L))"
  by (rule topology_inside) (simp add: circle_ok_def sample_circle_def)

text \<open>The leaf node of a leaf node is looked up under a box that does not exist, and is not drawn.\<close>

theorem leaf_behind_leaf_missing:
  "''D'' \<notin> ln_id ` set (tlo_nodes (layout_topology (\<lambda>_ _. 0) (\<lambda>_. []) sample_circle leaf_chain)) \<and>
   ''B'' \<in> ln_id ` set (tlo_nodes (layout_topology (\<lambda>_ _. 0) (\<lambda>_. []) sample_circle leaf_chain))"
proof -
  have row: "in_row leaf_chain ''B''" "in_row leaf_chain ''D''" "\<not> in_row leaf_chain ''S''"
    by (simp_all add: in_row_def leaf_chain_def leaf_names_def node_by_id_def js_uniq_def js_add_def truthy_def)
  have members: "members_unseen leaf_chain = ([(''C'', [''S''])], [])"
    using row by (simp add: members_unseen_def answered_members_def add_member_def push_to_def cluster_key_def truthy_def leaf_chain_def)
  have cluster: "leaf_cluster leaf_chain ''B'' = ''C''" "leaf_cluster leaf_chain ''D'' = nul # ''B''"
    by (simp_all add: leaf_cluster_def leaf_chain_def node_by_id_def hub_of_def jm_has_def cluster_key_def truthy_def)
  have "js_sort by_code_units (filter (in_row leaf_chain) (leaf_names leaf_chain)) = [''B'', ''D'']"
    using row by (simp add: leaf_names_def js_uniq_def js_add_def leaf_chain_def by_code_units_def)
  then have "leafs_of_cluster leaf_chain = [(''C'', [''B'']), (nul # ''B'', [''D''])]"
    by (simp add: leafs_of_cluster_def push_to_def cluster nul_def)
  then have leafs: "jm_get (leafs_of_cluster leaf_chain) ''C'' = Some [''B'']" by simp
  have "map sz_k (sized_clusters (\<lambda>_ _. 0) sample_circle leaf_chain) = [''C'']"
    by (simp add: sized_clusters_def cluster_keys_def members size_of_def Let_def)
  then obtain s where ss: "sized_clusters (\<lambda>_ _. 0) sample_circle leaf_chain = [s]" "sz_k s = ''C''" by auto
  then have "s \<in> set (sized_clusters (\<lambda>_ _. 0) sample_circle leaf_chain)" by simp
  then have s: "sz_leafs s = [''B'']" using ss(2) leafs by (auto simp: sized_clusters_def size_of_def Let_def)
  show ?thesis
    by (simp add: layout_topology_def draw_clusters_def ss place_centers_def place_cluster_def members Let_def s
      place_server_def place_leaf_def split: option.split)
qed

end
