(* ===== verification/SchemaExport.thy ===== *)
theory SchemaExport
  imports Api
begin

text \<open>
  The schema of a subject as it is shown (\<open>components/subjects/schema.ts\<close>) and as it is exported
  (\<open>components/subjects/schemaExport.ts\<close>): the tree rebuilt from the reported paths, the JSON Schema and
  the TypeScript interface.

  What the platform does to texts is a record of functions: the text of a number, \<open>toFixed(1)\<close>,
  \<open>JSON.parse\<close>, \<open>JSON.stringify\<close>, the text of a date, and the horizontal ellipsis, which is not a
  character of the model. A table of type names has exactly its own entries.
\<close>

record schema_texts =
  tx_num :: "rat \<Rightarrow> string"
  tx_fixed1 :: "rat \<Rightarrow> string"
  tx_parse :: "string \<Rightarrow> json option"
  tx_print :: "json \<Rightarrow> string"
  tx_date :: "int \<Rightarrow> string"
  tx_ellipsis :: string
  tx_dot :: string

record derived_field = schema_field +
  df_example :: string
  df_min :: "rat option"
  df_max :: "rat option"
  df_enum :: "string list option"
  df_format :: "string option"

datatype drift_kind = TypeChanged | FieldGone | FieldNew

record schema_drift =
  dr_path :: string
  dr_kind :: drift_kind
  dr_before :: string
  dr_after :: string
  dr_since :: int

record subject_schema =
  ss_samples :: nat
  ss_kinds :: "(string, nat) jsmap"
  ss_fields :: "derived_field list"
  ss_drift :: "schema_drift list"
  ss_from :: int
  ss_to :: int
  ss_truncated :: "bool option"

subsection \<open>The panel\<close>

definition is_optional :: "derived_field \<Rightarrow> bool" where
  "is_optional f = (sf_presence f < 999 / 1000)"

definition format_presence :: "schema_texts \<Rightarrow> rat \<Rightarrow> string" where
  "format_presence tx presence = (let pct = presence * 100 in
     if pct \<ge> 9995 / 100 then ''100%''
     else if pct \<le> 0 then ''0%''
     else if pct < 1 / 10 then ''<0.1%''
     else (if pct < 10 then tx_fixed1 tx pct else tx_num tx (of_int (js_round pct))) @ ''%'')"

text \<open>\<open>Number(v.toFixed(d))\<close>: halves away from zero.\<close>

definition fixed_value :: "nat \<Rightarrow> rat \<Rightarrow> rat" where
  "fixed_value d v = sgn v * of_int (js_round (\<bar>v\<bar> * 10 ^ d)) / 10 ^ d"

definition format_number :: "schema_texts \<Rightarrow> rat \<Rightarrow> string" where
  "format_number tx v = (if of_int \<lfloor>v\<rfloor> = v then tx_num tx v else tx_num tx (fixed_value 4 v))"

definition has_enum :: "derived_field \<Rightarrow> bool" where
  "has_enum f = (case df_enum f of Some (v # vs) \<Rightarrow> True | _ \<Rightarrow> False)"

definition format_range :: "schema_texts \<Rightarrow> derived_field \<Rightarrow> string" where
  "format_range tx f = (if has_enum f then join_str '' | '' (nullish (df_enum f) [])
     else (case (df_min f, df_max f) of
         (Some a, Some b) \<Rightarrow> if a = b then format_number tx a
           else format_number tx a @ '' '' @ tx_ellipsis tx @ '' '' @ format_number tx b
       | _ \<Rightarrow> []))"

definition describe_drift :: "schema_drift \<Rightarrow> string" where
  "describe_drift d = (case dr_kind d of
     TypeChanged \<Rightarrow> ''type changed from '' @ dr_before d @ '' to '' @ dr_after d
   | FieldGone \<Rightarrow> ''no longer sent (was '' @ dr_before d @ '')''
   | FieldNew \<Rightarrow> ''new field ('' @ dr_after d @ '')'')"

datatype type_tone = TypeInfo | TypeAccent | TypeOk | TypeWarn | TypeNeutral

definition tone_of_type :: "string \<Rightarrow> type_tone" where
  "tone_of_type t = (if t = ''integer'' \<or> t = ''number'' then TypeInfo
     else if t = ''string'' then TypeAccent
     else if t = ''bool'' then TypeOk
     else if t = ''null'' then TypeWarn
     else TypeNeutral)"

definition drift_by_path :: "schema_drift list \<Rightarrow> (string, schema_drift) jsmap" where
  "drift_by_path drift = fold (\<lambda>d out. if jm_has out (dr_path d) then out else jm_set (dr_path d) d out) drift []"

definition kind_order :: "string list" where
  "kind_order = [''json'', ''string'', ''binary'']"

definition kind_index :: "string \<Rightarrow> int" where
  "kind_index k = (case index_of k kind_order of Some i \<Rightarrow> int i | None \<Rightarrow> - 1)"

definition describe_kinds :: "schema_texts \<Rightarrow> subject_schema \<Rightarrow> string" where
  "describe_kinds tx schema = (let parts = js_sort (\<lambda>a b. kind_index (fst a) - kind_index (fst b))
       (filter (\<lambda>(k, n). n > 0) (ss_kinds schema)) in
     join_str ('' '' @ tx_dot tx @ '' '') (map (\<lambda>(k, n). nat_str n @ '' '' @ k) parts))"

definition orphan_drift :: "subject_schema \<Rightarrow> schema_drift list" where
  "orphan_drift schema = (let known = map sf_path (ss_fields schema) in
     filter (\<lambda>d. dr_path d \<notin> set known) (ss_drift schema))"

subsection \<open>The tree\<close>

datatype node = Node (n_field: "derived_field option") (n_children: "(string \<times> node) list") (n_items: "node option")

definition empty_node :: node where
  "empty_node = Node None [] None"

text \<open>One part between dots: the brackets at its end are steps of their own. A dot of the pattern does
  not match a line break, so a part that has one before its brackets matches nothing.\<close>

fun brackets_off :: "string \<Rightarrow> string \<times> nat" where
  "brackets_off (a # b # cs) = (if a = CHR '']'' \<and> b = CHR ''['' then (case brackets_off cs of (w, n) \<Rightarrow> (w, Suc n))
     else (a # b # cs, 0))"
| "brackets_off cs = (cs, 0)"

definition line_break :: "char \<Rightarrow> bool" where
  "line_break c = (c = CHR 0x0A \<or> c = CHR 0x0D)"

definition part_steps :: "string \<Rightarrow> string list" where
  "part_steps part = (case brackets_off (rev part) of (w, n) \<Rightarrow>
     if list_ex line_break w then []
     else (if w \<noteq> [] then [rev w] else []) @ replicate n ''[]'')"

definition path_steps :: "string \<Rightarrow> string list" where
  "path_steps path = concat (map part_steps (split_on CHR ''.'' path))"

fun insert_field :: "string list \<Rightarrow> derived_field \<Rightarrow> node \<Rightarrow> node" where
  "insert_field [] f (Node g cs it) = Node (Some f) cs it"
| "insert_field (s # ss) f (Node g cs it) =
     (if s = ''[]'' then Node g cs (Some (insert_field ss f (nullish it empty_node)))
      else Node g (jm_set s (insert_field ss f (nullish (jm_get cs s) empty_node)) cs) it)"

definition build_tree :: "derived_field list \<Rightarrow> node" where
  "build_tree fs = fold (\<lambda>f. insert_field (path_steps (sf_path f)) f) fs empty_node"

subsection \<open>What is known of a field\<close>

definition value_types :: "derived_field option \<Rightarrow> string list" where
  "value_types field = (let types = filter (\<lambda>t. t \<noteq> ''null'') (map fst (case field of Some f \<Rightarrow> sf_types f | None \<Rightarrow> [])) in
     if ''number'' \<in> set types then filter (\<lambda>t. t \<noteq> ''integer'') types else types)"

definition nullable :: "derived_field option \<Rightarrow> bool" where
  "nullable field = list_ex (\<lambda>t. fst t = ''null'') (case field of Some f \<Rightarrow> sf_types f | None \<Rightarrow> [])"

definition closed_enum :: "derived_field option \<Rightarrow> string list option" where
  "closed_enum field = (case field of None \<Rightarrow> None
     | Some f \<Rightarrow> if \<not> has_enum f then None
         else if value_types field = [''string''] then df_enum f else None)"

definition presence_of :: "node \<Rightarrow> rat" where
  "presence_of child = (case n_field child of Some f \<Rightarrow> sf_presence f | None \<Rightarrow> 0)"

definition is_required :: "node \<Rightarrow> rat \<Rightarrow> bool" where
  "is_required child parent_presence = (presence_of child \<ge> parent_presence - 1 / 1000000000)"

text \<open>\<open>replace(/\.0$/, '')\<close>.\<close>

definition drop_zero :: "string \<Rightarrow> string" where
  "drop_zero s = (if take 2 (rev s) = ''0.'' then take (length s - 2) s else s)"

definition percent :: "schema_texts \<Rightarrow> rat \<Rightarrow> string" where
  "percent tx presence = (let p = presence * 100 in
     (if p \<ge> 9995 / 100 \<or> p = 0 then tx_num tx (of_int (js_round p)) else drop_zero (tx_fixed1 tx p)) @ ''%'')"

definition field_notes :: "schema_texts \<Rightarrow> derived_field \<Rightarrow> string" where
  "field_notes tx f = join_str ''; ''
     ((if sf_presence f < 1 then [''seen in '' @ percent tx (sf_presence f) @ '' of the sampled messages''] else []) @
      (if df_format f = Some ''date-time'' then [''every sample was an RFC 3339 timestamp''] else []) @
      (case (df_min f, df_max f) of (Some a, Some b) \<Rightarrow>
          [if a = b then ''observed value '' @ tx_num tx a
           else ''observed range '' @ tx_num tx a @ '' '' @ tx_ellipsis tx @ '' '' @ tx_num tx b]
        | _ \<Rightarrow> []) @
      (if has_enum f \<and> closed_enum (Some f) = None then [''observed strings: '' @ join_str '', '' (nullish (df_enum f) [])] else []))"

definition ends_with :: "string \<Rightarrow> string \<Rightarrow> bool" where
  "ends_with s t = starts_with (rev s) (rev t)"

definition example_value :: "schema_texts \<Rightarrow> derived_field \<Rightarrow> json option" where
  "example_value tx f = (if df_example f = [] \<or> ends_with (df_example f) (tx_ellipsis tx) then None
     else tx_parse tx (df_example f))"

definition headline :: "schema_texts \<Rightarrow> string \<Rightarrow> subject_schema \<Rightarrow> string" where
  "headline tx subject schema = (let samples = nullish (jm_get (ss_kinds schema) ''json'') 0;
       span = (if ss_from schema \<noteq> 0 \<and> ss_to schema \<noteq> 0
         then '' recorded between '' @ tx_date tx (ss_from schema) @ '' and '' @ tx_date tx (ss_to schema) else []) in
     ''Derived by NATS Explorer from '' @ nat_str samples @ '' JSON message'' @ (if samples = 1 then [] else ''s'') @
     '' on '' @ subject @ span @ ''.'')"

definition disclaimer :: string where
  "disclaimer = ''Derived from samples, not from a contract: fields that never appeared are missing, and required means present in every sample.''"

subsection \<open>JSON Schema\<close>

definition json_types :: "(string, string) jsmap" where
  "json_types = [(''bool'', ''boolean''), (''integer'', ''integer''), (''number'', ''number''), (''string'', ''string''),
     (''object'', ''object''), (''array'', ''array'')]"

definition schema_types :: "derived_field option \<Rightarrow> string list" where
  "schema_types field = List.map_filter (jm_get json_types) (value_types field) @ (if nullable field then [''null''] else [])"

definition type_entry :: "node \<Rightarrow> (string \<times> json) list" where
  "type_entry n = (case schema_types (n_field n) of
     [t] \<Rightarrow> [(''type'', JStr t)]
   | t # u # ts \<Rightarrow> [(''type'', JArr (map JStr (js_uniq (t # u # ts))))]
   | [] \<Rightarrow> if n_children n \<noteq> [] then [(''type'', JStr ''object'')]
       else if n_items n \<noteq> None then [(''type'', JStr ''array'')] else [])"

definition field_entries :: "schema_texts \<Rightarrow> node \<Rightarrow> (string \<times> json) list" where
  "field_entries tx n = (case n_field n of None \<Rightarrow> []
   | Some f \<Rightarrow>
     (let description = field_notes tx f in if description \<noteq> [] then [(''description'', JStr description)] else []) @
     (case closed_enum (Some f) of Some vs \<Rightarrow> [(''enum'', JArr (map JStr vs))] | None \<Rightarrow> []) @
     (if truthy (df_format f) \<and> list_all (\<lambda>t. t = ''string'') (value_types (Some f))
      then [(''format'', JStr (nullish (df_format f) []))] else []) @
     (case example_value tx f of Some v \<Rightarrow> if n_children n = [] \<and> n_items n = None then [(''examples'', JArr [v])] else []
      | None \<Rightarrow> []))"

definition required_names :: "(string \<times> node) list \<Rightarrow> rat \<Rightarrow> string list" where
  "required_names cs presence = map fst (filter (\<lambda>(k, c). is_required c presence) cs)"

fun json_schema_node :: "schema_texts \<Rightarrow> node \<Rightarrow> rat \<Rightarrow> (string \<times> json) list" where
  "json_schema_node tx (Node f cs it) parent_presence =
     (let presence = (case f of Some g \<Rightarrow> sf_presence g | None \<Rightarrow> parent_presence) in
      type_entry (Node f cs it) @ field_entries tx (Node f cs it) @
      (if cs \<noteq> [] then
         [(''properties'', JObj (map (\<lambda>(k, c). (k, JObj (json_schema_node tx c presence))) cs))] @
         (if required_names cs presence \<noteq> [] then [(''required'', JArr (map JStr (required_names cs presence)))] else []) @
         [(''additionalProperties'', JBool True)]
       else []) @
      (case it of Some n \<Rightarrow> [(''items'', JObj (json_schema_node tx n presence))] | None \<Rightarrow> []))"

definition to_json_schema :: "schema_texts \<Rightarrow> string \<Rightarrow> subject_schema \<Rightarrow> string" where
  "to_json_schema tx subject schema = (let root = json_schema_node tx (build_tree (ss_fields schema)) 1 in
     tx_print tx (JObj (fold (\<lambda>(k, v). jm_set k v) root
       [(''$schema'', JStr ''https://json-schema.org/draft/2020-12/schema''),
        (''$id'', JStr (''urn:nats:subject:'' @ subject)),
        (''title'', JStr subject),
        (''description'', JStr (headline tx subject schema @ '' '' @ disclaimer))])) @ [CHR 0x0A])"

subsection \<open>TypeScript\<close>

definition alnum :: "char \<Rightarrow> bool" where
  "alnum c = (is_digit c \<or> is_upper c \<or> is_lower c)"

definition capital :: "string \<Rightarrow> string" where
  "capital part = (case part of [] \<Rightarrow> [] | c # cs \<Rightarrow> upper c # cs)"

definition type_name :: "string \<Rightarrow> string" where
  "type_name subject = (let name = concat (map capital (fields_by (\<lambda>c. \<not> alnum c) [] subject)) in
     if name = [] then ''Payload''
     else if is_digit (hd name) then ''Subject'' @ name else name)"

definition ident_start :: "char \<Rightarrow> bool" where
  "ident_start c = (is_upper c \<or> is_lower c \<or> c = CHR ''_'' \<or> c = CHR ''$'')"

definition is_identifier :: "string \<Rightarrow> bool" where
  "is_identifier k = (case k of [] \<Rightarrow> False | c # cs \<Rightarrow> ident_start c \<and> list_all (\<lambda>d. ident_start d \<or> is_digit d) cs)"

definition quote_key :: "schema_texts \<Rightarrow> string \<Rightarrow> string" where
  "quote_key tx k = (if is_identifier k then k else tx_print tx (JStr k))"

definition ts_types :: "(string, string) jsmap" where
  "ts_types = [(''bool'', ''boolean''), (''integer'', ''number''), (''number'', ''number''), (''string'', ''string''),
     (''object'', ''Record<string, unknown>''), (''array'', ''unknown[]'')]"

definition leaf_type :: "schema_texts \<Rightarrow> derived_field option \<Rightarrow> string" where
  "leaf_type tx field = (let types = (case closed_enum field of
       Some vs \<Rightarrow> map (\<lambda>v. tx_print tx (JStr v)) vs
     | None \<Rightarrow> js_uniq (map (\<lambda>t. nullish (jm_get ts_types t) ''unknown'') (value_types field))) in
     if types \<noteq> [] then join_str '' | '' types else ''unknown'')"

definition array_of :: "string \<Rightarrow> string" where
  "array_of inner = (if list_ex (\<lambda>c. c = CHR ''|'' \<or> c = CHR ''&'') inner \<and> \<not> starts_with inner ''{''
     then ''('' @ inner @ '')[]'' else inner @ ''[]'')"

definition or_null :: "derived_field option \<Rightarrow> string \<Rightarrow> string" where
  "or_null field base = (if nullable field then base @ '' | null'' else base)"

definition child_doc :: "schema_texts \<Rightarrow> string \<Rightarrow> node \<Rightarrow> string" where
  "child_doc tx indent child = (let note = (case n_field child of Some f \<Rightarrow> field_notes tx f | None \<Rightarrow> []) in
     if note \<noteq> [] then indent @ ''  /** '' @ note @ '' */'' @ [CHR 0x0A] else [])"

fun ts_type :: "schema_texts \<Rightarrow> node \<Rightarrow> string \<Rightarrow> string" where
  "ts_type tx (Node f cs it) indent = or_null f
     (if cs \<noteq> [] then (let presence = (case f of Some g \<Rightarrow> sf_presence g | None \<Rightarrow> 1) in
        join_with (CHR 0x0A) ([''{''] @
          map (\<lambda>(k, c). child_doc tx indent c @ indent @ ''  '' @ quote_key tx k @
            (if is_required c presence then [] else ''?'') @ '': '' @ ts_type tx c (indent @ ''  '') @ '';'') cs @
          [indent @ ''}'']))
      else (case it of Some n \<Rightarrow> array_of (ts_type tx n indent) | None \<Rightarrow> leaf_type tx f))"

definition to_type_script :: "schema_texts \<Rightarrow> string \<Rightarrow> subject_schema \<Rightarrow> string" where
  "to_type_script tx subject schema = (let root = build_tree (ss_fields schema); nl = [CHR 0x0A];
       header = ''/**'' @ nl @ '' * '' @ headline tx subject schema @ nl @ '' *'' @ nl @ '' * '' @ disclaimer @ nl @ '' */'' @ nl;
       name = type_name subject in
     if n_children root = [] \<and> n_items root \<noteq> None
     then header @ ''export type '' @ name @ '' = '' @ ts_type tx root [] @ '';'' @ nl
     else header @ ''export interface '' @ name @ '' '' @
       (if n_children root \<noteq> [] then ts_type tx root [] else ''{'' @ nl @ ''  [key: string]: unknown;'' @ nl @ ''}'') @ nl)"

subsection \<open>The tree holds the reported fields\<close>

text \<open>What stands at a path of steps.\<close>

fun node_at :: "string list \<Rightarrow> node \<Rightarrow> node option" where
  "node_at [] n = Some n"
| "node_at (s # ss) n = (case (if s = ''[]'' then n_items n else jm_get (n_children n) s) of
     Some m \<Rightarrow> node_at ss m | None \<Rightarrow> None)"

definition field_at :: "string list \<Rightarrow> node \<Rightarrow> derived_field option" where
  "field_at ss n = Option.bind (node_at ss n) n_field"

lemma field_at_simps [simp]:
  "field_at [] n = n_field n"
  "field_at (s # ss) n = Option.bind (if s = ''[]'' then n_items n else jm_get (n_children n) s) (field_at ss)"
  by (simp_all add: field_at_def split: option.split)

lemma field_at_empty [simp]: "field_at ss empty_node = None"
  by (cases ss) (simp_all add: empty_node_def)

lemma field_at_insert: "field_at ss (insert_field ts f n) = (if ss = ts then Some f else field_at ss n)"
proof (induction ts f n arbitrary: ss rule: insert_field.induct)
  case (1 f g cs it)
  then show ?case by (cases ss) simp_all
next
  case (2 t ts f g cs it)
  show ?case
  proof (cases ss)
    case (Cons s rest)
    show ?thesis
    proof (cases "t = ''[]''")
      case True
      then show ?thesis using 2(1) Cons by (cases it) auto
    next
      case False
      then show ?thesis using 2(2) Cons by (cases "jm_get cs t") auto
    qed
  qed simp
qed

text \<open>Under every path of steps stands the last field reported with it, and under every other none.\<close>

theorem tree_holds_fields:
  "field_at ss (build_tree fs) = find (\<lambda>f. path_steps (sf_path f) = ss) (rev fs)"
proof -
  have "field_at ss (fold (\<lambda>f. insert_field (path_steps (sf_path f)) f) fs n) =
      (case find (\<lambda>f. path_steps (sf_path f) = ss) (rev fs) of Some f \<Rightarrow> Some f | None \<Rightarrow> field_at ss n)" for n
    by (induction fs rule: rev_induct) (auto simp: field_at_insert)
  then show ?thesis by (simp add: build_tree_def split: option.split)
qed

subsection \<open>Paths\<close>

text \<open>The path the backend reports for the steps of a document: a dot before a name, none before the
  brackets of an array.\<close>

fun path_text :: "string list \<Rightarrow> string" where
  "path_text [] = []"
| "path_text [s] = s"
| "path_text (s # t # ss) = s @ (if t = ''[]'' then [] else ''.'') @ path_text (t # ss)"

definition step_ok :: "string \<Rightarrow> bool" where
  "step_ok s \<longleftrightarrow> s = ''[]'' \<or> (s \<noteq> [] \<and> CHR ''.'' \<notin> set s \<and> \<not> list_ex line_break s \<and> \<not> ends_with s ''[]'')"

lemma path_text_snoc:
  "path_text (ss @ [t]) = path_text ss @ (if t = ''[]'' then t else if ss = [] then t else CHR ''.'' # t)"
  by (induction ss rule: path_text.induct) auto

lemma split_on_extend:
  assumes "d \<notin> set y"
  shows "split_on d (x @ y) = butlast (split_on d x) @ [last (split_on d x) @ y]"
proof (induction x)
  case Nil
  show ?case using assms by (simp add: split_on_single)
next
  case (Cons c x)
  then show ?case by (cases "split_on d x") (auto split: list.split)
qed

lemma brackets_off_set: "set (fst (brackets_off s)) \<subseteq> set s"
  by (induction s rule: brackets_off.induct) (auto split: prod.splits)

lemma part_steps_bracket:
  assumes "\<not> list_ex line_break part"
  shows "part_steps (part @ ''[]'') = part_steps part @ [''[]'']"
proof -
  obtain w n where w: "brackets_off (rev part) = (w, n)" by (cases "brackets_off (rev part)")
  have "\<not> list_ex line_break w"
    using brackets_off_set [of "rev part"] w assms by (auto simp: list_ex_iff)
  then show ?thesis using w by (simp add: part_steps_def replicate_append_same)
qed

lemma brackets_off_none: "\<not> starts_with s (rev ''[]'') \<Longrightarrow> brackets_off s = (s, 0)"
  by (cases s rule: brackets_off.cases) auto

lemma part_steps_name: "step_ok t \<Longrightarrow> t \<noteq> ''[]'' \<Longrightarrow> part_steps t = [t]"
  by (auto simp: step_ok_def part_steps_def ends_with_def brackets_off_none list_ex_iff)

lemma step_no_break: "step_ok s \<Longrightarrow> \<not> list_ex line_break s"
  by (auto simp: step_ok_def line_break_def)

lemma path_text_no_break: "list_all step_ok ss \<Longrightarrow> \<not> list_ex line_break (path_text ss)"
proof (induction ss rule: path_text.induct)
  case (3 s t ss)
  have "\<not> line_break CHR ''.''" by (simp add: line_break_def)
  then show ?case using 3 step_no_break [of s] by simp
qed (simp_all add: step_no_break)

lemma set_join_with_part: "w \<in> set ws \<Longrightarrow> set w \<subseteq> set (join_with d ws)"
  by (induction d ws rule: join_with.induct) auto

text \<open>The steps read from a reported path are those it was written from, brackets included.\<close>

theorem path_steps_render:
  assumes "ss \<noteq> []" "list_all step_ok ss"
  shows "path_steps (path_text ss) = ss"
  using assms
proof (induction ss rule: rev_induct)
  case (snoc t ss)
  have ok: "list_all step_ok ss" "step_ok t" using snoc.prems by simp_all
  show ?case
  proof (cases "t = ''[]''")
    case True
    obtain ws w where parts: "split_on CHR ''.'' (path_text ss) = ws @ [w]"
      by (cases "split_on CHR ''.'' (path_text ss)" rule: rev_cases) simp_all
    then have "set w \<subseteq> set (path_text ss)"
      using set_join_with_part [of w "ws @ [w]" "CHR ''.''"] join_split [of "CHR ''.''" "path_text ss"] by simp
    then have "\<not> list_ex line_break w" using path_text_no_break [OF ok(1)] by (auto simp: list_ex_iff)
    then have "path_steps (path_text ss @ ''[]'') = path_steps (path_text ss) @ [''[]'']"
      using parts by (simp add: path_steps_def split_on_extend part_steps_bracket)
    then show ?thesis using snoc.IH ok(1) True by (cases "ss = []") (simp_all add: path_text_snoc path_steps_def part_steps_def)
  next
    case False
    then have "CHR ''.'' \<notin> set t" using ok(2) by (simp add: step_ok_def)
    then show ?thesis using snoc.IH ok False part_steps_name [OF ok(2) False]
      by (cases "ss = []") (simp_all add: path_text_snoc path_steps_def split_on_snoc split_on_single)
  qed
qed simp

subsection \<open>The exported document\<close>

text \<open>The part of a schema that speaks of a path.\<close>

fun schema_at :: "string list \<Rightarrow> (string \<times> json) list \<Rightarrow> (string \<times> json) list option" where
  "schema_at [] kws = Some kws"
| "schema_at (s # ss) kws =
     (if s = ''[]'' then (case jm_get kws ''items'' of Some (JObj sub) \<Rightarrow> schema_at ss sub | _ \<Rightarrow> None)
      else (case jm_get kws ''properties'' of
          Some (JObj props) \<Rightarrow> (case jm_get props s of Some (JObj sub) \<Rightarrow> schema_at ss sub | _ \<Rightarrow> None)
        | _ \<Rightarrow> None))"

lemma type_entry_keys [simp]: "k \<noteq> ''type'' \<Longrightarrow> jm_get (type_entry n) k = None"
  by (simp add: type_entry_def split: list.split)

lemma type_entry_type: "schema_types (n_field n) \<noteq> [] \<Longrightarrow> jm_get (type_entry n) ''type'' =
    Some (case schema_types (n_field n) of [t] \<Rightarrow> JStr t | ts \<Rightarrow> JArr (map JStr (js_uniq ts)))"
  by (simp add: type_entry_def split: list.split)

lemma field_entries_keys [simp]:
  "k \<notin> {''description'', ''enum'', ''format'', ''examples''} \<Longrightarrow> jm_get (field_entries tx n) k = None"
  by (simp add: field_entries_def Let_def split: option.split)

lemma field_entries_enum:
  "jm_get (field_entries tx n) ''enum'' = map_option (\<lambda>vs. JArr (map JStr vs)) (closed_enum (n_field n))"
  by (simp add: field_entries_def Let_def closed_enum_def split: option.split)

lemma schema_node_get:
  "jm_get (json_schema_node tx n pp) ''type'' = jm_get (type_entry n) ''type''"
  "jm_get (json_schema_node tx n pp) ''enum'' = map_option (\<lambda>vs. JArr (map JStr vs)) (closed_enum (n_field n))"
  "jm_get (json_schema_node tx n pp) ''items'' = map_option (\<lambda>m. JObj (json_schema_node tx m
     (case n_field n of Some g \<Rightarrow> sf_presence g | None \<Rightarrow> pp))) (n_items n)"
  "jm_get (json_schema_node tx n pp) ''properties'' = (if n_children n = [] then None else
     Some (JObj (map (\<lambda>(k, c). (k, JObj (json_schema_node tx c (case n_field n of Some g \<Rightarrow> sf_presence g | None \<Rightarrow> pp))))
       (n_children n))))"
  by (cases n; simp add: Let_def map_add_def field_entries_enum split: option.split)+

declare json_schema_node.simps [simp del]

lemma map_of_children: "jm_get (map (\<lambda>(k, c). (k, g c)) cs) s = map_option g (jm_get cs s)"
  by (induction cs) auto

lemma schema_at_node:
  "node_at ss n = Some m \<Longrightarrow> \<exists>pp'. schema_at ss (json_schema_node tx n pp) = Some (json_schema_node tx m pp')"
proof (induction ss n arbitrary: pp rule: node_at.induct)
  case (2 s ss n)
  show ?case
  proof (cases "s = ''[]''")
    case True
    then show ?thesis using 2 by (auto simp: schema_node_get split: option.splits)
  next
    case False
    then obtain c where c: "jm_get (n_children n) s = Some c" "node_at ss c = Some m"
      using 2(2) by (auto split: option.splits)
    then have "n_children n \<noteq> []" by auto
    then show ?thesis using 2(1) c False
      by (auto simp: schema_node_get map_of_children [where g = "\<lambda>c. JObj (json_schema_node tx c _)"])
  qed
qed auto

text \<open>The exported JSON Schema says of every reported path the types it was seen with, \<open>null\<close> among them,
  and closes the set of its values exactly where the field is an enumeration of strings.\<close>

theorem exported_types:
  "case find (\<lambda>f. path_steps (sf_path f) = ss) (rev fs) of None \<Rightarrow> True
   | Some f \<Rightarrow> (case schema_at ss (json_schema_node tx (build_tree fs) 1) of None \<Rightarrow> False
     | Some kws \<Rightarrow>
       (schema_types (Some f) = [] \<or>
        jm_get kws ''type'' = Some (case schema_types (Some f) of [t] \<Rightarrow> JStr t | ts \<Rightarrow> JArr (map JStr (js_uniq ts)))) \<and>
       jm_get kws ''enum'' = map_option (\<lambda>vs. JArr (map JStr vs)) (closed_enum (Some f)))"
proof (cases "find (\<lambda>f. path_steps (sf_path f) = ss) (rev fs)")
  case (Some f)
  then have "field_at ss (build_tree fs) = Some f" using tree_holds_fields [of ss fs] by simp
  then obtain m where m: "node_at ss (build_tree fs) = Some m" "n_field m = Some f"
    by (auto simp: field_at_def bind_eq_Some_conv)
  obtain pp where "schema_at ss (json_schema_node tx (build_tree fs) 1) = Some (json_schema_node tx m pp)"
    using schema_at_node [OF m(1)] by blast
  then show ?thesis using Some m(2) type_entry_type [of m] by (auto simp: schema_node_get)
qed simp

subsection \<open>Where the export says too much\<close>

definition type_allows :: "(string \<times> json) list \<Rightarrow> string \<Rightarrow> bool" where
  "type_allows kws t = (case jm_get kws ''type'' of Some (JStr u) \<Rightarrow> t = u
     | Some (JArr us) \<Rightarrow> JStr t \<in> set us | _ \<Rightarrow> True)"

definition enum_allows :: "(string \<times> json) list \<Rightarrow> json \<Rightarrow> bool" where
  "enum_allows kws v = (case jm_get kws ''enum'' of Some (JArr vs) \<Rightarrow> v \<in> set vs | _ \<Rightarrow> True)"

definition required_present :: "(string \<times> json) list \<Rightarrow> (string \<times> json) list \<Rightarrow> bool" where
  "required_present kws doc = (case jm_get kws ''required'' of
     Some (JArr ns) \<Rightarrow> list_all (\<lambda>n. list_ex (\<lambda>(k, v). JStr k = n) doc) ns | _ \<Rightarrow> True)"

text \<open>A string field that was also null is exported with \<open>null\<close> among its types and without it among its
  values, so the schema refuses the samples it was derived from.\<close>

theorem nullable_enum_refuses_null:
  assumes "closed_enum (Some f) = Some vs" "nullable (Some f)"
  shows "type_allows (json_schema_node tx (Node (Some f) cs it) pp) ''null'' \<and>
    \<not> enum_allows (json_schema_node tx (Node (Some f) cs it) pp) JNull"
proof -
  have "value_types (Some f) = [''string'']" using assms(1) by (simp add: closed_enum_def split: if_splits)
  then have "schema_types (Some f) = [''string'', ''null'']"
    using assms(2) by (simp add: schema_types_def json_types_def List.map_filter_simps)
  then show ?thesis using assms(1) type_entry_type [of "Node (Some f) cs it"]
    by (auto simp: type_allows_def enum_allows_def schema_node_get js_uniq_def js_add_def)
qed

definition sample_field :: "string \<Rightarrow> (string \<times> nat) list \<Rightarrow> rat \<Rightarrow> derived_field" where
  "sample_field path types presence = \<lparr>sf_path = path, sf_types = types, sf_presence = presence, df_example = [],
     df_min = None, df_max = None, df_enum = None, df_format = None\<rparr>"

text \<open>A message \<open>{"xs":[{"n":1},{}]}\<close> alone on a subject: every message carries \<open>xs[].n\<close>, not every element. The
  schema requires it of the elements, so it refuses the message.\<close>

definition element_fields :: "derived_field list" where
  "element_fields = [sample_field ''xs'' [(''array'', 1)] 1, sample_field ''xs[]'' [(''object'', 2)] 1,
     sample_field ''xs[].n'' [(''integer'', 1)] 1]"

lemma element_tree: "\<exists>c. build_tree element_fields = Node None [(''xs'', Node (Some (sample_field ''xs'' [(''array'', 1)] 1)) []
    (Some (Node (Some (sample_field ''xs[]'' [(''object'', 2)] 1)) [(''n'', Node (Some c) [] None)] None)))] None \<and> sf_presence c = 1"
  by (simp add: build_tree_def element_fields_def sample_field_def path_steps_def part_steps_def line_break_def empty_node_def)

theorem element_member_required:
  "case schema_at [''xs'', ''[]''] (json_schema_node tx (build_tree element_fields) 1) of
     None \<Rightarrow> False | Some kws \<Rightarrow> required_present kws [(''n'', JNum 1)] \<and> \<not> required_present kws []"
  using element_tree
  by (auto simp: json_schema_node.simps type_entry_def field_entries_def schema_types_def value_types_def nullable_def json_types_def
    sample_field_def Let_def List.map_filter_simps closed_enum_def has_enum_def truthy_def field_notes_def example_value_def
    required_names_def is_required_def presence_of_def required_present_def)

text \<open>An array whose elements are objects or null is written without parentheses: \<open>{...} | null[]\<close>, which
  TypeScript reads as an object or an array of nulls.\<close>

theorem nullable_elements_unbracketed:
  assumes "nullable (Some g)"
  shows "\<exists>base. starts_with base ''{'' \<and>
    ts_type tx (Node f [] (Some (Node (Some g) (c # cs) it))) indent = or_null f (base @ '' | null[]'')"
proof -
  obtain base where base: "ts_type tx (Node (Some g) (c # cs) it) indent = base @ '' | null''" "starts_with base ''{''"
    using assms by (cases "map (\<lambda>(k, c). child_doc tx indent c @ indent @ ''  '' @ quote_key tx k @
            (if is_required c (sf_presence g) then [] else ''?'') @ '': '' @ ts_type tx c (indent @ ''  '') @ '';'') (c # cs)")
      (simp_all add: or_null_def Let_def)
  then have "starts_with (base @ '' | null'') ''{''" by (cases base) simp_all
  then have "array_of (base @ '' | null'') = base @ '' | null[]''" by (simp add: array_of_def)
  then show ?thesis using base by (intro exI [of _ base]) simp
qed

end
