(* ===== verification/Debounce.thy ===== *)
theory Debounce
  imports Prelude
begin

text \<open>
  The effect two components share: ask the backend after a pause in the typing, and drop an answer to
  what was typed before. Every run of the effect clears the timer of the run before and marks its
  answer as stale; here the clean-up is the next number, and an answer carries the number of the run
  that asked. \<open>'q\<close> is what a run asks.
\<close>

record 'q debounce =
  db_run :: nat
  db_timer :: "(nat \<times> 'q) option"
  db_flight :: "(nat \<times> 'q) list"

definition db_start :: "'q debounce" where
  "db_start = \<lparr>db_run = 0, db_timer = None, db_flight = []\<rparr>"

text \<open>The clean-up and the effect, which sets a timer when there is something to ask.\<close>

definition db_restart :: "'q option \<Rightarrow> 'q debounce \<Rightarrow> 'q debounce" where
  "db_restart w d = d\<lparr>db_run := Suc (db_run d), db_timer := map_option (\<lambda>q. (Suc (db_run d), q)) w\<rparr>"

definition db_fire :: "'q debounce \<Rightarrow> 'q debounce" where
  "db_fire d = (case db_timer d of None \<Rightarrow> d
     | Some (n, q) \<Rightarrow> d\<lparr>db_timer := None, db_flight := (n, q) # db_flight d\<rparr>)"

text \<open>The answer to a request, and the question it answers unless it is stale.\<close>

definition db_answer :: "nat \<Rightarrow> 'q debounce \<Rightarrow> 'q debounce \<times> 'q option" where
  "db_answer n d = (case jm_get (db_flight d) n of None \<Rightarrow> (d, None)
     | Some q \<Rightarrow> (d\<lparr>db_flight := jm_delete n (db_flight d)\<rparr>, if n = db_run d then Some q else None))"

definition db_waiting :: "'q debounce \<Rightarrow> bool" where
  "db_waiting d \<longleftrightarrow> db_timer d \<noteq> None \<or> jm_has (db_flight d) (db_run d)"

text \<open>What the state keeps while \<open>w\<close> is asked.\<close>

definition db_ok :: "'q option \<Rightarrow> 'q debounce \<Rightarrow> bool" where
  "db_ok w d \<longleftrightarrow>
     (\<forall>n q. db_timer d = Some (n, q) \<longrightarrow> n = db_run d \<and> w = Some q) \<and>
     (\<forall>(n, q) \<in> set (db_flight d). n \<le> db_run d \<and> (n = db_run d \<longrightarrow> w = Some q \<and> db_timer d = None)) \<and>
     jm_wf (db_flight d)"

lemma db_start_ok [simp]: "db_ok w db_start" "\<not> db_waiting db_start"
  by (simp_all add: db_ok_def db_start_def db_waiting_def jm_has_def)

lemma db_flight_current:
  assumes "db_ok w d" "(n, q) \<in> set (db_flight d)"
  shows "n \<le> db_run d" "n = db_run d \<Longrightarrow> w = Some q" "n = db_run d \<Longrightarrow> db_timer d = None"
proof -
  have "\<forall>(n, q) \<in> set (db_flight d). n \<le> db_run d \<and> (n = db_run d \<longrightarrow> w = Some q \<and> db_timer d = None)"
    using assms(1) unfolding db_ok_def by (elim conjE)
  from bspec[OF this assms(2)] show "n \<le> db_run d" "n = db_run d \<Longrightarrow> w = Some q" "n = db_run d \<Longrightarrow> db_timer d = None"
    by simp_all
qed

lemma db_timer_current: "db_ok w d \<Longrightarrow> db_timer d = Some (n, q) \<Longrightarrow> n = db_run d \<and> w = Some q"
  unfolding db_ok_def by blast

lemma db_restart_ok:
  assumes "db_ok w' d"
  shows "db_ok w (db_restart w d)" "db_waiting (db_restart w d) \<longleftrightarrow> w \<noteq> None"
proof -
  have old: "(n, q) \<in> set (db_flight d) \<Longrightarrow> n < Suc (db_run d)" for n q
    using db_flight_current(1)[OF assms] by (simp add: less_Suc_eq_le)
  have "jm_wf (db_flight d)" using assms by (simp add: db_ok_def)
  then show "db_ok w (db_restart w d)" using old by (auto simp: db_ok_def db_restart_def dest: old)
  have "jm_get (db_flight d) (Suc (db_run d)) = None" using old by (force simp: jm_get_None)
  then show "db_waiting (db_restart w d) \<longleftrightarrow> w \<noteq> None" by (simp add: db_waiting_def db_restart_def jm_has_def)
qed

lemma db_fire_ok:
  assumes ok: "db_ok w d"
  shows "db_ok w (db_fire d)" "db_waiting (db_fire d) = db_waiting d"
proof -
  have "db_ok w (db_fire d) \<and> db_waiting (db_fire d) = db_waiting d"
  proof (cases "db_timer d")
    case None
    then show ?thesis using ok by (simp add: db_fire_def)
  next
    case (Some t)
    then obtain n q where t: "db_timer d = Some (n, q)" by (cases t) simp
    have n: "n = db_run d" "w = Some q" using db_timer_current[OF ok t] by simp_all
    have new: "db_run d \<notin> fst ` set (db_flight d)"
    proof
      assume "db_run d \<in> fst ` set (db_flight d)"
      then obtain r where "(db_run d, r) \<in> set (db_flight d)" by force
      then show False using db_flight_current(3)[OF ok] t by fastforce
    qed
    have "jm_wf (db_flight d)" using ok by (simp add: db_ok_def)
    then show ?thesis using t n new db_flight_current(1)[OF ok]
      by (auto simp: db_ok_def db_fire_def db_waiting_def jm_has_def image_iff)
  qed
  then show "db_ok w (db_fire d)" "db_waiting (db_fire d) = db_waiting d" by simp_all
qed

text \<open>An answer that is not stale is the one to what is asked now, and the last one to wait for.\<close>

lemma db_answer_ok:
  assumes ok: "db_ok w d"
  shows "db_ok w (fst (db_answer n d))"
    "snd (db_answer n d) = Some q \<Longrightarrow> w = Some q \<and> db_waiting d \<and> \<not> db_waiting (fst (db_answer n d))"
    "snd (db_answer n d) = None \<Longrightarrow> db_waiting (fst (db_answer n d)) = db_waiting d"
proof -
  have wf: "jm_wf (db_flight d)" using ok by (simp add: db_ok_def)
  have sub: "x \<in> set (jm_delete n (db_flight d)) \<Longrightarrow> x \<in> set (db_flight d)" for x by (auto simp: AList.delete_eq)
  have "\<forall>(m, r) \<in> set (jm_delete n (db_flight d)). m \<le> db_run d \<and> (m = db_run d \<longrightarrow> w = Some r \<and> db_timer d = None)"
    by (clarify, intro conjI impI) (auto dest!: sub dest: db_flight_current[OF ok])
  then have "db_ok w (d\<lparr>db_flight := jm_delete n (db_flight d)\<rparr>)"
    using db_timer_current[OF ok] wf by (simp add: db_ok_def)
  then show "db_ok w (fst (db_answer n d))" using ok by (simp add: db_answer_def split: option.split)
  show "w = Some q \<and> db_waiting d \<and> \<not> db_waiting (fst (db_answer n d))" if a: "snd (db_answer n d) = Some q"
  proof -
    have n: "jm_get (db_flight d) n = Some q" "n = db_run d"
      using a by (auto simp: db_answer_def split: option.splits if_splits)
    then show ?thesis using db_flight_current(2,3)[OF ok jm_get_in[OF n(1)]]
      by (simp add: db_answer_def db_waiting_def jm_has_def)
  qed
  show "db_waiting (fst (db_answer n d)) = db_waiting d" if "snd (db_answer n d) = None"
    using that by (auto simp: db_answer_def db_waiting_def jm_has_def split: option.splits if_splits)
qed

end
