(* ===== verification/Palette.thy ===== *)
theory Palette
  imports Links Debounce
begin

text \<open>
  The command palette (\<open>components/layout/CommandPalette.tsx\<close>): what it can do, which of it the words
  typed leave, the search of the connection behind it, and the keys.

  The component is a state and a step per event. The effect that searches runs when the query, the
  opening or the active connection changed, and is the one of \<open>Debounce\<close>. \<open>toLowerCase\<close> is that of
  ASCII letters.
\<close>

subsection \<open>Commands\<close>

datatype hit_kind = HitSubject | HitStream | HitBucket | HitKey | HitStore | HitObject

record search_hit =
  hit_kind :: hit_kind
  hit_name :: string
  hit_item :: "string option"
  hit_detail :: "string option"

datatype command_group = GroupGoTo | GroupFound | GroupConnections | GroupActions

datatype palette_action = GoModule module_id | SwitchTo string | DisconnectFrom string | ConnectTo string
  | ManageConnections | ToggleTheme | OpenSettings | CopyLink | FollowLink deep_link

record command =
  cmd_id :: string
  cmd_label :: string
  cmd_hint :: "string option"
  cmd_group :: command_group
  cmd_run :: palette_action

fun group_name :: "command_group \<Rightarrow> string" where
  "group_name GroupGoTo = ''Go to''"
| "group_name GroupFound = ''Found''"
| "group_name GroupConnections = ''Connections''"
| "group_name GroupActions = ''Actions''"

definition query_matches :: "string \<Rightarrow> string \<Rightarrow> bool" where
  "query_matches query text = list_all (\<lambda>w. includes_str (to_lower text) w) (fields_by is_space [] (to_lower query))"

text \<open>What the palette reads of the store and of the saved connections.\<close>

record palette_env =
  pe_labels :: "(module_id \<times> string) list"
  pe_module :: module_id
  pe_theme :: theme
  pe_connections :: "connection_status list"
  pe_saved :: "saved_connection list"

definition connection_title :: "saved_connection \<Rightarrow> string" where
  "connection_title c = (if sc_name c \<noteq> [] then sc_name c
     else (case sc_servers c of s # ss \<Rightarrow> s | [] \<Rightarrow> ''undefined''))"

definition module_commands :: "palette_env \<Rightarrow> command list" where
  "module_commands e = map (\<lambda>(m, label). \<lparr>cmd_id = ''module:'' @ module_path m, cmd_label = label,
     cmd_hint = (if m = pe_module e then Some ''the module open now'' else None), cmd_group = GroupGoTo, cmd_run = GoModule m\<rparr>)
     (pe_labels e)"

definition connection_command :: "string \<Rightarrow> string \<Rightarrow> saved_connection \<Rightarrow> palette_action \<Rightarrow> command" where
  "connection_command tag verb c act = \<lparr>cmd_id = tag @ sc_id c, cmd_label = verb @ connection_title c,
     cmd_hint = Some (join_str '', '' (sc_servers c)), cmd_group = GroupConnections, cmd_run = act\<rparr>"

definition connection_live :: "palette_env \<Rightarrow> string \<Rightarrow> bool" where
  "connection_live e ident = (case find (\<lambda>c. cs_id c = ident) (rev (pe_connections e)) of
     Some l \<Rightarrow> cs_connected l | None \<Rightarrow> False)"

definition connection_commands :: "palette_env \<Rightarrow> string option \<Rightarrow> command list" where
  "connection_commands e active = concat (map (\<lambda>c.
     if connection_live e (sc_id c) then
       (if Some (sc_id c) \<noteq> active then [connection_command ''switch:'' ''Switch to '' c (SwitchTo (sc_id c))] else []) @
       [connection_command ''disconnect:'' ''Disconnect '' c (DisconnectFrom (sc_id c))]
     else [connection_command ''connect:'' ''Connect '' c (ConnectTo (sc_id c))]) (pe_saved e))"

definition other_commands :: "palette_env \<Rightarrow> command list" where
  "other_commands e =
     [\<lparr>cmd_id = ''connections'', cmd_label = ''Manage connections'', cmd_hint = None, cmd_group = GroupConnections,
        cmd_run = ManageConnections\<rparr>,
      \<lparr>cmd_id = ''theme'', cmd_label = (if pe_theme e = Dark then ''Switch to the light theme'' else ''Switch to the dark theme''),
        cmd_hint = None, cmd_group = GroupActions, cmd_run = ToggleTheme\<rparr>,
      \<lparr>cmd_id = ''settings'', cmd_label = ''Settings'', cmd_hint = Some ''history on disk, updates'', cmd_group = GroupActions,
        cmd_run = OpenSettings\<rparr>,
      \<lparr>cmd_id = ''link'', cmd_label = ''Copy a link to this view'',
        cmd_hint = Some ''the module, the connection and what is selected'', cmd_group = GroupActions, cmd_run = CopyLink\<rparr>]"

definition own_commands :: "palette_env \<Rightarrow> string option \<Rightarrow> command list" where
  "own_commands e active = module_commands e @ connection_commands e active @ other_commands e"

definition describe_hit :: "search_hit \<Rightarrow> string \<times> string" where
  "describe_hit h = (case hit_kind h of
     HitSubject \<Rightarrow> (hit_name h, ''subject'')
   | HitStream \<Rightarrow> (hit_name h, if truthy (hit_detail h) then ''stream '' @ [CHR 0xB7] @ '' '' @ nullish (hit_detail h) [] else ''stream'')
   | HitBucket \<Rightarrow> (hit_name h, ''Key-Value bucket'')
   | HitKey \<Rightarrow> (nullish (hit_item h) [], ''key in '' @ hit_name h)
   | HitStore \<Rightarrow> (hit_name h, ''object store'')
   | HitObject \<Rightarrow> (nullish (hit_item h) [], ''object in '' @ hit_name h))"

fun kind_text :: "hit_kind \<Rightarrow> string" where
  "kind_text HitSubject = ''subject''" | "kind_text HitStream = ''stream''" | "kind_text HitBucket = ''bucket''"
| "kind_text HitKey = ''key''" | "kind_text HitStore = ''store''" | "kind_text HitObject = ''object''"

definition hit_link :: "string \<Rightarrow> search_hit \<Rightarrow> deep_link" where
  "hit_link conn h = (let l = empty_link\<lparr>dl_conn := Some conn\<rparr> in case hit_kind h of
     HitSubject \<Rightarrow> l\<lparr>dl_module := Some ModSubjects, dl_subject := Some (hit_name h)\<rparr>
   | HitStream \<Rightarrow> l\<lparr>dl_module := Some ModJetstream, dl_stream := Some (hit_name h)\<rparr>
   | HitBucket \<Rightarrow> l\<lparr>dl_module := Some ModKv, dl_bucket := Some (hit_name h)\<rparr>
   | HitKey \<Rightarrow> l\<lparr>dl_module := Some ModKv, dl_bucket := Some (hit_name h), dl_key := hit_item h\<rparr>
   | _ \<Rightarrow> l\<lparr>dl_module := Some ModObjects, dl_store := Some (hit_name h)\<rparr>)"

definition hit_command :: "string \<Rightarrow> search_hit \<Rightarrow> command" where
  "hit_command conn h = \<lparr>cmd_id = ''hit:'' @ kind_text (hit_kind h) @ '':'' @ hit_name h @ '':'' @ nullish (hit_item h) [],
     cmd_label = fst (describe_hit h), cmd_hint = Some (snd (describe_hit h)), cmd_group = GroupFound,
     cmd_run = FollowLink (hit_link conn h)\<rparr>"

subsection \<open>State\<close>

record palette =
  pl_open :: bool
  pl_query :: string
  pl_active :: "string option"
  pl_cursor :: int
  pl_found :: "(string \<times> search_hit list \<times> bool) option"
  pl_searching :: bool
  pl_asks :: "(string \<times> string) debounce"

definition initial_palette :: "string option \<Rightarrow> palette" where
  "initial_palette active = \<lparr>pl_open = False, pl_query = [], pl_active = active, pl_cursor = 0, pl_found = None,
     pl_searching = False, pl_asks = db_start\<rparr>"

definition searchable :: "palette \<Rightarrow> bool" where
  "searchable p \<longleftrightarrow> pl_open p \<and> truthy (pl_active p) \<and> length (trim (pl_query p)) \<ge> 2"

text \<open>The effect that searches, after its clean-up.\<close>

definition wanted_search :: "palette \<Rightarrow> (string \<times> string) option" where
  "wanted_search p = (if searchable p then Some (nullish (pl_active p) [], trim (pl_query p)) else None)"

definition search_effect :: "palette \<Rightarrow> palette" where
  "search_effect p = (let p = p\<lparr>pl_asks := db_restart (wanted_search p) (pl_asks p)\<rparr> in
     if searchable p then p\<lparr>pl_searching := True\<rparr> else p\<lparr>pl_found := None, pl_searching := False\<rparr>)"

definition hit_commands :: "palette \<Rightarrow> command list" where
  "hit_commands p = (case (pl_found p, pl_active p) of
     (Some (q, hits, partial), Some conn) \<Rightarrow> if conn = [] then [] else map (hit_command conn) hits
   | _ \<Rightarrow> [])"

definition command_text :: "command \<Rightarrow> string" where
  "command_text c = group_name (cmd_group c) @ '' '' @ cmd_label c @ '' '' @ nullish (cmd_hint c) []"

definition shown_commands :: "palette_env \<Rightarrow> palette \<Rightarrow> command list" where
  "shown_commands e p = (let own = filter (\<lambda>c. query_matches (pl_query p) (command_text c)) (own_commands e (pl_active p)) in
     filter (\<lambda>c. cmd_group c = GroupGoTo) own @ hit_commands p @ filter (\<lambda>c. cmd_group c \<noteq> GroupGoTo) own)"

definition command_at :: "command list \<Rightarrow> int \<Rightarrow> command option" where
  "command_at cs i = (if 0 \<le> i \<and> nat i < length cs then Some (cs ! nat i) else None)"

datatype palette_event = TypeQuery string | SetOpen bool | SetActive "string option" | ArrowDown | ArrowUp | EnterKey
  | Hover nat | Click nat | TimerFires | Answer nat "(search_hit list \<times> bool) option"

definition set_open :: "bool \<Rightarrow> palette \<Rightarrow> palette" where
  "set_open b p = (if b = pl_open p then p
     else search_effect (p\<lparr>pl_open := b, pl_cursor := 0, pl_query := (if b then pl_query p else [])\<rparr>))"

definition run_command :: "command option \<Rightarrow> palette \<Rightarrow> palette \<times> palette_action option" where
  "run_command c p = (case c of None \<Rightarrow> (p, None) | Some c \<Rightarrow> (set_open False p, Some (cmd_run c)))"

fun palette_step :: "palette_env \<Rightarrow> palette_event \<Rightarrow> palette \<Rightarrow> palette \<times> palette_action option" where
  "palette_step e (TypeQuery q) p = (if q = pl_query p then (p, None)
     else (search_effect (p\<lparr>pl_query := q, pl_cursor := 0\<rparr>), None))"
| "palette_step e (SetOpen b) p = (set_open b p, None)"
| "palette_step e (SetActive a) p = (if a = pl_active p then (p, None) else (search_effect (p\<lparr>pl_active := a\<rparr>), None))"
| "palette_step e ArrowDown p = (p\<lparr>pl_cursor := min (int (length (shown_commands e p)) - 1) (pl_cursor p + 1)\<rparr>, None)"
| "palette_step e ArrowUp p = (p\<lparr>pl_cursor := max 0 (pl_cursor p - 1)\<rparr>, None)"
| "palette_step e EnterKey p = run_command (command_at (shown_commands e p) (pl_cursor p)) p"
| "palette_step e (Hover i) p = (if i < length (shown_commands e p) then (p\<lparr>pl_cursor := int i\<rparr>, None) else (p, None))"
| "palette_step e (Click i) p = run_command (command_at (shown_commands e p) (int i)) p"
| "palette_step e TimerFires p = (p\<lparr>pl_asks := db_fire (pl_asks p)\<rparr>, None)"
| "palette_step e (Answer n res) p = (case db_answer n (pl_asks p) of
     (d, None) \<Rightarrow> (p\<lparr>pl_asks := d\<rparr>, None)
   | (d, Some (conn, q)) \<Rightarrow> (p\<lparr>pl_asks := d, pl_searching := False,
        pl_found := Some (case res of Some (hits, partial) \<Rightarrow> (q, hits, partial) | None \<Rightarrow> (q, [], False))\<rparr>, None))"

definition palette_run :: "palette_env \<Rightarrow> palette_event list \<Rightarrow> palette \<Rightarrow> palette" where
  "palette_run e es p = fold (\<lambda>ev p. fst (palette_step e ev p)) es p"

subsection \<open>The search keeps its word\<close>

definition palette_ok :: "palette \<Rightarrow> bool" where
  "palette_ok p \<longleftrightarrow> db_ok (wanted_search p) (pl_asks p) \<and> pl_searching p = db_waiting (pl_asks p) \<and>
     (\<not> searchable p \<longrightarrow> pl_found p = None \<and> \<not> pl_searching p) \<and>
     (searchable p \<and> \<not> pl_searching p \<longrightarrow> map_option fst (pl_found p) = Some (trim (pl_query p)))"

lemma searchable_keeps [simp]:
  "searchable (p\<lparr>pl_asks := d\<rparr>) = searchable p" "searchable (p\<lparr>pl_found := f\<rparr>) = searchable p"
  "searchable (p\<lparr>pl_searching := b\<rparr>) = searchable p" "searchable (p\<lparr>pl_cursor := i\<rparr>) = searchable p"
  "wanted_search (p\<lparr>pl_asks := d\<rparr>) = wanted_search p" "wanted_search (p\<lparr>pl_found := f\<rparr>) = wanted_search p"
  "wanted_search (p\<lparr>pl_searching := b\<rparr>) = wanted_search p" "wanted_search (p\<lparr>pl_cursor := i\<rparr>) = wanted_search p"
  by (simp_all add: searchable_def wanted_search_def)

lemma wanted_search_Some: "wanted_search p = Some cq \<Longrightarrow> searchable p \<and> snd cq = trim (pl_query p)"
  "wanted_search p = None \<longleftrightarrow> \<not> searchable p"
  by (auto simp: wanted_search_def split: if_splits)

lemma search_effect_ok: "db_ok w (pl_asks p) \<Longrightarrow> palette_ok (search_effect p)"
  using db_restart_ok[of w "pl_asks p" "wanted_search p"]
  by (simp add: palette_ok_def search_effect_def Let_def wanted_search_Some(2))

lemma palette_asks: "palette_ok p \<Longrightarrow> db_ok (wanted_search p) (pl_asks p)"
  by (simp add: palette_ok_def)

lemma set_open_ok: "palette_ok p \<Longrightarrow> palette_ok (set_open b p)"
  by (auto simp: set_open_def intro!: search_effect_ok dest: palette_asks)

lemma run_command_ok: "palette_ok p \<Longrightarrow> palette_ok (fst (run_command c p))"
  by (auto simp: run_command_def set_open_ok split: option.splits)

lemma cursor_keeps: "palette_ok (p\<lparr>pl_cursor := i\<rparr>) = palette_ok p"
  by (simp add: palette_ok_def)

lemma answer_ok:
  assumes ok: "palette_ok p"
  shows "palette_ok (fst (palette_step e (Answer n res) p))"
proof -
  obtain d r where d: "db_answer n (pl_asks p) = (d, r)" by (cases "db_answer n (pl_asks p)")
  have asks: "db_ok (wanted_search p) (pl_asks p)" using ok by (rule palette_asks)
  note answered = db_answer_ok[OF asks, of n, unfolded d]
  show ?thesis
  proof (cases r)
    case None
    then show ?thesis using ok d answered by (auto simp: palette_ok_def)
  next
    case (Some cq)
    then have "wanted_search p = Some cq" "\<not> db_waiting d" "db_ok (wanted_search p) d" using answered by simp_all
    with wanted_search_Some(1)[of p cq] show ?thesis using Some d by (cases cq) (simp add: palette_ok_def split: option.split)
  qed
qed

lemma palette_step_ok: "palette_ok p \<Longrightarrow> palette_ok (fst (palette_step e ev p))"
proof (cases ev)
  case (Answer n res)
  then show "palette_ok p \<Longrightarrow> ?thesis" by (simp only: answer_ok)
next
  case TimerFires
  then show "palette_ok p \<Longrightarrow> ?thesis"
    using db_fire_ok[of "wanted_search p" "pl_asks p"] by (auto simp: palette_ok_def)
qed (auto simp: cursor_keeps run_command_ok set_open_ok intro!: search_effect_ok dest: palette_asks)

lemma palette_run_ok: "palette_ok (palette_run e es (initial_palette a))"
proof -
  have "palette_ok p \<Longrightarrow> palette_ok (palette_run e es p)" for p
    by (induction es arbitrary: p) (simp_all add: palette_run_def palette_step_ok)
  moreover have "palette_ok (initial_palette a)" by (simp add: palette_ok_def initial_palette_def searchable_def)
  ultimately show ?thesis by blast
qed

text \<open>
  The answers on screen are those of the query on screen, whatever order the answers come in: when the
  spinner is gone, what was found is for the words typed now, and nothing is kept of a search once there
  is nothing to search.
\<close>

theorem palette_answers_current:
  "pl_searching (palette_run e es (initial_palette a)) \<or>
   map_option fst (pl_found (palette_run e es (initial_palette a))) =
     (if searchable (palette_run e es (initial_palette a)) then Some (trim (pl_query (palette_run e es (initial_palette a)))) else None)"
  using palette_run_ok[of e es a] unfolding palette_ok_def by auto

text \<open>
  Until the new answer is there, the hits of the search before stay in the list, unfiltered: when the
  words typed leave no module, Enter runs a hit for the words typed before.
\<close>

theorem enter_runs_old_hit:
  assumes found: "pl_found p = Some (old, h # hits, partial)" and conn: "pl_active p = Some conn" "conn \<noteq> []"
    and open_now: "pl_open p" and q: "length (trim q) \<ge> 2" "q \<noteq> pl_query p"
    and none: "filter (\<lambda>c. query_matches q (command_text c)) (module_commands e) = []"
  shows "snd (palette_step e EnterKey (fst (palette_step e (TypeQuery q) p))) = Some (FollowLink (hit_link conn h))"
proof -
  let ?p = "fst (palette_step e (TypeQuery q) p)"
  have p: "pl_query ?p = q" "pl_cursor ?p = 0" "pl_found ?p = pl_found p" "pl_active ?p = pl_active p"
    using q open_now conn by (simp_all add: search_effect_def Let_def searchable_def)
  have none': "\<And>c. c \<in> set (own_commands e a) \<Longrightarrow> cmd_group c = GroupGoTo \<Longrightarrow> \<not> query_matches q (command_text c)" for a
  proof -
    fix c assume c: "c \<in> set (own_commands e a)" "cmd_group c = GroupGoTo"
    have "\<forall>c \<in> set (connection_commands e a @ other_commands e). cmd_group c \<noteq> GroupGoTo"
      by (auto simp: connection_commands_def other_commands_def connection_command_def split: if_splits)
    then have "c \<in> set (module_commands e)" using c by (auto simp: own_commands_def)
    then show "\<not> query_matches q (command_text c)" using none by (simp add: filter_empty_conv)
  qed
  have "filter (\<lambda>c. cmd_group c = GroupGoTo) (filter (\<lambda>c. query_matches q (command_text c)) (own_commands e (pl_active p))) = []"
    using none' by (auto simp: filter_empty_conv)
  then have "\<exists>rest. shown_commands e ?p = hit_command conn h # rest"
    using p found conn by (simp add: shown_commands_def hit_commands_def Let_def del: palette_step.simps)
  then show ?thesis using p(2) by (auto simp: command_at_def run_command_def hit_command_def simp del: palette_step.simps(1))
qed

text \<open>
  The arrow down over an empty list leaves the cursor before the first row, and no row that comes then
  is the active one: Enter does nothing.
\<close>

theorem cursor_before_first_row:
  assumes "shown_commands e p = []" "pl_cursor p = 0"
  shows "pl_cursor (fst (palette_step e ArrowDown p)) = -1"
    "snd (palette_step e' EnterKey (p'\<lparr>pl_cursor := -1\<rparr>)) = None"
  using assms by (simp_all add: command_at_def run_command_def)

end
