(* ===== verification/RequestRunner.thy ===== *)
theory RequestRunner
  imports SavedRequests Api Links Debounce
begin

text \<open>
  The request form (\<open>components/requests/RequestForm.tsx\<close>): what its inputs make of a draft, the runner
  that sends one, the check against a pinned schema while typing, and the choice of a connection.

  \<open>send\<close> is a state and a step per point it goes on at: the call, the payload being ready, the answer.
  An answer is the document the backend sent, or the message of the error. \<open>encode\<close>, \<open>parse_json\<close>,
  \<open>print_json\<close> and \<open>xml_error\<close> are the libraries of the payload formats. A number input gives a text
  without exponents.
\<close>

subsection \<open>Inputs\<close>

definition max_count :: rat where
  "max_count = 10000"

text \<open>\<open>Math.floor(Number(text) || d)\<close> between bounds.\<close>

definition number_or :: "rat \<Rightarrow> string \<Rightarrow> rat" where
  "number_or d text = (case js_number text of None \<Rightarrow> d | Some x \<Rightarrow> if x = 0 then d else x)"

definition whole_or :: "rat \<Rightarrow> string \<Rightarrow> rat" where
  "whole_or d text = of_int \<lfloor>number_or d text\<rfloor>"

datatype form_edit = EditMode saved_mode | EditTimeout string | EditCount string | EditConcurrency string
  | EditInterval string | EditSubject string | EditHeaderKey nat string | EditHeaderValue nat string
  | RemoveHeader nat | AddHeader | EditPayload string | EditFormat payload_format | TidyPayload
  | EditExpect string | EditLatency string

definition change_header :: "nat \<Rightarrow> (header_pair \<Rightarrow> header_pair) \<Rightarrow> header_pair list \<Rightarrow> header_pair list" where
  "change_header i f hs = map (\<lambda>(j, x). if j = i then f x else x) (enumerate 0 hs)"

definition without_header :: "nat \<Rightarrow> header_pair list \<Rightarrow> header_pair list" where
  "without_header i hs = map snd (filter (\<lambda>(j, x). j \<noteq> i) (enumerate 0 hs))"

fun edit_form :: "(string \<Rightarrow> string option) \<Rightarrow> (string \<Rightarrow> string option) \<Rightarrow> form_edit \<Rightarrow> request_draft \<Rightarrow> request_draft" where
  "edit_form pj xe (EditMode m) d = d\<lparr>rd_mode := m\<rparr>"
| "edit_form pj xe (EditTimeout t) d = d\<lparr>rd_timeout := number_or 5000 t\<rparr>"
| "edit_form pj xe (EditCount t) d = d\<lparr>rd_count := max 1 (min max_count (whole_or 1 t))\<rparr>"
| "edit_form pj xe (EditConcurrency t) d = d\<lparr>rd_concurrency := max 1 (min 64 (whole_or 1 t))\<rparr>"
| "edit_form pj xe (EditInterval t) d = d\<lparr>rd_interval := max 0 (whole_or 0 t)\<rparr>"
| "edit_form pj xe (EditSubject s) d = d\<lparr>rd_subject := s\<rparr>"
| "edit_form pj xe (EditHeaderKey i k) d = d\<lparr>rd_headers := change_header i (\<lambda>x. x\<lparr>hp_key := k\<rparr>) (rd_headers d)\<rparr>"
| "edit_form pj xe (EditHeaderValue i v) d = d\<lparr>rd_headers := change_header i (\<lambda>x. x\<lparr>hp_value := v\<rparr>) (rd_headers d)\<rparr>"
| "edit_form pj xe (RemoveHeader i) d = d\<lparr>rd_headers := without_header i (rd_headers d)\<rparr>"
| "edit_form pj xe AddHeader d = d\<lparr>rd_headers := rd_headers d @ [\<lparr>hp_key = [], hp_value = []\<rparr>]\<rparr>"
| "edit_form pj xe (EditPayload s) d = d\<lparr>rd_payload := s\<rparr>"
| "edit_form pj xe (EditFormat f) d = d\<lparr>rd_format := f\<rparr>"
| "edit_form pj xe TidyPayload d = (case pretty_payload pj xe (rd_format d) (rd_payload d) of
     None \<Rightarrow> d | Some t \<Rightarrow> d\<lparr>rd_payload := t\<rparr>)"
| "edit_form pj xe (EditExpect s) d = d\<lparr>rd_expect_expr := s\<rparr>"
| "edit_form pj xe (EditLatency t) d = d\<lparr>rd_expect_max_latency := max 0 (whole_or 0 t)\<rparr>"

text \<open>When the button is disabled, and when Ctrl and Enter in the payload send.\<close>

definition send_disabled :: "bool \<Rightarrow> bool \<Rightarrow> request_draft \<Rightarrow> bool" where
  "send_disabled can_send may_write d \<longleftrightarrow> \<not> can_send \<or> \<not> may_write \<or> trim (rd_subject d) = []"

definition key_sends :: "bool \<Rightarrow> bool \<Rightarrow> bool" where
  "key_sends can_send may_write \<longleftrightarrow> can_send \<and> may_write"

subsection \<open>Sending\<close>

text \<open>The properties every object literal inherits: for one of them \<open>hdrs[k] ||= []\<close> reads what is inherited,
  which has no \<open>push\<close>, and the line throws.\<close>

definition inherited_keys :: "string list" where
  "inherited_keys = [''constructor'', ''__proto__'', ''hasOwnProperty'', ''isPrototypeOf'', ''propertyIsEnumerable'',
     ''toLocaleString'', ''toString'', ''valueOf'', ''__defineGetter__'', ''__defineSetter__'', ''__lookupGetter__'',
     ''__lookupSetter__'']"

fun header_object :: "header_pair list \<Rightarrow> (string, string list) jsmap \<Rightarrow> (string, string list) jsmap option" where
  "header_object [] m = Some m"
| "header_object (h # hs) m = (let k = trim (hp_key h) in
     if k = [] then header_object hs m
     else if k \<in> set inherited_keys then None
     else header_object hs (jm_set k (nullish (jm_get m k) [] @ [hp_value h]) m))"

datatype send_kind = SendRun | SendRequest | SendPublish

definition send_kind_of :: "request_draft \<Rightarrow> send_kind" where
  "send_kind_of d = (if rd_count d > 1 then SendRun else if rd_mode d = ModeRequest then SendRequest else SendPublish)"

definition send_body :: "request_draft \<Rightarrow> (string, string list) jsmap \<Rightarrow> wire_payload \<Rightarrow> (string \<times> json) list" where
  "send_body d hdrs w =
     [(''subject'', JStr (trim (rd_subject d))), (''payload'', JStr (wp_payload w))] @
     (if wp_binary w then [(''payloadType'', JStr ''binary'')] else []) @
     (if hdrs = [] then [] else [(''headers'', JObj (map (\<lambda>(k, vs). (k, JArr (map JStr vs))) hdrs))])"

definition send_request_of :: "string \<Rightarrow> request_draft \<Rightarrow> (string, string list) jsmap \<Rightarrow> wire_payload \<Rightarrow> api_request" where
  "send_request_of conn d hdrs w = (let body = send_body d hdrs w;
       expect = opt_field ''expect'' expectation_doc (expectation_of d) in
     case send_kind_of d of
       SendRun \<Rightarrow> api_run conn (body @ [(''mode'', JStr (if rd_mode d = ModeRequest then ''request'' else ''publish'')),
         (''count'', JNum (min max_count (rd_count d))), (''concurrency'', JNum (rd_concurrency d)),
         (''intervalMs'', JNum (rd_interval d)), (''timeout'', JNum (rd_timeout d))] @ expect)
     | SendRequest \<Rightarrow> api_request_reply conn (body @ [(''timeout'', JNum (rd_timeout d))] @ expect)
     | SendPublish \<Rightarrow> api_publish conn body)"

datatype send_stage = Encoding send_kind "string + api_request" | Awaiting send_kind

record runner =
  rn_busy :: bool
  rn_reply :: "json option"
  rn_run :: "json option"
  rn_error :: "string option"
  rn_stage :: "send_stage option"

definition runner_start :: runner where
  "runner_start = \<lparr>rn_busy = False, rn_reply = None, rn_run = None, rn_error = None, rn_stage = None\<rparr>"

definition runner_clear :: "runner \<Rightarrow> runner" where
  "runner_clear r = r\<lparr>rn_reply := None, rn_run := None, rn_error := None\<rparr>"

datatype runner_event = Send request_draft string "decoder_rule list" | Encoded | Answered "string + json" | ClearAnswers

text \<open>A payload that becomes bytes at once also waits for its turn: the call is sent by the step that follows.\<close>

definition wire_call :: "(string \<Rightarrow> json option) \<Rightarrow> (string \<Rightarrow> string option) \<Rightarrow> (decoder_rule \<Rightarrow> json \<Rightarrow> string + bytes) \<Rightarrow>
    request_draft \<Rightarrow> string \<Rightarrow> decoder_rule list \<Rightarrow> (string, string list) jsmap \<Rightarrow> string + api_request" where
  "wire_call pj xe en d conn rules hdrs =
     (case to_wire pj xe en (rd_format d) (rd_payload d) (trim (rd_subject d)) rules of
        Inl e \<Rightarrow> Inl e | Inr w \<Rightarrow> Inr (send_request_of conn d hdrs w))"

fun runner_step :: "(string \<Rightarrow> json option) \<Rightarrow> (string \<Rightarrow> string option) \<Rightarrow> (decoder_rule \<Rightarrow> json \<Rightarrow> string + bytes) \<Rightarrow>
    runner_event \<Rightarrow> runner \<Rightarrow> runner \<times> api_request list" where
  "runner_step pj xe en (Send d conn rules) r =
     (if trim (rd_subject d) = [] \<or> rn_busy r then (r, [])
      else let r = (runner_clear r)\<lparr>rn_busy := True\<rparr> in
        case header_object (rd_headers d) [] of
          None \<Rightarrow> (r, [])
        | Some hdrs \<Rightarrow> (r\<lparr>rn_stage := Some (Encoding (send_kind_of d) (wire_call pj xe en d conn rules hdrs))\<rparr>, []))"
| "runner_step pj xe en Encoded r = (case rn_stage r of
     Some (Encoding k (Inl e)) \<Rightarrow> (r\<lparr>rn_error := Some e, rn_busy := False, rn_stage := None\<rparr>, [])
   | Some (Encoding k (Inr call)) \<Rightarrow> (r\<lparr>rn_stage := Some (Awaiting k)\<rparr>, [call])
   | _ \<Rightarrow> (r, []))"
| "runner_step pj xe en (Answered res) r = (case rn_stage r of
     Some (Awaiting k) \<Rightarrow> (let r = r\<lparr>rn_busy := False, rn_stage := None\<rparr> in
       (case res of Inl e \<Rightarrow> r\<lparr>rn_error := Some e\<rparr>
        | Inr v \<Rightarrow> (case k of SendRun \<Rightarrow> r\<lparr>rn_run := Some v\<rparr> | SendRequest \<Rightarrow> r\<lparr>rn_reply := Some v\<rparr> | SendPublish \<Rightarrow> r), []))
   | _ \<Rightarrow> (r, []))"
| "runner_step pj xe en ClearAnswers r = (runner_clear r, [])"

fun run_events :: "(string \<Rightarrow> json option) \<Rightarrow> (string \<Rightarrow> string option) \<Rightarrow> (decoder_rule \<Rightarrow> json \<Rightarrow> string + bytes) \<Rightarrow>
    runner_event list \<Rightarrow> runner \<Rightarrow> runner \<times> api_request list" where
  "run_events pj xe en [] r = (r, [])"
| "run_events pj xe en (ev # es) r = (let (r, calls) = runner_step pj xe en ev r; (r, more) = run_events pj xe en es r in
     (r, calls @ more))"

definition send_connection :: "connection_status list \<Rightarrow> string option \<Rightarrow> string \<Rightarrow> connection_status list \<times> string option" where
  "send_connection cs active chosen = (let connected = filter cs_connected cs in
     (connected, case find (\<lambda>c. cs_id c = chosen) connected of Some c \<Rightarrow> Some (cs_id c)
        | None \<Rightarrow> (case find (\<lambda>c. Some (cs_id c) = active) connected of Some c \<Rightarrow> Some (cs_id c)
        | None \<Rightarrow> (case connected of c # _ \<Rightarrow> Some (cs_id c) | [] \<Rightarrow> None))))"

subsection \<open>The schema check\<close>

record schema_answer =
  sa_pinned :: bool
  sa_pattern :: "string option"
  sa_violations :: "string list"

record schema_check =
  sk_subject :: string
  sk_payload :: string
  sk_result :: "(string \<times> string list) option"
  sk_asks :: "(string \<times> string) debounce"

definition wanted_check :: "string \<Rightarrow> string \<Rightarrow> (string \<times> string) option" where
  "wanted_check subject payload = (let subj = trim subject in
     if subj = [] \<or> CHR ''*'' \<in> set subj \<or> CHR ''>'' \<in> set subj \<or> trim payload = [] \<or> includes_str payload ''{{''
     then None else Some (subj, payload))"

definition check_result :: "string \<Rightarrow> schema_answer option \<Rightarrow> (string \<times> string list) option" where
  "check_result subj res = (case res of None \<Rightarrow> None
     | Some a \<Rightarrow> if sa_pinned a \<and> sa_violations a \<noteq> [] then Some (nullish (sa_pattern a) subj, sa_violations a) else None)"

datatype check_event = CheckInputs string string | CheckTimer | CheckAnswer nat

definition check_start :: schema_check where
  "check_start = \<lparr>sk_subject = [], sk_payload = [], sk_result = None, sk_asks = db_start\<rparr>"

text \<open>\<open>ask\<close> is the backend: what it answers to a subject and a payload, \<open>None\<close> when the call fails.\<close>

fun check_step :: "(string \<times> string \<Rightarrow> schema_answer option) \<Rightarrow> check_event \<Rightarrow> schema_check \<Rightarrow> schema_check" where
  "check_step ask (CheckInputs subject payload) s =
     (if subject = sk_subject s \<and> payload = sk_payload s then s
      else let w = wanted_check subject payload in
        s\<lparr>sk_subject := subject, sk_payload := payload, sk_asks := db_restart w (sk_asks s),
          sk_result := (if w = None then None else sk_result s)\<rparr>)"
| "check_step ask CheckTimer s = s\<lparr>sk_asks := db_fire (sk_asks s)\<rparr>"
| "check_step ask (CheckAnswer n) s = (case db_answer n (sk_asks s) of
     (d, None) \<Rightarrow> s\<lparr>sk_asks := d\<rparr>
   | (d, Some q) \<Rightarrow> s\<lparr>sk_asks := d, sk_result := check_result (fst q) (ask q)\<rparr>)"

definition check_subject :: "request_draft \<Rightarrow> string" where
  "check_subject d = (if rd_format d = FmtJson then rd_subject d else [])"

subsection \<open>Properties\<close>

definition draft_bounded :: "request_draft \<Rightarrow> bool" where
  "draft_bounded d \<longleftrightarrow> 1 \<le> rd_count d \<and> rd_count d \<le> 10000 \<and> rd_count d \<in> \<int> \<and>
     1 \<le> rd_concurrency d \<and> rd_concurrency d \<le> 64 \<and> rd_concurrency d \<in> \<int> \<and>
     0 \<le> rd_interval d \<and> rd_interval d \<in> \<int> \<and> 0 \<le> rd_expect_max_latency d \<and> rd_expect_max_latency d \<in> \<int> \<and>
     rd_timeout d \<noteq> 0"

lemma Ints_max_min: "(a :: rat) \<in> \<int> \<Longrightarrow> b \<in> \<int> \<Longrightarrow> max a b \<in> \<int>" "(a :: rat) \<in> \<int> \<Longrightarrow> b \<in> \<int> \<Longrightarrow> min a b \<in> \<int>"
  by (simp_all add: max_def min_def)

lemma whole_or_Int [simp]: "whole_or d t \<in> \<int>"
  by (simp add: whole_or_def)

lemma edit_form_bounded: "draft_bounded d \<Longrightarrow> draft_bounded (edit_form pj xe e d)"
  by (cases e) (auto simp: draft_bounded_def max_count_def number_or_def Ints_max_min split: option.split)

text \<open>
  Whatever is typed into the form, in any order, the draft stays within what a run may be: a whole count
  from 1 to 10000, 1 to 64 senders, no negative pause or latency bound, and a timeout.
\<close>

theorem form_stays_bounded: "draft_bounded (fold (edit_form pj xe) es (empty_draft subject))"
proof -
  have "draft_bounded d \<Longrightarrow> draft_bounded (fold (edit_form pj xe) es d)" for d
    by (induction es arbitrary: d) (simp_all add: edit_form_bounded)
  moreover have "draft_bounded (empty_draft subject)" by (simp add: draft_bounded_def empty_draft_def)
  ultimately show ?thesis .
qed

lemma header_object_get:
  "header_object hs m = Some m' \<Longrightarrow> jm_get m' k =
     (let vs = map hp_value (filter (\<lambda>h. k \<noteq> [] \<and> trim (hp_key h) = k) hs) in
      if vs = [] then jm_get m k else Some (nullish (jm_get m k) [] @ vs))"
  by (induction hs m rule: header_object.induct) (auto simp: Let_def split: if_splits)

lemma header_object_None:
  "header_object hs m = None \<longleftrightarrow> list_ex (\<lambda>h. trim (hp_key h) \<in> set inherited_keys) hs"
  by (induction hs m rule: header_object.induct) (auto simp: Let_def inherited_keys_def)

text \<open>
  The headers that travel are the rows of the form, grouped by their trimmed name in the order they were
  written, rows without a name left out; only a name every object inherits stops it.
\<close>

theorem headers_grouped:
  "(case header_object hs [] of
      None \<Rightarrow> list_ex (\<lambda>h. trim (hp_key h) \<in> set inherited_keys) hs
    | Some m \<Rightarrow> jm_get m k = (let vs = map hp_value (filter (\<lambda>h. k \<noteq> [] \<and> trim (hp_key h) = k) hs) in
        if vs = [] then None else Some vs))"
  using header_object_None[of hs "[]"] header_object_get[of hs "[]" _ k] by (auto split: option.split)

lemma run_events_append:
  "run_events pj xe en (es @ fs) r =
     (let (r, calls) = run_events pj xe en es r; (r, more) = run_events pj xe en fs r in (r, calls @ more))"
  by (induction es arbitrary: r) (auto simp: Let_def split: prod.split)

text \<open>
  One send: from an idle runner and a draft with a subject, the call goes out once the payload is bytes,
  what was shown is cleared, and the answer, or the message of what failed first, is all that is shown
  then; the runner is idle again.
\<close>

theorem send_outcome:
  assumes "trim (rd_subject d) \<noteq> []" "\<not> rn_busy r" "header_object (rd_headers d) [] = Some hdrs"
  shows "run_events pj xe en [Send d conn rules, Encoded, Answered res] r =
    (case wire_call pj xe en d conn rules hdrs of
       Inl e \<Rightarrow> (runner_start\<lparr>rn_error := Some e\<rparr>, [])
     | Inr call \<Rightarrow> (case res of Inl e \<Rightarrow> runner_start\<lparr>rn_error := Some e\<rparr>
         | Inr v \<Rightarrow> (case send_kind_of d of SendRun \<Rightarrow> runner_start\<lparr>rn_run := Some v\<rparr>
             | SendRequest \<Rightarrow> runner_start\<lparr>rn_reply := Some v\<rparr> | SendPublish \<Rightarrow> runner_start), [call]))"
  using assms by (auto simp: Let_def runner_clear_def runner_start_def split: sum.split send_kind.split)

theorem send_outcome_witness:
  "let d = (empty_draft '' a.b '')\<lparr>rd_payload := ''4f4b'', rd_format := FmtHex, rd_count := 3\<rparr> in
   run_events (\<lambda>_. None) (\<lambda>_. None) (\<lambda>_ _. Inl []) [Send d ''c1'' [], Encoded, Answered (Inr (JNum 7))] runner_start =
    (case wire_call (\<lambda>_. None) (\<lambda>_. None) (\<lambda>_ _. Inl []) d ''c1'' [] [] of
       Inl e \<Rightarrow> (runner_start\<lparr>rn_error := Some e\<rparr>, [])
     | Inr call \<Rightarrow> (runner_start\<lparr>rn_run := Some (JNum 7)\<rparr>, [call]))"
proof -
  let ?d = "(empty_draft '' a.b '')\<lparr>rd_payload := ''4f4b'', rd_format := FmtHex, rd_count := 3\<rparr>"
  have h: "trim (rd_subject ?d) \<noteq> []" "\<not> rn_busy runner_start" "header_object (rd_headers ?d) [] = Some []"
    "send_kind_of ?d = SendRun"
    by (simp_all add: empty_draft_def runner_start_def send_kind_of_def trim_def is_space_def)
  show ?thesis unfolding Let_def using send_outcome[OF h(1-3)] h(4) by (simp del: run_events.simps cong: sum.case_cong)
qed

text \<open>
  A header called as a property every object has, a \<open>constructor\<close> say, throws before anything can catch it:
  nothing is sent, no error is shown, and the runner stays busy through whatever comes after.
\<close>

theorem inherited_header_sticks:
  assumes "list_ex (\<lambda>h. trim (hp_key h) \<in> set inherited_keys) (rd_headers d)" "trim (rd_subject d) \<noteq> []"
    "\<not> rn_busy r" "rn_stage r = None"
  shows "rn_busy (fst (run_events pj xe en (Send d conn rules # es) r)) \<and> snd (run_events pj xe en (Send d conn rules # es) r) = [] \<and>
    rn_error (fst (run_events pj xe en (Send d conn rules # es) r)) = None"
proof -
  have stuck: "rn_busy r \<Longrightarrow> rn_stage r = None \<Longrightarrow> rn_error r = None \<Longrightarrow>
      rn_busy (fst (run_events pj xe en es r)) \<and> snd (run_events pj xe en es r) = [] \<and> rn_error (fst (run_events pj xe en es r)) = None" for r
  proof (induction es arbitrary: r)
    case (Cons ev es)
    obtain r' where "runner_step pj xe en ev r = (r', [])" "rn_busy r'" "rn_stage r' = None" "rn_error r' = None"
      using Cons.prems by (cases ev) (simp_all add: runner_clear_def)
    then show ?case using Cons.IH[of r'] by (simp split: prod.split)
  qed simp
  show ?thesis using assms stuck[of "(runner_clear r)\<lparr>rn_busy := True\<rparr>"]
    by (simp add: header_object_None[THEN iffD2] runner_clear_def Let_def split: prod.split)
qed

text \<open>
  The connection a form sends through is connected: the one chosen when it is, else the active one, and
  there is one whenever anything is connected.
\<close>

theorem send_connection_connected:
  "(case send_connection cs active chosen of
      (there, None) \<Rightarrow> there = []
    | (there, Some i) \<Rightarrow> i \<in> cs_id ` set there \<and> set there = {c \<in> set cs. cs_connected c} \<and>
        (i = chosen \<or> chosen \<notin> cs_id ` set there) \<and>
        (i = chosen \<or> Some i = active \<or> active \<notin> (Some \<circ> cs_id) ` set there))"
proof -
  let ?there = "filter cs_connected cs"
  have found: "find P ?there = Some c \<Longrightarrow> c \<in> set ?there \<and> P c" for P c
    unfolding find_Some_iff by (metis nth_mem)
  have missing: "find P ?there = None \<Longrightarrow> c \<in> set ?there \<Longrightarrow> \<not> P c" for P c unfolding find_None_iff by blast
  show ?thesis
  proof (cases "find (\<lambda>c. cs_id c = chosen) ?there")
    case (Some c)
    then show ?thesis using found[OF Some] by (auto simp: send_connection_def Let_def)
  next
    case None
    note none = None
    have no: "chosen \<notin> cs_id ` set ?there" using missing[OF None] by blast
    show ?thesis
    proof (cases "find (\<lambda>c. Some (cs_id c) = active) ?there")
      case (Some c)
      then show ?thesis using found[OF Some] no none by (auto simp: send_connection_def Let_def)
    next
      case None
      have "active \<notin> (Some \<circ> cs_id) ` set ?there" using missing[OF None] by auto
      show ?thesis
      proof (cases ?there)
        case Nil
        then show ?thesis by (simp add: send_connection_def Let_def)
      next
        case (Cons c more)
        have "c \<in> set cs" "cs_connected c" using Cons by (metis list.set_intros(1) mem_Collect_eq set_filter)+
        moreover have "send_connection cs active chosen = (?there, Some (cs_id c))"
          using none None unfolding send_connection_def Let_def by (simp only: Cons option.case list.case)
        ultimately show ?thesis using no \<open>active \<notin> _\<close> by (simp only: prod.case option.case) auto
      qed
    qed
  qed
qed

definition check_ok :: "(string \<times> string \<Rightarrow> schema_answer option) \<Rightarrow> schema_check \<Rightarrow> bool" where
  "check_ok ask s \<longleftrightarrow> db_ok (wanted_check (sk_subject s) (sk_payload s)) (sk_asks s) \<and>
     (wanted_check (sk_subject s) (sk_payload s) = None \<longrightarrow> sk_result s = None \<and> \<not> db_waiting (sk_asks s)) \<and>
     (db_waiting (sk_asks s) \<or> sk_result s =
        (case wanted_check (sk_subject s) (sk_payload s) of None \<Rightarrow> None | Some q \<Rightarrow> check_result (fst q) (ask q)))"

lemma check_step_ok: "check_ok ask s \<Longrightarrow> check_ok ask (check_step ask ev s)"
proof (cases ev)
  case (CheckInputs subject payload)
  assume "check_ok ask s"
  then have "db_ok (wanted_check (sk_subject s) (sk_payload s)) (sk_asks s)" by (simp add: check_ok_def)
  from db_restart_ok[OF this, of "wanted_check subject payload"] \<open>check_ok ask s\<close> show ?thesis
    using CheckInputs by (auto simp: check_ok_def Let_def)
next
  case CheckTimer
  assume ok: "check_ok ask s"
  then have "db_ok (wanted_check (sk_subject s) (sk_payload s)) (sk_asks s)" by (simp add: check_ok_def)
  from db_fire_ok[OF this] ok show ?thesis using CheckTimer by (simp add: check_ok_def)
next
  case (CheckAnswer n)
  assume ok: "check_ok ask s"
  obtain d q where d: "db_answer n (sk_asks s) = (d, q)" by (cases "db_answer n (sk_asks s)")
  have "db_ok (wanted_check (sk_subject s) (sk_payload s)) (sk_asks s)" using ok by (simp add: check_ok_def)
  note answered = db_answer_ok[OF this, of n, unfolded d]
  show ?thesis
  proof (cases q)
    case None
    then show ?thesis using ok d CheckAnswer answered by (simp add: check_ok_def)
  next
    case (Some p)
    then show ?thesis using ok d CheckAnswer answered by (simp add: check_ok_def)
  qed
qed

text \<open>
  When no check is pending, the warning under the payload is what the backend says of the subject and the
  payload in the form now, in whatever order the answers came, and none where there is nothing to check.
\<close>

theorem schema_warning_current:
  "let s = fold (check_step ask) es check_start in
   db_waiting (sk_asks s) \<or> sk_result s =
     (case wanted_check (sk_subject s) (sk_payload s) of None \<Rightarrow> None | Some q \<Rightarrow> check_result (fst q) (ask q))"
proof -
  have "check_ok ask s \<Longrightarrow> check_ok ask (fold (check_step ask) es s)" for s
    by (induction es arbitrary: s) (simp_all add: check_step_ok)
  moreover have "check_ok ask check_start" by (simp add: check_ok_def check_start_def wanted_check_def trim_def)
  ultimately have "check_ok ask (fold (check_step ask) es check_start)" .
  then show ?thesis unfolding Let_def check_ok_def by (elim conjE)
qed

end
