(* ===== verification/ChartData.thy ===== *)
theory ChartData
  imports Completion
begin

text \<open>
  The points of a chart (\<open>components/subjects/ValueChart.tsx\<close>): thinning them out to the width, cutting the
  line at silences, continuing a series of the backend with the messages that came since, and the lines
  of the axis.

  Times and values are rationals, so the arithmetic is exact where the browser's is that of floats. A gap
  of \<open>None\<close> is \<open>Infinity\<close>.
\<close>

type_synonym point = "rat \<times> rat"

datatype aggregation = AgMinmax | AgAvg | AgMin | AgMax | AgSum | AgCount | AgRate

record history_series =
  hs_subject :: string
  hs_field :: string
  hs_points :: "point list"
  hs_samples :: nat
  hs_last :: nat
  hs_rollup :: bool
  hs_agg :: "aggregation option"

subsection \<open>Thinning out\<close>

definition bucket_bound :: "nat \<Rightarrow> nat \<Rightarrow> nat \<Rightarrow> nat" where
  "bucket_bound n k b = nat \<lfloor>rat_of_nat b * (rat_of_nat n / rat_of_nat k)\<rfloor>"

definition bucket_extremes :: "point list \<Rightarrow> nat \<Rightarrow> nat \<Rightarrow> nat \<times> nat" where
  "bucket_extremes ps start stop = fold (\<lambda>i (lo, hi).
     (if snd (ps ! i) < snd (ps ! lo) then i else lo, if snd (ps ! i) > snd (ps ! hi) then i else hi))
     [Suc start..<stop] (start, start)"

definition bucket_points :: "point list \<Rightarrow> nat \<Rightarrow> nat \<Rightarrow> point list" where
  "bucket_points ps start stop = (if start \<ge> stop then [] else (case bucket_extremes ps start stop of (lo, hi) \<Rightarrow>
     if lo = hi then [ps ! lo] else if lo < hi then [ps ! lo, ps ! hi] else [ps ! hi, ps ! lo]))"

definition decimate :: "point list \<Rightarrow> int \<Rightarrow> point list" where
  "decimate ps buckets = (if buckets \<le> 0 \<or> int (length ps) \<le> buckets then ps
     else (let n = length ps; k = nat buckets in
       concat (map (\<lambda>b. bucket_points ps (bucket_bound n k b) (min n (bucket_bound n k (Suc b)))) [0..<k])))"

subsection \<open>Silences\<close>

definition gap_factor :: rat where "gap_factor = 4"

definition distances :: "point list \<Rightarrow> rat list" where
  "distances ps = filter (\<lambda>d. d > 0) (map (\<lambda>i. fst (ps ! i) - fst (ps ! (i - 1))) [1..<length ps])"

definition gap_after :: "point list \<Rightarrow> rat option" where
  "gap_after ps = (if length ps < 5 then None
     else (let deltas = distances ps in
       if length deltas < 4 then None
       else Some (sort deltas ! min (length deltas - 1) (nat \<lfloor>rat_of_nat (length deltas) * (3 / 4)\<rfloor>) * gap_factor)))"

fun split_runs :: "rat \<Rightarrow> point list \<Rightarrow> point list \<Rightarrow> point list list" where
  "split_runs gap run [] = (if run = [] then [] else [run])"
| "split_runs gap run (p # ps) =
     (if run \<noteq> [] \<and> fst p - fst (last run) > gap then run # split_runs gap [p] ps
      else split_runs gap (run @ [p]) ps)"

definition split_on_gaps :: "point list \<Rightarrow> rat option \<Rightarrow> point list list" where
  "split_on_gaps ps gap = (case gap of None \<Rightarrow> [ps] | Some g \<Rightarrow> split_runs g [] ps)"

subsection \<open>Continuing a series\<close>

definition bucket_size :: "history_series \<Rightarrow> nat" where
  "bucket_size s = nat (max 1 (js_round (rat_of_nat (hs_samples s) / rat_of_nat (max 1 (length (hs_points s))))))"

function whole_chunks :: "nat \<Rightarrow> point list \<Rightarrow> point list list" where
  "whole_chunks n ps = (if n = 0 \<or> length ps < n then [] else take n ps # whole_chunks n (drop n ps))"
  by pat_completeness auto
termination by (relation "measure (\<lambda>(n, ps). length ps)") auto

declare whole_chunks.simps [simp del]

fun chunk_rates :: "point list list \<Rightarrow> point list" where
  "chunk_rates (c # d # cs) = (let a = last c; b = last d; dt = (fst b - fst a) / 1000 in
     (if dt > 0 then [(fst b, max 0 ((snd b - snd a) / dt))] else []) @ chunk_rates (d # cs))"
| "chunk_rates _ = []"

definition reduce_chunk :: "aggregation \<Rightarrow> point list \<Rightarrow> point" where
  "reduce_chunk agg c = (let sum = sum_list (map snd c) in (fst (last c),
     case agg of AgMin \<Rightarrow> Min (set (map snd c)) | AgMax \<Rightarrow> Max (set (map snd c)) | AgSum \<Rightarrow> sum
       | AgCount \<Rightarrow> rat_of_nat (length c) | _ \<Rightarrow> sum / rat_of_nat (length c)))"

definition extend_series :: "history_series \<Rightarrow> point list \<Rightarrow> aggregation \<Rightarrow> point list" where
  "extend_series s live agg = (let chunks = whole_chunks (bucket_size s) live in
     if agg = AgRate then chunk_rates chunks else map (reduce_chunk agg) chunks)"

definition live_point :: "(string \<Rightarrow> rat option) \<Rightarrow> (string \<Rightarrow> json option) \<Rightarrow> history_series option \<Rightarrow> string \<Rightarrow>
    nats_message \<Rightarrow> point list" where
  "live_point date_parse parse s field m =
     (let after = (case s of None \<Rightarrow> 0 | Some h \<Rightarrow> if hs_points h = [] then 0 else fst (last (hs_points h)));
          path = (if is_delay_field field then delay_source field else field) in
      if m_payload_type m \<noteq> PJson then []
      else if s \<noteq> None \<and> of_int (m_timestamp m) \<le> after then []
      else (case if is_delay_field field then delay_of date_parse parse m path else extract_number parse (m_payload m) path of
          None \<Rightarrow> [] | Some v \<Rightarrow> [(of_int (m_timestamp m), v)]))"

definition merge_points :: "(string \<Rightarrow> rat option) \<Rightarrow> (string \<Rightarrow> json option) \<Rightarrow> history_series option \<Rightarrow>
    nats_message list \<Rightarrow> string \<Rightarrow> aggregation \<Rightarrow> point list" where
  "merge_points date_parse parse s ms field agg =
     (let live = concat (map (live_point date_parse parse s field) ms) in
      case s of None \<Rightarrow> live
      | Some h \<Rightarrow> if agg = AgMinmax then hs_points h @ live
          else if hs_rollup h then hs_points h
          else hs_points h @ extend_series h live agg)"

subsection \<open>The axis\<close>

text \<open>The power of ten not above a positive number, \<open>10 ** Math.floor(Math.log10(x))\<close>.\<close>

function pow10_up :: "rat \<Rightarrow> rat" where
  "pow10_up x = (if x < 10 then 1 else 10 * pow10_up (x / 10))"
  by pat_completeness auto
termination
proof (relation "measure (\<lambda>x. nat \<lfloor>x\<rfloor>)", simp)
  fix x :: rat
  assume "\<not> x < 10"
  then have "\<lfloor>x / 10\<rfloor> < \<lfloor>x\<rfloor>" by linarith
  then show "(x / 10, x) \<in> measure (\<lambda>x. nat \<lfloor>x\<rfloor>)" using \<open>\<not> x < 10\<close> by simp
qed

function pow10_down :: "rat \<Rightarrow> rat" where
  "pow10_down x = (if x \<le> 0 \<or> 1 \<le> x then 1 else pow10_down (x * 10) / 10)"
  by pat_completeness auto
termination
proof (relation "measure (\<lambda>x. nat \<lfloor>1 / x\<rfloor>)", simp)
  fix x :: rat
  assume x: "\<not> (x \<le> 0 \<or> 1 \<le> x)"
  then have big: "1 < 1 / x" and tenth: "1 / (x * 10) = (1 / x) / 10" by (simp_all add: field_simps)
  have smaller: "\<lfloor>y / 10\<rfloor> < \<lfloor>y\<rfloor>" if "1 < y" for y :: rat
  proof -
    have "1 \<le> \<lfloor>y\<rfloor>" using that by simp
    then show ?thesis by linarith
  qed
  have "\<lfloor>1 / (x * 10)\<rfloor> < \<lfloor>1 / x\<rfloor>" unfolding tenth by (rule smaller [OF big])
  moreover have "0 < \<lfloor>1 / x\<rfloor>" using big by linarith
  ultimately show "(x * 10, x) \<in> measure (\<lambda>x. nat \<lfloor>1 / x\<rfloor>)" by simp
qed

declare pow10_up.simps [simp del] pow10_down.simps [simp del]

definition pow10_floor :: "rat \<Rightarrow> rat" where
  "pow10_floor x = (if x < 1 then pow10_down x else pow10_up x)"

text \<open>\<open>Number(x.toPrecision(12))\<close>.\<close>

definition twelve_digits :: "rat \<Rightarrow> rat" where
  "twelve_digits x = (if x = 0 then 0 else
     (let unit = pow10_floor \<bar>x\<bar> / 10 ^ 11 in sgn x * of_int (js_round (\<bar>x\<bar> / unit)) * unit))"

definition first_tick :: "rat \<Rightarrow> rat \<Rightarrow> int" where
  "first_tick lo step = \<lceil>lo / step\<rceil>"

definition ticks_at :: "rat \<Rightarrow> rat \<Rightarrow> rat \<Rightarrow> rat list" where
  "ticks_at lo hi step = map (\<lambda>i. twelve_digits (of_int i * step))
     [first_tick lo step..\<lfloor>(hi + step / 1000000000) / step\<rfloor>]"

fun widest_ticks :: "rat \<Rightarrow> rat \<Rightarrow> nat \<Rightarrow> rat \<Rightarrow> rat list \<Rightarrow> rat list \<Rightarrow> rat list" where
  "widest_ticks lo hi want mag [] best = best"
| "widest_ticks lo hi want mag (m # ms) best = (let ticks = ticks_at lo hi (m * mag) in
     if length ticks + 1 < want then best else widest_ticks lo hi want mag ms ticks)"

definition nice_ticks :: "rat \<Rightarrow> rat \<Rightarrow> nat \<Rightarrow> rat list" where
  "nice_ticks lo hi want = (if \<not> hi > lo then [lo]
     else (let mag = pow10_floor ((hi - lo) / rat_of_nat want);
               best = widest_ticks lo hi want mag [2, 5 / 2, 5, 10] (ticks_at lo hi mag) in
       if best = [] then [lo, hi] else best))"

subsection \<open>The plot\<close>

record chart_series =
  ch_field :: string
  ch_label :: "string option"
  ch_points :: "point list"
  ch_color :: string
  ch_info :: "history_series option"

datatype chart_type = LineChart | AreaChart | StepChart | BarChart | DotChart

record scaled =
  sd_series :: chart_series
  sd_points :: "point list"
  sd_min :: rat
  sd_max :: rat

text \<open>No more points than the chart has pixels for; a series without points is left out.\<close>

definition scale_one :: "int \<Rightarrow> chart_series \<Rightarrow> scaled list" where
  "scale_one width s = (let ps = decimate (ch_points s) (max 50 (width div 2)) in
     if ps = [] then [] else [\<lparr>sd_series = s, sd_points = ps, sd_min = Min (snd ` set ps), sd_max = Max (snd ` set ps)\<rparr>])"

definition scale_series :: "int \<Rightarrow> chart_series list \<Rightarrow> scaled list" where
  "scale_series width ss = concat (map (scale_one width) ss)"

definition drawable :: "scaled list \<Rightarrow> scaled list" where
  "drawable ss = filter (\<lambda>d. 2 \<le> length (sd_points d)) ss"

record plot =
  pt_t0 :: rat
  pt_t1 :: rat
  pt_lo :: rat
  pt_hi :: rat
  pt_w :: rat
  pt_h :: rat

definition pad_left :: rat where "pad_left = 60"
definition pad_top :: rat where "pad_top = 14"

definition plot_of :: "int \<Rightarrow> int \<Rightarrow> chart_type \<Rightarrow> scaled list \<Rightarrow> plot" where
  "plot_of width height kind ds =
     (let lo = Min (set (map sd_min ds)); hi = Max (set (map sd_max ds));
          lo' = (if kind = BarChart then min lo 0 else lo); hi' = (if kind = BarChart then max hi 0 else hi) in
      \<lparr>pt_t0 = Min (set (map (\<lambda>d. fst (hd (sd_points d))) ds)), pt_t1 = Max (set (map (\<lambda>d. fst (last (sd_points d))) ds)),
       pt_lo = (if lo' = hi' then lo' - 1 else lo'), pt_hi = (if lo' = hi' then hi' + 1 else hi'),
       pt_w = of_int width - 60 - 14, pt_h = of_int height - 14 - 24\<rparr>)"

definition t_range :: "plot \<Rightarrow> rat" where
  "t_range f = max 1 (pt_t1 f - pt_t0 f)"

definition x_of :: "plot \<Rightarrow> rat \<Rightarrow> rat" where
  "x_of f t = pad_left + (t - pt_t0 f) / t_range f * pt_w f"

definition y_of :: "plot \<Rightarrow> bool \<Rightarrow> scaled \<Rightarrow> rat \<Rightarrow> rat" where
  "y_of f own d v =
     (if \<not> own then pad_top + pt_h f - (v - pt_lo f) / (pt_hi f - pt_lo f) * pt_h f
      else (let lo = (if sd_min d = sd_max d then sd_min d - 1 else sd_min d);
                hi = (if sd_min d = sd_max d then sd_max d + 1 else sd_max d) in
        pad_top + pt_h f - (v - lo) / (hi - lo) * pt_h f))"

definition y_ticks :: "plot \<Rightarrow> bool \<Rightarrow> rat list" where
  "y_ticks f own = (if own then nice_ticks 0 1 5 else nice_ticks (pt_lo f) (pt_hi f) 4)"

definition x_ticks :: "plot \<Rightarrow> rat list" where
  "x_ticks f = (let n = nat (min 6 (max 2 \<lfloor>pt_w f / 110\<rfloor>)) in
     map (\<lambda>i. pt_t0 f + t_range f * rat_of_nat i / rat_of_nat (n - 1)) [0..<n])"

definition nearer :: "rat \<Rightarrow> point \<Rightarrow> point \<Rightarrow> point" where
  "nearer t p best = (if \<bar>fst p - t\<bar> < \<bar>fst best - t\<bar> then p else best)"

definition nearest_in :: "point list \<Rightarrow> rat \<Rightarrow> point" where
  "nearest_in ps t = fold (nearer t) ps (hd ps)"

definition nearest_series :: "scaled list \<Rightarrow> rat \<Rightarrow> scaled" where
  "nearest_series ds t = fold (\<lambda>d best. if \<bar>fst (nearest_in (sd_points d) t) - t\<bar> < \<bar>fst (nearest_in (sd_points best) t) - t\<bar>
     then d else best) ds (hd ds)"

subsection \<open>Dragging and clicking\<close>

definition drag_px :: rat where "drag_px = 6"
definition min_span_ms :: rat where "min_span_ms = 500"

record brush =
  br_from :: "rat option"
  br_band :: "(rat \<times> rat) option"
  br_swallow :: bool

definition brush_start :: brush where
  "brush_start = \<lparr>br_from = None, br_band = None, br_swallow = False\<rparr>"

datatype chart_event = PointerDown nat rat | PointerMove rat | PointerUp rat | PointerCancel | ClickAt rat
datatype chart_call = Zoom int int | Pick point string

text \<open>\<open>x\<close> is measured from the left edge of the picture.\<close>

definition time_at :: "plot \<Rightarrow> rat \<Rightarrow> rat" where
  "time_at f x = pt_t0 f + (x - pad_left) / pt_w f * t_range f"

definition zoom_window :: "plot \<Rightarrow> rat \<times> rat \<Rightarrow> chart_call" where
  "zoom_window f b = (let from = max (pt_t0 f) (min (fst b) (snd b)); till = min (pt_t1 f) (max (fst b) (snd b)) in
     Zoom (js_round from) (js_round (max till (from + min_span_ms))))"

fun chart_step :: "plot \<Rightarrow> scaled list \<Rightarrow> bool \<Rightarrow> bool \<Rightarrow> chart_event \<Rightarrow> brush \<Rightarrow> brush \<times> chart_call option" where
  "chart_step f ds zooms picks (PointerDown button x) b = (if \<not> zooms \<or> button \<noteq> 0 then (b, None)
     else (b\<lparr>br_from := Some x, br_band := Some (time_at f x, time_at f x)\<rparr>, None))"
| "chart_step f ds zooms picks (PointerMove x) b = (if br_from b = None then (b, None)
     else (b\<lparr>br_band := map_option (\<lambda>(s, _). (s, time_at f x)) (br_band b)\<rparr>, None))"
| "chart_step f ds zooms picks PointerCancel b = (b\<lparr>br_from := None, br_band := None\<rparr>, None)"
| "chart_step f ds zooms picks (PointerUp x) b = (let b' = b\<lparr>br_from := None, br_band := None\<rparr> in
     case (br_from b, br_band b) of
       (Some start, Some band) \<Rightarrow> if \<not> zooms \<or> \<bar>x - start\<bar> < drag_px then (b', None)
         else (b'\<lparr>br_swallow := True\<rparr>, Some (zoom_window f band))
     | _ \<Rightarrow> (b', None))"
| "chart_step f ds zooms picks (ClickAt x) b = (if br_swallow b then (b\<lparr>br_swallow := False\<rparr>, None)
     else if \<not> picks then (b, None)
     else (let t = time_at f x; best = nearest_series ds t in
       (b, Some (Pick (nearest_in (sd_points best) t) (ch_field (sd_series best))))))"

subsection \<open>Thinning out keeps the shape\<close>

lemma bucket_bound_div: "bucket_bound n k b = b * n div k"
proof -
  have "rat_of_nat b * (rat_of_nat n / rat_of_nat k) = rat_of_nat (b * n) / rat_of_nat k" by simp
  then show ?thesis unfolding bucket_bound_def by (simp only: floor_divide_of_nat_eq nat_int)
qed

lemma bucket_bound_facts:
  "bucket_bound n k 0 = 0" "bucket_bound n k b \<le> bucket_bound n k (Suc b)"
  "0 < k \<Longrightarrow> bucket_bound n k k = n" "0 < k \<Longrightarrow> b \<le> k \<Longrightarrow> bucket_bound n k b \<le> n"
proof -
  show "bucket_bound n k b \<le> n" if "0 < k" "b \<le> k"
    using div_le_mono[OF mult_le_mono1[OF that(2)], of n k] that(1) by (simp add: bucket_bound_div)
qed (simp_all add: bucket_bound_div div_le_mono)

lemma bucket_extremes_spec:
  assumes "start < stop"
  shows "case bucket_extremes ps start stop of (lo, hi) \<Rightarrow> lo \<in> {start..<stop} \<and> hi \<in> {start..<stop} \<and>
    (\<forall>i \<in> {start..<stop}. snd (ps ! lo) \<le> snd (ps ! i) \<and> snd (ps ! i) \<le> snd (ps ! hi))"
  using assms
proof (induction stop)
  case (Suc m)
  show ?case
  proof (cases "start < m")
    case False
    then have "m = start" using Suc.prems by simp
    then show ?thesis by (simp add: bucket_extremes_def)
  next
    case True
    obtain lo hi where e: "bucket_extremes ps start m = (lo, hi)" by (cases "bucket_extremes ps start m")
    have "bucket_extremes ps start (Suc m) =
        (if snd (ps ! m) < snd (ps ! lo) then m else lo, if snd (ps ! m) > snd (ps ! hi) then m else hi)"
      using True e by (simp add: bucket_extremes_def)
    moreover have range: "{start..<Suc m} = insert m {start..<m}" using True by auto
    moreover have "lo \<in> {start..<m} \<and> hi \<in> {start..<m} \<and>
        (\<forall>i \<in> {start..<m}. snd (ps ! lo) \<le> snd (ps ! i) \<and> snd (ps ! i) \<le> snd (ps ! hi))"
      using Suc.IH[OF True] e by simp
    ultimately show ?thesis by (force simp del: atLeastLessThan_iff)
  qed
qed simp

lemma bucket_points_facts:
  assumes "stop \<le> length ps"
  shows "length (bucket_points ps start stop) \<le> 2" "subseq (bucket_points ps start stop) (map ((!) ps) [start..<stop])"
    "i \<in> {start..<stop} \<Longrightarrow> \<exists>q \<in> set (bucket_points ps start stop). snd q \<le> snd (ps ! i)"
    "i \<in> {start..<stop} \<Longrightarrow> \<exists>q \<in> set (bucket_points ps start stop). snd (ps ! i) \<le> snd q"
proof -
  have two: "subseq [a, b] [start..<stop]" if "a < b" "start \<le> a" "b < stop" for a b :: nat
  proof -
    have "[start..<stop] = [start..<b] @ [b..<stop]" using that upt_add_eq_append[of start b "stop - b"] by simp
    moreover have "subseq ([a] @ [b]) ([start..<b] @ [b..<stop])"
      by (rule list_emb_append_mono) (use that in \<open>simp_all add: subseq_singleton_left\<close>)
    ultimately show ?thesis by simp
  qed
  have "length (bucket_points ps start stop) \<le> 2 \<and> subseq (bucket_points ps start stop) (map ((!) ps) [start..<stop]) \<and>
    (\<forall>i \<in> {start..<stop}. (\<exists>q \<in> set (bucket_points ps start stop). snd q \<le> snd (ps ! i)) \<and>
       (\<exists>q \<in> set (bucket_points ps start stop). snd (ps ! i) \<le> snd q))"
  proof (cases "start < stop")
    case True
    obtain lo hi where e: "bucket_extremes ps start stop = (lo, hi)" by (cases "bucket_extremes ps start stop")
    have spec: "lo \<in> {start..<stop}" "hi \<in> {start..<stop}"
      "\<And>i. i \<in> {start..<stop} \<Longrightarrow> snd (ps ! lo) \<le> snd (ps ! i) \<and> snd (ps ! i) \<le> snd (ps ! hi)"
      using bucket_extremes_spec[OF True, of ps] e by simp_all
    consider "lo = hi" | "lo < hi" | "hi < lo" by linarith
    then show ?thesis
    proof cases
      case 1
      have "subseq [hi] [start..<stop]" using spec by (simp add: subseq_singleton_left)
      from subseq_map[OF this, of "(!) ps"] show ?thesis using True e spec 1 by (auto simp: bucket_points_def)
    next
      case 2
      from subseq_map[OF two[OF 2], of "(!) ps"] show ?thesis using True e spec 2 by (auto simp: bucket_points_def)
    next
      case 3
      from subseq_map[OF two[OF 3], of "(!) ps"] show ?thesis using True e spec 3 by (auto simp: bucket_points_def)
    qed
  qed (simp add: bucket_points_def)
  then show "length (bucket_points ps start stop) \<le> 2" "subseq (bucket_points ps start stop) (map ((!) ps) [start..<stop])"
    "i \<in> {start..<stop} \<Longrightarrow> \<exists>q \<in> set (bucket_points ps start stop). snd q \<le> snd (ps ! i)"
    "i \<in> {start..<stop} \<Longrightarrow> \<exists>q \<in> set (bucket_points ps start stop). snd (ps ! i) \<le> snd q"
    by simp_all
qed

definition buckets_upto :: "point list \<Rightarrow> nat \<Rightarrow> nat \<Rightarrow> point list" where
  "buckets_upto ps k m =
     concat (map (\<lambda>b. bucket_points ps (bucket_bound (length ps) k b) (bucket_bound (length ps) k (Suc b))) [0..<m])"

lemma buckets_upto_facts:
  assumes "0 < k" "m \<le> k"
  shows "length (buckets_upto ps k m) \<le> 2 * m \<and>
    subseq (buckets_upto ps k m) (map ((!) ps) [0..<bucket_bound (length ps) k m]) \<and>
    (\<forall>i < bucket_bound (length ps) k m. (\<exists>q \<in> set (buckets_upto ps k m). snd q \<le> snd (ps ! i)) \<and>
      (\<exists>q \<in> set (buckets_upto ps k m). snd (ps ! i) \<le> snd q))"
  using assms(2)
proof (induction m)
  case 0
  then show ?case by (simp add: buckets_upto_def bucket_bound_facts)
next
  case (Suc m)
  let ?a = "bucket_bound (length ps) k m" and ?z = "bucket_bound (length ps) k (Suc m)"
  have le: "?a \<le> ?z" "?z \<le> length ps" using bucket_bound_facts(2,4) assms(1) Suc.prems by auto
  have step: "buckets_upto ps k (Suc m) = buckets_upto ps k m @ bucket_points ps ?a ?z" by (simp add: buckets_upto_def)
  note new = bucket_points_facts[OF le(2), where start = ?a]
  have IH: "length (buckets_upto ps k m) \<le> 2 * m" "subseq (buckets_upto ps k m) (map ((!) ps) [0..<?a])"
    "\<And>i. i < ?a \<Longrightarrow> (\<exists>q \<in> set (buckets_upto ps k m). snd q \<le> snd (ps ! i)) \<and> (\<exists>q \<in> set (buckets_upto ps k m). snd (ps ! i) \<le> snd q)"
    using Suc by simp_all
  have "[0..<?z] = [0..<?a] @ [?a..<?z]" using le(1) upt_add_eq_append[of 0 ?a "?z - ?a"] by simp
  then have "subseq (buckets_upto ps k (Suc m)) (map ((!) ps) [0..<?z])"
    unfolding step using list_emb_append_mono[OF IH(2) new(2)] by simp
  moreover have "(\<exists>q \<in> set (buckets_upto ps k (Suc m)). snd q \<le> snd (ps ! i)) \<and> (\<exists>q \<in> set (buckets_upto ps k (Suc m)). snd (ps ! i) \<le> snd q)"
    if i: "i < ?z" for i
  proof (cases "i < ?a")
    case True
    then show ?thesis unfolding step using IH(3)[OF True] by auto
  next
    case False
    then have "i \<in> {?a..<?z}" using i by simp
    from new(3)[OF this] new(4)[OF this] show ?thesis unfolding step by (simp add: bex_Un)
  qed
  moreover have "length (buckets_upto ps k (Suc m)) \<le> 2 * Suc m" unfolding step using IH(1) new(1) by simp
  ultimately show ?case by blast
qed

lemma decimate_buckets:
  "decimate ps buckets = (if buckets \<le> 0 \<or> int (length ps) \<le> buckets then ps else buckets_upto ps (nat buckets) (nat buckets))"
proof -
  have "min (length ps) (bucket_bound (length ps) (nat buckets) (Suc b)) = bucket_bound (length ps) (nat buckets) (Suc b)"
    if "b < nat buckets" for b
    using bucket_bound_facts(4)[of "nat buckets" "Suc b" "length ps"] that by simp
  then have "map (\<lambda>b. bucket_points ps (bucket_bound (length ps) (nat buckets) b)
        (min (length ps) (bucket_bound (length ps) (nat buckets) (Suc b)))) [0..<nat buckets] =
      map (\<lambda>b. bucket_points ps (bucket_bound (length ps) (nat buckets) b)
        (bucket_bound (length ps) (nat buckets) (Suc b))) [0..<nat buckets]"
    by (intro map_cong) simp_all
  then show ?thesis unfolding decimate_def buckets_upto_def Let_def by (simp only:)
qed

lemma decimate_subseq: "subseq (decimate ps buckets) ps"
proof (cases "buckets \<le> 0 \<or> int (length ps) \<le> buckets")
  case False
  then have k: "0 < nat buckets" by simp
  show ?thesis using False buckets_upto_facts[OF k order_refl, of ps] bucket_bound_facts(3)[OF k]
    by (simp add: decimate_buckets map_nth)
qed (simp add: decimate_buckets)


subsection \<open>Silences cut out\<close>

lemma split_runs_concat: "concat (split_runs g run ps) = run @ ps"
  by (induction g run ps rule: split_runs.induct) auto

lemma split_runs_nonempty: "[] \<notin> set (split_runs g run ps)"
  by (induction g run ps rule: split_runs.induct) auto

definition close_run :: "rat \<Rightarrow> point list \<Rightarrow> bool" where
  "close_run g = successively (\<lambda>p q. fst q - fst p \<le> g)"

lemma split_runs_close: "close_run g run \<Longrightarrow> list_all (close_run g) (split_runs g run ps)"
  by (induction g run ps rule: split_runs.induct) (auto simp: close_run_def successively_append_iff)

lemma split_runs_head: "split_runs g run ps \<noteq> [] \<Longrightarrow> run \<noteq> [] \<Longrightarrow> \<exists>more. hd (split_runs g run ps) = run @ more"
  by (induction g run ps rule: split_runs.induct) (auto split: if_splits)

lemma split_runs_not_Nil: "run \<noteq> [] \<Longrightarrow> split_runs g run ps \<noteq> []"
  using split_runs_concat[of g run ps] by auto

lemma split_runs_apart:
  "successively (\<lambda>a b. fst (hd b) - fst (last a) > g) (split_runs g run ps)"
proof (induction g run ps rule: split_runs.induct)
  case (2 g run p ps)
  show ?case
  proof (cases "run \<noteq> [] \<and> fst p - fst (last run) > g")
    case True
    obtain more where "hd (split_runs g [p] ps) = [p] @ more"
      using split_runs_head[OF split_runs_not_Nil, of "[p]"] by blast
    then show ?thesis using True 2 split_runs_not_Nil[of "[p]" g ps]
      by (cases "split_runs g [p] ps") (simp_all add: successively_Cons)
  next
    case False
    then have "split_runs g run (p # ps) = split_runs g (run @ [p]) ps" by auto
    then show ?thesis using 2(2)[OF False] by (simp only:)
  qed
qed simp

text \<open>
  Cutting at silences loses no point and keeps the order: within a stretch no step is longer than the gap,
  and between two stretches every step is.
\<close>

theorem split_at_silences:
  "concat (split_on_gaps ps gap) = ps \<and>
   (case gap of None \<Rightarrow> split_on_gaps ps gap = [ps]
    | Some g \<Rightarrow> [] \<notin> set (split_on_gaps ps gap) \<and> list_all (close_run g) (split_on_gaps ps gap) \<and>
        successively (\<lambda>a b. fst (hd b) - fst (last a) > g) (split_on_gaps ps gap))"
  using split_runs_close[of _ "[]"]
  by (auto simp: split_on_gaps_def split_runs_concat split_runs_nonempty split_runs_apart close_run_def split: option.split)

subsection \<open>Few steps are silences\<close>

definition steps_of :: "point list \<Rightarrow> rat list" where
  "steps_of ps = map2 (\<lambda>p q. fst q - fst p) ps (tl ps)"

lemma distances_steps: "distances ps = filter (\<lambda>d. d > 0) (steps_of ps)"
proof -
  have "map (\<lambda>i. fst (ps ! i) - fst (ps ! (i - 1))) [1..<length ps] = steps_of ps"
    by (rule nth_equalityI) (auto simp: steps_of_def nth_tl)
  then show ?thesis by (simp only: distances_def)
qed

lemma length_split_runs:
  "run \<noteq> [] \<Longrightarrow> length (split_runs g run ps) \<le> Suc (length (filter (\<lambda>d. d > g) (steps_of (last run # ps))))"
  by (induction g run ps rule: split_runs.induct) (auto simp: steps_of_def split: if_splits)

lemma above_in_sorted:
  assumes "sorted xs" "i < length xs"
  shows "length (filter (\<lambda>d. d > (xs ! i :: rat)) xs) \<le> length xs - Suc i"
proof -
  have "filter (\<lambda>d. d > xs ! i) (take (Suc i) xs) = []"
    using assms by (auto simp: filter_empty_conv in_set_conv_nth not_less less_Suc_eq_le intro!: sorted_nth_mono)
  then have "filter (\<lambda>d. d > xs ! i) xs = filter (\<lambda>d. d > xs ! i) (drop (Suc i) xs)"
    using append_take_drop_id[of "Suc i" xs] by (metis filter_append append_Nil)
  then show ?thesis using length_filter_le[of _ "drop (Suc i) xs"] by (simp only: length_drop)
qed

lemma sort_filter_length: "length (filter P (sort xs)) = length (filter P xs)"
  by (metis filter_sort length_sort)

lemma filter_weaker: "a \<le> (g :: rat) \<Longrightarrow> length (filter (\<lambda>d. d > g) xs) \<le> length (filter (\<lambda>d. d > a) xs)"
  by (induction xs) auto

lemma few_above:
  assumes "4 \<le> length ds" "list_all (\<lambda>d. d > 0) ds"
    and g: "g = sort ds ! min (length ds - 1) (nat \<lfloor>rat_of_nat (length ds) * (3 / 4)\<rfloor>) * gap_factor"
  shows "0 < g" "4 * length (filter (\<lambda>d. d > g) ds) \<le> length ds"
proof -
  let ?i = "min (length ds - 1) (nat \<lfloor>rat_of_nat (length ds) * (3 / 4)\<rfloor>)"
  have i: "?i < length (sort ds)" using assms(1) by simp
  then have "sort ds ! ?i \<in> set ds" using nth_mem[OF i] by simp
  then have pos: "0 < sort ds ! ?i" using assms(2) by (simp add: list_all_iff)
  then show "0 < g" by (simp add: g gap_factor_def)
  have "sort ds ! ?i \<le> g" using pos by (simp add: g gap_factor_def)
  then have "length (filter (\<lambda>d. d > g) ds) \<le> length (filter (\<lambda>d. d > sort ds ! ?i) (sort ds))"
    unfolding sort_filter_length by (rule filter_weaker)
  also have "\<dots> \<le> length ds - Suc ?i" using above_in_sorted[OF sorted_sort i] by simp
  finally have "length (filter (\<lambda>d. d > g) ds) \<le> length ds - Suc ?i" .
  moreover have "4 * (length ds - Suc ?i) \<le> length ds"
  proof -
    have "rat_of_nat (length ds) * (3 / 4) < of_int \<lfloor>rat_of_nat (length ds) * (3 / 4)\<rfloor> + 1" by linarith
    moreover have "of_int \<lfloor>rat_of_nat (length ds) * (3 / 4)\<rfloor> = rat_of_nat (nat \<lfloor>rat_of_nat (length ds) * (3 / 4)\<rfloor>)" by simp
    ultimately have "rat_of_nat (3 * length ds) < rat_of_nat (4 * nat \<lfloor>rat_of_nat (length ds) * (3 / 4)\<rfloor> + 4)" by simp
    then have "3 * length ds < 4 * nat \<lfloor>rat_of_nat (length ds) * (3 / 4)\<rfloor> + 4" by (simp only: of_nat_less_iff)
    then show ?thesis by (simp add: min_def) linarith
  qed
  ultimately show "4 * length (filter (\<lambda>d. d > g) ds) \<le> length ds" by linarith
qed

text \<open>
  The gap a series is cut at is one few of its steps reach: there is about one stretch per four points at
  most, and a series too short to have a usual step is left whole.
\<close>

theorem few_cuts:
  "(case gap_after ps of None \<Rightarrow> length (split_on_gaps ps (gap_after ps)) = 1
    | Some g \<Rightarrow> 0 < g \<and> 4 * length (split_on_gaps ps (gap_after ps)) \<le> length ps + 3)"
proof (cases "gap_after ps")
  case (Some g)
  then have long: "5 \<le> length ps" "4 \<le> length (distances ps)"
    and g: "g = sort (distances ps) ! min (length (distances ps) - 1) (nat \<lfloor>rat_of_nat (length (distances ps)) * (3 / 4)\<rfloor>) * gap_factor"
    by (simp_all add: gap_after_def Let_def split: if_splits)
  have pos: "list_all (\<lambda>d. d > 0) (distances ps)" by (simp add: distances_def list_all_iff)
  note few = few_above[OF long(2) pos g]
  obtain p qs where ps: "ps = p # qs" using long(1) by (cases ps) simp_all
  have "length (split_runs g [p] qs) \<le> Suc (length (filter (\<lambda>d. d > g) (steps_of ps)))"
    using length_split_runs[of "[p]" g qs] by (simp add: ps)
  moreover have "filter (\<lambda>d. d > g) (steps_of ps) = filter (\<lambda>d. d > g) (distances ps)"
    using few(1) by (auto simp: distances_steps intro!: filter_cong)
  moreover have "length (distances ps) \<le> length qs"
    unfolding distances_steps using length_filter_le[of _ "steps_of ps"] by (simp add: steps_of_def ps)
  ultimately show ?thesis using Some few by (simp add: split_on_gaps_def ps)
qed (simp add: split_on_gaps_def)

subsection \<open>A point once drawn stays\<close>

lemma bucket_size_positive: "0 < bucket_size s"
  by (simp add: bucket_size_def)

lemma whole_chunks_prefix: "prefix (whole_chunks n ps) (whole_chunks n (ps @ qs))"
proof (induction n ps rule: whole_chunks.induct)
  case (1 n ps)
  show ?case
  proof (cases "n = 0 \<or> length ps < n")
    case False
    then show ?thesis using 1[OF False] by (simp add: whole_chunks.simps[of n ps] whole_chunks.simps[of n "ps @ qs"])
  qed (simp add: whole_chunks.simps[of n ps])
qed

lemma chunk_rates_prefix: "prefix (chunk_rates cs) (chunk_rates (cs @ ds))"
proof (induction cs rule: chunk_rates.induct)
  case (1 c d cs)
  have "prefix (chunk_rates (d # cs)) (chunk_rates (d # cs @ ds))" using 1[OF refl refl refl] by simp
  then show ?case by (simp add: Let_def)
qed simp_all

lemma extend_series_prefix: "prefix (extend_series s live agg) (extend_series s (live @ later) agg)"
proof -
  obtain cs where "whole_chunks (bucket_size s) (live @ later) = whole_chunks (bucket_size s) live @ cs"
    using whole_chunks_prefix[of "bucket_size s" live later] by (elim prefixE)
  then show ?thesis using chunk_rates_prefix by (simp add: extend_series_def Let_def)
qed

text \<open>
  A point once in the chart stays where it is: the messages that come later only add points after it,
  whatever the field, the reduction and the answer of the backend are.
\<close>

theorem drawn_points_stay:
  "prefix (merge_points date_parse parse s ms field agg) (merge_points date_parse parse s (ms @ later) field agg)"
  using extend_series_prefix by (auto simp: merge_points_def Let_def split: option.split)

lemma whole_chunks_facts:
  "0 < n \<Longrightarrow> length (whole_chunks n ps) = length ps div n \<and> concat (whole_chunks n ps) = take (length ps div n * n) ps \<and>
     list_all (\<lambda>c. length c = n) (whole_chunks n ps)"
proof (induction n ps rule: whole_chunks.induct)
  case (1 n ps)
  show ?case
  proof (cases "length ps < n")
    case True
    then show ?thesis by (simp add: whole_chunks.simps[of n ps])
  next
    case False
    then have le: "n \<le> length ps" by simp
    have div: "length ps div n = Suc (length (drop n ps) div n)" using le 1(2) by (simp add: le_div_geq)
    have IH: "length (whole_chunks n (drop n ps)) = length (drop n ps) div n"
        "concat (whole_chunks n (drop n ps)) = take (length (drop n ps) div n * n) (drop n ps)"
        "list_all (\<lambda>c. length c = n) (whole_chunks n (drop n ps))"
      using 1 False by simp_all
    have "take (Suc (length (drop n ps) div n) * n) ps = take n ps @ take (length (drop n ps) div n * n) (drop n ps)"
      by (simp only: mult_Suc take_add)
    then show ?thesis unfolding div using IH le 1(2) by (simp add: whole_chunks.simps[of n ps] min_absorb2)
  qed
qed

lemma sum_reduced: "sum_list (map (\<lambda>c. snd (reduce_chunk AgSum c)) cs) = sum_list (map snd (concat cs))"
  by (induction cs) (simp_all add: reduce_chunk_def Let_def)

lemma average_between:
  assumes "c \<noteq> []"
  shows "Min (set (map snd c)) \<le> snd (reduce_chunk AgAvg c) \<and> snd (reduce_chunk AgAvg c) \<le> Max (set (map snd c))"
proof -
  have "rat_of_nat (length c) * Min (set (map snd c)) \<le> sum_list (map snd c)"
    using sum_list_mono[of c "\<lambda>_. Min (set (map snd c))" snd] by (simp add: sum_list_triv)
  moreover have "sum_list (map snd c) \<le> rat_of_nat (length c) * Max (set (map snd c))"
    using sum_list_mono[of c snd "\<lambda>_. Max (set (map snd c))"] by (simp add: sum_list_triv)
  ultimately show ?thesis using assms by (simp add: reduce_chunk_def Let_def field_simps)
qed

text \<open>
  A reduced series grows by whole buckets only: one point for as many messages as a point of the backend
  stands for, none left out but those of a bucket not full yet; sums add up, and an average lies between
  what the minimum and the maximum would draw.
\<close>

theorem whole_buckets_added:
  "length (extend_series s live AgSum) = length live div bucket_size s \<and>
   sum_list (map snd (extend_series s live AgSum)) = sum_list (map snd (take (length live div bucket_size s * bucket_size s) live)) \<and>
   list_all2 (\<le>) (map snd (extend_series s live AgMin)) (map snd (extend_series s live AgAvg)) \<and>
   list_all2 (\<le>) (map snd (extend_series s live AgAvg)) (map snd (extend_series s live AgMax))"
proof -
  let ?cs = "whole_chunks (bucket_size s) live"
  note facts = whole_chunks_facts[OF bucket_size_positive[of s], of live]
  have "\<forall>c \<in> set ?cs. c \<noteq> []" using facts bucket_size_positive[of s] by (fastforce simp: list_all_iff)
  then have "\<forall>c \<in> set ?cs. snd (reduce_chunk AgMin c) \<le> snd (reduce_chunk AgAvg c) \<and> snd (reduce_chunk AgAvg c) \<le> snd (reduce_chunk AgMax c)"
    using average_between by (simp add: reduce_chunk_def Let_def)
  then show ?thesis using facts sum_reduced[of ?cs]
    by (simp add: extend_series_def Let_def list_all2_conv_all_nth o_def)
qed

subsection \<open>The lines of the axis\<close>

lemma pow10_up_spec: "1 \<le> x \<Longrightarrow> 1 \<le> pow10_up x \<and> pow10_up x \<le> x \<and> x < 10 * pow10_up x"
proof (induction x rule: pow10_up.induct)
  case (1 x)
  show ?case
  proof (cases "x < 10")
    case False
    then show ?thesis using 1(1)[OF False] by (simp add: pow10_up.simps[of x])
  qed (use 1(2) in \<open>simp add: pow10_up.simps[of x]\<close>)
qed

lemma pow10_down_spec: "0 < x \<Longrightarrow> x < 1 \<Longrightarrow> 0 < pow10_down x \<and> pow10_down x \<le> x \<and> x < 10 * pow10_down x"
proof (induction x rule: pow10_down.induct)
  case (1 x)
  show ?case
  proof (cases "x * 10 < 1")
    case True
    then show ?thesis using 1 by (simp add: pow10_down.simps[of x])
  next
    case False
    then show ?thesis using 1(2,3) by (simp add: pow10_down.simps[of x] pow10_down.simps[of "x * 10"])
  qed
qed

lemma pow10_floor_spec: "0 < x \<Longrightarrow> 0 < pow10_floor x \<and> pow10_floor x \<le> x \<and> x < 10 * pow10_floor x"
  using pow10_up_spec[of x] pow10_down_spec[of x] by (cases "x < 1") (simp_all add: pow10_floor_def)

lemma ticks_at_count:
  assumes "0 < s" "lo < hi"
  shows "(hi - lo) / s < rat_of_nat (length (ticks_at lo hi s)) + 1"
    "rat_of_nat (length (ticks_at lo hi s)) < (hi - lo) / s + 2"
proof -
  let ?b = "\<lfloor>(hi + s / 1000000000) / s\<rfloor>" and ?a = "\<lceil>lo / s\<rceil>"
  have len: "length (ticks_at lo hi s) = nat (?b - ?a + 1)" by (simp add: ticks_at_def first_tick_def)
  have eps: "(hi + s / 1000000000) / s = hi / s + 1 / 1000000000" using assms by (simp add: field_simps)
  have diff: "(hi - lo) / s = hi / s - lo / s" by (simp add: diff_divide_distrib)
  have up: "rat_of_int ?b \<le> hi / s + 1 / 1000000000" "hi / s + 1 / 1000000000 < rat_of_int ?b + 1"
    unfolding eps by linarith+
  have low: "lo / s \<le> rat_of_int ?a" "rat_of_int ?a < lo / s + 1" by linarith+
  have pos: "0 < (hi - lo) / s" using assms by simp
  have "rat_of_nat (length (ticks_at lo hi s)) \<ge> rat_of_int (?b - ?a + 1)" unfolding len by simp
  then show "(hi - lo) / s < rat_of_nat (length (ticks_at lo hi s)) + 1" using up low unfolding diff by simp
  show "rat_of_nat (length (ticks_at lo hi s)) < (hi - lo) / s + 2"
  proof (cases "?b - ?a + 1 \<ge> 0")
    case True
    then have "rat_of_nat (length (ticks_at lo hi s)) = rat_of_int ?b - rat_of_int ?a + 1" unfolding len by simp
    then show ?thesis using up low unfolding diff by linarith
  next
    case False
    then show ?thesis using pos unfolding len by simp
  qed
qed

lemma widest_ticks_spec:
  assumes mag: "0 < mag" "mag \<le> (hi - lo) / rat_of_nat want" "(hi - lo) / rat_of_nat want < 10 * mag"
    and want: "2 \<le> want" "lo < hi"
  shows "\<exists>s > 0. widest_ticks lo hi want mag [2, 5 / 2, 5, 10] (ticks_at lo hi mag) = ticks_at lo hi s \<and>
    want \<le> length (ticks_at lo hi s) + 1 \<and> length (ticks_at lo hi s) < 2 * want"
proof -
  let ?n = "\<lambda>s. length (ticks_at lo hi s)"
  have count: "(hi - lo) / s < rat_of_nat (?n s) + 1" "rat_of_nat (?n s) < (hi - lo) / s + 2" if "0 < s" for s
    using ticks_at_count[OF that want(2)] by simp_all
  have pos: "0 < hi - lo" using want by simp
  have few: "?n s < 2 * want" if s: "0 < s" "0 < s'" "s' \<le> 2 * s" and reject: "?n s' + 1 < want" for s s'
  proof -
    have "2 * (hi - lo) / (2 * s) \<le> 2 * (hi - lo) / s'" by (rule divide_left_mono) (use s pos in auto)
    moreover have "2 * (hi - lo) / (2 * s) = (hi - lo) / s" by (rule mult_divide_mult_cancel_left) simp
    ultimately have half: "(hi - lo) / s \<le> 2 * ((hi - lo) / s')" by (simp only: times_divide_eq_right)
    have "rat_of_nat (?n s' + 2) \<le> rat_of_nat want" using reject by (simp only: of_nat_le_iff)
    then have "(hi - lo) / s' < rat_of_nat want - 1" using count(1)[OF s(2)] by simp
    then have "rat_of_nat (?n s) < 2 * rat_of_nat want" using half count(2)[OF s(1)] by linarith
    then have "rat_of_nat (?n s) < rat_of_nat (2 * want)" by (simp only: of_nat_mult of_nat_numeral)
    then show ?thesis by (simp only: of_nat_less_iff)
  qed
  have first: "want \<le> ?n mag + 1"
  proof -
    have "rat_of_nat want * mag \<le> hi - lo" using mag(2) want(1) by (simp add: field_simps)
    then have "rat_of_nat want \<le> (hi - lo) / mag" using mag(1) by (simp add: field_simps)
    then have "rat_of_nat want < rat_of_nat (?n mag + 1)" using count(1)[OF mag(1)] by simp
    then show ?thesis by (simp only: of_nat_less_iff)
  qed
  have all: "?n (10 * mag) < 2 * want"
  proof -
    have "hi - lo < rat_of_nat want * (10 * mag)" using mag(3) want(1) by (simp add: field_simps)
    then have "(hi - lo) / (10 * mag) < rat_of_nat want" using mag(1) by (simp add: field_simps)
    then have "rat_of_nat (?n (10 * mag)) < rat_of_nat (want + 2)" using count(2)[of "10 * mag"] mag(1) by simp
    then have "?n (10 * mag) < want + 2" by (simp only: of_nat_less_iff)
    then show ?thesis using want(1) by simp
  qed
  let ?t = "ticks_at lo hi"
  have chosen: "widest_ticks lo hi want mag [2, 5 / 2, 5, 10] (?t mag) =
     (if ?n (2 * mag) + 1 < want then ?t mag else if ?n (5 / 2 * mag) + 1 < want then ?t (2 * mag)
      else if ?n (5 * mag) + 1 < want then ?t (5 / 2 * mag) else if ?n (10 * mag) + 1 < want then ?t (5 * mag)
      else ?t (10 * mag))"
    by (simp only: widest_ticks.simps Let_def)
  consider "?n (2 * mag) + 1 < want" | "want \<le> ?n (2 * mag) + 1" "?n (5 / 2 * mag) + 1 < want"
    | "want \<le> ?n (2 * mag) + 1" "want \<le> ?n (5 / 2 * mag) + 1" "?n (5 * mag) + 1 < want"
    | "want \<le> ?n (2 * mag) + 1" "want \<le> ?n (5 / 2 * mag) + 1" "want \<le> ?n (5 * mag) + 1" "?n (10 * mag) + 1 < want"
    | "want \<le> ?n (2 * mag) + 1" "want \<le> ?n (5 / 2 * mag) + 1" "want \<le> ?n (5 * mag) + 1" "want \<le> ?n (10 * mag) + 1"
    by linarith
  then show ?thesis
  proof cases
    case 1
    then show ?thesis unfolding chosen using first mag(1) few[of mag "2 * mag"] by (intro exI[of _ mag]) simp
  next
    case 2
    then show ?thesis unfolding chosen using mag(1) few[of "2 * mag" "5 / 2 * mag"] by (intro exI[of _ "2 * mag"]) simp
  next
    case 3
    then show ?thesis unfolding chosen using mag(1) few[of "5 / 2 * mag" "5 * mag"] by (intro exI[of _ "5 / 2 * mag"]) simp
  next
    case 4
    then show ?thesis unfolding chosen using mag(1) few[of "5 * mag" "10 * mag"] by (intro exI[of _ "5 * mag"]) simp
  next
    case 5
    then show ?thesis unfolding chosen using mag(1) all by (intro exI[of _ "10 * mag"]) simp
  qed
qed



subsection \<open>Everything is inside the plot\<close>

lemma sorted_subseq: "subseq xs ys \<Longrightarrow> sorted (map fst ys) \<Longrightarrow> sorted (map fst (xs :: point list))"
  by (auto simp: subseq_conv_nths nths_map [symmetric] intro: sorted_nths)

lemma scaled_member:
  assumes "d \<in> set (scale_series width ss)"
  shows "sd_points d \<noteq> []" "sd_min d = Min (snd ` set (sd_points d))" "sd_max d = Max (snd ` set (sd_points d))"
    "\<exists>s \<in> set ss. sd_series d = s \<and> subseq (sd_points d) (ch_points s)"
proof -
  obtain s where s: "s \<in> set ss" "d \<in> set (scale_one width s)" using assms by (auto simp: scale_series_def)
  then have d: "decimate (ch_points s) (max 50 (width div 2)) \<noteq> []"
    "d = \<lparr>sd_series = s, sd_points = decimate (ch_points s) (max 50 (width div 2)),
      sd_min = Min (snd ` set (decimate (ch_points s) (max 50 (width div 2)))),
      sd_max = Max (snd ` set (decimate (ch_points s) (max 50 (width div 2))))\<rparr>"
    by (simp_all add: scale_one_def Let_def split: if_splits)
  then show "sd_points d \<noteq> []" "sd_min d = Min (snd ` set (sd_points d))" "sd_max d = Max (snd ` set (sd_points d))"
    by simp_all
  show "\<exists>s \<in> set ss. sd_series d = s \<and> subseq (sd_points d) (ch_points s)"
    using s(1) d(2) decimate_subseq by auto
qed

lemma frac_scaled: "0 \<le> q \<Longrightarrow> q \<le> 1 \<Longrightarrow> 0 \<le> (h :: rat) \<Longrightarrow> 0 \<le> q * h \<and> q * h \<le> h"
  using mult_right_mono[of q 1 h] by simp

lemma between_scaled:
  assumes "lo < hi" "lo \<le> v" "v \<le> hi" "0 \<le> (h :: rat)"
  shows "0 \<le> (v - lo) / (hi - lo) * h" "(v - lo) / (hi - lo) * h \<le> h"
proof -
  have "0 \<le> (v - lo) / (hi - lo)" "(v - lo) / (hi - lo) \<le> 1" using assms by simp_all
  then show "0 \<le> (v - lo) / (hi - lo) * h" "(v - lo) / (hi - lo) * h \<le> h"
    using frac_scaled[OF _ _ assms(4)] by blast+
qed

lemma plot_axis:
  assumes "d \<in> set ds" "sd_min d \<le> v" "v \<le> sd_max d"
  shows "pt_lo (plot_of width height kind ds) < pt_hi (plot_of width height kind ds)"
    "pt_lo (plot_of width height kind ds) \<le> v" "v \<le> pt_hi (plot_of width height kind ds)"
proof -
  let ?lo = "Min (set (map sd_min ds))" and ?hi = "Max (set (map sd_max ds))"
  have wide: "(if lo' = hi' then lo' - 1 else lo') < (if lo' = hi' then hi' + 1 else hi')"
      "(if lo' = hi' then lo' - 1 else lo') \<le> v" "v \<le> (if lo' = hi' then hi' + 1 else hi')"
    if "lo' \<le> v" "v \<le> hi'" for lo' hi' :: rat using that by auto
  have "?lo \<le> sd_min d" "sd_max d \<le> ?hi" using assms(1) by simp_all
  then have v: "?lo \<le> v" "v \<le> ?hi" using assms(2,3) order_trans by blast+
  then have "(if kind = BarChart then min ?lo 0 else ?lo) \<le> v" "v \<le> (if kind = BarChart then max ?hi 0 else ?hi)"
    by (cases "kind = BarChart"; simp only: min_le_iff_disj le_max_iff_disj if_True if_False simp_thms)+
  from wide[OF this] show "pt_lo (plot_of width height kind ds) < pt_hi (plot_of width height kind ds)"
    "pt_lo (plot_of width height kind ds) \<le> v" "v \<le> pt_hi (plot_of width height kind ds)"
    by (simp_all only: plot_of_def Let_def plot.simps)
qed

lemma plot_times:
  assumes "d \<in> set ds" "sd_points d \<noteq> []" "sorted (map fst (sd_points d))" "p \<in> set (sd_points d)"
  shows "pt_t0 (plot_of width height kind ds) \<le> fst p" "fst p \<le> pt_t1 (plot_of width height kind ds)"
proof -
  obtain i where i: "i < length (sd_points d)" "p = sd_points d ! i" using assms(4) by (auto simp: in_set_conv_nth)
  have "fst (hd (sd_points d)) \<le> fst p" "fst p \<le> fst (last (sd_points d))"
    using sorted_nth_mono[OF assms(3), of 0 i] sorted_nth_mono[OF assms(3), of i "length (sd_points d) - 1"] assms(2) i
    by (simp_all add: hd_conv_nth last_conv_nth)
  moreover have "pt_t0 (plot_of width height kind ds) \<le> fst (hd (sd_points d))"
    "fst (last (sd_points d)) \<le> pt_t1 (plot_of width height kind ds)"
    using assms(1) by (simp_all add: plot_of_def Let_def)
  ultimately show "pt_t0 (plot_of width height kind ds) \<le> fst p" "fst p \<le> pt_t1 (plot_of width height kind ds)" by simp_all
qed

text \<open>
  Every point that is drawn lies inside the plot, on a shared axis as on its own, in a chart of bars as of
  lines, for series in the order of time.
\<close>

theorem points_inside:
  assumes "200 \<le> width" "38 \<le> height" "\<forall>s \<in> set ss. sorted (map fst (ch_points s))"
    and "d \<in> set (drawable (scale_series width ss))" "p \<in> set (sd_points d)"
  shows "let f = plot_of width height kind (drawable (scale_series width ss)) in
    pad_left \<le> x_of f (fst p) \<and> x_of f (fst p) \<le> pad_left + pt_w f \<and>
    pad_top \<le> y_of f own d (snd p) \<and> y_of f own d (snd p) \<le> pad_top + pt_h f"
proof -
  let ?ds = "drawable (scale_series width ss)"
  let ?f = "plot_of width height kind ?ds"
  have d: "d \<in> set (scale_series width ss)" using assms(4) by (simp add: drawable_def)
  note member = scaled_member[OF d]
  have sorted: "sorted (map fst (sd_points d))" using member(4) assms(3) sorted_subseq by blast
  have size: "0 \<le> pt_w ?f" "0 \<le> pt_h ?f" using assms(1,2) by (simp_all add: plot_of_def Let_def)
  have v: "sd_min d \<le> snd p" "snd p \<le> sd_max d" using assms(5) member(2,3) by simp_all
  have t: "pt_t0 ?f \<le> fst p" "fst p \<le> pt_t1 ?f" using plot_times[OF assms(4) member(1) sorted assms(5)] by simp_all
  have "0 \<le> (fst p - pt_t0 ?f) / t_range ?f" "(fst p - pt_t0 ?f) / t_range ?f \<le> 1" using t by (simp_all add: t_range_def)
  then have "pad_left \<le> x_of ?f (fst p)" "x_of ?f (fst p) \<le> pad_left + pt_w ?f"
    using frac_scaled[OF _ _ size(1)] unfolding x_of_def by (simp_all only: le_add_same_cancel1 add_le_cancel_left)
  moreover have "pad_top \<le> y_of ?f own d (snd p) \<and> y_of ?f own d (snd p) \<le> pad_top + pt_h ?f"
  proof (cases own)
    case True
    then show ?thesis using v size(2)
        between_scaled[of "sd_min d" "sd_max d" "snd p" "pt_h ?f"] between_scaled[of "sd_min d - 1" "sd_max d + 1" "snd p" "pt_h ?f"]
      by (auto simp: y_of_def Let_def)
  next
    case False
    then show ?thesis using between_scaled[OF plot_axis[OF assms(4) v] size(2)] by (simp add: y_of_def)
  qed
  ultimately show ?thesis by (simp add: Let_def)
qed

subsection \<open>The nearest point, and the window dragged over\<close>

lemma fold_nearer:
  "fold (nearer t) ps b \<in> insert b (set ps) \<and> (\<forall>p \<in> insert b (set ps). \<bar>fst (fold (nearer t) ps b) - t\<bar> \<le> \<bar>fst p - t\<bar>)"
proof (induction ps arbitrary: b)
  case (Cons p ps)
  have "nearer t p b \<in> {b, p} \<and> \<bar>fst (nearer t p b) - t\<bar> \<le> \<bar>fst p - t\<bar> \<and> \<bar>fst (nearer t p b) - t\<bar> \<le> \<bar>fst b - t\<bar>"
    by (auto simp: nearer_def)
  then show ?case using Cons.IH[of "nearer t p b"] by (force intro: order_trans)
qed simp

lemma nearest_in_correct:
  "ps \<noteq> [] \<Longrightarrow> nearest_in ps t \<in> set ps \<and> (\<forall>p \<in> set ps. \<bar>fst (nearest_in ps t) - t\<bar> \<le> \<bar>fst p - t\<bar>)"
  using fold_nearer[of t ps "hd ps"] by (auto simp: nearest_in_def insert_absorb)

definition sample_series :: chart_series where
  "sample_series = \<lparr>ch_field = ''temp'', ch_label = None, ch_points = [(0, 3), (10, 1), (20, 2)], ch_color = [], ch_info = None\<rparr>"

lemma sample_scaled:
  "drawable (scale_series 600 [sample_series]) =
     [\<lparr>sd_series = sample_series, sd_points = [(0, 3), (10, 1), (20, 2)], sd_min = 1, sd_max = 3\<rparr>]"
  by (simp add: drawable_def scale_series_def scale_one_def decimate_def sample_series_def Let_def)

theorem points_inside_witness:
  "let f = plot_of 600 160 BarChart (drawable (scale_series 600 [sample_series]));
       d = hd (drawable (scale_series 600 [sample_series])) in
    pad_left \<le> x_of f 10 \<and> x_of f 10 \<le> pad_left + pt_w f \<and>
    pad_top \<le> y_of f True d 1 \<and> y_of f True d 1 \<le> pad_top + pt_h f"
  using points_inside[of 600 160 "[sample_series]" "hd (drawable (scale_series 600 [sample_series]))" "(10, 1)" BarChart True]
  by (simp only: sample_scaled list.sel Let_def) (simp add: sample_series_def)

text \<open>A click asks for the point nearest in time, of all the series that are drawn.\<close>

lemma fold_closer:
  "fold (\<lambda>d best. if f d < f best then d else best) ds b \<in> insert b (set ds) \<and>
   (\<forall>d \<in> insert b (set ds). (f (fold (\<lambda>d best. if f d < f best then d else best) ds b) :: rat) \<le> f d)"
proof (induction ds arbitrary: b)
  case (Cons d ds)
  show ?case using Cons.IH[of "if f d < f b then d else b"] by (force intro: order_trans)
qed simp

theorem click_picks_nearest:
  assumes "\<not> br_swallow b" "ds \<noteq> []" "\<forall>d \<in> set ds. sd_points d \<noteq> []"
  shows "\<exists>p d. chart_step f ds zooms True (ClickAt x) b = (b, Some (Pick p (ch_field (sd_series d)))) \<and>
    d \<in> set ds \<and> p \<in> set (sd_points d) \<and>
    (\<forall>d' \<in> set ds. \<forall>q \<in> set (sd_points d'). \<bar>fst p - time_at f x\<bar> \<le> \<bar>fst q - time_at f x\<bar>)"
proof -
  let ?t = "time_at f x"
  let ?d = "nearest_series ds ?t"
  have closer: "?d \<in> set ds \<and> (\<forall>d' \<in> set ds. \<bar>fst (nearest_in (sd_points ?d) ?t) - ?t\<bar> \<le> \<bar>fst (nearest_in (sd_points d') ?t) - ?t\<bar>)"
    using fold_closer[of "\<lambda>d. \<bar>fst (nearest_in (sd_points d) ?t) - ?t\<bar>" ds "hd ds"] assms(2)
    by (simp add: nearest_series_def insert_absorb)
  have near: "d' \<in> set ds \<Longrightarrow> nearest_in (sd_points d') ?t \<in> set (sd_points d') \<and>
      (\<forall>q \<in> set (sd_points d'). \<bar>fst (nearest_in (sd_points d') ?t) - ?t\<bar> \<le> \<bar>fst q - ?t\<bar>)" for d'
    using assms(3) nearest_in_correct by blast
  have "\<forall>d' \<in> set ds. \<forall>q \<in> set (sd_points d'). \<bar>fst (nearest_in (sd_points ?d) ?t) - ?t\<bar> \<le> \<bar>fst q - ?t\<bar>"
    using closer near by (blast intro: order_trans)
  then show ?thesis using assms(1) closer near
    by (intro exI[of _ "nearest_in (sd_points ?d) ?t"] exI[of _ ?d]) (simp add: Let_def)
qed

theorem click_picks_nearest_witness:
  "\<exists>p d. chart_step (plot_of 600 160 LineChart (drawable (scale_series 600 [sample_series])))
      (drawable (scale_series 600 [sample_series])) True True (ClickAt 300) brush_start = (brush_start, Some (Pick p (ch_field (sd_series d)))) \<and>
    d \<in> set (drawable (scale_series 600 [sample_series])) \<and> p \<in> set (sd_points d) \<and>
    (\<forall>d' \<in> set (drawable (scale_series 600 [sample_series])). \<forall>q \<in> set (sd_points d').
      \<bar>fst p - time_at (plot_of 600 160 LineChart (drawable (scale_series 600 [sample_series]))) 300\<bar> \<le>
      \<bar>fst q - time_at (plot_of 600 160 LineChart (drawable (scale_series 600 [sample_series]))) 300\<bar>)"
  by (rule click_picks_nearest) (simp_all add: sample_scaled brush_start_def)

text \<open>A drag over the data asks for a window in it, never narrower than half a second.\<close>

lemma js_round_mono: "a \<le> b \<Longrightarrow> js_round a \<le> js_round b"
  by (simp add: js_round_def floor_mono)

theorem drag_zooms_inside:
  assumes "min a b \<le> pt_t1 f - min_span_ms" "pt_t0 f \<le> pt_t1 f - min_span_ms"
  shows "\<exists>from till. zoom_window f (a, b) = Zoom from till \<and> js_round (pt_t0 f) \<le> from \<and> till \<le> js_round (pt_t1 f) \<and> from + 500 \<le> till"
proof -
  let ?from = "max (pt_t0 f) (min a b)" and ?till = "min (pt_t1 f) (max a b)"
  have "js_round (?from + 500) = js_round ?from + 500" by (simp add: js_round_def floor_eq_iff) linarith
  moreover have "js_round (?from + 500) \<le> js_round (max ?till (?from + min_span_ms))"
    by (rule js_round_mono) (simp add: min_span_ms_def)
  moreover have "js_round (max ?till (?from + min_span_ms)) \<le> js_round (pt_t1 f)"
    by (rule js_round_mono) (use assms in auto)
  moreover have "js_round (pt_t0 f) \<le> js_round ?from" by (rule js_round_mono) simp
  moreover have "zoom_window f (a, b) = Zoom (js_round ?from) (js_round (max ?till (?from + min_span_ms)))"
    by (simp only: zoom_window_def Let_def fst_conv snd_conv)
  ultimately show ?thesis by (intro exI conjI) (assumption, assumption, assumption, linarith)
qed

text \<open>
  A drag in the margin right of the plot is not held to the data at its start: the window asked for begins
  after the last point, so the chart comes back empty.
\<close>

theorem drag_beyond_data:
  "let f = \<lparr>pt_t0 = 0, pt_t1 = 526000, pt_lo = 0, pt_hi = 1, pt_w = 526, pt_h = 122\<rparr>;
       run = fold (\<lambda>ev (b, calls). let (b', c) = chart_step f [] True False ev b in (b', calls @ [c]))
   in snd (run [PointerDown 0 588, PointerMove 598, PointerUp 598] (brush_start, [])) = [None, None, Some (Zoom 528000 528500)]"
  by (simp add: brush_start_def time_at_def pad_left_def t_range_def drag_px_def zoom_window_def min_span_ms_def js_round_def Let_def)
    (intro conjI floor_unique; simp)

end
