(* ===== verification/RangeView.thy ===== *)
theory RangeView
  imports Replay AsyncLoad Completion
begin

text \<open>
  The view of one subject (\<open>components/subjects/SubjectDetail.tsx\<close>): the messages of a time range, which fill
  themselves in page by page, what of them is on screen, the message the scroll holds, and the fields of
  the chart.

  The first page comes through the hook of \<open>AsyncLoad\<close>, and a step of the view is a step of the hook or of
  the paging followed by the effect that asks for the next page. \<open>text\<close> is the text of a time in the key of
  the cache.
\<close>

subsection \<open>A range that fills itself in\<close>

definition range_autoload_max :: nat where "range_autoload_max = 50000"

record range_page =
  pg_messages :: "nats_message list"
  pg_more :: bool
  pg_total :: "nat option"

record older_request =
  or_subject :: string
  or_from :: int
  or_to :: int
  or_cursors :: "(string, nats_message) jsmap"

record range_view =
  rv_subject :: "string option"
  rv_range :: "(int \<times> int) option"
  rv_first :: "range_page async"
  rv_loading :: bool
  rv_older :: "older_request option"
  rv_failures :: nat

definition range_key :: "string option \<Rightarrow> (int \<times> int) option \<Rightarrow> string option" where
  "range_key subject win = (case (subject, win) of
     (Some s, Some (from, till)) \<Rightarrow> if s = [] then None else Some (''range:'' @ s @ '':'' @ int_str from @ '':'' @ int_str till)
   | _ \<Rightarrow> None)"

definition load_older :: "range_view \<Rightarrow> range_view" where
  "load_older v = (case (rv_subject v, rv_range v, as_data (rv_first v)) of
     (Some s, Some (from, till), Some d) \<Rightarrow>
       if s = [] \<or> \<not> pg_more d \<or> rv_loading v \<or> length (pg_messages d) \<ge> range_autoload_max then v
       else (let cursors = range_cursors (pg_messages d) in
         if cursors = [] then v
         else v\<lparr>rv_loading := True, rv_older := Some \<lparr>or_subject = s, or_from = from, or_to = till, or_cursors = cursors\<rparr>\<rparr>)
   | _ \<Rightarrow> v)"

definition add_older :: "(nats_message list \<times> bool) list \<Rightarrow> range_page option \<Rightarrow> range_page option" where
  "add_older pages prev = (let older = concat (map fst pages) in
     map_option (\<lambda>d. d\<lparr>pg_messages := pg_messages d @ older, pg_more := older \<noteq> [] \<and> list_ex snd pages\<rparr>) prev)"

text \<open>The answer of all connections, \<open>None\<close> when one of the requests failed: that is a toast, counted here.\<close>

definition older_answer :: "(nats_message list \<times> bool) list option \<Rightarrow> range_view \<Rightarrow> range_view" where
  "older_answer res v = (if rv_older v = None then v
     else let v' = v\<lparr>rv_loading := False, rv_older := None\<rparr> in
       case res of None \<Rightarrow> v'\<lparr>rv_failures := Suc (rv_failures v)\<rparr>
       | Some pages \<Rightarrow> v'\<lparr>rv_first := async_set_data (add_older pages) (rv_first v)\<rparr>)"

text \<open>A new choice renders with the data of the choice before, which is what the paging looks at first.\<close>

datatype range_event = Choose "string option" "(int \<times> int) option" | FirstAnswer nat "string + range_page"
  | OlderAnswer "(nats_message list \<times> bool) list option" | EndReached

fun range_change :: "range_event \<Rightarrow> range_view \<Rightarrow> range_view" where
  "range_change (Choose subject win) v = (if subject = rv_subject v \<and> win = rv_range v then v
     else (load_older (v\<lparr>rv_subject := subject, rv_range := win\<rparr>))
       \<lparr>rv_first := async_depend (range_key subject win) (range_key subject win = None) (rv_first v)\<rparr>)"
| "range_change (FirstAnswer n res) v = v\<lparr>rv_first := async_answer n res (rv_first v)\<rparr>"
| "range_change (OlderAnswer res) v = older_answer res v"
| "range_change EndReached v = load_older v"

definition range_step :: "range_event \<Rightarrow> range_view \<Rightarrow> range_view" where
  "range_step ev v = load_older (range_change ev v)"

definition range_start :: range_view where
  "range_start = \<lparr>rv_subject = None, rv_range = None, rv_first = async_mount None [], rv_loading = False, rv_older = None,
     rv_failures = 0\<rparr>"

subsection \<open>What is on screen\<close>

definition own_messages :: "string \<Rightarrow> nats_message list \<Rightarrow> nats_message list" where
  "own_messages subject ms = js_sort by_arrival (filter (\<lambda>m. m_subject m = subject) ms)"

definition below_messages :: "string \<Rightarrow> nats_message list \<Rightarrow> nats_message list" where
  "below_messages subject ms = js_sort newer_first (filter (\<lambda>m. m_subject m \<noteq> subject) ms)"

definition shown_messages :: "string \<Rightarrow> range_view \<Rightarrow> nats_message list \<Rightarrow> nats_message list" where
  "shown_messages subject v live = (if rv_range v = None then live
     else own_messages subject (case as_data (rv_first v) of None \<Rightarrow> [] | Some d \<Rightarrow> pg_messages d))"

definition shown_below :: "string \<Rightarrow> range_view \<Rightarrow> nats_message list \<Rightarrow> nats_message list" where
  "shown_below subject v branch = (if rv_range v = None then branch
     else below_messages subject (case as_data (rv_first v) of None \<Rightarrow> [] | Some d \<Rightarrow> pg_messages d))"

definition is_branch :: "nats_message list \<Rightarrow> nats_message list \<Rightarrow> bool" where
  "is_branch shown below \<longleftrightarrow> shown = [] \<and> below \<noteq> []"

definition range_filling :: "range_view \<Rightarrow> bool" where
  "range_filling v \<longleftrightarrow> rv_range v \<noteq> None \<and>
     (rv_loading v \<or> (case as_data (rv_first v) of None \<Rightarrow> False | Some d \<Rightarrow> pg_more d))"

text \<open>The message the scroll holds while the reader is away from the newest ones.\<close>

record hold =
  ho_selected :: "nats_message option"
  ho_auto :: "nats_message option"

definition pinned_message :: "string \<Rightarrow> nats_message option \<Rightarrow> nats_message option" where
  "pinned_message subject selected = (case selected of None \<Rightarrow> None
     | Some m \<Rightarrow> if m_subject m = subject then Some m else None)"

definition latest_message :: "nats_message list \<Rightarrow> nats_message option" where
  "latest_message shown = (if shown = [] then None else Some (last shown))"

definition display_message :: "string \<Rightarrow> nats_message option \<Rightarrow> nats_message list \<Rightarrow> nats_message option" where
  "display_message subject selected shown = (case pinned_message subject selected of Some m \<Rightarrow> Some m | None \<Rightarrow> latest_message shown)"

text \<open>A message is found again by its key; in the code it is the object.\<close>

definition last_index :: "nats_message \<Rightarrow> nats_message list \<Rightarrow> nat option" where
  "last_index m ms = map_option (\<lambda>i. length ms - Suc i) (index_of m (rev ms))"

definition previous_message :: "nats_message option \<Rightarrow> nats_message list \<Rightarrow> nats_message option" where
  "previous_message display shown = (case display of None \<Rightarrow> None
     | Some m \<Rightarrow> (case last_index m shown of None \<Rightarrow> None | Some i \<Rightarrow> if i > 0 then Some (shown ! (i - 1)) else None))"

definition hold_while_reading :: "string \<Rightarrow> bool \<Rightarrow> nats_message list \<Rightarrow> bool \<Rightarrow> hold \<Rightarrow> hold" where
  "hold_while_reading subject ranged shown away h =
     (if ranged then h
      else if away then
        (case (pinned_message subject (ho_selected h), latest_message shown) of
           (None, Some m) \<Rightarrow> h\<lparr>ho_auto := Some m, ho_selected := Some m\<rparr> | _ \<Rightarrow> h)
      else if ho_auto h \<noteq> None \<and> ho_selected h = ho_auto h then h\<lparr>ho_auto := None, ho_selected := None\<rparr>
      else h)"

subsection \<open>The fields of the chart\<close>

definition max_chart_fields :: nat where "max_chart_fields = 6"

definition toggle_chart_field :: "string \<Rightarrow> string list \<Rightarrow> string list" where
  "toggle_chart_field f fs = (if f \<in> set fs then filter (\<lambda>x. x \<noteq> f) fs else keep_last max_chart_fields (fs @ [f]))"

definition chart_marker :: "(string \<Rightarrow> json option) \<Rightarrow> string list \<Rightarrow> nats_message option \<Rightarrow> (rat \<times> rat) option" where
  "chart_marker parse fs display = (case (fs, display) of
     ([f], Some m) \<Rightarrow> map_option (\<lambda>v. (of_int (m_timestamp m), v)) (extract_number parse (m_payload m) f)
   | _ \<Rightarrow> None)"

subsection \<open>Properties\<close>

text \<open>A chart has at most six fields, each of them once, however they are switched on and off.\<close>

theorem chart_fields_bounded:
  "length (fold toggle_chart_field fs []) \<le> 6 \<and> distinct (fold toggle_chart_field fs [])"
proof -
  have "length cs \<le> 6 \<and> distinct cs \<Longrightarrow> length (fold toggle_chart_field fs cs) \<le> 6 \<and> distinct (fold toggle_chart_field fs cs)" for cs
  proof (induction fs arbitrary: cs)
    case (Cons f fs)
    have "length (toggle_chart_field f cs) \<le> 6 \<and> distinct (toggle_chart_field f cs)"
      using Cons.prems le_trans[OF length_filter_le, of cs 6 "\<lambda>x. x \<noteq> f"]
      by (auto simp: toggle_chart_field_def max_chart_fields_def intro!: distinct_keep_last)
    then show ?case using Cons.IH by simp
  qed simp
  then show ?thesis by simp
qed

definition paging_ok :: "range_view \<Rightarrow> bool" where
  "paging_ok v \<longleftrightarrow> (rv_loading v \<longleftrightarrow> rv_older v \<noteq> None) \<and>
     (case rv_older v of None \<Rightarrow> True | Some r \<Rightarrow> or_cursors r \<noteq> [] \<and> or_subject r \<noteq> [])"

lemma load_older_ok: "paging_ok v \<Longrightarrow> paging_ok (load_older v)"
  by (auto simp: load_older_def paging_ok_def Let_def split: option.split prod.split)

lemma paging_ok_first [simp]: "paging_ok (v\<lparr>rv_first := d\<rparr>) = paging_ok v"
  "paging_ok (v\<lparr>rv_subject := s, rv_range := r\<rparr>) = paging_ok v"
  by (simp_all add: paging_ok_def)

lemma range_step_ok: "paging_ok v \<Longrightarrow> paging_ok (range_step ev v)"
proof -
  assume ok: "paging_ok v"
  have "paging_ok (older_answer res v)" for res
    using ok by (auto simp: older_answer_def paging_ok_def Let_def split: option.split)
  then have "paging_ok (range_change ev v)" using ok by (cases ev) (auto simp: load_older_ok)
  then show ?thesis by (simp add: range_step_def load_older_ok)
qed

text \<open>Whatever is chosen and whatever answers come, at most one page is asked for at a time, and the view waits exactly while one is.\<close>

theorem one_page_at_a_time: "paging_ok (fold range_step evs range_start)"
proof -
  have "paging_ok v \<Longrightarrow> paging_ok (fold range_step evs v)" for v
    by (induction evs arbitrary: v) (simp_all add: range_step_ok)
  then show ?thesis by (simp add: paging_ok_def range_start_def)
qed

text \<open>
  A page that fails is asked for again at once: as long as the backend refuses, every answer is another
  toast and another request, with nobody scrolling.
\<close>

theorem failed_page_asked_again:
  assumes "rv_loading v" "rv_older v = Some r" "rv_subject v = Some s" "s \<noteq> []" "rv_range v = Some (from, till)"
    "as_data (rv_first v) = Some d" "pg_more d" "length (pg_messages d) < range_autoload_max" "range_cursors (pg_messages d) \<noteq> []"
  shows "rv_failures (fold range_step (replicate n (OlderAnswer None)) v) = rv_failures v + n \<and>
    rv_older (fold range_step (replicate n (OlderAnswer None)) v) \<noteq> None"
  using assms
proof (induction n arbitrary: v r)
  case (Suc n)
  let ?v = "range_step (OlderAnswer None) v"
  have v: "?v = v\<lparr>rv_failures := Suc (rv_failures v),
      rv_older := Some \<lparr>or_subject = s, or_from = from, or_to = till, or_cursors = range_cursors (pg_messages d)\<rparr>\<rparr>"
    using Suc.prems by (simp add: range_step_def older_answer_def load_older_def Let_def)
  show ?case using Suc.IH[of ?v] Suc.prems by (simp add: v)
qed simp

text \<open>
  A page still on its way when another range is chosen is added to that range: its messages stand in a
  range they are not of, and its word that nothing is left ends the paging of the new range.
\<close>

lemma load_older_busy: "rv_loading v \<Longrightarrow> load_older v = v"
  by (simp add: load_older_def split: option.split prod.split)

lemma load_older_done: "as_data (rv_first v) = Some d \<Longrightarrow> \<not> pg_more d \<Longrightarrow> load_older v = v"
  by (simp add: load_older_def split: option.split prod.split)

theorem page_lands_in_other_range:
  assumes "rv_loading v" "rv_older v = Some r" "win \<noteq> rv_range v" "range_key subject win \<noteq> None"
    "list_all (\<lambda>p. \<not> snd p) pages"
  shows "let w = fold range_step [Choose subject win, FirstAnswer (Suc (as_seq (rv_first v))) (Inr b), OlderAnswer (Some pages)] v in
    rv_range w = win \<and> rv_older w = None \<and>
    as_data (rv_first w) = Some (b\<lparr>pg_messages := pg_messages b @ concat (map fst pages), pg_more := False\<rparr>)"
proof -
  let ?key = "range_key subject win"
  let ?first = "async_depend ?key False (rv_first v)"
  let ?v1 = "v\<lparr>rv_subject := subject, rv_range := win, rv_first := ?first\<rparr>"
  let ?v2 = "?v1\<lparr>rv_first := async_answer (Suc (as_seq (rv_first v))) (Inr b) ?first\<rparr>"
  have 1: "range_step (Choose subject win) v = ?v1"
    using assms(1,3,4) by (auto simp: range_step_def load_older_busy)
  have 2: "range_step (FirstAnswer (Suc (as_seq (rv_first v))) (Inr b)) ?v1 = ?v2"
    using assms(1) by (simp add: range_step_def load_older_busy)
  have seq: "as_seq ?first = Suc (as_seq (rv_first v))" "Suc (as_seq (rv_first v)) \<in> set (as_flight ?first)"
    by (simp_all add: async_depend_def async_run_def Let_def split: option.split)
  have data: "as_data (rv_first ?v2) = Some b" using seq by (simp add: async_answer_def Let_def)
  have none: "\<not> (concat (map fst pages) \<noteq> [] \<and> list_ex snd pages)"
    using assms(5) by (auto simp: list_all_iff list_ex_iff)
  let ?v3 = "?v2\<lparr>rv_loading := False, rv_older := None, rv_first := async_set_data (add_older pages) (rv_first ?v2)\<rparr>"
  have d3: "as_data (rv_first ?v3) = Some (b\<lparr>pg_messages := pg_messages b @ concat (map fst pages), pg_more := False\<rparr>)"
    using data none by (simp add: async_set_data_def add_older_def Let_def)
  have "range_change (OlderAnswer (Some pages)) ?v2 = ?v3" using assms(2) by (simp add: older_answer_def Let_def)
  then have 3: "range_step (OlderAnswer (Some pages)) ?v2 = ?v3" unfolding range_step_def using load_older_done[OF d3] by simp
  show ?thesis unfolding Let_def by (simp only: fold.simps o_def id_def 1 2 3 d3) simp
qed

text \<open>
  Scrolling away and back leaves the reader where they were: the message the scroll held is let go, one
  the reader had picked of this subject stays.
\<close>

theorem scroll_lets_go:
  "hold_while_reading subject ranged shown' False (hold_while_reading subject ranged shown True \<lparr>ho_selected = sel, ho_auto = None\<rparr>) =
    (if \<not> ranged \<and> pinned_message subject sel = None \<and> shown \<noteq> [] then \<lparr>ho_selected = None, ho_auto = None\<rparr>
     else \<lparr>ho_selected = sel, ho_auto = None\<rparr>)"
  by (simp add: hold_while_reading_def latest_message_def split: option.split)

end
