(* ===== verification/Spec2Isabelle.thy ===== *)
theory Spec2Isabelle
  imports TreeProps TreeView FeedWorker Socket WsClient LiveViews AppProps HistoryFeed Alerts ItemStore
    PayloadFormat SavedRequests SavedConnections Links Api LineDiff StepLatency Export Replay StateTable Traces ConsumerForm
    Samples AsyncLoad Storage Completion Advisories ProtoRaw RelationsLayout TopologyLayout SchemaExport Palette RequestRunner
    ChartData RangeView
begin

text \<open>
  A verification library for NATS Explorer, the browser client of a NATS server
  (\<open>client/src\<close>), and the wire types it shares with its backend (\<open>shared/src\<close>). The backend itself
  is written in Go and is not part of it.

  The program. A worker holds the websocket. It turns the feed of subjects and messages into a
  tree, lays out the visible rows and posts batches; the client relays them to the store, which
  keeps one bounded view of messages per selected subject. A frame queue merges live traffic with
  pages of the recorded history, and deep links keep the address bar in step. Around this core stand
  stores (alerts, saved requests and connections, services, updates, settings), the calls to the
  backend, and the operations of the views: diffing, tracing, exporting, replaying, forecasting,
  the forms of streams and consumers.

  Conventions. A string is a list of characters read as code units below 256; a map or a set of
  JavaScript is an association list in insertion order (\<open>jsmap\<close>, theory \<open>Prelude\<close>), and
  \<open>Array.sort\<close> is a stable insertion sort by a comparator (\<open>JsOrder\<close>). Counts, sequences and times are
  integers, other numbers rationals: the code's doubles are exact for the former up to 2 to the 53,
  and its rounding of quotients is not modelled. Undefined and null are \<open>None\<close>; an optional property
  that may also be null is an option of an option. An exception is a \<open>None\<close> or the left of a sum. An
  asynchronous function is split where it waits: one operation until the request leaves and one for
  its answer, and theorems quantify over every list of such events. What the platform or a library
  does is an argument: \<open>JSON.parse\<close> (\<open>parse\<close>), the text of a number (\<open>num\<close>) and its reading
  (\<open>number\<close>), collation (\<open>lc\<close>), dates, compilers of decoders, answers of the backend.

  Foundations.
  \<^item> \<open>Prelude\<close>, \<open>JsOrder\<close>, \<open>JsText\<close>: arrays, maps, sets, sorting and text. The locale \<open>keyed_map\<close> states
    what a map promises and is interpreted on association lists; the locale \<open>comparator\<close> states what a
    comparator owes a sort, and the orders of the program are comparators.
  \<^item> \<open>Json\<close>: documents; \<open>Bytes\<close>: hexadecimal, base64 and UTF-8; \<open>Url\<close>: percent encoding.

  The core.
  \<^item> \<open>Messages\<close> (\<open>lib/messages.ts\<close>): identity and orders of messages. \<open>Wire\<close> and \<open>JetStream\<close>
    (\<open>shared/src\<close>): the records of the wire.
  \<^item> \<open>Subjects\<close> (\<open>lib/subjectMatch.ts\<close>, the matcher of \<open>lib/decoders.ts\<close>): the loop decides the matching
    relation of NATS, and covering is inclusion of what is matched.
  \<^item> \<open>TreeModel\<close>, \<open>TreeLaws\<close>, \<open>TreeProps\<close>, \<open>TreeView\<close> (\<open>components/subjects/tree.ts\<close>): the tree as a store of
    nodes linked by path, its updates and its layout. The well-formedness of the tree is kept by every
    message; the tree refines a map from connections and subjects to entries; the layout terminates.
    The recursive removal and the walk take fuel: as many rounds as there are entries, which is
    proved to be enough.
  \<^item> \<open>FeedWorker\<close>, \<open>Socket\<close> (\<open>worker/*.ts\<close>): the feed core and the reconnecting socket, with their
    invariants over every interleaving; \<open>WsClient\<close> (\<open>lib/ws.ts\<close>): the relay.
  \<^item> \<open>LiveViews\<close>, \<open>AppStore\<close>, \<open>AppProps\<close> (\<open>store/index.ts\<close> and what it is made of): the actions of the
    store, one bounded view per selected subject, and the merge of live traffic with history.
  \<^item> \<open>HistoryFeed\<close> (\<open>lib/feed.ts\<close>): numbered requests, answers in any order, the frame.
  \<^item> \<open>Links\<close> (\<open>lib/deepLink.ts\<close>, \<open>lib/urlSync.ts\<close>): round trips of links and the address bar.
  \<^item> \<open>Api\<close> (\<open>lib/api*.ts\<close>, \<open>lib/auth.ts\<close>, \<open>lib/basePath.ts\<close>): the request of every call, so that a name never
    changes the route, what becomes of its answer, and the session.

  Stores and forms.
  \<^item> \<open>Alerts\<close>, \<open>ItemStore\<close>, \<open>SavedRequests\<close>, \<open>SavedConnections\<close>, \<open>PayloadFormat\<close>: the locale \<open>item_store\<close> gives
    the laws of a list of items with ids and is interpreted on the stores; documents read back as
    written; secrets that are not chosen are not sent; payloads of bytes read back.
  \<^item> \<open>StreamForm\<close>, \<open>ConsumerForm\<close> (\<open>lib/streamForm.ts\<close>, \<open>lib/consumerForm.ts\<close> and the two dialogs): saving
    what was opened and not changed sends what was there, with the exceptions the statements name.
  \<^item> \<open>AsyncLoad\<close> (\<open>lib/useAsync.ts\<close>, \<open>store/services.ts\<close>, \<open>store/desktopUpdate.ts\<close>,
    \<open>lib/decodedPreview.ts\<close>) and \<open>Storage\<close> (\<open>lib/storage.ts\<close>, \<open>lib/updateCheck.ts\<close>, \<open>lib/live.ts\<close>): what waits
    for an answer, bounded caches, and the last value of a setting reaching the backend.

  Operations of the views.
  \<^item> \<open>LineDiff\<close> (\<open>lib/diff.ts\<close>): a diff replays to both texts and keeps a longest common subsequence; the
    16-bit table never overflows for inputs within the limit of 600 lines.
  \<^item> \<open>StepLatency\<close>, \<open>Traces\<close> (\<open>lib/stepLatency.ts\<close>, \<open>lib/trace.ts\<close>, \<open>lib/repeats.ts\<close>, \<open>lib/natsHeaders.ts\<close>):
    pairing, tracing and repeats against reference definitions.
  \<^item> \<open>Export\<close>, \<open>Replay\<close>, \<open>StateTable\<close> (\<open>lib/exportMessages.ts\<close>, \<open>lib/replay.ts\<close>, \<open>lib/exportRange.ts\<close>,
    \<open>lib/stateTable.ts\<close>): files that read back, a script that publishes what was recorded, paging that
    ends. The bound of a thousand rounds is the code's own.
  \<^item> \<open>Samples\<close> (the histories of servers and consumers): bounded, spaced samples and the least-squares
    forecast. \<open>Completion\<close>: the filter completion and the points of charts. \<open>Advisories\<close>
    (\<open>lib/advisories.ts\<close>): events of the server.

  \<^item> \<open>ProtoRaw\<close> (\<open>lib/protoRaw.ts\<close>): what is written in the wire format is read back, varints of up to ten
    bytes, every occurrence of every field.
  \<^item> \<open>SchemaExport\<close> (\<open>components/subjects/schema*.ts\<close>): the tree rebuilt from the reported paths holds them, and
    the exported JSON Schema names their types.
  \<^item> \<open>RelationsLayout\<close>, \<open>TopologyLayout\<close> (\<open>relationsLayout.ts\<close>, \<open>topologyLayout.ts\<close>): nothing in the two
    pictures overlaps or leaves them, and every relation is drawn. The search for the depth of a
    stream ends on cycles too: its measure is the streams not visited yet.
  \<^item> \<open>ChartData\<close> (\<open>components/subjects/ValueChart.tsx\<close>): thinning a series out keeps its peaks, silences are cut
    out without losing a point, what is drawn stays and lies inside the plot, the axis has a readable
    number of lines.
  \<^item> \<open>RangeView\<close> (\<open>components/subjects/SubjectDetail.tsx\<close>): a time range that fills itself in, on the hook of
    \<open>AsyncLoad\<close> and with the cursors of \<open>Replay\<close>.
  \<^item> \<open>Debounce\<close>: asking after a pause in the typing, shared by \<open>Palette\<close>
    (\<open>components/layout/CommandPalette.tsx\<close>) and the schema check of \<open>RequestRunner\<close>
    (\<open>components/requests/RequestForm.tsx\<close>): what is on screen answers what is typed.

  Not modelled: the markup of the React views, which shows the modelled state and calls the modelled
  operations, and the views that do nothing else; sentences and number formats that are only displayed;
  listeners of the platform; scripts that drive a server.
\<close>

end
